(* ===== verification/Prelude.thy ===== *)
theory Prelude
  imports Main "HOL-Library.Char_ord" "HOL-Library.List_Lexorder" "HOL-Library.Sublist"
    "HOL-Library.Word"
begin

text \<open>
  Shared vocabulary of the development: Rust's \<open>Result\<close> as a sum, computations that read and
  write a state and may return early with an error (the \<open>?\<close> operator), strings and their
  decimal and hexadecimal renderings, \<open>BTreeMap\<close> as an association list sorted by key together
  with the interface a map promises to its clients, and paths as lists of components.
\<close>

named_theorems res_simps \<open>unfolding of the result and state operations\<close>
named_theorems pres_intros \<open>rules that carry a state invariant through a computation\<close>

section \<open>Results and computations\<close>

text \<open>\<open>Inl e\<close> is Rust's \<open>Err(e)\<close>, \<open>Inr x\<close> is \<open>Ok(x)\<close>.\<close>

type_synonym ('e, 'a) result = "'e + 'a"

text \<open>A computation over the state \<open>'w\<close>: it ends in \<open>Ok\<close> or \<open>Err\<close>, with the state it left.\<close>

type_synonym ('w, 'e, 'a) comp = "'w \<Rightarrow> ('e, 'a) result \<times> 'w"

abbreviation is_ok :: "('e, 'a) result \<Rightarrow> bool" where
  "is_ok r \<equiv> \<not> isl r"

definition ok :: "'a \<Rightarrow> ('w, 'e, 'a) comp" where
  "ok x = (\<lambda>w. (Inr x, w))"

definition err :: "'e \<Rightarrow> ('w, 'e, 'a) comp" where
  "err e = (\<lambda>w. (Inl e, w))"

text \<open>\<open>andThen m f\<close> is \<open>let x = m?; f(x)\<close>.\<close>

definition andThen :: "('w, 'e, 'a) comp \<Rightarrow> ('a \<Rightarrow> ('w, 'e, 'b) comp) \<Rightarrow> ('w, 'e, 'b) comp" where
  "andThen m f = (\<lambda>w. case m w of (Inl e, w') \<Rightarrow> (Inl e, w') | (Inr x, w') \<Rightarrow> f x w')"

text \<open>\<open>try_case m h f\<close> is \<open>match m { Err(e) => h(e), Ok(x) => f(x) }\<close>.\<close>

definition try_case ::
  "('w, 'e, 'a) comp \<Rightarrow> ('e \<Rightarrow> ('w, 'f, 'b) comp) \<Rightarrow> ('a \<Rightarrow> ('w, 'f, 'b) comp) \<Rightarrow> ('w, 'f, 'b) comp"
where
  "try_case m h f = (\<lambda>w. case m w of (Inl e, w') \<Rightarrow> h e w' | (Inr x, w') \<Rightarrow> f x w')"

text \<open>\<open>ignore m\<close> is \<open>let _ = m;\<close>: the effect stays, the outcome is dropped.\<close>

definition ignore :: "('w, 'e, 'a) comp \<Rightarrow> ('w, 'f, unit) comp" where
  "ignore m = (\<lambda>w. (Inr (), snd (m w)))"

definition map_err :: "('e \<Rightarrow> 'f) \<Rightarrow> ('w, 'e, 'a) comp \<Rightarrow> ('w, 'f, 'a) comp" where
  "map_err g m = (\<lambda>w. case m w of (Inl e, w') \<Rightarrow> (Inl (g e), w') | (Inr x, w') \<Rightarrow> (Inr x, w'))"

definition lift_result :: "('e, 'a) result \<Rightarrow> ('w, 'e, 'a) comp" where
  "lift_result r = (\<lambda>w. (r, w))"

definition gets :: "('w \<Rightarrow> 'a) \<Rightarrow> ('w, 'e, 'a) comp" where
  "gets f = (\<lambda>w. (Inr (f w), w))"

definition modify :: "('w \<Rightarrow> 'w) \<Rightarrow> ('w, 'e, unit) comp" where
  "modify f = (\<lambda>w. (Inr (), f w))"

text \<open>A \<open>for\<close> loop whose body may return early with an error.\<close>

fun for_each :: "'a list \<Rightarrow> ('a \<Rightarrow> ('w, 'e, unit) comp) \<Rightarrow> ('w, 'e, unit) comp" where
  "for_each [] f = ok ()"
| "for_each (x # xs) f = andThen (f x) (\<lambda>_. for_each xs f)"

lemmas comp_defs [res_simps] =
  ok_def err_def andThen_def try_case_def ignore_def map_err_def lift_result_def gets_def modify_def

text \<open>For evaluation a computation runs only once it is applied to a state.\<close>

lemma comp_run [code]:
  "ok x w = (Inr x, w)" "err e w = (Inl e, w)"
  "andThen m f w = (case m w of (Inl e, w') \<Rightarrow> (Inl e, w') | (Inr y, w') \<Rightarrow> f y w')"
  "try_case m' h f' w = (case m' w of (Inl e, w') \<Rightarrow> h e w' | (Inr y, w') \<Rightarrow> f' y w')"
  "ignore m'' w = (Inr (), snd (m'' w))"
  "map_err g m3 w = (case m3 w of (Inl e, w') \<Rightarrow> (Inl (g e), w') | (Inr y, w') \<Rightarrow> (Inr y, w'))"
  "lift_result r w = (r, w)" "gets p w = (Inr (p w), w)" "modify q w = (Inr (), q w)"
  by (simp_all add: comp_defs)

text \<open>
  \<open>keeps R m\<close>: whatever the outcome, the state \<open>m\<close> leaves is related by \<open>R\<close> to the one it started
  from. For a reflexive and transitive \<open>R\<close> (an invariant is carried over, a part of the state is
  untouched) the property passes through every construct of a computation.
\<close>

definition keeps :: "('w \<Rightarrow> 'w \<Rightarrow> bool) \<Rightarrow> ('w, 'e, 'a) comp \<Rightarrow> bool" where
  "keeps R m \<longleftrightarrow> (\<forall>w. R w (snd (m w)))"

lemma keepsD: "keeps R m \<Longrightarrow> R w (snd (m w))"
  by (simp add: keeps_def)

lemma keepsD': "keeps R m \<Longrightarrow> m w = (r, w') \<Longrightarrow> R w w'"
  unfolding keeps_def by (metis snd_conv)

locale transition_rel =
  fixes R :: "'w \<Rightarrow> 'w \<Rightarrow> bool"
  assumes refl: "R w w"
    and trans: "R u v \<Longrightarrow> R v w \<Longrightarrow> R u w"
begin

lemma keeps_ok [pres_intros]: "keeps R (ok x)"
  and keeps_err [pres_intros]: "keeps R (err e)"
  and keeps_lift_result [pres_intros]: "keeps R (lift_result r)"
  and keeps_gets [pres_intros]: "keeps R (gets f)"
  by (simp_all add: keeps_def res_simps refl)

lemma keeps_andThen [pres_intros]:
  "keeps R m \<Longrightarrow> (\<And>x. keeps R (f x)) \<Longrightarrow> keeps R (andThen m f)"
  unfolding keeps_def andThen_def by (auto split: prod.splits sum.splits) (metis snd_conv trans)+

lemma keeps_try_case [pres_intros]:
  "keeps R m \<Longrightarrow> (\<And>e. keeps R (h e)) \<Longrightarrow> (\<And>x. keeps R (f x)) \<Longrightarrow> keeps R (try_case m h f)"
  unfolding keeps_def try_case_def by (auto split: prod.splits sum.splits) (metis snd_conv trans)+

lemma keeps_ignore [pres_intros]: "keeps R m \<Longrightarrow> keeps R (ignore m)"
  by (simp add: keeps_def ignore_def)

lemma keeps_map_err [pres_intros]: "keeps R m \<Longrightarrow> keeps R (map_err g m)"
  unfolding keeps_def map_err_def by (auto split: prod.splits sum.splits) (metis snd_conv)+

lemma keeps_for_each [pres_intros]:
  "(\<And>x. x \<in> set xs \<Longrightarrow> keeps R (f x)) \<Longrightarrow> keeps R (for_each xs f)"
  by (induction xs) (simp_all add: keeps_ok keeps_andThen)

end

lemma keeps_if [pres_intros]: "(b \<Longrightarrow> keeps R m) \<Longrightarrow> (\<not> b \<Longrightarrow> keeps R n) \<Longrightarrow> keeps R (if b then m else n)"
  by simp

lemma keeps_option [pres_intros]:
  "keeps R m \<Longrightarrow> (\<And>x. keeps R (f x)) \<Longrightarrow> keeps R (case opt of None \<Rightarrow> m | Some x \<Rightarrow> f x)"
  by (cases opt) simp_all

lemma keeps_sum [pres_intros]:
  "(\<And>e. keeps R (f e)) \<Longrightarrow> (\<And>x. keeps R (g x)) \<Longrightarrow> keeps R (case r of Inl e \<Rightarrow> f e | Inr x \<Rightarrow> g x)"
  by (cases r) simp_all

lemma keeps_prod [pres_intros]:
  "(\<And>x y. keeps R (f x y)) \<Longrightarrow> keeps R (case p of (x, y) \<Rightarrow> f x y)"
  by (cases p) simp

lemma keeps_let [pres_intros]: "keeps R (f x) \<Longrightarrow> keeps R (let y = x in f y)"
  by simp

lemma keeps_modify: "(\<And>w. R w (f w)) \<Longrightarrow> keeps R (modify f)"
  by (simp add: keeps_def res_simps)

text \<open>An invariant of the state, kept on every outcome.\<close>

abbreviation pres :: "('w \<Rightarrow> bool) \<Rightarrow> ('w, 'e, 'a) comp \<Rightarrow> bool" where
  "pres I \<equiv> keeps (\<lambda>w w'. I w \<longrightarrow> I w')"

interpretation inv: transition_rel "\<lambda>w w'. I w \<longrightarrow> I w'" for I
  by unfold_locales auto

text \<open>\<open>m\<close>, and when it fails \<open>cleanup\<close> as well; the error is the one of \<open>m\<close>.\<close>

definition on_err :: "('w, 'e, 'a) comp \<Rightarrow> ('w, 'f, 'c) comp \<Rightarrow> ('w, 'e, 'a) comp" where
  "on_err m cleanup = try_case m (\<lambda>e. andThen (ignore cleanup) (\<lambda>_. err e)) ok"

lemma andThen_run: "m w = (Inr x, w') \<Longrightarrow> andThen m f w = f x w'"
  and andThen_stop: "m w = (Inl e, w') \<Longrightarrow> andThen m f w = (Inl e, w')"
  by (simp_all add: andThen_def)

lemma andThen_ok_iff:
  "andThen m f w = (Inr y, w'') \<longleftrightarrow> (\<exists>x w'. m w = (Inr x, w') \<and> f x w' = (Inr y, w''))"
  by (auto simp: andThen_def split: prod.splits sum.splits)

lemma map_err_ok_iff: "map_err g m w = (Inr x, w') \<longleftrightarrow> m w = (Inr x, w')"
  by (auto simp: map_err_def split: prod.splits sum.splits)

lemma try_case_ok_iff:
  "try_case m h f w = (Inr y, w'') \<longleftrightarrow>
     (\<exists>e w'. m w = (Inl e, w') \<and> h e w' = (Inr y, w'')) \<or> (\<exists>x w'. m w = (Inr x, w') \<and> f x w' = (Inr y, w''))"
  by (auto simp: try_case_def split: prod.splits sum.splits)

lemma ignore_ok_iff: "ignore m w = (Inr (), w') \<longleftrightarrow> w' = snd (m w)"
  by (auto simp: ignore_def)

lemma simple_ok_iff:
  "ok x w = (Inr y, w') \<longleftrightarrow> y = x \<and> w' = w" "err e w \<noteq> (Inr y, w')"
  "lift_result r w = (Inr y, w') \<longleftrightarrow> r = Inr y \<and> w' = w"
  "modify f w = (Inr u, w') \<longleftrightarrow> w' = f w" "gets g w = (Inr y, w') \<longleftrightarrow> y = g w \<and> w' = w"
  by (auto simp: ok_def err_def lift_result_def modify_def gets_def)

lemmas ok_iffs = andThen_ok_iff map_err_ok_iff try_case_ok_iff ignore_ok_iff simple_ok_iff

subsection \<open>Outcomes\<close>

text \<open>
  \<open>triple P m Q E\<close>: from a state with \<open>P\<close> the computation ends in \<open>Ok(x)\<close> with \<open>Q x\<close> or in \<open>Err(e)\<close>
  with \<open>E e\<close> of the final state. A computation always ends.
\<close>

definition triple ::
  "('w \<Rightarrow> bool) \<Rightarrow> ('w, 'e, 'a) comp \<Rightarrow> ('a \<Rightarrow> 'w \<Rightarrow> bool) \<Rightarrow> ('e \<Rightarrow> 'w \<Rightarrow> bool) \<Rightarrow> bool" where
  "triple P m Q E \<longleftrightarrow> (\<forall>w. P w \<longrightarrow> (case m w of (Inr x, w') \<Rightarrow> Q x w' | (Inl e, w') \<Rightarrow> E e w'))"

lemma tripleD_ok: "triple P m Q E \<Longrightarrow> P w \<Longrightarrow> m w = (Inr x, w') \<Longrightarrow> Q x w'"
  and tripleD_err: "triple P m Q E \<Longrightarrow> P w \<Longrightarrow> m w = (Inl e, w') \<Longrightarrow> E e w'"
  unfolding triple_def by fastforce+

lemma tripleI:
  "(\<And>w x w'. P w \<Longrightarrow> m w = (Inr x, w') \<Longrightarrow> Q x w')
   \<Longrightarrow> (\<And>w e w'. P w \<Longrightarrow> m w = (Inl e, w') \<Longrightarrow> E e w') \<Longrightarrow> triple P m Q E"
  unfolding triple_def by (simp split: prod.splits sum.splits)

lemma triple_ok: "(\<And>w. P w \<Longrightarrow> Q x w) \<Longrightarrow> triple P (ok x) Q E"
  and triple_err: "(\<And>w. P w \<Longrightarrow> E e w) \<Longrightarrow> triple P (err e) Q E"
  by (simp_all add: triple_def res_simps)

lemma triple_gets: "(\<And>w. P w \<Longrightarrow> Q (f w) w) \<Longrightarrow> triple P (gets f) Q E"
  and triple_modify: "(\<And>w. P w \<Longrightarrow> Q () (g w)) \<Longrightarrow> triple P (modify g) Q E"
  by (simp_all add: triple_def res_simps)

lemma triple_andThen:
  "triple P m Q' E \<Longrightarrow> (\<And>x. triple (Q' x) (f x) Q E) \<Longrightarrow> triple P (andThen m f) Q E"
  by (rule tripleI)
    (auto simp: andThen_def split: prod.splits sum.splits dest: tripleD_ok tripleD_err)

lemma triple_try_case:
  "triple P m Q' E' \<Longrightarrow> (\<And>e. triple (E' e) (h e) Q E) \<Longrightarrow> (\<And>x. triple (Q' x) (f x) Q E)
   \<Longrightarrow> triple P (try_case m h f) Q E"
  by (rule tripleI)
    (simp_all add: try_case_def split: prod.splits sum.splits, (metis tripleD_ok tripleD_err)+)

lemma triple_map_err: "triple P m Q (\<lambda>e. E (g e)) \<Longrightarrow> triple P (map_err g m) Q E"
  by (rule tripleI)
    (auto simp: map_err_def split: prod.splits sum.splits dest: tripleD_ok tripleD_err)

lemma triple_ignore: "triple P m (\<lambda>_. Q ()) (\<lambda>_. Q ()) \<Longrightarrow> triple P (ignore m) Q E"
proof (rule tripleI)
  fix w x w' assume t: "triple P m (\<lambda>_. Q ()) (\<lambda>_. Q ())" and P: "P w" and "ignore m w = (Inr x, w')"
  then have "snd (m w) = w'" by (simp add: ignore_def)
  then show "Q x w'" using tripleD_ok [OF t P] tripleD_err [OF t P]
    by (cases "m w"; cases "fst (m w)") auto
qed (simp add: ignore_def)

lemma triple_on_err:
  "triple P m Q E' \<Longrightarrow> (\<And>e. triple (E' e) c (\<lambda>_. E e) (\<lambda>_. E e)) \<Longrightarrow> triple P (on_err m c) Q E"
  unfolding on_err_def
  by (rule triple_try_case, assumption, rule triple_andThen, rule triple_ignore, assumption)
    (auto intro: triple_err triple_ok)

lemma triple_conseq:
  "triple P m Q E \<Longrightarrow> (\<And>w. P' w \<Longrightarrow> P w) \<Longrightarrow> (\<And>x w. Q x w \<Longrightarrow> Q' x w)
   \<Longrightarrow> (\<And>e w. E e w \<Longrightarrow> E' e w) \<Longrightarrow> triple P' m Q' E'"
  by (rule tripleI) (metis tripleD_ok tripleD_err)+

lemma triple_if:
  "(b \<Longrightarrow> triple P m Q E) \<Longrightarrow> (\<not> b \<Longrightarrow> triple P n Q E) \<Longrightarrow> triple P (if b then m else n) Q E"
  by simp

lemma triple_keeps:
  "keeps R m \<Longrightarrow> (\<And>w w'. R w w' \<Longrightarrow> P w \<Longrightarrow> P w') \<Longrightarrow> triple P m (\<lambda>_. P) (\<lambda>_. P)"
  by (rule tripleI) (auto dest: keepsD')

lemma triple_case_option:
  "(opt = None \<Longrightarrow> triple P m Q E) \<Longrightarrow> (\<And>x. opt = Some x \<Longrightarrow> triple P (f x) Q E)
   \<Longrightarrow> triple P (case opt of None \<Rightarrow> m | Some x \<Rightarrow> f x) Q E"
  by (cases opt) simp_all

section \<open>Text\<close>

text \<open>
  A Rust \<open>str\<close> is its UTF-8 bytes: a \<open>char\<close> of HOL is one byte, so \<open>length\<close> is Rust's \<open>len()\<close>.
\<close>

definition char_between :: "char \<Rightarrow> char \<Rightarrow> char \<Rightarrow> bool" where
  "char_between lo hi c \<longleftrightarrow> (of_char lo :: nat) \<le> of_char c \<and> (of_char c :: nat) \<le> of_char hi"

definition is_ascii_digit :: "char \<Rightarrow> bool" where
  "is_ascii_digit c = char_between (CHR ''0'') (CHR ''9'') c"

definition is_ascii_alphanumeric :: "char \<Rightarrow> bool" where
  "is_ascii_alphanumeric c \<longleftrightarrow>
     char_between (CHR ''a'') (CHR ''z'') c \<or> char_between (CHR ''A'') (CHR ''Z'') c
     \<or> is_ascii_digit c"

definition to_ascii_lowercase :: "string \<Rightarrow> string" where
  "to_ascii_lowercase = map (\<lambda>c.
     if char_between (CHR ''A'') (CHR ''Z'') c then char_of ((of_char c :: nat) + 32) else c)"

text \<open>The characters of valid UTF-8 text, each as its own bytes; the lead byte tells the length.\<close>

definition utf8_width :: "char \<Rightarrow> nat" where
  "utf8_width c = (let n = (of_char c :: nat) in
     if n < 128 then 1 else if n < 224 then 2 else if n < 240 then 3 else 4)"

lemma utf8_width_pos [simp]: "0 < utf8_width c"
  by (simp add: utf8_width_def Let_def)

function chars :: "string \<Rightarrow> string list" where
  "chars [] = []"
| "chars (c # cs) =
     (c # take (utf8_width c - 1) cs) # chars (drop (utf8_width c - 1) cs)"
  by pat_completeness auto
termination
  by (relation "measure length") auto

lemma concat_chars: "concat (chars s) = s"
  by (induction s rule: chars.induct) simp_all

definition digit_char :: "nat \<Rightarrow> char" where
  "digit_char d = char_of ((if d < 10 then 48 else 87) + d)"

text \<open>\<open>to_string()\<close> of an unsigned integer.\<close>

fun show_nat :: "nat \<Rightarrow> string" where
  "show_nat n = (if n < 10 then [digit_char n] else show_nat (n div 10) @ [digit_char (n mod 10)])"

declare show_nat.simps [simp del]

lemma show_nat_nonempty [simp]: "show_nat n \<noteq> []"
  by (subst show_nat.simps) simp

definition show_int :: "int \<Rightarrow> string" where
  "show_int i = (if i < 0 then ''-'' @ show_nat (nat (- i)) else show_nat (nat i))"

text \<open>\<open>{:0wx}\<close> for a value that fits in \<open>w\<close> digits: exactly \<open>w\<close> lower-case hexadecimal digits.\<close>

fun hex_pad :: "nat \<Rightarrow> nat \<Rightarrow> string" where
  "hex_pad 0 n = []"
| "hex_pad (Suc w) n = hex_pad w (n div 16) @ [digit_char (n mod 16)]"

lemma length_hex_pad [simp]: "length (hex_pad w n) = w"
  by (induction w arbitrary: n) simp_all

text \<open>\<open>{:?}\<close> on a string: quotes, with the escapes of printable text and ASCII control characters.\<close>

definition escape_debug :: "char \<Rightarrow> string" where
  "escape_debug c = (let n = (of_char c :: nat) in
     if n = 34 then [CHR 0x5C, CHR 0x22]
     else if n = 92 then [CHR 0x5C, CHR 0x5C]
     else if n = 10 then [CHR 0x5C] @ ''n''
     else if n = 13 then [CHR 0x5C] @ ''r''
     else if n = 9 then [CHR 0x5C] @ ''t''
     else if n = 0 then [CHR 0x5C] @ ''0''
     else if n < 16 then [CHR 0x5C] @ ''u{'' @ hex_pad 1 n @ ''}''
     else if n < 32 \<or> n = 127 then [CHR 0x5C] @ ''u{'' @ hex_pad 2 n @ ''}''
     else [c])"

definition show_debug :: "string \<Rightarrow> string" where
  "show_debug s = [CHR 0x22] @ concat (map escape_debug s) @ [CHR 0x22]"

fun intersperse_str :: "string \<Rightarrow> string list \<Rightarrow> string" where
  "intersperse_str sep [] = []"
| "intersperse_str sep [x] = x"
| "intersperse_str sep (x # y # ys) = x @ sep @ intersperse_str sep (y # ys)"

text \<open>\<open>{:?}\<close> on a list of strings and on a list of pairs of strings.\<close>

definition show_debug_list :: "string list \<Rightarrow> string" where
  "show_debug_list xs = ''['' @ intersperse_str '', '' (map show_debug xs) @ '']''"

definition show_debug_pairs :: "(string \<times> string) list \<Rightarrow> string" where
  "show_debug_pairs xs =
     ''['' @ intersperse_str '', '' (map (\<lambda>(a, b). ''('' @ show_debug a @ '', '' @ show_debug b @ '')'') xs) @ '']''"

definition nl :: string where
  "nl = [CHR 0x0A]"

fun split_on :: "'a \<Rightarrow> 'a list \<Rightarrow> 'a list list" where
  "split_on c [] = [[]]"
| "split_on c (x # xs) = (if x = c then [] # split_on c xs
     else (case split_on c xs of [] \<Rightarrow> [[x]] | w # ws \<Rightarrow> (x # w) # ws))"

lemma split_on_nonempty [simp]: "split_on c xs \<noteq> []"
  by (induction xs) (auto split: list.splits)

lemma split_on_none: "c \<notin> set xs \<Longrightarrow> split_on c xs = [xs]"
  by (induction xs) auto

lemma split_on_no_sep: "w \<in> set (split_on c xs) \<Longrightarrow> c \<notin> set w"
  by (induction xs arbitrary: w) (auto split: if_splits list.splits)

fun split_once :: "'a \<Rightarrow> 'a list \<Rightarrow> ('a list \<times> 'a list) option" where
  "split_once c [] = None"
| "split_once c (x # xs) = (if x = c then Some ([], xs)
     else (case split_once c xs of None \<Rightarrow> None | Some (a, b) \<Rightarrow> Some (x # a, b)))"

lemma split_once_SomeD: "split_once c xs = Some (a, b) \<Longrightarrow> xs = a @ c # b \<and> c \<notin> set a"
proof (induction xs arbitrary: a)
  case (Cons x xs)
  then show ?case
    by (cases "x = c") (auto split: option.splits)
qed simp

lemma split_once_append: "c \<notin> set a \<Longrightarrow> split_once c (a @ c # b) = Some (a, b)"
  by (induction a) auto

lemma split_once_None: "split_once c xs = None \<longleftrightarrow> c \<notin> set xs"
  by (induction xs) (auto split: option.splits)

section \<open>Sorted association lists: \<open>BTreeMap\<close>\<close>

type_synonym ('k, 'v) btree_map = "('k \<times> 'v) list"

abbreviation bt_get :: "('k, 'v) btree_map \<Rightarrow> 'k \<Rightarrow> 'v option" where
  "bt_get \<equiv> map_of"

fun bt_insert :: "'k::linorder \<Rightarrow> 'v \<Rightarrow> ('k, 'v) btree_map \<Rightarrow> ('k, 'v) btree_map" where
  "bt_insert k v [] = [(k, v)]"
| "bt_insert k v (e # es) =
     (if k < fst e then (k, v) # e # es
      else if fst e < k then e # bt_insert k v es
      else (k, v) # es)"

definition bt_remove :: "'k::linorder \<Rightarrow> ('k, 'v) btree_map \<Rightarrow> ('k, 'v) btree_map" where
  "bt_remove k es = filter (\<lambda>e. fst e \<noteq> k) es"

definition bt_values :: "('k, 'v) btree_map \<Rightarrow> 'v list" where
  "bt_values es = map snd es"

definition bt_ok :: "('k::linorder, 'v) btree_map \<Rightarrow> bool" where
  "bt_ok es \<longleftrightarrow> sorted_wrt (<) (map fst es)"

lemma bt_ok_Nil [simp]: "bt_ok []"
  by (simp add: bt_ok_def)

lemma set_keys_bt_insert: "fst ` set (bt_insert k v es) = insert k (fst ` set es)"
  by (induction es) auto

lemma bt_ok_insert: "bt_ok es \<Longrightarrow> bt_ok (bt_insert k v es)"
proof (induction es)
  case (Cons e es)
  have keys: "fst ` set (bt_insert k v es) = insert k (fst ` set es)"
    by (rule set_keys_bt_insert)
  with Cons show ?case
    by (auto simp: bt_ok_def)
qed (simp add: bt_ok_def)

lemma bt_ok_remove: "bt_ok es \<Longrightarrow> bt_ok (bt_remove k es)"
  unfolding bt_ok_def bt_remove_def by (induction es) auto

lemma bt_get_insert: "bt_get (bt_insert k v es) = (bt_get es)(k \<mapsto> v)"
  by (induction es) (auto simp: fun_eq_iff)

lemma map_of_filter_key:
  "map_of (filter (\<lambda>e. P (fst e)) es) k = (if P k then map_of es k else None)"
  by (induction es) auto

lemma bt_get_remove: "bt_get (bt_remove k es) = (bt_get es)(k := None)"
  by (auto simp: bt_remove_def map_of_filter_key [where P = "\<lambda>x. x \<noteq> k"])

subsection \<open>What a map promises\<close>

text \<open>
  The clients of a map (the registry, the lock tables, the session store) rely on these laws and
  not on the representation.
\<close>

locale key_map =
  fixes get :: "'m \<Rightarrow> 'k \<Rightarrow> 'v option"
    and put :: "'k \<Rightarrow> 'v \<Rightarrow> 'm \<Rightarrow> 'm"
    and del :: "'k \<Rightarrow> 'm \<Rightarrow> 'm"
    and wf :: "'m \<Rightarrow> bool"
    and entries :: "'m \<Rightarrow> ('k \<times> 'v) list"
  assumes get_put: "get (put k v m) = (get m)(k \<mapsto> v)"
    and get_del: "get (del k m) = (get m)(k := None)"
    and wf_put: "wf m \<Longrightarrow> wf (put k v m)"
    and wf_del: "wf m \<Longrightarrow> wf (del k m)"
    and entries_get: "wf m \<Longrightarrow> (k, v) \<in> set (entries m) \<longleftrightarrow> get m k = Some v"
begin

lemma get_put_same [simp]: "get (put k v m) k = Some v"
  by (simp add: get_put)

lemma get_put_other [simp]: "j \<noteq> k \<Longrightarrow> get (put k v m) j = get m j"
  by (simp add: get_put)

lemma get_del_same [simp]: "get (del k m) k = None"
  by (simp add: get_del)

lemma get_del_other [simp]: "j \<noteq> k \<Longrightarrow> get (del k m) j = get m j"
  by (simp add: get_del)

lemma del_put_restores: "get m k = None \<Longrightarrow> get (del k (put k v m)) = get m"
  by (auto simp: get_put get_del)

lemma entries_put:
  "wf m \<Longrightarrow> set (entries (put k v m)) = insert (k, v) {e \<in> set (entries m). fst e \<noteq> k}"
  by (auto simp: entries_get wf_put get_put split: if_splits)

lemma entries_del:
  "wf m \<Longrightarrow> set (entries (del k m)) = {e \<in> set (entries m). fst e \<noteq> k}"
  by (auto simp: entries_get wf_del get_del split: if_splits)

end

interpretation bt: key_map bt_get bt_insert bt_remove bt_ok "\<lambda>es. es"
proof
  show "bt_get (bt_insert k v m) = (bt_get m)(k \<mapsto> v)" for k v and m :: "('a \<times> 'b) list"
    by (rule bt_get_insert)
  show "bt_get (bt_remove k m) = (bt_get m)(k := None)" for k and m :: "('a \<times> 'b) list"
    by (rule bt_get_remove)
  show "bt_ok m \<Longrightarrow> bt_ok (bt_insert k v m)" for k v and m :: "('a \<times> 'b) list"
    by (rule bt_ok_insert)
  show "bt_ok m \<Longrightarrow> bt_ok (bt_remove k m)" for k and m :: "('a \<times> 'b) list"
    by (rule bt_ok_remove)
  show "bt_ok m \<Longrightarrow> (k, v) \<in> set m \<longleftrightarrow> bt_get m k = Some v" for k v and m :: "('a \<times> 'b) list"
    by (auto simp: bt_ok_def strict_sorted_iff distinct_map inj_on_def)
qed

section \<open>Paths\<close>

text \<open>
  A \<open>PathBuf\<close> is its list of components, as Rust compares paths by components; the root
  directory is the component \<open>/\<close>. Repeated separators and \<open>.\<close> components vanish.
\<close>

type_synonym path = "string list"

definition root_component :: string where
  "root_component = ''/''"

definition components :: "string \<Rightarrow> path" where
  "components s = filter (\<lambda>c. c \<noteq> [] \<and> c \<noteq> ''.'') (split_on (CHR ''/'') s)"

definition is_absolute :: "string \<Rightarrow> bool" where
  "is_absolute s \<longleftrightarrow> (case s of [] \<Rightarrow> False | c # _ \<Rightarrow> c = CHR ''/'')"

definition path_of :: "string \<Rightarrow> path" where
  "path_of s = (if is_absolute s then root_component # components s else components s)"

text \<open>\<open>Path::join\<close>: an absolute argument replaces the path.\<close>

definition join :: "path \<Rightarrow> string \<Rightarrow> path" where
  "join p s = (if is_absolute s then path_of s else p @ components s)"

definition parent :: "path \<Rightarrow> path option" where
  "parent p = (case rev p of [] \<Rightarrow> None
     | c # cs \<Rightarrow> (if c = root_component then None else Some (rev cs)))"

text \<open>\<open>Path::file_name\<close>: the last component unless it is \<open>..\<close> or the root.\<close>

definition file_name :: "path \<Rightarrow> string option" where
  "file_name p = (case rev p of [] \<Rightarrow> None
     | c # cs \<Rightarrow> (if c = root_component \<or> c = ''..'' then None else Some c))"

definition with_file_name :: "path \<Rightarrow> string \<Rightarrow> path" where
  "with_file_name p s = (case file_name p of None \<Rightarrow> join p s | Some _ \<Rightarrow> join (butlast p) s)"

fun intersperse :: "'a \<Rightarrow> 'a list list \<Rightarrow> 'a list" where
  "intersperse c [] = []"
| "intersperse c [x] = x"
| "intersperse c (x # y # ys) = x @ c # intersperse c (y # ys)"

text \<open>\<open>Path::display\<close>.\<close>

definition display :: "path \<Rightarrow> string" where
  "display p = (case p of [] \<Rightarrow> []
     | c # cs \<Rightarrow> (if c = root_component then ''/'' @ intersperse (CHR ''/'') cs
                else intersperse (CHR ''/'') (c # cs)))"

text \<open>A name that \<open>join\<close> appends as exactly one component.\<close>

definition plain_segment :: "string \<Rightarrow> bool" where
  "plain_segment s \<longleftrightarrow> s \<noteq> [] \<and> s \<noteq> ''.'' \<and> s \<noteq> ''..'' \<and> CHR ''/'' \<notin> set s"

lemma components_plain: "plain_segment s \<Longrightarrow> components s = [s]"
  by (simp add: components_def plain_segment_def split_on_none)

lemma join_plain [simp]: "plain_segment s \<Longrightarrow> join p s = p @ [s]"
  by (cases s) (auto simp: join_def components_plain is_absolute_def plain_segment_def)

lemma file_name_snoc_plain [simp]: "plain_segment s \<Longrightarrow> file_name (p @ [s]) = Some s"
  by (auto simp: file_name_def plain_segment_def root_component_def)

lemma parent_snoc_plain [simp]: "plain_segment s \<Longrightarrow> parent (p @ [s]) = Some p"
  by (auto simp: parent_def plain_segment_def root_component_def)

lemma with_file_name_plain:
  "plain_segment s \<Longrightarrow> plain_segment t \<Longrightarrow> with_file_name (p @ [s]) t = p @ [t]"
  by (simp add: with_file_name_def)

lemma prefix_snoc_same_parent:
  "prefix (p @ [a]) q \<Longrightarrow> prefix (p @ [b]) q \<Longrightarrow> a = b"
  by (auto simp: prefix_def)

end
