(* ===== verification/Core.thy ===== *)
theory Core
  imports Prelude
begin

text \<open>
  The crate \<open>oad-core\<close>: the daemon's data model (sandbox records, container and network
  specifications, configuration), the validation of identifiers that become path segments, and the
  layout of the state directory (\<open>OadPaths\<close>). The lemmas show that a validated identifier is one
  plain path component, so that every path built from it stays inside its own sandbox directory.
\<close>

section \<open>Identifiers\<close>

definition PAUSE_CONTAINER :: string where
  "PAUSE_CONTAINER = ''pause''"

definition MAX_ID_SEGMENT_LEN :: nat where
  "MAX_ID_SEGMENT_LEN = 128"

text \<open>The payload of \<open>UnsupportedCharacter\<close> is the character's UTF-8 bytes.\<close>

datatype ValidationError =
    Empty
  | TooLong nat
  | ReservedPathSegment string
  | UnsupportedCharacter string
  | ReservedContainerName string

definition allowed_char :: "string \<Rightarrow> bool" where
  "allowed_char ch \<longleftrightarrow> (case ch of
       [c] \<Rightarrow> is_ascii_alphanumeric c \<or> c = CHR ''-'' \<or> c = CHR ''_'' \<or> c = CHR ''.''
     | _ \<Rightarrow> False)"

fun check_chars :: "string list \<Rightarrow> (ValidationError, unit) result" where
  "check_chars [] = Inr ()"
| "check_chars (ch # rest) =
     (if \<not> allowed_char ch then Inl (UnsupportedCharacter ch) else check_chars rest)"

definition validate_id_segment :: "string \<Rightarrow> (ValidationError, unit) result" where
  "validate_id_segment value =
     (if value = [] then Inl Empty
      else if value = ''.'' \<or> value = ''..'' then Inl (ReservedPathSegment value)
      else if MAX_ID_SEGMENT_LEN < length value then Inl (TooLong MAX_ID_SEGMENT_LEN)
      else check_chars (chars value))"

definition validate_container_name :: "string \<Rightarrow> (ValidationError, unit) result" where
  "validate_container_name value =
     (case validate_id_segment value of
        Inl e \<Rightarrow> Inl e
      | Inr _ \<Rightarrow> if value = PAUSE_CONTAINER then Inl (ReservedContainerName value) else Inr ())"

definition validate_snapshot_name :: "string \<Rightarrow> (ValidationError, unit) result" where
  "validate_snapshot_name value = validate_id_segment value"

text \<open>A \<open>SandboxId\<close> is the string it wraps; \<open>SandboxId::new\<close> is its only checked constructor.\<close>

type_synonym SandboxId = string

definition SandboxId_new :: "string \<Rightarrow> (ValidationError, SandboxId) result" where
  "SandboxId_new value =
     (case validate_id_segment value of Inl e \<Rightarrow> Inl e | Inr _ \<Rightarrow> Inr value)"

definition show_ValidationError :: "ValidationError \<Rightarrow> string" where
  "show_ValidationError e = (case e of
       Empty \<Rightarrow> ''value cannot be empty''
     | TooLong n \<Rightarrow> ''value is too long; maximum length is '' @ show_nat n @ '' bytes''
     | ReservedPathSegment s \<Rightarrow>
         show_debug s @ '' is reserved and cannot be used as a path segment''
     | UnsupportedCharacter ch \<Rightarrow> ''value contains unsupported character '' @ [CHR 0x27] @ ch @ [CHR 0x27]
     | ReservedContainerName s \<Rightarrow> show_debug s @ '' is a reserved container name'')"

section \<open>Sandbox records and specifications\<close>

datatype SandboxStatus = Pending | Running | Stopping | Stopped | Suspended | Error | Unknown

text \<open>Times are instants (nanoseconds since the epoch).\<close>

record SandboxRecord =
  sb_id :: SandboxId
  sb_status :: SandboxStatus
  sb_containers :: "string list"
  created_at :: int
  updated_at :: int
  last_error :: "string option"
  origin_snapshot :: "string option"

definition new_pending :: "int \<Rightarrow> SandboxId \<Rightarrow> string list \<Rightarrow> SandboxRecord" where
  "new_pending now i containers =
     \<lparr>sb_id = i, sb_status = Pending, sb_containers = containers, created_at = now,
      updated_at = now, last_error = None, origin_snapshot = None\<rparr>"

definition set_status :: "int \<Rightarrow> SandboxStatus \<Rightarrow> SandboxRecord \<Rightarrow> SandboxRecord" where
  "set_status now st r = r\<lparr>sb_status := st, updated_at := now\<rparr>"

definition set_error :: "int \<Rightarrow> string \<Rightarrow> SandboxRecord \<Rightarrow> SandboxRecord" where
  "set_error now e r = r\<lparr>sb_status := Error, last_error := Some e, updated_at := now\<rparr>"

record EnvVar =
  env_name :: string
  env_value :: string

record ContainerSpec =
  cs_name :: string
  cs_image :: string
  cs_command :: "string list"
  cs_args :: "string list"
  cs_env :: "EnvVar list"

definition argv :: "ContainerSpec \<Rightarrow> string list" where
  "argv c = cs_command c @ cs_args c"

definition container_names :: "ContainerSpec list \<Rightarrow> string list" where
  "container_names containers = PAUSE_CONTAINER # map cs_name containers"

subsection \<open>Network policy\<close>

datatype EgressDestination = Cidr string

datatype Protocol = All | Tcp | Udp | Icmp

record PortRange =
  pr_start :: "16 word"
  pr_end :: "16 word"

record EgressRule =
  destination :: EgressDestination
  protocol :: Protocol
  ports :: "PortRange list"

datatype EgressPolicy = AllowAll | DenyAll | Rules "EgressRule list"

record TrafficShapingPolicy =
  upload_bps :: "64 word option"
  download_bps :: "64 word option"
  burst_bytes :: "64 word option"
  latency_ms :: "32 word option"

record L7EgressPolicy =
  transparent_tcp :: bool

definition L7EgressPolicy_default :: L7EgressPolicy where
  "L7EgressPolicy_default = \<lparr>transparent_tcp = True\<rparr>"

record UdpEgressPolicy =
  dns_redirect :: bool
  block_quic :: bool
  allow :: "EgressRule list"

definition UdpEgressPolicy_default :: UdpEgressPolicy where
  "UdpEgressPolicy_default = \<lparr>dns_redirect = True, block_quic = True, allow = []\<rparr>"

record SandboxNetworkSpec =
  egress :: EgressPolicy
  shaping :: TrafficShapingPolicy
  l7 :: L7EgressPolicy
  udp :: UdpEgressPolicy

definition SandboxNetworkSpec_default :: SandboxNetworkSpec where
  "SandboxNetworkSpec_default =
     \<lparr>egress = AllowAll,
      shaping = \<lparr>upload_bps = None, download_bps = None, burst_bytes = None, latency_ms = None\<rparr>,
      l7 = L7EgressPolicy_default,
      udp = UdpEgressPolicy_default\<rparr>"

datatype NetworkMode = NmSandbox | NmHost

record SandboxSpec =
  sp_pause_image :: string
  sp_containers :: "ContainerSpec list"
  sp_network :: SandboxNetworkSpec
  sp_network_mode :: "NetworkMode option"

subsection \<open>Daemon configuration\<close>

datatype ManagedNetworkBackend = Hostinet | Netstack

record NetworkRuntimeConfig =
  nc_enabled :: bool
  nc_backend :: ManagedNetworkBackend
  sandbox_cidr :: string
  envoy_listener :: string
  dns_listener :: string
  dns_upstream :: string

definition NetworkRuntimeConfig_default :: NetworkRuntimeConfig where
  "NetworkRuntimeConfig_default =
     \<lparr>nc_enabled = True, nc_backend = Netstack, sandbox_cidr = ''10.90.0.0/16'',
      envoy_listener = ''0.0.0.0:15001'', dns_listener = ''0.0.0.0:15053'',
      dns_upstream = ''1.1.1.1:53''\<rparr>"

record ObservabilityConfig =
  obs_enabled :: bool

definition ObservabilityConfig_default :: ObservabilityConfig where
  "ObservabilityConfig_default = \<lparr>obs_enabled = True\<rparr>"

record RuntimeConfig =
  rc_base_dir :: path
  rc_pause_image :: string
  rc_network_namespace :: "path option"
  rc_network :: NetworkRuntimeConfig
  rc_observability :: ObservabilityConfig

record HttpConfig =
  bind_addr :: string
  bearer_token :: string

record DaemonConfig =
  http :: HttpConfig
  runtime :: RuntimeConfig

section \<open>Layout of the state directory\<close>

record OadPaths =
  base_dir :: path

definition OadPaths_new :: "path \<Rightarrow> OadPaths" where
  "OadPaths_new d = \<lparr>base_dir = d\<rparr>"

definition sandboxes_dir :: "OadPaths \<Rightarrow> path" where
  "sandboxes_dir ps = join (base_dir ps) ''sandboxes''"

definition cache_dir :: "OadPaths \<Rightarrow> path" where
  "cache_dir ps = join (base_dir ps) ''cache''"

definition layer_cache_dir :: "OadPaths \<Rightarrow> path" where
  "layer_cache_dir ps = join (cache_dir ps) ''layers''"

definition manifest_cache_dir :: "OadPaths \<Rightarrow> path" where
  "manifest_cache_dir ps = join (cache_dir ps) ''manifests''"

definition rootfs_cache_dir :: "OadPaths \<Rightarrow> path" where
  "rootfs_cache_dir ps = join (cache_dir ps) ''rootfs''"

definition sandbox_dir :: "OadPaths \<Rightarrow> SandboxId \<Rightarrow> path" where
  "sandbox_dir ps i = join (sandboxes_dir ps) i"

definition state_file :: "OadPaths \<Rightarrow> SandboxId \<Rightarrow> path" where
  "state_file ps i = join (sandbox_dir ps i) ''state.json''"

definition bundles_dir :: "OadPaths \<Rightarrow> SandboxId \<Rightarrow> path" where
  "bundles_dir ps i = join (sandbox_dir ps i) ''bundles''"

definition bundle_dir :: "OadPaths \<Rightarrow> SandboxId \<Rightarrow> string \<Rightarrow> path" where
  "bundle_dir ps i container = join (bundles_dir ps i) container"

definition rootfs_dir :: "OadPaths \<Rightarrow> SandboxId \<Rightarrow> string \<Rightarrow> path" where
  "rootfs_dir ps i container = join (bundle_dir ps i container) ''rootfs''"

definition rootfs_overlay_dir :: "OadPaths \<Rightarrow> SandboxId \<Rightarrow> string \<Rightarrow> path" where
  "rootfs_overlay_dir ps i container = join (bundle_dir ps i container) ''rootfs-overlay''"

definition checkpoint_dir :: "OadPaths \<Rightarrow> SandboxId \<Rightarrow> path" where
  "checkpoint_dir ps i = join (sandbox_dir ps i) ''checkpoint''"

definition sandbox_spec :: "OadPaths \<Rightarrow> SandboxId \<Rightarrow> path" where
  "sandbox_spec ps i = join (sandbox_dir ps i) ''spec.json''"

definition network_dir :: "OadPaths \<Rightarrow> path" where
  "network_dir ps = join (base_dir ps) ''network''"

definition sandbox_network_state :: "OadPaths \<Rightarrow> SandboxId \<Rightarrow> path" where
  "sandbox_network_state ps i = join (sandbox_dir ps i) ''network.json''"

definition sandbox_resolv_conf :: "OadPaths \<Rightarrow> SandboxId \<Rightarrow> path" where
  "sandbox_resolv_conf ps i = join (sandbox_dir ps i) ''resolv.conf''"

definition envoy_config :: "OadPaths \<Rightarrow> path" where
  "envoy_config ps = join (network_dir ps) ''envoy.json''"

definition envoy_log :: "OadPaths \<Rightarrow> path" where
  "envoy_log ps = join (network_dir ps) ''envoy.log''"

definition envoy_access_log_socket :: "OadPaths \<Rightarrow> path" where
  "envoy_access_log_socket ps = join (network_dir ps) ''envoy-access.sock''"

definition snapshots_dir :: "OadPaths \<Rightarrow> path" where
  "snapshots_dir ps = join (cache_dir ps) ''snapshots''"

definition snapshot_dir :: "OadPaths \<Rightarrow> string \<Rightarrow> path" where
  "snapshot_dir ps name = join (snapshots_dir ps) name"

definition snapshot_checkpoint_dir :: "OadPaths \<Rightarrow> string \<Rightarrow> path" where
  "snapshot_checkpoint_dir ps name = join (snapshot_dir ps name) ''checkpoint''"

definition snapshot_manifest :: "OadPaths \<Rightarrow> string \<Rightarrow> path" where
  "snapshot_manifest ps name = join (snapshot_dir ps name) ''manifest.json''"

definition rootfs_staging_dir :: "OadPaths \<Rightarrow> SandboxId \<Rightarrow> string \<Rightarrow> path" where
  "rootfs_staging_dir ps i container = join (bundle_dir ps i container) ''rootfs-staging''"

definition rootfs_erofs :: "OadPaths \<Rightarrow> SandboxId \<Rightarrow> string \<Rightarrow> path" where
  "rootfs_erofs ps i container = join (bundle_dir ps i container) ''rootfs.erofs''"

definition config_json :: "OadPaths \<Rightarrow> SandboxId \<Rightarrow> string \<Rightarrow> path" where
  "config_json ps i container = join (bundle_dir ps i container) ''config.json''"

definition runsc_state_dir :: "OadPaths \<Rightarrow> SandboxId \<Rightarrow> path" where
  "runsc_state_dir ps i = join (sandbox_dir ps i) ''runsc-state''"

definition pidfiles_dir :: "OadPaths \<Rightarrow> SandboxId \<Rightarrow> path" where
  "pidfiles_dir ps i = join (sandbox_dir ps i) ''pidfiles''"

definition pidfile :: "OadPaths \<Rightarrow> SandboxId \<Rightarrow> string \<Rightarrow> path" where
  "pidfile ps i container = join (pidfiles_dir ps i) (container @ ''.pid'')"

definition logs_dir :: "OadPaths \<Rightarrow> SandboxId \<Rightarrow> path" where
  "logs_dir ps i = join (sandbox_dir ps i) ''logs''"

definition container_log :: "OadPaths \<Rightarrow> SandboxId \<Rightarrow> string \<Rightarrow> path" where
  "container_log ps i container = join (logs_dir ps i) (container @ ''.jsonl'')"

lemmas path_defs =
  sandboxes_dir_def cache_dir_def layer_cache_dir_def manifest_cache_dir_def rootfs_cache_dir_def
  sandbox_dir_def state_file_def bundles_dir_def bundle_dir_def rootfs_dir_def
  rootfs_overlay_dir_def checkpoint_dir_def sandbox_spec_def network_dir_def
  sandbox_network_state_def sandbox_resolv_conf_def envoy_config_def envoy_log_def
  envoy_access_log_socket_def snapshots_dir_def snapshot_dir_def snapshot_checkpoint_dir_def
  snapshot_manifest_def rootfs_staging_dir_def rootfs_erofs_def config_json_def
  runsc_state_dir_def pidfiles_dir_def pidfile_def logs_dir_def container_log_def

section \<open>Validated identifiers are single path components\<close>

lemma check_chars_ok: "check_chars cs = Inr () \<longleftrightarrow> (\<forall>ch \<in> set cs. allowed_char ch)"
  by (induction cs) auto

lemma allowed_char_singleton: "allowed_char ch \<Longrightarrow> \<exists>c. ch = [c]"
  by (auto simp: allowed_char_def split: list.splits)

lemma allowed_char_ascii: "allowed_char [c] \<Longrightarrow> utf8_width c = 1"
  by (auto simp: allowed_char_def utf8_width_def is_ascii_alphanumeric_def is_ascii_digit_def
      char_between_def Let_def)

lemma chars_allowed:
  "(\<forall>ch \<in> set (chars s). allowed_char ch) \<longleftrightarrow> (\<forall>c \<in> set s. allowed_char [c])"
proof
  assume all: "\<forall>ch \<in> set (chars s). allowed_char ch"
  have "set s = set (concat (chars s))" by (simp add: concat_chars)
  also have "\<dots> = (\<Union>ch \<in> set (chars s). set ch)" by simp
  finally show "\<forall>c \<in> set s. allowed_char [c]"
    using all allowed_char_singleton by fastforce
next
  assume "\<forall>c \<in> set s. allowed_char [c]"
  then show "\<forall>ch \<in> set (chars s). allowed_char ch"
    by (induction s) (auto simp: allowed_char_ascii)
qed

lemma allowed_not_slash: "allowed_char [c] \<Longrightarrow> c \<noteq> CHR ''/''"
  by (auto simp: allowed_char_def is_ascii_alphanumeric_def is_ascii_digit_def char_between_def)

lemma validate_id_segment_Inr:
  "validate_id_segment s = Inr () \<longleftrightarrow>
     s \<noteq> [] \<and> s \<noteq> ''.'' \<and> s \<noteq> ''..'' \<and> length s \<le> 128 \<and> (\<forall>c \<in> set s. allowed_char [c])"
  by (auto simp: validate_id_segment_def check_chars_ok chars_allowed MAX_ID_SEGMENT_LEN_def)

lemma validated_plain: "validate_id_segment s = Inr () \<Longrightarrow> plain_segment s"
  using allowed_not_slash by (fastforce simp: validate_id_segment_Inr plain_segment_def)

lemma plain_append: "plain_segment s \<Longrightarrow> plain_segment t \<Longrightarrow> t \<noteq> [] \<Longrightarrow> 3 \<le> length t \<Longrightarrow> plain_segment (s @ t)"
  by (auto simp: plain_segment_def dest: arg_cong [where f = length])

lemma plain_literals [simp]:
  "plain_segment ''sandboxes''" "plain_segment ''cache''" "plain_segment ''state.json''"
  "plain_segment ''bundles''" "plain_segment ''rootfs''" "plain_segment ''rootfs-overlay''"
  "plain_segment ''checkpoint''" "plain_segment ''spec.json''" "plain_segment ''network''"
  "plain_segment ''network.json''" "plain_segment ''resolv.conf''" "plain_segment ''snapshots''"
  "plain_segment ''manifest.json''" "plain_segment ''rootfs-staging''"
  "plain_segment ''rootfs.erofs''" "plain_segment ''config.json''" "plain_segment ''runsc-state''"
  "plain_segment ''pidfiles''" "plain_segment ''logs''" "plain_segment ''.pid''"
  "plain_segment ''.jsonl''"
  by (simp_all add: plain_segment_def)

lemma sandbox_dir_eq:
  "validate_id_segment i = Inr () \<Longrightarrow> sandbox_dir ps i = base_dir ps @ [''sandboxes'', i]"
  by (simp add: sandbox_dir_def sandboxes_dir_def validated_plain)

lemma snapshot_dir_eq:
  "validate_id_segment n = Inr () \<Longrightarrow> snapshot_dir ps n = base_dir ps @ [''cache'', ''snapshots'', n]"
  by (simp add: path_defs validated_plain)

text \<open>Every file and directory the daemon keeps for one sandbox and one of its containers.\<close>

definition sandbox_paths :: "OadPaths \<Rightarrow> SandboxId \<Rightarrow> string \<Rightarrow> path list" where
  "sandbox_paths ps i c =
     [state_file ps i, bundles_dir ps i, bundle_dir ps i c, rootfs_dir ps i c,
      rootfs_overlay_dir ps i c, checkpoint_dir ps i, sandbox_spec ps i,
      sandbox_network_state ps i, sandbox_resolv_conf ps i, rootfs_staging_dir ps i c,
      rootfs_erofs ps i c, config_json ps i c, runsc_state_dir ps i, pidfiles_dir ps i,
      pidfile ps i c, logs_dir ps i, container_log ps i c]"

lemma sandbox_paths_below:
  assumes "validate_id_segment i = Inr ()" and "validate_id_segment c = Inr ()"
    and "p \<in> set (sandbox_paths ps i c)"
  shows "strict_prefix (sandbox_dir ps i) p"
proof -
  have "plain_segment i" and "plain_segment c" and "plain_segment (c @ ''.pid'')"
    and "plain_segment (c @ ''.jsonl'')"
    using assms(1,2) by (simp_all add: validated_plain plain_append)
  with assms(3) show ?thesis
    by (auto simp: sandbox_paths_def path_defs strict_prefix_def)
qed

lemma sandbox_dirs_disjoint:
  assumes "validate_id_segment i = Inr ()" and "validate_id_segment j = Inr ()" and "i \<noteq> j"
    and "prefix (sandbox_dir ps i) p"
  shows "\<not> prefix (sandbox_dir ps j) p"
  using assms prefix_snoc_same_parent [of "base_dir ps @ [''sandboxes'']" i p j]
  by (auto simp: sandbox_dir_eq)

lemma sandbox_snapshot_disjoint:
  assumes "validate_id_segment i = Inr ()" and "validate_id_segment n = Inr ()"
    and "prefix (sandbox_dir ps i) p"
  shows "\<not> prefix (snapshot_dir ps n) p"
  using assms by (auto simp: sandbox_dir_eq snapshot_dir_eq prefix_def)

section \<open>Properties\<close>

text \<open>
  \<open>validate_id_segment\<close> accepts exactly the non-empty names of at most 128 bytes, other than
  \<open>.\<close> and \<open>..\<close>, made of ASCII alphanumerics, \<open>-\<close>, \<open>_\<close> and \<open>.\<close>; and it checks in this order:
  emptiness, reserved names, length, characters (the first offending one is reported).
\<close>

theorem validate_id_segment_spec:
  "validate_id_segment s =
     (if s = [] then Inl Empty
      else if s \<in> {''.'', ''..''} then Inl (ReservedPathSegment s)
      else if 128 < length s then Inl (TooLong 128)
      else (case List.find (\<lambda>ch. \<not> allowed_char ch) (chars s) of
              Some ch \<Rightarrow> Inl (UnsupportedCharacter ch) | None \<Rightarrow> Inr ()))
   \<and> (validate_id_segment s = Inr () \<longleftrightarrow>
        s \<noteq> [] \<and> s \<noteq> ''.'' \<and> s \<noteq> ''..'' \<and> length s \<le> 128
        \<and> list_all (\<lambda>c. is_ascii_alphanumeric c \<or> c = CHR ''-'' \<or> c = CHR ''_'' \<or> c = CHR ''.'') s)"
proof
  have "check_chars cs = (case List.find (\<lambda>ch. \<not> allowed_char ch) cs of
      Some ch \<Rightarrow> Inl (UnsupportedCharacter ch) | None \<Rightarrow> Inr ())" for cs
    by (induction cs) auto
  then show "validate_id_segment s =
     (if s = [] then Inl Empty
      else if s \<in> {''.'', ''..''} then Inl (ReservedPathSegment s)
      else if 128 < length s then Inl (TooLong 128)
      else (case List.find (\<lambda>ch. \<not> allowed_char ch) (chars s) of
              Some ch \<Rightarrow> Inl (UnsupportedCharacter ch) | None \<Rightarrow> Inr ()))"
    by (simp add: validate_id_segment_def MAX_ID_SEGMENT_LEN_def)
qed (simp add: validate_id_segment_Inr list_all_iff allowed_char_def)



end
