(* ===== verification/Disk.thy ===== *)
theory Disk
  imports Core
begin

text \<open>
  The operating system as the daemon sees it: a file system that maps paths to directories and
  files, system calls that may fail at any time, the clock and the process id; and on top of it
  the file utilities of \<open>oad-core\<close> (\<open>write_atomic_file\<close>, \<open>publish_atomic_file\<close>, \<open>temp_path\<close>, the
  sync functions). What the daemon cannot determine is the argument \<open>ext\<close>: the outcome of the
  \<open>t\<close>-th interaction with the outside world, for every \<open>t\<close>. A theorem for every \<open>ext\<close> is a theorem
  for every pattern of failures. File contents have a type \<open>'b\<close> of their own, since the
  serialisers that produce them are not part of the daemon.
\<close>

section \<open>The outside world\<close>

datatype io_error = NotFound | NotFoundAt string | AlreadyExists | OtherIo string

text \<open>
  \<open>fault t\<close>: the \<open>t\<close>-th interaction fails with this message although the file system would allow
  it. A failing call may have done part of its work: \<open>torn\<close> is what a failing write leaves,
  \<open>survives\<close> what a failing recursive removal leaves behind, \<open>made\<close> how many leading components a
  failing \<open>create_dir_all\<close> has created.
\<close>

record 'b ext =
  now :: "nat \<Rightarrow> int"
  pid :: nat
  uuid :: "nat \<Rightarrow> string"
  fault :: "nat \<Rightarrow> string option"
  empty_body :: 'b
  torn :: "nat \<Rightarrow> 'b"
  survives :: "nat \<Rightarrow> path \<Rightarrow> bool"
  made :: "nat \<Rightarrow> nat"

datatype 'b node = Dir | File 'b

type_synonym 'b disk = "(path \<times> 'b node) list"

text \<open>\<open>tick\<close> counts the interactions so far; \<open>tmp_counter\<close> is the static counter of \<open>temp_path\<close>.\<close>

record 'b world =
  tick :: nat
  tmp_counter :: "64 word"
  disk :: "'b disk"

section \<open>The file system\<close>

abbreviation d_get :: "'b disk \<Rightarrow> path \<Rightarrow> 'b node option" where
  "d_get \<equiv> map_of"

definition d_put :: "path \<Rightarrow> 'b node \<Rightarrow> 'b disk \<Rightarrow> 'b disk" where
  "d_put p n d = (p, n) # filter (\<lambda>e. fst e \<noteq> p) d"

definition d_del :: "path \<Rightarrow> 'b disk \<Rightarrow> 'b disk" where
  "d_del p d = filter (\<lambda>e. fst e \<noteq> p) d"

definition d_del_tree :: "path \<Rightarrow> 'b disk \<Rightarrow> 'b disk" where
  "d_del_tree p d = filter (\<lambda>e. \<not> prefix p (fst e)) d"

definition d_move_tree :: "path \<Rightarrow> path \<Rightarrow> 'b disk \<Rightarrow> 'b disk" where
  "d_move_tree p q d =
     map (\<lambda>(r, n). (if prefix p r then q @ drop (length p) r else r, n)) (d_del_tree q d)"

fun d_add_dirs :: "path list \<Rightarrow> 'b disk \<Rightarrow> 'b disk" where
  "d_add_dirs [] d = d"
| "d_add_dirs (p # ps) d =
     d_add_dirs ps (if d_get d p = None then d_put p Dir d else d)"

definition is_dir :: "'b disk \<Rightarrow> path \<Rightarrow> bool" where
  "is_dir d p \<longleftrightarrow> p = [] \<or> d_get d p = Some Dir"

definition is_file :: "'b disk \<Rightarrow> path \<Rightarrow> bool" where
  "is_file d p \<longleftrightarrow> (case d_get d p of Some (File _) \<Rightarrow> True | _ \<Rightarrow> False)"

definition ancestors :: "path \<Rightarrow> path list" where
  "ancestors p = filter (\<lambda>q. q \<noteq> []) (prefixes p)"

definition parent_is_dir :: "'b disk \<Rightarrow> path \<Rightarrow> bool" where
  "parent_is_dir d p \<longleftrightarrow> (case parent p of None \<Rightarrow> True | Some q \<Rightarrow> is_dir d q)"

definition has_child :: "'b disk \<Rightarrow> path \<Rightarrow> bool" where
  "has_child d p \<longleftrightarrow> (\<exists>e \<in> set d. strict_prefix p (fst e))"

text \<open>The names in a directory, in the order the directory happens to have.\<close>

definition child_names :: "'b disk \<Rightarrow> path \<Rightarrow> string list" where
  "child_names d p =
     map (\<lambda>e. last (fst e)) (filter (\<lambda>e. fst e \<noteq> [] \<and> butlast (fst e) = p) d)"

lemma d_get_put [simp]: "d_get (d_put p n d) r = (if r = p then Some n else d_get d r)"
  by (simp add: d_put_def map_of_filter_key [where P = "\<lambda>x. x \<noteq> p"])

lemma d_get_del [simp]: "d_get (d_del p d) r = (if r = p then None else d_get d r)"
  by (simp add: d_del_def map_of_filter_key [where P = "\<lambda>x. x \<noteq> p"])

lemma d_get_del_tree [simp]: "d_get (d_del_tree p d) r = (if prefix p r then None else d_get d r)"
  by (simp add: d_del_tree_def map_of_filter_key [where P = "\<lambda>x. \<not> prefix p x"])

lemma d_get_add_dirs [simp]:
  "d_get (d_add_dirs qs d) r = (case d_get d r of Some n \<Rightarrow> Some n
     | None \<Rightarrow> if r \<in> set qs then Some Dir else None)"
  by (induction qs d rule: d_add_dirs.induct) (auto split: option.splits)

lemma map_of_rekey:
  assumes "\<And>e. e \<in> set es \<Longrightarrow> f (fst e) = k \<longleftrightarrow> fst e = k'"
  shows "map_of (map (\<lambda>(r, n). (f r, n)) es) k = map_of es k'"
  using assms
proof (induction es)
  case (Cons e es)
  have "f (fst e) = k \<longleftrightarrow> fst e = k'" by (rule Cons.prems) simp
  moreover have "map_of (map (\<lambda>(r, n). (f r, n)) es) k = map_of es k'"
    by (rule Cons.IH) (rule Cons.prems, simp)
  ultimately show ?case by (cases e) auto
qed simp

lemma d_get_move_tree:
  assumes "\<not> prefix p q" and "\<not> prefix q p"
  shows "d_get (d_move_tree p q d) r =
    (if prefix q r then d_get d (p @ drop (length q) r)
     else if prefix p r then None else d_get d r)"
proof (cases "prefix q r")
  case True
  then obtain s where r: "r = q @ s" by (auto simp: prefix_def)
  have move: "(if prefix p k then q @ drop (length p) k else k) = r \<longleftrightarrow> k = p @ s"
    if "\<not> prefix q k" for k
    using that r by (auto simp: prefix_def)
  have "d_get (d_move_tree p q d) r = d_get (d_del_tree q d) (p @ s)"
    unfolding d_move_tree_def
    by (rule map_of_rekey) (rule move, simp add: d_del_tree_def)
  moreover have "\<not> prefix q (p @ s)"
    using assms prefix_same_cases [of q "p @ s" p] by auto
  ultimately show ?thesis using r True by simp
next
  case False
  show ?thesis
  proof (cases "prefix p r")
    case True
    have "(if prefix p k then q @ drop (length p) k else k) \<noteq> r" for k
      using True False by auto
    then have "d_get (d_move_tree p q d) r = None"
      unfolding d_move_tree_def map_of_eq_None_iff by fastforce
    with True False show ?thesis by simp
  next
    case notp: False
    have "d_get (d_move_tree p q d) r = d_get (d_del_tree q d) r"
      unfolding d_move_tree_def
      by (rule map_of_rekey) (use False notp in auto)
    with False notp show ?thesis by simp
  qed
qed

lemma set_ancestors: "q \<in> set (ancestors p) \<longleftrightarrow> q \<noteq> [] \<and> prefix q p"
  by (auto simp: ancestors_def)

section \<open>System calls\<close>

text \<open>
  One call: it fails with the fault of the moment, leaving what \<open>part\<close> describes, or does what
  the file system allows.
\<close>

definition syscall ::
  "('b, 'x) ext_scheme \<Rightarrow> (nat \<Rightarrow> 'b disk \<Rightarrow> 'b disk) \<Rightarrow> ('b disk \<Rightarrow> (io_error, 'a \<times> 'b disk) result)
   \<Rightarrow> (('b, 'z) world_scheme, io_error, 'a) comp"
where
  "syscall ex part f = (\<lambda>w. let t = tick w; w' = w\<lparr>tick := Suc t\<rparr> in
     case fault ex t of
       Some e \<Rightarrow> (Inl (OtherIo e), w'\<lparr>disk := part t (disk w)\<rparr>)
     | None \<Rightarrow> (case f (disk w) of
          Inl e \<Rightarrow> (Inl e, w')
        | Inr (x, d) \<Rightarrow> (Inr x, w'\<lparr>disk := d\<rparr>)))"

lemma syscall_run [code]:
  "syscall ex part f w = (let t = tick w; w' = w\<lparr>tick := Suc t\<rparr> in
     case fault ex t of
       Some e \<Rightarrow> (Inl (OtherIo e), w'\<lparr>disk := part t (disk w)\<rparr>)
     | None \<Rightarrow> (case f (disk w) of
          Inl e \<Rightarrow> (Inl e, w')
        | Inr (x, d) \<Rightarrow> (Inr x, w'\<lparr>disk := d\<rparr>)))"
  by (simp add: syscall_def)

abbreviation untouched :: "nat \<Rightarrow> 'b disk \<Rightarrow> 'b disk" where
  "untouched \<equiv> \<lambda>_ d. d"

definition read_clock :: "('b, 'x) ext_scheme \<Rightarrow> (('b, 'z) world_scheme, 'e, int) comp" where
  "read_clock ex = (\<lambda>w. (Inr (now ex (tick w)), w\<lparr>tick := Suc (tick w)\<rparr>))"

definition new_uuid :: "('b, 'x) ext_scheme \<Rightarrow> (('b, 'z) world_scheme, 'e, string) comp" where
  "new_uuid ex = (\<lambda>w. (Inr (uuid ex (tick w)), w\<lparr>tick := Suc (tick w)\<rparr>))"

lemma read_clock_run [code]: "read_clock ex w = (Inr (now ex (tick w)), w\<lparr>tick := Suc (tick w)\<rparr>)"
  by (simp add: read_clock_def)

lemma new_uuid_run [code]: "new_uuid ex w = (Inr (uuid ex (tick w)), w\<lparr>tick := Suc (tick w)\<rparr>)"
  by (simp add: new_uuid_def)

definition create_dir_all ::
  "('b, 'x) ext_scheme \<Rightarrow> path \<Rightarrow> (('b, 'z) world_scheme, io_error, unit) comp" where
  "create_dir_all ex p = syscall ex (\<lambda>t d. d_add_dirs (take (made ex t) (ancestors p)) d)
     (\<lambda>d. if \<exists>q \<in> set (ancestors p). is_file d q then Inl (OtherIo ''Not a directory'')
          else Inr ((), d_add_dirs (ancestors p) d))"

definition create_dir ::
  "('b, 'x) ext_scheme \<Rightarrow> path \<Rightarrow> (('b, 'z) world_scheme, io_error, unit) comp" where
  "create_dir ex p = syscall ex untouched
     (\<lambda>d. if d_get d p \<noteq> None then Inl AlreadyExists
          else if \<not> parent_is_dir d p then Inl NotFound
          else Inr ((), d_put p Dir d))"

text \<open>\<open>OpenOptions::new().write(true).create_new(true).open(p)\<close>\<close>

definition create_new_file ::
  "('b, 'x) ext_scheme \<Rightarrow> path \<Rightarrow> (('b, 'z) world_scheme, io_error, unit) comp" where
  "create_new_file ex p = syscall ex untouched
     (\<lambda>d. if d_get d p \<noteq> None then Inl AlreadyExists
          else if \<not> parent_is_dir d p then Inl NotFound
          else Inr ((), d_put p (File (empty_body ex)) d))"

text \<open>\<open>write_all\<close> on the file opened at \<open>p\<close>.\<close>

definition write_all ::
  "('b, 'x) ext_scheme \<Rightarrow> path \<Rightarrow> 'b \<Rightarrow> (('b, 'z) world_scheme, io_error, unit) comp" where
  "write_all ex p body = syscall ex (\<lambda>t d. d_put p (File (torn ex t)) d)
     (\<lambda>d. Inr ((), d_put p (File body) d))"

definition flush :: "('b, 'x) ext_scheme \<Rightarrow> (('b, 'z) world_scheme, io_error, unit) comp" where
  "flush ex = syscall ex untouched (\<lambda>d. Inr ((), d))"

definition open_existing ::
  "('b, 'x) ext_scheme \<Rightarrow> path \<Rightarrow> (('b, 'z) world_scheme, io_error, unit) comp" where
  "open_existing ex p = syscall ex untouched
     (\<lambda>d. if p \<noteq> [] \<and> d_get d p = None then Inl NotFound else Inr ((), d))"

definition sync_all :: "('b, 'x) ext_scheme \<Rightarrow> (('b, 'z) world_scheme, io_error, unit) comp" where
  "sync_all ex = syscall ex untouched (\<lambda>d. Inr ((), d))"

definition rename_path ::
  "('b, 'x) ext_scheme \<Rightarrow> path \<Rightarrow> path \<Rightarrow> (('b, 'z) world_scheme, io_error, unit) comp" where
  "rename_path ex p q = syscall ex untouched
     (\<lambda>d. case d_get d p of
        None \<Rightarrow> Inl NotFound
      | Some n \<Rightarrow>
          if \<not> parent_is_dir d q then Inl NotFound
          else if p = q then Inr ((), d)
          else if prefix p q \<or> prefix q p then Inl (OtherIo ''Invalid argument'')
          else (case n of
              File _ \<Rightarrow> if d_get d q = Some Dir then Inl (OtherIo ''Is a directory'')
                        else Inr ((), d_move_tree p q d)
            | Dir \<Rightarrow> if is_file d q then Inl (OtherIo ''Not a directory'')
                     else if has_child d q then Inl (OtherIo ''Directory not empty'')
                     else Inr ((), d_move_tree p q d)))"

definition remove_file ::
  "('b, 'x) ext_scheme \<Rightarrow> path \<Rightarrow> (('b, 'z) world_scheme, io_error, unit) comp" where
  "remove_file ex p = syscall ex untouched
     (\<lambda>d. case d_get d p of None \<Rightarrow> Inl NotFound | Some Dir \<Rightarrow> Inl (OtherIo ''Is a directory'')
        | Some (File _) \<Rightarrow> Inr ((), d_del p d))"

definition remove_dir_all ::
  "('b, 'x) ext_scheme \<Rightarrow> path \<Rightarrow> (('b, 'z) world_scheme, io_error, unit) comp" where
  "remove_dir_all ex p =
     syscall ex (\<lambda>t d. filter (\<lambda>e. strict_prefix p (fst e) \<longrightarrow> survives ex t (fst e)) d)
     (\<lambda>d. case d_get d p of None \<Rightarrow> Inl NotFound | Some (File _) \<Rightarrow> Inl (OtherIo ''Not a directory'')
        | Some Dir \<Rightarrow> Inr ((), d_del_tree p d))"

definition try_exists ::
  "('b, 'x) ext_scheme \<Rightarrow> path \<Rightarrow> (('b, 'z) world_scheme, io_error, bool) comp" where
  "try_exists ex p = syscall ex untouched (\<lambda>d. Inr (d_get d p \<noteq> None, d))"

definition read_file ::
  "('b, 'x) ext_scheme \<Rightarrow> path \<Rightarrow> (('b, 'z) world_scheme, io_error, 'b) comp" where
  "read_file ex p = syscall ex untouched
     (\<lambda>d. case d_get d p of None \<Rightarrow> Inl NotFound | Some Dir \<Rightarrow> Inl (OtherIo ''Is a directory'')
        | Some (File b) \<Rightarrow> Inr (b, d))"

definition read_dir ::
  "('b, 'x) ext_scheme \<Rightarrow> path \<Rightarrow> (('b, 'z) world_scheme, io_error, string list) comp" where
  "read_dir ex p = syscall ex untouched
     (\<lambda>d. if is_dir d p then Inr (child_names d p, d)
          else if d_get d p = None then Inl NotFound else Inl (OtherIo ''Not a directory''))"

lemmas syscall_defs =
  create_dir_all_def create_dir_def create_new_file_def write_all_def flush_def open_existing_def
  sync_all_def rename_path_def remove_file_def remove_dir_all_def try_exists_def read_file_def
  read_dir_def

section \<open>The file utilities of \<open>oad-core\<close>\<close>

definition sync_file ::
  "('b, 'x) ext_scheme \<Rightarrow> path \<Rightarrow> (('b, 'z) world_scheme, io_error, unit) comp" where
  "sync_file ex p = andThen (open_existing ex p) (\<lambda>_. sync_all ex)"

definition sync_dir ::
  "('b, 'x) ext_scheme \<Rightarrow> path \<Rightarrow> (('b, 'z) world_scheme, io_error, unit) comp" where
  "sync_dir ex p = andThen (open_existing ex p) (\<lambda>_. sync_all ex)"

definition temp_name :: "string \<Rightarrow> nat \<Rightarrow> nat \<Rightarrow> 64 word \<Rightarrow> string" where
  "temp_name name process_id nanos sequence =
     ''.'' @ name @ ''.'' @ show_nat process_id @ ''.'' @ show_nat nanos @ ''.''
       @ show_nat (unat sequence) @ ''.tmp''"

definition temp_path ::
  "('b, 'x) ext_scheme \<Rightarrow> path \<Rightarrow> (('b, 'z) world_scheme, 'e, path) comp" where
  "temp_path ex p =
     andThen (gets tmp_counter) (\<lambda>sequence.
     andThen (modify (\<lambda>w. w\<lparr>tmp_counter := tmp_counter w + 1\<rparr>)) (\<lambda>_.
     andThen (read_clock ex) (\<lambda>t.
     let name = (case file_name p of None \<Rightarrow> ''file'' | Some n \<Rightarrow> n); nanos = nat t in
     ok (with_file_name p (temp_name name (pid ex) nanos sequence)))))"

definition create_parent ::
  "('b, 'x) ext_scheme \<Rightarrow> path \<Rightarrow> (('b, 'z) world_scheme, io_error, unit) comp" where
  "create_parent ex p = (case parent p of None \<Rightarrow> ok () | Some q \<Rightarrow> create_dir_all ex q)"

definition sync_parent ::
  "('b, 'x) ext_scheme \<Rightarrow> path \<Rightarrow> (('b, 'z) world_scheme, io_error, unit) comp" where
  "sync_parent ex p = (case parent p of None \<Rightarrow> ok () | Some q \<Rightarrow> sync_dir ex q)"

definition publish_atomic_file ::
  "('b, 'x) ext_scheme \<Rightarrow> path \<Rightarrow> path \<Rightarrow> (('b, 'z) world_scheme, io_error, unit) comp" where
  "publish_atomic_file ex tmp p =
     andThen (create_parent ex p) (\<lambda>_.
     andThen (sync_file ex tmp) (\<lambda>_.
     andThen (rename_path ex tmp p) (\<lambda>_.
     andThen (sync_parent ex p) (\<lambda>_.
     ok ()))))"

definition write_atomic_file ::
  "('b, 'x) ext_scheme \<Rightarrow> path \<Rightarrow> 'b \<Rightarrow> (('b, 'z) world_scheme, io_error, unit) comp" where
  "write_atomic_file ex p body =
     andThen (create_parent ex p) (\<lambda>_.
     andThen (temp_path ex p) (\<lambda>tmp.
     on_err
       (andThen (create_new_file ex tmp) (\<lambda>_.
        andThen (write_all ex tmp body) (\<lambda>_.
        andThen (flush ex) (\<lambda>_.
        publish_atomic_file ex tmp p))))
       (remove_file ex tmp)))"

section \<open>Frames\<close>

text \<open>
  \<open>touch S w w'\<close>: between \<open>w\<close> and \<open>w'\<close> only the paths of \<open>S\<close> may have changed, and nothing of the
  state but the disk and the counters.
\<close>

definition touch :: "path set \<Rightarrow> ('b, 'z) world_scheme \<Rightarrow> ('b, 'z) world_scheme \<Rightarrow> bool" where
  "touch S w w' \<longleftrightarrow> (\<forall>r. r \<notin> S \<longrightarrow> d_get (disk w') r = d_get (disk w) r) \<and> more w' = more w"

interpretation fs: transition_rel "touch S" for S
  by unfold_locales (auto simp: touch_def)

lemma touch_mono: "touch S w w' \<Longrightarrow> S \<subseteq> T \<Longrightarrow> touch T w w'"
  by (auto simp: touch_def)

lemma keeps_touch_mono: "keeps (touch S) m \<Longrightarrow> S \<subseteq> T \<Longrightarrow> keeps (touch T) m"
  by (auto simp: keeps_def intro: touch_mono)

lemma keeps_syscall:
  assumes "\<And>t d r. r \<notin> S \<Longrightarrow> d_get (part t d) r = d_get d r"
    and "\<And>d x d' r. f d = Inr (x, d') \<Longrightarrow> r \<notin> S \<Longrightarrow> d_get d' r = d_get d r"
  shows "keeps (touch S) (syscall ex part f)"
  using assms
  by (auto simp: keeps_def touch_def syscall_def Let_def split: option.splits sum.splits prod.splits)

text \<open>Calls that only look.\<close>

lemma touch_readonly [pres_intros]:
  "keeps (touch S) (flush ex)" "keeps (touch S) (open_existing ex p)" "keeps (touch S) (sync_all ex)"
  "keeps (touch S) (try_exists ex p)" "keeps (touch S) (read_file ex p)"
  "keeps (touch S) (read_dir ex p)" "keeps (touch S) (read_clock ex)" "keeps (touch S) (new_uuid ex)"
proof -
  show "keeps (touch S) (read_clock ex)" and "keeps (touch S) (new_uuid ex)"
    by (auto simp: keeps_def touch_def read_clock_def new_uuid_def)
qed (unfold syscall_defs, auto intro!: keeps_syscall split: if_splits option.splits node.splits)

lemma touch_sync_file [pres_intros]: "keeps (touch S) (sync_file ex p)"
  and touch_sync_dir [pres_intros]: "keeps (touch S) (sync_dir ex p)"
  and touch_sync_parent [pres_intros]: "keeps (touch S) (sync_parent ex p)"
  unfolding sync_parent_def sync_file_def sync_dir_def by (intro pres_intros)+

lemma touch_temp_path [pres_intros]: "keeps (touch S) (temp_path ex p)"
  unfolding temp_path_def Let_def
  by (intro pres_intros keeps_modify) (simp add: touch_def)

text \<open>Calls that change the disk, each with the paths it may change.\<close>

lemma touch_create_dir_all: "keeps (touch {q. q \<noteq> [] \<and> prefix q p}) (create_dir_all ex p)"
  unfolding create_dir_all_def
  by (rule keeps_syscall)
    (auto simp: set_ancestors dest: in_set_takeD split: option.splits if_splits)

lemma touch_create_dir: "keeps (touch {p}) (create_dir ex p)"
  and touch_create_new_file: "keeps (touch {p}) (create_new_file ex p)"
  and touch_write_all: "keeps (touch {p}) (write_all ex p body)"
  and touch_remove_file: "keeps (touch {p}) (remove_file ex p)"
  unfolding syscall_defs
  by (auto intro!: keeps_syscall split: if_splits option.splits node.splits)

lemma touch_remove_dir_all: "keeps (touch {q. prefix p q}) (remove_dir_all ex p)"
  unfolding remove_dir_all_def
proof (rule keeps_syscall)
  fix t and d :: "'a disk" and r :: path
  assume "r \<notin> {q. prefix p q}"
  then show "d_get (filter (\<lambda>e. strict_prefix p (fst e) \<longrightarrow> survives ex t (fst e)) d) r = d_get d r"
    by (simp add: map_of_filter_key [where P = "\<lambda>x. strict_prefix p x \<longrightarrow> survives ex t x"])
      (auto simp: strict_prefix_def)
qed (auto split: option.splits node.splits)

lemma touch_rename_path: "keeps (touch {r. prefix p r \<or> prefix q r}) (rename_path ex p q)"
  unfolding rename_path_def
  by (rule keeps_syscall)
    (auto simp: d_get_move_tree split: option.splits node.splits if_splits)

lemma touch_create_parent:
  "keeps (touch {q. strict_prefix q p}) (create_parent ex p)"
proof (cases "parent p")
  case None
  then show ?thesis by (simp add: create_parent_def fs.keeps_ok)
next
  case (Some q)
  then have "{r. r \<noteq> [] \<and> prefix r q} \<subseteq> {r. strict_prefix r p}"
    by (auto simp: parent_def strict_prefix_def split: list.splits if_splits)
  with Some show ?thesis
    using keeps_touch_mono [OF touch_create_dir_all] by (simp add: create_parent_def)
qed

section \<open>Atomic replacement of a file\<close>

lemma show_nat_digits: "set (show_nat n) \<subseteq> digit_char ` {..<10}"
proof (induction n rule: show_nat.induct)
  case (1 n)
  then show ?case by (subst show_nat.simps) auto
qed

lemma show_nat_no_slash: "CHR ''/'' \<notin> set (show_nat n)"
proof
  assume "CHR ''/'' \<in> set (show_nat n)"
  then obtain d where "d < 10" and "CHR ''/'' = digit_char d"
    using show_nat_digits by blast
  then have "(of_char (CHR ''/'') :: nat) = 48 + d"
    by (simp add: digit_char_def)
  then show False by simp
qed

lemma plain_temp_name: "plain_segment s \<Longrightarrow> plain_segment (temp_name s i n c)"
  using show_nat_no_slash by (auto simp: plain_segment_def temp_name_def)

lemma temp_name_neq: "temp_name s i n c \<noteq> s"
proof -
  have "length s < length (temp_name s i n c)" by (simp add: temp_name_def)
  then show ?thesis by auto
qed

lemma temp_path_value:
  assumes "plain_segment s"
  obtains t w' where "temp_path ex (q @ [s]) w = (Inr (q @ [t]), w')" and "plain_segment t"
    and "t \<noteq> s" and "disk w' = disk w" and "more w' = more w"
  using assms plain_temp_name [OF assms] temp_name_neq [of s]
  by (auto simp: temp_path_def read_clock_def Let_def res_simps with_file_name_plain)

lemma siblings_parallel: "s \<noteq> t \<Longrightarrow> \<not> prefix (q @ [s]) (q @ [t])"
  by auto

lemma triple_touch:
  assumes "keeps (touch S) m" and "A \<inter> S = {}"
  shows "triple (\<lambda>w. \<forall>r \<in> A. d_get (disk w) r = f r) m
    (\<lambda>_ w. \<forall>r \<in> A. d_get (disk w) r = f r) (\<lambda>_ w. \<forall>r \<in> A. d_get (disk w) r = f r)"
  by (rule triple_keeps [OF assms(1)]) (use assms(2) in \<open>auto simp: touch_def\<close>)

lemma triple_syscall:
  assumes "\<And>w e. P w \<Longrightarrow> fault ex (tick w) = Some e
      \<Longrightarrow> E (OtherIo e) (w\<lparr>tick := Suc (tick w), disk := part (tick w) (disk w)\<rparr>)"
    and "\<And>w e. P w \<Longrightarrow> f (disk w) = Inl e \<Longrightarrow> E e (w\<lparr>tick := Suc (tick w)\<rparr>)"
    and "\<And>w x d. P w \<Longrightarrow> f (disk w) = Inr (x, d) \<Longrightarrow> Q x (w\<lparr>tick := Suc (tick w), disk := d\<rparr>)"
  shows "triple P (syscall ex part f) Q E"
  using assms
  by (auto simp: triple_def syscall_def Let_def split: option.splits sum.splits prod.splits)

text \<open>
  Around an atomic write in directory \<open>q\<close>: the temporary sibling \<open>t\<close> holds \<open>n\<close>, the target \<open>s\<close>
  holds \<open>old\<close>, every other entry \<open>u\<close> of the directory is as \<open>f\<close> says.
\<close>

definition staged ::
  "path \<Rightarrow> string \<Rightarrow> string \<Rightarrow> 'b node option \<Rightarrow> 'b node option \<Rightarrow> (string \<Rightarrow> 'b node option)
   \<Rightarrow> ('b, 'z) world_scheme \<Rightarrow> bool" where
  "staged q s t old n f w \<longleftrightarrow> d_get (disk w) (q @ [s]) = old \<and> d_get (disk w) (q @ [t]) = n
     \<and> (\<forall>u. u \<noteq> s \<longrightarrow> u \<noteq> t \<longrightarrow> d_get (disk w) (q @ [u]) = f u)"

lemma staged_touch:
  assumes "touch S w w'" and "\<And>u. q @ [u] \<notin> S"
  shows "staged q s t old n f w' = staged q s t old n f w"
  using assms by (simp add: touch_def staged_def)

lemma triple_staged:
  assumes "keeps (touch S) m" and "\<And>u. q @ [u] \<notin> S"
  shows "triple (staged q s t old n f) m (\<lambda>_. staged q s t old n f) (\<lambda>_. staged q s t old n f)"
  by (rule triple_keeps [OF assms(1)]) (simp add: staged_touch [OF _ assms(2)])

lemma siblings_not_above [simp]: "\<not> strict_prefix (q @ [u]) (q @ [s])"
  by (auto simp: strict_prefix_def)

lemma rename_sibling:
  assumes "s \<noteq> t"
  shows "triple (staged q s t old (Some n) f) (rename_path ex (q @ [t]) (q @ [s]))
    (\<lambda>_. staged q s t (Some n) None f) (\<lambda>_ w. d_get (disk w) (q @ [s]) = old)"
  unfolding rename_path_def
  by (rule triple_syscall)
    (use assms in \<open>auto simp: staged_def d_get_move_tree split: if_splits node.splits\<close>)

lemma publish_atomic_file_triple:
  assumes "s \<noteq> t"
  shows "triple (staged q s t old (Some n) f) (publish_atomic_file ex (q @ [t]) (q @ [s]))
    (\<lambda>_. staged q s t (Some n) None f) (\<lambda>_ w. d_get (disk w) (q @ [s]) \<in> {old, Some n})"
  unfolding publish_atomic_file_def
proof (intro triple_andThen triple_ok)
  let ?E = "\<lambda>_ w. d_get (disk w) (q @ [s]) \<in> {old, Some n}"
  show "triple (staged q s t old (Some n) f) (create_parent ex (q @ [s]))
      (\<lambda>_. staged q s t old (Some n) f) ?E"
    by (rule triple_conseq [OF triple_staged [OF touch_create_parent]]) (auto simp: staged_def)
  show "triple (staged q s t old (Some n) f) (sync_file ex (q @ [t]))
      (\<lambda>_. staged q s t old (Some n) f) ?E"
    by (rule triple_conseq [OF triple_staged [OF touch_sync_file [where S = "{}"]]])
      (auto simp: staged_def)
  show "triple (staged q s t old (Some n) f) (rename_path ex (q @ [t]) (q @ [s]))
      (\<lambda>_. staged q s t (Some n) None f) ?E"
    by (rule triple_conseq [OF rename_sibling [OF assms]]) auto
  show "triple (staged q s t (Some n) None f) (sync_parent ex (q @ [s]))
      (\<lambda>_. staged q s t (Some n) None f) ?E"
    by (rule triple_conseq [OF triple_staged [OF touch_sync_parent [where S = "{}"]]])
      (auto simp: staged_def)
qed

lemma write_temp_triple:
  assumes "s \<noteq> t"
  shows "triple (staged q s t old (f t) f)
    (andThen (create_new_file ex (q @ [t])) (\<lambda>_. andThen (write_all ex (q @ [t]) body) (\<lambda>_.
       andThen (flush ex) (\<lambda>_. publish_atomic_file ex (q @ [t]) (q @ [s])))))
    (\<lambda>_. staged q s t (Some (File body)) (f t) f)
    (\<lambda>_ w. d_get (disk w) (q @ [s]) \<in> {old, Some (File body)})"
proof (cases "f t")
  case None
  show ?thesis
  proof (intro triple_andThen)
    let ?E = "\<lambda>_ w. d_get (disk w) (q @ [s]) \<in> {old, Some (File body)}"
    show "triple (staged q s t old (f t) f) (create_new_file ex (q @ [t]))
        (\<lambda>_. staged q s t old (Some (File (empty_body ex))) f) ?E"
      unfolding create_new_file_def
      by (rule triple_syscall) (use assms in \<open>auto simp: staged_def split: if_splits\<close>)
    show "triple (staged q s t old (Some (File (empty_body ex))) f) (write_all ex (q @ [t]) body)
        (\<lambda>_. staged q s t old (Some (File body)) f) ?E"
      unfolding write_all_def
      by (rule triple_syscall) (use assms in \<open>auto simp: staged_def\<close>)
    show "triple (staged q s t old (Some (File body)) f) (flush ex)
        (\<lambda>_. staged q s t old (Some (File body)) f) ?E"
      by (rule triple_conseq [OF triple_staged [OF touch_readonly(1) [where S = "{}"]]])
        (auto simp: staged_def)
    show "triple (staged q s t old (Some (File body)) f) (publish_atomic_file ex (q @ [t]) (q @ [s]))
        (\<lambda>_. staged q s t (Some (File body)) (f t) f) ?E"
      unfolding None by (rule publish_atomic_file_triple [OF assms])
  qed
next
  case (Some n)
  have "triple (staged q s t old (f t) f) (create_new_file ex (q @ [t])) (\<lambda>_ _. False)
      (\<lambda>_ w. d_get (disk w) (q @ [s]) \<in> {old, Some (File body)})"
    unfolding create_new_file_def
    by (rule triple_syscall) (auto simp: staged_def Some split: if_splits)
  then show ?thesis
    by (rule triple_andThen) (simp add: triple_def)
qed

lemma write_atomic_file_triple:
  assumes "plain_segment s"
  shows "triple (\<lambda>w. d_get (disk w) (q @ [s]) = old \<and> (\<forall>u. u \<noteq> s \<longrightarrow> d_get (disk w) (q @ [u]) = f u))
    (write_atomic_file ex (q @ [s]) body)
    (\<lambda>_ w. d_get (disk w) (q @ [s]) = Some (File body) \<and> (\<forall>u. u \<noteq> s \<longrightarrow> d_get (disk w) (q @ [u]) = f u))
    (\<lambda>_ w. d_get (disk w) (q @ [s]) \<in> {old, Some (File body)})"
  unfolding write_atomic_file_def
proof (intro triple_andThen)
  let ?P = "\<lambda>w. d_get (disk w) (q @ [s]) = old \<and> (\<forall>u. u \<noteq> s \<longrightarrow> d_get (disk w) (q @ [u]) = f u)"
  let ?E = "\<lambda>(_ :: io_error) w. d_get (disk w) (q @ [s]) \<in> {old, Some (File body)}"
  let ?T = "\<lambda>tmp w. \<exists>t. tmp = q @ [t] \<and> t \<noteq> s \<and> staged q s t old (f t) f w"
  show "triple ?P (create_parent ex (q @ [s])) (\<lambda>_. ?P) ?E"
    by (rule triple_conseq [OF triple_keeps [OF touch_create_parent, where P = ?P]])
      (auto simp: touch_def strict_prefix_def dest: prefix_length_le)
  show "triple ?P (temp_path ex (q @ [s])) ?T ?E"
  proof (rule tripleI)
    fix w assume P: "?P w"
    obtain t w'' where tp: "temp_path ex (q @ [s]) w = (Inr (q @ [t]) :: io_error + path, w'')" "t \<noteq> s" "disk w'' = disk w"
      by (rule temp_path_value [OF assms])
    then show "?T x w'" if "temp_path ex (q @ [s]) w = (Inr x :: io_error + path, w')" for x w'
      using that P by (auto simp: staged_def)
    show "?E e w'" if "temp_path ex (q @ [s]) w = (Inl e :: io_error + path, w')" for e w'
      using that tp by simp
  qed
  fix tmp
  show "triple (?T tmp) (on_err (andThen (create_new_file ex tmp) (\<lambda>_.
      andThen (write_all ex tmp body) (\<lambda>_. andThen (flush ex) (\<lambda>_.
      publish_atomic_file ex tmp (q @ [s]))))) (remove_file ex tmp))
    (\<lambda>_ w. d_get (disk w) (q @ [s]) = Some (File body) \<and> (\<forall>u. u \<noteq> s \<longrightarrow> d_get (disk w) (q @ [u]) = f u)) ?E"
  proof (cases "\<exists>t. tmp = q @ [t] \<and> t \<noteq> s")
    case True
    then obtain t where t: "tmp = q @ [t]" "s \<noteq> t" by auto
    have clean: "triple (?E e) (remove_file ex tmp) (\<lambda>_. ?E e) (\<lambda>_. ?E e)" for e :: io_error
      by (rule triple_keeps [OF touch_remove_file]) (use t in \<open>auto simp: touch_def\<close>)
    show ?thesis unfolding t(1)
    proof (rule triple_on_err [OF triple_conseq clean [unfolded t(1)]])
      show "triple (staged q s t old (f t) f) (andThen (create_new_file ex (q @ [t])) (\<lambda>_.
          andThen (write_all ex (q @ [t]) body) (\<lambda>_. andThen (flush ex) (\<lambda>_.
          publish_atomic_file ex (q @ [t]) (q @ [s])))))
        (\<lambda>_. staged q s t (Some (File body)) (f t) f) ?E"
        by (rule write_temp_triple [OF t(2)])
    qed (use t in \<open>auto simp: staged_def\<close>)
  qed (auto simp: triple_def)
qed

text \<open>The directory of the file, what is above it and what is below it.\<close>

definition around :: "path \<Rightarrow> path set" where
  "around q = {r. prefix r q \<or> prefix q r}"

lemma around_above: "{r. strict_prefix r (q @ [s])} \<subseteq> around q"
  by (auto simp: around_def strict_prefix_def)

lemma around_below: "{r. prefix (q @ p) r} \<subseteq> around q"
  by (auto simp: around_def prefix_def)

lemma touch_write_atomic_file:
  assumes "plain_segment s"
  shows "keeps (touch (around q)) (write_atomic_file ex (q @ [s]) body)"
  unfolding write_atomic_file_def
proof (rule fs.keeps_andThen [OF keeps_touch_mono [OF touch_create_parent around_above]],
    unfold keeps_def, rule allI)
  fix w :: "('a, 'b) world_scheme"
  obtain t w' where t: "temp_path ex (q @ [s]) w = (Inr (q @ [t]) :: io_error + path, w')" "disk w' = disk w"
    "more w' = more w"
    by (rule temp_path_value [OF assms])
  have run: "andThen (temp_path ex (q @ [s])) f w = f (q @ [t]) w'"
    for f :: "path \<Rightarrow> (('a, 'b) world_scheme, io_error, unit) comp"
    using t(1) by (rule andThen_run)
  have w': "touch (around q) w w'" using t(2,3) by (simp add: touch_def)
  have k: "keeps (touch (around q)) (on_err (andThen (create_new_file ex (q @ [t])) (\<lambda>_.
      andThen (write_all ex (q @ [t]) body) (\<lambda>_. andThen (flush ex) (\<lambda>_.
      publish_atomic_file ex (q @ [t]) (q @ [s]))))) (remove_file ex (q @ [t])))"
    unfolding on_err_def publish_atomic_file_def
    by (intro pres_intros keeps_touch_mono [OF touch_create_new_file]
        keeps_touch_mono [OF touch_write_all] keeps_touch_mono [OF touch_remove_file]
        keeps_touch_mono [OF touch_rename_path] keeps_touch_mono [OF touch_create_parent around_above])
      (auto simp: around_def prefix_def)
  show "touch (around q) w (snd (andThen (temp_path ex (q @ [s])) (\<lambda>tmp.
      on_err (andThen (create_new_file ex tmp) (\<lambda>_. andThen (write_all ex tmp body) (\<lambda>_.
      andThen (flush ex) (\<lambda>_. publish_atomic_file ex tmp (q @ [s]))))) (remove_file ex tmp)) w))"
    unfolding run by (rule fs.trans [OF w' keepsD [OF k]])
qed

subsection \<open>The directories on the way exist afterwards\<close>

definition dirs_ok :: "path \<Rightarrow> ('b, 'z) world_scheme \<Rightarrow> bool" where
  "dirs_ok q w \<longleftrightarrow> (\<forall>r. r \<noteq> [] \<longrightarrow> prefix r q \<longrightarrow> d_get (disk w) r = Some Dir)"

lemma not_is_file: "\<not> is_file d p \<longleftrightarrow> d_get d p = None \<or> d_get d p = Some Dir"
  by (auto simp: is_file_def split: option.splits node.splits)

lemma create_dir_all_dirs_ok:
  assumes "create_dir_all ex q w = (Inr (), w')"
  shows "dirs_ok q w'"
proof -
  have "\<not> is_file (disk w) r" if "r \<noteq> []" "prefix r q" for r
    using assms that
    by (auto simp: create_dir_all_def syscall_def Let_def set_ancestors split: option.splits if_splits)
  moreover have "disk w' = d_add_dirs (ancestors q) (disk w)"
    using assms by (auto simp: create_dir_all_def syscall_def Let_def split: option.splits if_splits)
  ultimately show ?thesis
    by (fastforce simp: dirs_ok_def set_ancestors not_is_file split: option.splits)
qed

lemma dirs_ok_pres:
  "keeps (touch S) m \<Longrightarrow> (\<And>r. r \<in> S \<Longrightarrow> \<not> prefix r q) \<Longrightarrow> pres (dirs_ok q) m"
  unfolding keeps_def touch_def dirs_ok_def by metis

lemma dirs_ok_create_dir_all: "pres (dirs_ok q) (create_dir_all ex p)"
  by (auto simp: keeps_def create_dir_all_def syscall_def Let_def dirs_ok_def
      split: option.splits if_splits)

lemma dirs_ok_create_parent: "pres (dirs_ok q) (create_parent ex p)"
  unfolding create_parent_def by (intro pres_intros dirs_ok_create_dir_all)

lemma not_prefix_below: "prefix (q @ [t]) r \<Longrightarrow> \<not> prefix r q"
  using prefix_length_le prefix_order.trans by fastforce

lemma dirs_ok_write_rest:
  "pres (dirs_ok q) (on_err (andThen (create_new_file ex (q @ [t])) (\<lambda>_.
      andThen (write_all ex (q @ [t]) body) (\<lambda>_. andThen (flush ex) (\<lambda>_.
      publish_atomic_file ex (q @ [t]) (q @ [s]))))) (remove_file ex (q @ [t])))"
  unfolding on_err_def publish_atomic_file_def
  by (intro inv.keeps_andThen inv.keeps_try_case inv.keeps_ignore inv.keeps_ok inv.keeps_err
      dirs_ok_create_parent dirs_ok_pres [OF touch_create_new_file] dirs_ok_pres [OF touch_write_all]
      dirs_ok_pres [OF touch_remove_file] dirs_ok_pres [OF touch_rename_path]
      dirs_ok_pres [OF touch_sync_file [where S = "{}"]]
      dirs_ok_pres [OF touch_sync_parent [where S = "{}"]]
      dirs_ok_pres [OF touch_readonly(1) [where S = "{}"]])
    (auto dest: not_prefix_below)

lemma write_atomic_file_dirs:
  assumes "plain_segment s" and "write_atomic_file ex (q @ [s]) body w = (Inr (), w')"
  shows "dirs_ok q w'"
proof -
  obtain w1 where w1: "create_dir_all ex q w = (Inr (), w1)"
    and rest: "andThen (temp_path ex (q @ [s])) (\<lambda>tmp.
      on_err (andThen (create_new_file ex tmp) (\<lambda>_. andThen (write_all ex tmp body) (\<lambda>_.
      andThen (flush ex) (\<lambda>_. publish_atomic_file ex tmp (q @ [s]))))) (remove_file ex tmp)) w1
      = (Inr (), w')"
    using assms by (auto simp: write_atomic_file_def create_parent_def andThen_ok_iff
        parent_snoc_plain)
  obtain t w2 where t: "temp_path ex (q @ [s]) w1 = (Inr (q @ [t]) :: io_error + path, w2)"
    "disk w2 = disk w1"
    by (rule temp_path_value [OF assms(1)])
  have "dirs_ok q w2"
    using create_dir_all_dirs_ok [OF w1] t(2) by (simp add: dirs_ok_def)
  with keepsD' [OF dirs_ok_write_rest rest [unfolded andThen_run [where m = "temp_path ex (q @ [s])",
      OF t(1)]]]
  show ?thesis by simp
qed

section \<open>Properties\<close>

text \<open>
  C1. \<open>write_atomic_file\<close> replaces a file or leaves it alone, whatever system call fails: the
  target holds the old content or the complete new one, never a part. When it returns \<open>Ok\<close> the
  target holds the new content and every other entry of its directory is what it was (no temporary
  file is left), and in every case nothing outside the directory and its ancestors changes.
\<close>

theorem write_atomic_file_atomic:
  assumes "plain_segment s"
  shows "case write_atomic_file ex (q @ [s]) body w of (r, w') \<Rightarrow>
    d_get (disk w') (q @ [s]) \<in> {d_get (disk w) (q @ [s]), Some (File body)}
    \<and> (r = Inr () \<longrightarrow> d_get (disk w') (q @ [s]) = Some (File body)
        \<and> (\<forall>u. u \<noteq> s \<longrightarrow> d_get (disk w') (q @ [u]) = d_get (disk w) (q @ [u])))
    \<and> touch (around q) w w'"
proof -
  obtain r w' where run: "write_atomic_file ex (q @ [s]) body w = (r, w')" by force
  note t = write_atomic_file_triple [OF assms, of q "d_get (disk w) (q @ [s])"
      "\<lambda>u. d_get (disk w) (q @ [u])" ex body]
  have "touch (around q) w w'"
    by (rule keepsD' [OF touch_write_atomic_file [OF assms] run])
  then show ?thesis
    using tripleD_ok [OF t _ , of w] tripleD_err [OF t _, of w] run by (cases r) auto
qed

definition quiet_ext :: "string ext" where
  "quiet_ext = \<lparr>now = (\<lambda>t. int t), pid = 7, uuid = (\<lambda>_. ''u''), fault = (\<lambda>_. None),
     empty_body = [], torn = (\<lambda>_. []), survives = (\<lambda>_ _. True), made = (\<lambda>_. 0)\<rparr>"

theorem write_atomic_file_atomic_witness:
  "case write_atomic_file quiet_ext ([''/'', ''run''] @ [''state.json'']) ''new''
      \<lparr>tick = 0, tmp_counter = 0, disk = [([''/'', ''run'', ''state.json''], File ''old'')]\<rparr> of (r, w') \<Rightarrow>
    r = Inr () \<and> d_get (disk w') [''/'', ''run'', ''state.json''] = Some (File ''new'')"
proof -
  let ?w = "\<lparr>tick = 0, tmp_counter = 0, disk = [([''/'', ''run'', ''state.json''], File ''old'')]\<rparr>"
  let ?run = "write_atomic_file quiet_ext ([''/'', ''run''] @ [''state.json'']) ''new'' ?w"
  have "fst ?run = Inr ()" by code_simp
  moreover have "plain_segment ''state.json''" by simp
  ultimately show ?thesis
    using write_atomic_file_atomic [where s = "''state.json''" and ex = quiet_ext
        and q = "[''/'', ''run'']" and body = "''new''" and w = ?w]
    by (simp add: case_prod_beta)
qed

end
