(* ===== verification/Locks.thy ===== *)
theory Locks
  imports Prelude
begin

text \<open>
  The named locks of \<open>oad/src/registry.rs\<close>: \<open>NamedLocks\<close> (one mutex per snapshot name) and the
  lifecycle locks of the registry (one mutex per sandbox id). Both keep a map from a key to a slot
  with a mutex and a count of holders; a task registers as a holder before it waits for the mutex,
  and whoever gives up (a cancelled waiter, a dropped guard) decrements the count and prunes the
  slot at zero. Tasks interleave freely, so the protocol is a step relation; the mutex itself
  belongs to the async runtime, and its grant decision is a parameter.
\<close>

section \<open>Slots\<close>

text \<open>Mutexes are identified by numbers, allocated in increasing order.\<close>

record NamedLockSlot =
  nl_lock :: nat
  nl_holders :: nat

record LockSlot =
  lc_lock :: nat
  lc_holders :: nat

type_synonym named_table = "(string, NamedLockSlot) btree_map"
type_synonym lifecycle_table = "(string, LockSlot) btree_map"

text \<open>
  The first part of \<open>acquire\<close>, under the map's own lock: find or insert the slot, count this task
  as a holder, and clone the mutex (\<open>fresh\<close> is the mutex a new slot gets).
\<close>

definition NamedLocks_acquire :: "nat \<Rightarrow> string \<Rightarrow> named_table \<Rightarrow> nat \<times> named_table" where
  "NamedLocks_acquire fresh key locks =
     (let slot = (case bt_get locks key of Some slot \<Rightarrow> slot
            | None \<Rightarrow> \<lparr>nl_lock = fresh, nl_holders = 0\<rparr>);
          slot = slot\<lparr>nl_holders := nl_holders slot + 1\<rparr>
      in (nl_lock slot, bt_insert key slot locks))"

definition drop_PendingHolder :: "string \<Rightarrow> named_table \<Rightarrow> named_table" where
  "drop_PendingHolder key locks = (case bt_get locks key of
       None \<Rightarrow> locks
     | Some slot \<Rightarrow>
         (let slot = slot\<lparr>nl_holders := nl_holders slot - 1\<rparr> in
          if nl_holders slot = 0 then bt_remove key locks else bt_insert key slot locks))"

definition drop_NamedLockGuard :: "string \<Rightarrow> named_table \<Rightarrow> named_table" where
  "drop_NamedLockGuard key locks = (case bt_get locks key of
       None \<Rightarrow> locks
     | Some slot \<Rightarrow>
         (let slot = slot\<lparr>nl_holders := nl_holders slot - 1\<rparr> in
          if nl_holders slot = 0 then bt_remove key locks else bt_insert key slot locks))"

definition acquire_lifecycle :: "nat \<Rightarrow> string \<Rightarrow> lifecycle_table \<Rightarrow> nat \<times> lifecycle_table" where
  "acquire_lifecycle fresh key locks =
     (let slot = (case bt_get locks key of Some slot \<Rightarrow> slot
            | None \<Rightarrow> \<lparr>lc_lock = fresh, lc_holders = 0\<rparr>);
          slot = slot\<lparr>lc_holders := lc_holders slot + 1\<rparr>
      in (lc_lock slot, bt_insert key slot locks))"

definition drop_LifecycleGuard :: "string \<Rightarrow> lifecycle_table \<Rightarrow> lifecycle_table" where
  "drop_LifecycleGuard key locks = (case bt_get locks key of
       None \<Rightarrow> locks
     | Some slot \<Rightarrow>
         (let slot = slot\<lparr>lc_holders := lc_holders slot - 1\<rparr> in
          if lc_holders slot = 0 then bt_remove key locks else bt_insert key slot locks))"

definition drop_PendingLifecycleHolder :: "string \<Rightarrow> lifecycle_table \<Rightarrow> lifecycle_table" where
  "drop_PendingLifecycleHolder key locks = (case bt_get locks key of
       None \<Rightarrow> locks
     | Some slot \<Rightarrow>
         (let slot = slot\<lparr>lc_holders := lc_holders slot - 1\<rparr> in
          if lc_holders slot = 0 then bt_remove key locks else bt_insert key slot locks))"

section \<open>The protocol\<close>

text \<open>
  A task waits with its pending holder armed, holds the guard, or is in the middle of the guard's
  drop: the explicit \<open>Drop\<close> has run and the owned mutex guard, a field, is dropped after it.
\<close>

datatype phase = Idle | Waiting string nat | Held string nat | Releasing nat

record 't lock_state =
  table :: 't
  next_lock :: nat
  owner :: "nat \<Rightarrow> nat option"
  phases :: "nat \<Rightarrow> phase"

definition init_locks :: "'t \<Rightarrow> 't lock_state" where
  "init_locks empty_table = \<lparr>table = empty_table, next_lock = 0, owner = (\<lambda>_. None), phases = (\<lambda>_. Idle)\<rparr>"

text \<open>
  \<open>grant ow l t\<close>: the runtime's mutex \<open>l\<close> may be given to the waiting task \<open>t\<close> when the owners are
  \<open>ow\<close>. A mutex documents that it is held by one task at a time.
\<close>

definition mutex_exclusive :: "((nat \<Rightarrow> nat option) \<Rightarrow> nat \<Rightarrow> nat \<Rightarrow> bool) \<Rightarrow> bool" where
  "mutex_exclusive grant \<longleftrightarrow> (\<forall>ow l t. grant ow l t \<longrightarrow> ow l = None)"

inductive lock_step ::
  "(nat \<Rightarrow> string \<Rightarrow> 't \<Rightarrow> nat \<times> 't) \<Rightarrow> (string \<Rightarrow> 't \<Rightarrow> 't) \<Rightarrow> (string \<Rightarrow> 't \<Rightarrow> 't)
   \<Rightarrow> ((nat \<Rightarrow> nat option) \<Rightarrow> nat \<Rightarrow> nat \<Rightarrow> bool) \<Rightarrow> 't lock_state \<Rightarrow> 't lock_state \<Rightarrow> bool"
  for acq pend guard grant
where
  enter: "phases s t = Idle \<Longrightarrow> acq (next_lock s) k (table s) = (l, tb) \<Longrightarrow>
     lock_step acq pend guard grant s
       (s\<lparr>table := tb, next_lock := Suc (next_lock s), phases := (phases s)(t := Waiting k l)\<rparr>)"
| granted: "phases s t = Waiting k l \<Longrightarrow> grant (owner s) l t \<Longrightarrow>
     lock_step acq pend guard grant s
       (s\<lparr>owner := (owner s)(l \<mapsto> t), phases := (phases s)(t := Held k l)\<rparr>)"
| cancel: "phases s t = Waiting k l \<Longrightarrow>
     lock_step acq pend guard grant s
       (s\<lparr>table := pend k (table s), phases := (phases s)(t := Idle)\<rparr>)"
| leave: "phases s t = Held k l \<Longrightarrow>
     lock_step acq pend guard grant s
       (s\<lparr>table := guard k (table s), phases := (phases s)(t := Releasing l)\<rparr>)"
| unlock: "phases s t = Releasing l \<Longrightarrow>
     lock_step acq pend guard grant s
       (s\<lparr>owner := (owner s)(l := None), phases := (phases s)(t := Idle)\<rparr>)"

inductive reachable_locks ::
  "(nat \<Rightarrow> string \<Rightarrow> 't \<Rightarrow> nat \<times> 't) \<Rightarrow> (string \<Rightarrow> 't \<Rightarrow> 't) \<Rightarrow> (string \<Rightarrow> 't \<Rightarrow> 't)
   \<Rightarrow> ((nat \<Rightarrow> nat option) \<Rightarrow> nat \<Rightarrow> nat \<Rightarrow> bool) \<Rightarrow> 't \<Rightarrow> 't lock_state \<Rightarrow> bool"
  for acq pend guard grant empty_table
where
  start: "reachable_locks acq pend guard grant empty_table (init_locks empty_table)"
| step: "reachable_locks acq pend guard grant empty_table s \<Longrightarrow> lock_step acq pend guard grant s s'
     \<Longrightarrow> reachable_locks acq pend guard grant empty_table s'"

text \<open>The tasks that count as holders of a key, and the mutex each of them refers to.\<close>

fun claim :: "phase \<Rightarrow> (string \<times> nat) option" where
  "claim (Waiting k l) = Some (k, l)"
| "claim (Held k l) = Some (k, l)"
| "claim _ = None"

definition claimants :: "'t lock_state \<Rightarrow> string \<Rightarrow> nat set" where
  "claimants s k = {t. \<exists>l. claim (phases s t) = Some (k, l)}"

section \<open>The contract of a slot table\<close>

text \<open>\<open>slot tb k\<close> is the mutex and the holder count that the table has for a key.\<close>

locale slot_table =
  fixes acq :: "nat \<Rightarrow> string \<Rightarrow> 't \<Rightarrow> nat \<times> 't"
    and pend :: "string \<Rightarrow> 't \<Rightarrow> 't"
    and guard :: "string \<Rightarrow> 't \<Rightarrow> 't"
    and slot :: "'t \<Rightarrow> string \<Rightarrow> (nat \<times> nat) option"
    and empty_table :: "'t"
  assumes slot_empty: "slot empty_table k = None"
    and acq_new: "slot tb k = None \<Longrightarrow> fst (acq n k tb) = n \<and> slot (snd (acq n k tb)) = (slot tb)(k \<mapsto> (n, 1))"
    and acq_old: "slot tb k = Some (l, h) \<Longrightarrow>
      fst (acq n k tb) = l \<and> slot (snd (acq n k tb)) = (slot tb)(k \<mapsto> (l, Suc h))"
    and pend_slot: "slot tb k = Some (l, h) \<Longrightarrow>
      slot (pend k tb) = (slot tb)(k := if h \<le> 1 then None else Some (l, h - 1))"
    and guard_slot: "slot tb k = Some (l, h) \<Longrightarrow>
      slot (guard k tb) = (slot tb)(k := if h \<le> 1 then None else Some (l, h - 1))"
begin

text \<open>
  The invariant. With \<open>L k\<close> the current mutex of a key: a slot exists exactly for the keys that some
  task claims, with the exact count; every claimant refers to the slot's mutex; slots of different
  keys have different mutexes; a mutex is owned by the task that holds its guard or is about to
  release it.
\<close>

definition slots_inv :: "(string \<Rightarrow> nat) \<Rightarrow> 't lock_state \<Rightarrow> bool" where
  "slots_inv L s \<longleftrightarrow>
     (\<forall>k. finite (claimants s k) \<and> slot (table s) k =
        (if claimants s k = {} then None else Some (L k, card (claimants s k)))) \<and>
     (\<forall>k. claimants s k \<noteq> {} \<longrightarrow> L k < next_lock s) \<and>
     (\<forall>j k. claimants s j \<noteq> {} \<longrightarrow> claimants s k \<noteq> {} \<longrightarrow> L j = L k \<longrightarrow> j = k)"

definition refs_inv :: "(string \<Rightarrow> nat) \<Rightarrow> 't lock_state \<Rightarrow> bool" where
  "refs_inv L s \<longleftrightarrow> (\<forall>t k l. claim (phases s t) = Some (k, l) \<longrightarrow> l = L k)"

definition owner_inv :: "'t lock_state \<Rightarrow> bool" where
  "owner_inv s \<longleftrightarrow> (\<forall>l t. owner s l = Some t \<longleftrightarrow> (\<exists>k. phases s t = Held k l) \<or> phases s t = Releasing l)"

definition lock_inv :: "'t lock_state \<Rightarrow> bool" where
  "lock_inv s \<longleftrightarrow> (\<exists>L. slots_inv L s \<and> refs_inv L s) \<and> owner_inv s"

lemma claimants_phases:
  "claimants (s\<lparr>phases := (phases s)(t := p)\<rparr>) k =
     (if \<exists>l. claim p = Some (k, l) then insert t (claimants s k) else claimants s k - {t})"
  by (auto simp: claimants_def)

lemma claimants_frame [simp]:
  "claimants (s\<lparr>table := tb\<rparr>) k = claimants s k"
  "claimants (s\<lparr>next_lock := n\<rparr>) k = claimants s k"
  "claimants (s\<lparr>owner := ow\<rparr>) k = claimants s k"
  by (simp_all add: claimants_def)

lemma claimants_at: "claim (phases s t) = Some (k, l) \<Longrightarrow> t \<in> claimants s j \<longleftrightarrow> j = k"
  by (auto simp: claimants_def)

lemma claimants_idle: "claim (phases s t) = None \<Longrightarrow> t \<notin> claimants s k"
  by (auto simp: claimants_def)

text \<open>Giving up a claim, through the pending holder or through the guard.\<close>

lemma slots_inv_release:
  assumes inv: "slots_inv L s" "refs_inv L s" and t: "claim (phases s t) = Some (k, l)"
    and p: "claim p = None"
    and rel: "\<And>l h. slot (table s) k = Some (l, h) \<Longrightarrow>
      slot tb = (slot (table s))(k := if h \<le> 1 then None else Some (l, h - 1))"
  shows "slots_inv L (s\<lparr>table := tb, phases := (phases s)(t := p)\<rparr>)"
    and "refs_inv L (s\<lparr>table := tb, phases := (phases s)(t := p)\<rparr>)"
proof -
  let ?s = "s\<lparr>table := tb, phases := (phases s)(t := p)\<rparr>"
  have cl: "claimants ?s j = (if j = k then claimants s k - {t} else claimants s j)" for j
    using claimants_phases [of "s\<lparr>table := tb\<rparr>" t p j] p claimants_at [OF t, of j] by auto
  have k: "t \<in> claimants s k" and fin: "finite (claimants s k)"
    using claimants_at [OF t] inv by (auto simp: slots_inv_def)
  have slot_k: "slot (table s) k = Some (L k, card (claimants s k))"
    using inv(1) k by (auto simp: slots_inv_def)
  have card: "card (claimants s k - {t}) = card (claimants s k) - 1"
    using k fin by simp
  have "claimants s k - {t} = {} \<longleftrightarrow> card (claimants s k) \<le> 1"
    using card fin k by (metis card_0_eq card_gt_0_iff diff_is_0_eq finite_Diff)
  then show "slots_inv L ?s"
    using inv(1) card by (auto simp: slots_inv_def cl rel [OF slot_k]) (metis empty_iff)+
  show "refs_inv L ?s"
    using inv(2) p by (auto simp: refs_inv_def)
qed

lemma slots_inv_enter:
  assumes inv: "slots_inv L s" "refs_inv L s" and t: "phases s t = Idle"
    and acq: "acq (next_lock s) k (table s) = (l, tb)"
  shows "\<exists>L'. slots_inv L' (s\<lparr>table := tb, next_lock := Suc (next_lock s),
      phases := (phases s)(t := Waiting k l)\<rparr>)
    \<and> refs_inv L' (s\<lparr>table := tb, next_lock := Suc (next_lock s),
      phases := (phases s)(t := Waiting k l)\<rparr>)"
proof -
  let ?s = "s\<lparr>table := tb, next_lock := Suc (next_lock s), phases := (phases s)(t := Waiting k l)\<rparr>"
  have nt: "t \<notin> claimants s j" for j using t by (simp add: claimants_idle)
  have cl: "claimants ?s j = (if j = k then insert t (claimants s k) else claimants s j)" for j
    using claimants_phases [of "s\<lparr>table := tb, next_lock := Suc (next_lock s)\<rparr>" t "Waiting k l" j]
      nt by auto
  have fin: "finite (claimants s k)" using inv(1) by (simp add: slots_inv_def)
  have card: "card (insert t (claimants s k)) = Suc (card (claimants s k))"
    using fin nt by simp
  show ?thesis
  proof (cases "claimants s k = {}")
    case True
    then have "slot (table s) k = None" using inv(1) by (simp add: slots_inv_def)
    from acq_new [OF this, of "next_lock s"] acq
    have l: "l = next_lock s" and tb: "slot tb = (slot (table s))(k \<mapsto> (next_lock s, 1))" by auto
    have "slots_inv (L(k := next_lock s)) ?s"
      using inv(1) True card by (auto simp: slots_inv_def cl tb less_Suc_eq)
    moreover have "refs_inv (L(k := next_lock s)) ?s"
      using inv(2) True l by (auto simp: refs_inv_def claimants_def)
    ultimately show ?thesis by blast
  next
    case False
    then have old: "slot (table s) k = Some (L k, card (claimants s k))"
      using inv(1) by (simp add: slots_inv_def)
    from acq_old [OF this, of "next_lock s"] acq
    have l: "l = L k" and tb: "slot tb = (slot (table s))(k \<mapsto> (L k, Suc (card (claimants s k))))"
      by auto
    have "slots_inv L ?s"
      using inv(1) False card by (auto simp: slots_inv_def cl tb less_Suc_eq) (metis empty_iff)+
    moreover have "refs_inv L ?s"
      using inv(2) l by (auto simp: refs_inv_def)
    ultimately show ?thesis by blast
  qed
qed

lemma slots_inv_same_claims:
  assumes "slots_inv L s" "refs_inv L s" and "claim p = claim (phases s t)"
  shows "slots_inv L (s\<lparr>owner := ow, phases := (phases s)(t := p)\<rparr>)
    \<and> refs_inv L (s\<lparr>owner := ow, phases := (phases s)(t := p)\<rparr>)"
proof -
  have "claimants (s\<lparr>owner := ow, phases := (phases s)(t := p)\<rparr>) k = claimants s k" for k
    using assms(3) by (auto simp: claimants_def)
  then show ?thesis using assms by (auto simp: slots_inv_def refs_inv_def)
qed

lemma lock_inv_step:
  assumes "lock_step acq pend guard grant s s'" and "mutex_exclusive grant" and "lock_inv s"
  shows "lock_inv s'"
proof -
  obtain L where L: "slots_inv L s" "refs_inv L s" and own: "owner_inv s"
    using assms(3) by (auto simp: lock_inv_def)
  from assms(1) show ?thesis
  proof cases
    case (enter t k l tb)
    then show ?thesis
      using slots_inv_enter [OF L enter(2,3)] own by (auto simp: lock_inv_def owner_inv_def)
  next
    case (granted t k l)
    have free: "owner s l = None" using granted(3) assms(2) by (auto simp: mutex_exclusive_def)
    have "owner_inv s'"
      using own granted(1,2) free unfolding owner_inv_def
      by (auto split: if_splits) (metis option.distinct(1))+
    moreover have "\<exists>L. slots_inv L s' \<and> refs_inv L s'"
      using slots_inv_same_claims [OF L, of "Held k l" t] granted(1,2) by auto
    ultimately show ?thesis by (simp add: lock_inv_def)
  next
    case (cancel t k l)
    have "slots_inv L s' \<and> refs_inv L s'"
      using slots_inv_release [OF L _ _ pend_slot, of t k l Idle] cancel by simp
    moreover have "owner_inv s'" using own cancel by (auto simp: owner_inv_def)
    ultimately show ?thesis by (auto simp: lock_inv_def)
  next
    case (leave t k l)
    have "slots_inv L s' \<and> refs_inv L s'"
      using slots_inv_release [OF L _ _ guard_slot, of t k l "Releasing l"] leave by simp
    moreover have "owner_inv s'" using own leave by (auto simp: owner_inv_def)
    ultimately show ?thesis by (auto simp: lock_inv_def)
  next
    case (unlock t l)
    have "owner_inv s'"
      using own unlock unfolding owner_inv_def by (auto split: if_splits) (metis option.inject)+
    moreover have "\<exists>L. slots_inv L s' \<and> refs_inv L s'"
      using slots_inv_same_claims [OF L, of Idle t] unlock by auto
    ultimately show ?thesis by (simp add: lock_inv_def)
  qed
qed

lemma reachable_inv:
  assumes "reachable_locks acq pend guard grant empty_table s" and "mutex_exclusive grant"
  shows "lock_inv s"
  using assms(1)
proof (induction rule: reachable_locks.induct)
  case start
  then show ?case
    by (auto simp: lock_inv_def slots_inv_def refs_inv_def owner_inv_def init_locks_def
        claimants_def slot_empty)
next
  case (step s s')
  show ?case by (rule lock_inv_step [OF step.hyps(2) assms(2) step.IH])
qed

lemma exclusive:
  assumes "lock_inv s" and "phases s t = Held k l" and "phases s t' = Held k l'"
  shows "t = t'"
proof -
  obtain L where "refs_inv L s" and own: "owner_inv s" using assms(1) by (auto simp: lock_inv_def)
  then have "l = l'" using assms(2,3) unfolding refs_inv_def by (metis claim.simps(2))
  then have "owner s l = Some t" and "owner s l = Some t'"
    using own assms(2,3) by (auto simp: owner_inv_def)
  then show ?thesis by simp
qed

lemma exact_count:
  assumes "lock_inv s"
  shows "case slot (table s) k of
      None \<Rightarrow> claimants s k = {} | Some (l, h) \<Rightarrow> h = card (claimants s k) \<and> 0 < h"
proof -
  obtain L where "slots_inv L s" using assms by (auto simp: lock_inv_def)
  then have "finite (claimants s k)" and "slot (table s) k =
      (if claimants s k = {} then None else Some (L k, card (claimants s k)))"
    by (simp_all add: slots_inv_def)
  then show ?thesis by (simp add: card_gt_0_iff)
qed

end

section \<open>Both tables keep the contract\<close>

definition named_slot :: "named_table \<Rightarrow> string \<Rightarrow> (nat \<times> nat) option" where
  "named_slot tb k = map_option (\<lambda>s. (nl_lock s, nl_holders s)) (bt_get tb k)"

definition lifecycle_slot :: "lifecycle_table \<Rightarrow> string \<Rightarrow> (nat \<times> nat) option" where
  "lifecycle_slot tb k = map_option (\<lambda>s. (lc_lock s, lc_holders s)) (bt_get tb k)"

interpretation named: slot_table NamedLocks_acquire drop_PendingHolder drop_NamedLockGuard
  named_slot "[]"
  by unfold_locales
    (auto simp: named_slot_def NamedLocks_acquire_def drop_PendingHolder_def
      drop_NamedLockGuard_def Let_def fun_eq_iff bt_get_insert bt_get_remove)

interpretation lifecycle: slot_table acquire_lifecycle drop_PendingLifecycleHolder
  drop_LifecycleGuard lifecycle_slot "[]"
  by unfold_locales
    (auto simp: lifecycle_slot_def acquire_lifecycle_def drop_PendingLifecycleHolder_def
      drop_LifecycleGuard_def Let_def fun_eq_iff bt_get_insert bt_get_remove)

abbreviation lifecycle_reachable where
  "lifecycle_reachable grant \<equiv>
     reachable_locks acquire_lifecycle drop_PendingLifecycleHolder drop_LifecycleGuard grant []"

abbreviation named_reachable where
  "named_reachable grant \<equiv>
     reachable_locks NamedLocks_acquire drop_PendingHolder drop_NamedLockGuard grant []"

section \<open>Properties\<close>

text \<open>
  C29. The lifecycle lock of a sandbox excludes: in every reachable state of any number of tasks that
  acquire, wait, are cancelled and drop their guards in any order, no two tasks hold the guard of
  the same sandbox id, although slots are pruned and new mutexes allocated on the way.
\<close>

theorem lifecycle_mutual_exclusion:
  assumes "mutex_exclusive grant" and "lifecycle_reachable grant s"
    and "phases s t = Held i l" and "phases s t' = Held i l'"
  shows "t = t'"
  using lifecycle.exclusive [OF lifecycle.reachable_inv [OF assms(2,1)] assms(3,4)] .

definition free_grant :: "(nat \<Rightarrow> nat option) \<Rightarrow> nat \<Rightarrow> nat \<Rightarrow> bool" where
  "free_grant ow l t \<longleftrightarrow> ow l = None"

lemma mutex_exclusive_free: "mutex_exclusive free_grant"
  by (simp add: mutex_exclusive_def free_grant_def)

text \<open>Two tasks enter for the same sandbox; the first is granted the lock.\<close>

definition two_tasks :: "lifecycle_table lock_state" where
  "two_tasks = \<lparr>table = [(''a'', \<lparr>lc_lock = 0, lc_holders = 2\<rparr>)], next_lock = 2,
     owner = (\<lambda>_. None)(0 \<mapsto> 7), phases = (\<lambda>_. Idle)(7 := Held ''a'' 0, 8 := Waiting ''a'' 0)\<rparr>"

lemma two_tasks_reachable: "lifecycle_reachable free_grant two_tasks"
proof -
  let ?step = "lock_step acquire_lifecycle drop_PendingLifecycleHolder drop_LifecycleGuard free_grant"
  let ?s1 = "\<lparr>table = [(''a'', \<lparr>lc_lock = 0, lc_holders = 1\<rparr>)], next_lock = 1,
     owner = (\<lambda>_. None), phases = (\<lambda>_. Idle)(7 := Waiting ''a'' 0)\<rparr>"
  let ?s2 = "\<lparr>table = [(''a'', \<lparr>lc_lock = 0, lc_holders = 2\<rparr>)], next_lock = 2,
     owner = (\<lambda>_. None), phases = (\<lambda>_. Idle)(7 := Waiting ''a'' 0, 8 := Waiting ''a'' 0)\<rparr>"
  have "?step (init_locks []) ?s1"
    using lock_step.enter [where s = "init_locks []" and t = 7 and k = "''a''" and l = 0
        and acq = acquire_lifecycle and tb = "[(''a'', \<lparr>lc_lock = 0, lc_holders = 1\<rparr>)]"]
    by (simp add: init_locks_def acquire_lifecycle_def Let_def)
  moreover have "?step ?s1 ?s2"
    using lock_step.enter [where s = ?s1 and t = 8 and k = "''a''" and l = 0
        and acq = acquire_lifecycle and tb = "[(''a'', \<lparr>lc_lock = 0, lc_holders = 2\<rparr>)]"]
    by (simp add: acquire_lifecycle_def Let_def numeral_2_eq_2)
  moreover have "?step ?s2 two_tasks"
    using lock_step.granted [where s = ?s2 and t = 7 and k = "''a''" and l = 0 and grant = free_grant]
    by (simp add: two_tasks_def free_grant_def fun_upd_twist)
  ultimately show ?thesis
    by (blast intro: reachable_locks.intros)
qed

theorem lifecycle_mutual_exclusion_witness:
  "phases two_tasks 7 = Held ''a'' 0 \<and> (\<forall>l. phases two_tasks 8 \<noteq> Held ''a'' l)"
  using lifecycle_mutual_exclusion [OF mutex_exclusive_free two_tasks_reachable, of 7 "''a''" 0 8]
  by (auto simp: two_tasks_def)

text \<open>
  No leak and no underflow: in every reachable state the lock map of the registry has a slot for
  exactly those sandbox ids that some task waits for or holds, and the slot's holder count is the
  number of those tasks, so that it is positive at every decrement; the same holds of the named
  locks for snapshots.
\<close>

theorem lock_tables_exact:
  assumes "mutex_exclusive grant" and "lifecycle_reachable grant s" and "named_reachable grant s'"
  shows "(case bt_get (table s) k of
      None \<Rightarrow> claimants s k = {}
    | Some slot \<Rightarrow> lc_holders slot = card (claimants s k) \<and> 0 < lc_holders slot)
   \<and> (case bt_get (table s') k of
      None \<Rightarrow> claimants s' k = {}
    | Some slot \<Rightarrow> nl_holders slot = card (claimants s' k) \<and> 0 < nl_holders slot)"
  using lifecycle.exact_count [OF lifecycle.reachable_inv [OF assms(2,1)], of k]
    named.exact_count [OF named.reachable_inv [OF assms(3,1)], of k]
  by (auto simp: lifecycle_slot_def named_slot_def split: option.splits)

theorem lock_tables_exact_witness:
  "card (claimants two_tasks ''a'') = 2 \<and> claimants two_tasks ''b'' = {}"
  using lock_tables_exact [OF mutex_exclusive_free two_tasks_reachable reachable_locks.start, of "''a''"]
    lock_tables_exact [OF mutex_exclusive_free two_tasks_reachable reachable_locks.start, of "''b''"]
  by (simp add: two_tasks_def)

end
