(* ===== verification/Registry.thy ===== *)
theory Registry
  imports Disk Locks
begin

text \<open>
  The sandbox registry of \<open>oad/src/registry.rs\<close>: records in memory, written through to
  \<open>state.json\<close> in each sandbox's directory, and read back by \<open>recover\<close> after a restart. The state
  is the operating system's plus the record map and the lifecycle lock table; the JSON serialiser
  is a parameter.
\<close>

text \<open>Serialisation and parsing may fail with a message.\<close>

record 'b reg_ext = "'b ext" +
  enc_record :: "SandboxRecord \<Rightarrow> (string, 'b) result"
  dec_record :: "'b \<Rightarrow> (string, SandboxRecord) result"

record 'b reg_world = "'b world" +
  records :: "(string, SandboxRecord) btree_map"
  locks :: lifecycle_table
  lock_seq :: nat

section \<open>JSON files\<close>

definition write_json_atomic ::
  "('b, 'x) ext_scheme \<Rightarrow> ('v \<Rightarrow> (string, 'b) result) \<Rightarrow> path \<Rightarrow> 'v
   \<Rightarrow> (('b, 'z) world_scheme, io_error, unit) comp" where
  "write_json_atomic ex enc p value = (case enc value of
       Inl m \<Rightarrow> err (OtherIo m)
     | Inr body \<Rightarrow> write_atomic_file ex p body)"

definition read_json ::
  "('b, 'x) ext_scheme \<Rightarrow> ('b \<Rightarrow> (string, 'v) result) \<Rightarrow> path
   \<Rightarrow> (('b, 'z) world_scheme, io_error, 'v) comp" where
  "read_json ex dec p =
     andThen (read_file ex p) (\<lambda>body. case dec body of Inl m \<Rightarrow> err (OtherIo m) | Inr v \<Rightarrow> ok v)"

definition read_record ::
  "('b, 'x) reg_ext_scheme \<Rightarrow> path \<Rightarrow> (('b, 'z) world_scheme, io_error, SandboxRecord) comp" where
  "read_record ex p = read_json ex (dec_record ex) p"

section \<open>Operations\<close>

definition reg_insert_memory :: "SandboxRecord \<Rightarrow> (('b, 'z) reg_world_scheme, 'e, unit) comp" where
  "reg_insert_memory r = modify (\<lambda>w. w\<lparr>records := bt_insert (sb_id r) r (records w)\<rparr>)"

definition reg_persist ::
  "('b, 'x) reg_ext_scheme \<Rightarrow> OadPaths \<Rightarrow> SandboxRecord
   \<Rightarrow> (('b, 'z) reg_world_scheme, io_error, unit) comp" where
  "reg_persist ex ps r = write_json_atomic ex (enc_record ex) (state_file ps (sb_id r)) r"

definition reg_insert ::
  "('b, 'x) reg_ext_scheme \<Rightarrow> OadPaths \<Rightarrow> SandboxRecord
   \<Rightarrow> (('b, 'z) reg_world_scheme, io_error, unit) comp" where
  "reg_insert ex ps r =
     andThen (reg_persist ex ps r) (\<lambda>_.
     andThen (reg_insert_memory r) (\<lambda>_.
     ok ()))"

text \<open>The closure passed to \<open>update\<close> gets the time that its \<open>set_status\<close> or \<open>set_error\<close> reads.\<close>

definition reg_update ::
  "('b, 'x) reg_ext_scheme \<Rightarrow> OadPaths \<Rightarrow> SandboxId \<Rightarrow> (int \<Rightarrow> SandboxRecord \<Rightarrow> SandboxRecord)
   \<Rightarrow> (('b, 'z) reg_world_scheme, io_error, SandboxRecord option) comp" where
  "reg_update ex ps i f =
     andThen (gets (\<lambda>w. bt_get (records w) i)) (\<lambda>found. case found of
       None \<Rightarrow> ok None
     | Some record \<Rightarrow>
         andThen (read_clock ex) (\<lambda>t.
         let updated = f t record in
         andThen (reg_persist ex ps updated) (\<lambda>_.
         andThen (gets (\<lambda>w. bt_get (records w) i)) (\<lambda>again. case again of
           None \<Rightarrow> ok None
         | Some _ \<Rightarrow>
             andThen (modify (\<lambda>w. w\<lparr>records := bt_insert i updated (records w)\<rparr>)) (\<lambda>_.
             ok (Some updated))))))"

definition reg_get :: "SandboxId \<Rightarrow> (('b, 'z) reg_world_scheme, 'e, SandboxRecord option) comp" where
  "reg_get i = gets (\<lambda>w. bt_get (records w) i)"

definition reg_contains :: "SandboxId \<Rightarrow> (('b, 'z) reg_world_scheme, 'e, bool) comp" where
  "reg_contains i = gets (\<lambda>w. bt_get (records w) i \<noteq> None)"

definition reg_remove :: "SandboxId \<Rightarrow> (('b, 'z) reg_world_scheme, 'e, SandboxRecord option) comp" where
  "reg_remove i =
     andThen (gets (\<lambda>w. bt_get (records w) i)) (\<lambda>found.
     andThen (modify (\<lambda>w. w\<lparr>records := bt_remove i (records w)\<rparr>)) (\<lambda>_.
     ok found))"

definition reg_list :: "(('b, 'z) reg_world_scheme, 'e, SandboxRecord list) comp" where
  "reg_list = gets (\<lambda>w. bt_values (records w))"

subsection \<open>Recovery\<close>

text \<open>Fetching the next directory entry is an interaction of its own.\<close>

definition next_entry :: "('b, 'x) ext_scheme \<Rightarrow> (('b, 'z) world_scheme, io_error, unit) comp" where
  "next_entry ex = syscall ex untouched (\<lambda>d. Inr ((), d))"

fun recover_entries ::
  "('b, 'x) reg_ext_scheme \<Rightarrow> path \<Rightarrow> string list
   \<Rightarrow> (('b, 'z) reg_world_scheme, io_error, unit) comp" where
  "recover_entries ex dir [] = ok ()"
| "recover_entries ex dir (n # ns) =
     try_case (next_entry ex)
       (\<lambda>_. ok ())
       (\<lambda>_. try_case (read_record ex (join (join dir n) ''state.json''))
          (\<lambda>_. recover_entries ex dir ns)
          (\<lambda>r. andThen (reg_insert_memory r) (\<lambda>_. recover_entries ex dir ns)))"

definition recover ::
  "('b, 'x) reg_ext_scheme \<Rightarrow> OadPaths \<Rightarrow> (('b, 'z) reg_world_scheme, io_error, unit) comp" where
  "recover ex ps =
     andThen (modify (\<lambda>w. w\<lparr>records := [], locks := []\<rparr>)) (\<lambda>_.
     try_case (read_dir ex (sandboxes_dir ps))
       (\<lambda>_. ok ())
       (\<lambda>names. recover_entries ex (sandboxes_dir ps) names))"

subsection \<open>The lifecycle lock around a handler\<close>

text \<open>
  \<open>let _guard = registry.acquire_lifecycle(&id).await;\<close> from the point where the mutex is granted:
  the slot is registered, the body runs, the guard is dropped on every exit.
\<close>

definition with_lifecycle ::
  "SandboxId \<Rightarrow> (('b, 'z) reg_world_scheme, 'e, 'a) comp \<Rightarrow> (('b, 'z) reg_world_scheme, 'e, 'a) comp" where
  "with_lifecycle i m = (\<lambda>w.
     case m (w\<lparr>locks := snd (acquire_lifecycle (lock_seq w) i (locks w)), lock_seq := Suc (lock_seq w)\<rparr>) of
       (r, w') \<Rightarrow> (r, w'\<lparr>locks := drop_LifecycleGuard i (locks w')\<rparr>))"

lemma with_lifecycle_run [code]:
  "with_lifecycle i m w =
     (case m (w\<lparr>locks := snd (acquire_lifecycle (lock_seq w) i (locks w)), lock_seq := Suc (lock_seq w)\<rparr>) of
        (r, w') \<Rightarrow> (r, w'\<lparr>locks := drop_LifecycleGuard i (locks w')\<rparr>))"
  by (simp add: with_lifecycle_def)

section \<open>What the operations do\<close>

lemma bt_remove_insert: "bt_get m k = None \<Longrightarrow> bt_remove k (bt_insert k v m) = m"
proof (induction m)
  case (Cons e m)
  have "bt_remove k m = m" using Cons.prems
    unfolding bt_remove_def by (auto intro!: filter_True simp: map_of_eq_None_iff split: if_splits)
  with Cons show ?case by (cases e) (auto simp: bt_remove_def split: if_splits)
qed (simp add: bt_remove_def)

lemma acquire_drop_lifecycle: "bt_get tb i = None \<Longrightarrow> drop_LifecycleGuard i (snd (acquire_lifecycle n i tb)) = tb"
  by (simp add: acquire_lifecycle_def drop_LifecycleGuard_def Let_def bt_remove_insert)

lemma state_file_eq:
  "validate_id_segment i = Inr () \<Longrightarrow> state_file ps i = sandbox_dir ps i @ [''state.json'']"
  by (simp add: state_file_def)

text \<open>The parts of the state beyond the operating system.\<close>

lemma touch_records:
  fixes w w' :: "('b, 'z) reg_world_scheme"
  assumes "touch S w w'"
  shows "records w' = records w" and "locks w' = locks w" and "lock_seq w' = lock_seq w"
    and "reg_world.more w' = reg_world.more w"
proof -
  have "world.more w' = world.more w" using assms by (simp add: touch_def)
  then have "records w' = records w \<and> locks w' = locks w \<and> lock_seq w' = lock_seq w
      \<and> reg_world.more w' = reg_world.more w"
    by (cases w, cases w') simp
  then show "records w' = records w" and "locks w' = locks w" and "lock_seq w' = lock_seq w"
    and "reg_world.more w' = reg_world.more w"
    by simp_all
qed

lemma touch_write_json_atomic:
  assumes "plain_segment s"
  shows "keeps (touch (around q)) (write_json_atomic ex enc (q @ [s]) v)"
  unfolding write_json_atomic_def
  by (cases "enc v") (simp_all add: fs.keeps_err touch_write_atomic_file [OF assms])

lemma touch_read_json [pres_intros]: "keeps (touch S) (read_json ex dec p)"
  unfolding read_json_def by (intro pres_intros)

lemma touch_persist:
  assumes "validate_id_segment (sb_id r) = Inr ()"
  shows "keeps (touch (around (sandbox_dir ps (sb_id r)))) (reg_persist ex ps r)"
  unfolding reg_persist_def state_file_eq [OF assms]
  by (rule touch_write_json_atomic) simp

lemma write_json_atomic_result:
  assumes "plain_segment s" and "write_json_atomic ex enc (q @ [s]) v w = (Inr (), w')"
  shows "\<exists>b. enc v = Inr b \<and> d_get (disk w') (q @ [s]) = Some (File b)
    \<and> (\<forall>u. u \<noteq> s \<longrightarrow> d_get (disk w') (q @ [u]) = d_get (disk w) (q @ [u]))"
proof (cases "enc v")
  case (Inr b)
  then have "write_atomic_file ex (q @ [s]) b w = (Inr (), w')"
    using assms(2) by (simp add: write_json_atomic_def)
  then show ?thesis
    using tripleD_ok [OF write_atomic_file_triple [OF assms(1)], of w q "d_get (disk w) (q @ [s])"
        "\<lambda>u. d_get (disk w) (q @ [u])" ex b "()" w'] Inr by simp
qed (use assms(2) in \<open>simp add: write_json_atomic_def err_def\<close>)

lemma persist_ok:
  assumes "validate_id_segment (sb_id r) = Inr ()" and "reg_persist ex ps r w = (Inr (), w')"
  shows "\<exists>b. enc_record ex r = Inr b \<and> d_get (disk w') (state_file ps (sb_id r)) = Some (File b)"
    and "records w' = records w"
proof -
  show "records w' = records w"
    by (rule touch_records(1) [OF keepsD' [OF touch_persist [OF assms(1)] assms(2)]])
  show "\<exists>b. enc_record ex r = Inr b \<and> d_get (disk w') (state_file ps (sb_id r)) = Some (File b)"
    using write_json_atomic_result [OF _ assms(2) [unfolded reg_persist_def state_file_eq [OF assms(1)]]]
    by (auto simp: state_file_eq [OF assms(1)])
qed

lemma persist_err:
  assumes "validate_id_segment (sb_id r) = Inr ()" and "reg_persist ex ps r w = (Inl e, w')"
  shows "records w' = records w"
  by (rule touch_records(1) [OF keepsD' [OF touch_persist [OF assms(1)] assms(2)]])

lemma set_child_names: "n \<in> set (child_names d p) \<longleftrightarrow> d_get d (p @ [n]) \<noteq> None"
proof -
  have "n \<in> set (child_names d p) \<longleftrightarrow> (\<exists>e \<in> set d. fst e \<noteq> [] \<and> butlast (fst e) = p \<and> last (fst e) = n)"
    by (auto simp: child_names_def)
  also have "\<dots> \<longleftrightarrow> p @ [n] \<in> fst ` set d"
    by (auto simp: image_iff) (metis append_butlast_last_id fst_conv, metis butlast_snoc fst_conv last_snoc snoc_eq_iff_butlast)
  finally show ?thesis by (simp add: map_of_eq_None_iff)
qed

text \<open>The record that the state file under the directory entry \<open>n\<close> holds, if it parses.\<close>

definition state_of :: "('b, 'x) reg_ext_scheme \<Rightarrow> 'b disk \<Rightarrow> path \<Rightarrow> string \<Rightarrow> SandboxRecord option" where
  "state_of ex d dir n = (case d_get d (join (join dir n) ''state.json'') of
       Some (File b) \<Rightarrow> (case dec_record ex b of Inr r \<Rightarrow> Some r | Inl _ \<Rightarrow> None)
     | _ \<Rightarrow> None)"

abbreviation no_faults :: "('b, 'x) ext_scheme \<Rightarrow> bool" where
  "no_faults ex \<equiv> (\<forall>t. fault ex t = None)"

lemma read_record_run:
  assumes "no_faults ex"
  obtains w' r where "read_record ex (join (join dir n) ''state.json'') w = (r, w')"
    and "disk w' = disk w" and "world.more w' = world.more w"
    and "case state_of ex (disk w) dir n of None \<Rightarrow> isl r | Some x \<Rightarrow> r = Inr x"
proof -
  let ?run = "read_record ex (join (join dir n) ''state.json'') w"
  have keep: "touch {} w (snd ?run)"
    unfolding read_record_def by (rule keepsD) (intro pres_intros)
  have "case state_of ex (disk w) dir n of None \<Rightarrow> isl (fst ?run) | Some x \<Rightarrow> fst ?run = Inr x"
    using assms
    by (cases "d_get (disk w) (join (join dir n) ''state.json'')")
      (simp_all add: read_record_def read_json_def read_file_def syscall_def state_of_def Let_def
        res_simps split: node.splits sum.splits)
  moreover have "disk (snd ?run) = disk w"
    using assms by (auto simp: read_record_def read_json_def read_file_def syscall_def Let_def
        res_simps split: option.splits node.splits sum.splits prod.splits if_splits)
  ultimately show thesis
    using that [of "fst ?run" "snd ?run"] keep by (simp add: touch_def)
qed

lemma recover_entries_run:
  fixes w :: "('b, 'z) reg_world_scheme"
  assumes "no_faults ex" and "bt_ok (records w)"
  shows "\<exists>w'. recover_entries ex dir ns w = (Inr (), w') \<and> disk w' = disk w \<and> locks w' = locks w
    \<and> bt_ok (records w') \<and> bt_get (records w') = foldl (\<lambda>m n. case state_of ex (disk w) dir n of
        None \<Rightarrow> m | Some r \<Rightarrow> m(sb_id r \<mapsto> r)) (bt_get (records w)) ns"
  using assms(2)
proof (induction ns arbitrary: w)
  case (Cons n ns)
  define w1 where "w1 = w\<lparr>tick := Suc (tick w)\<rparr>"
  have n1: "next_entry ex w = (Inr (), w1)"
    using assms(1) by (simp add: next_entry_def syscall_def w1_def)
  obtain w2 r where w2: "read_record ex (join (join dir n) ''state.json'') w1 = (r, w2)"
    "disk w2 = disk w1" "world.more w2 = world.more w1"
    "case state_of ex (disk w1) dir n of None \<Rightarrow> isl r | Some x \<Rightarrow> r = Inr x"
    by (rule read_record_run [OF assms(1)])
  have same: "records w2 = records w" "locks w2 = locks w" "disk w2 = disk w"
    using touch_records [of UNIV w1 w2] w2(2,3) by (simp_all add: touch_def w1_def)
  show ?case
  proof (cases "state_of ex (disk w) dir n")
    case None
    then have "isl r" using w2(4) by (simp add: w1_def)
    then show ?thesis using Cons.IH [of w2] Cons.prems n1 w2(1) same None
      by (cases r) (auto simp: try_case_def)
  next
    case (Some x)
    then have "r = Inr x" using w2(4) by (simp add: w1_def)
    then show ?thesis
      using Cons.IH [of "w2\<lparr>records := bt_insert (sb_id x) x (records w2)\<rparr>"] Cons.prems n1 w2(1) same Some
      by (auto simp: try_case_def andThen_def reg_insert_memory_def modify_def bt_ok_insert bt_get_insert
          fun_upd_def)
  qed
qed (simp add: ok_def)

lemma foldl_own_key:
  assumes "\<And>n r. n \<in> set ns \<Longrightarrow> st n = Some r \<Longrightarrow> sb_id r = n"
  shows "foldl (\<lambda>m n. case st n of None \<Rightarrow> m | Some r \<Rightarrow> m(sb_id r \<mapsto> r)) m ns i =
    (if i \<in> set ns \<and> st i \<noteq> None then st i else m i)"
  using assms
proof (induction ns arbitrary: m)
  case (Cons n ns)
  have "foldl (\<lambda>m n. case st n of None \<Rightarrow> m | Some r \<Rightarrow> m(sb_id r \<mapsto> r)) m' ns i =
      (if i \<in> set ns \<and> st i \<noteq> None then st i else m' i)" for m'
    by (rule Cons.IH) (use Cons.prems in auto)
  then show ?case using Cons.prems [of n] by (auto split: option.splits)
qed simp

lemma recover_run:
  fixes w :: "('b, 'z) reg_world_scheme"
  assumes "no_faults ex" and "is_dir (disk w) (sandboxes_dir ps)"
    and own: "\<And>n r. d_get (disk w) (sandboxes_dir ps @ [n]) \<noteq> None \<Longrightarrow>
      state_of ex (disk w) (sandboxes_dir ps) n = Some r \<Longrightarrow> sb_id r = n"
  shows "\<exists>w'. recover ex ps w = (Inr (), w') \<and> disk w' = disk w \<and> locks w' = [] \<and> bt_ok (records w')
    \<and> (\<forall>i. bt_get (records w') i =
        (if d_get (disk w) (sandboxes_dir ps @ [i]) \<noteq> None
         then state_of ex (disk w) (sandboxes_dir ps) i else None))"
proof -
  let ?dir = "sandboxes_dir ps" and ?ns = "child_names (disk w) (sandboxes_dir ps)"
  let ?w1 = "w\<lparr>records := [], locks := []\<rparr>"
  let ?w2 = "?w1\<lparr>tick := Suc (tick w)\<rparr>"
  have "read_dir ex ?dir ?w1 = (Inr ?ns, ?w2)"
    using assms(1,2) by (simp add: read_dir_def syscall_def Let_def)
  then have rec: "recover ex ps w = recover_entries ex ?dir ?ns ?w2"
    by (simp add: recover_def res_simps)
  obtain w' where w': "recover_entries ex ?dir ?ns ?w2 = (Inr (), w')" "disk w' = disk w" "locks w' = []"
    "bt_ok (records w')" "bt_get (records w') = foldl (\<lambda>m n. case state_of ex (disk w) ?dir n of
        None \<Rightarrow> m | Some r \<Rightarrow> m(sb_id r \<mapsto> r)) Map.empty ?ns"
    using recover_entries_run [OF assms(1), of ?w2 ?dir ?ns] by auto
  have "bt_get (records w') i = (if d_get (disk w) (?dir @ [i]) \<noteq> None
      then state_of ex (disk w) ?dir i else None)" for i
    unfolding w'(5)
    by (subst foldl_own_key) (auto simp: set_child_names intro: own)
  then show ?thesis using rec w'(1-4) by auto
qed

section \<open>Properties\<close>

text \<open>
  \<open>SandboxRegistry::update\<close> is write-through: an unknown id changes nothing and returns
  \<open>Ok(None)\<close>; when the new record cannot be persisted the error is returned and the records in
  memory are unchanged; otherwise the updated record is returned, is the one in memory under that
  id (all others unchanged) and its serialisation is the content of the sandbox's \<open>state.json\<close>.
\<close>

theorem reg_update_spec:
  assumes "validate_id_segment i = Inr ()"
    and "\<And>r t. bt_get (records w) i = Some r \<Longrightarrow> sb_id (f t r) = i"
  shows "case reg_update ex ps i f w of (res, w') \<Rightarrow> case bt_get (records w) i of
      None \<Rightarrow> res = Inr None \<and> w' = w
    | Some r \<Rightarrow> let u = f (now ex (tick w)) r in
        (\<exists>e. res = Inl e \<and> records w' = records w)
        \<or> (res = Inr (Some u) \<and> bt_get (records w') = (bt_get (records w))(i \<mapsto> u)
            \<and> (\<exists>b. enc_record ex u = Inr b \<and> d_get (disk w') (state_file ps i) = Some (File b)))"
proof (cases "bt_get (records w) i")
  case None
  then show ?thesis by (simp add: reg_update_def res_simps)
next
  case (Some r)
  define u where "u = f (now ex (tick w)) r"
  have idu: "sb_id u = i" unfolding u_def by (rule assms(2) [OF Some])
  with assms(1) have valid: "validate_id_segment (sb_id u) = Inr ()" by simp
  obtain pr w1 where p: "reg_persist ex ps u (w\<lparr>tick := Suc (tick w)\<rparr>) = (pr, w1)" by force
  show ?thesis
  proof (cases pr)
    case (Inl e)
    then have "records w1 = records w" using persist_err [OF valid, of ex ps _ e] p by fastforce
    with p Inl Some show ?thesis
      by (simp add: reg_update_def read_clock_def res_simps u_def [symmetric] Let_def)
  next
    case (Inr _)
    with p have p': "reg_persist ex ps u (w\<lparr>tick := Suc (tick w)\<rparr>) = (Inr (), w1)" by simp
    have "records w1 = records w" using persist_ok(2) [OF valid p'] by simp
    moreover obtain b where "enc_record ex u = Inr b" "d_get (disk w1) (state_file ps i) = Some (File b)"
      using persist_ok(1) [OF valid p'] idu by auto
    ultimately show ?thesis using p' Some
      by (simp add: reg_update_def read_clock_def res_simps u_def [symmetric] Let_def bt_get_insert)
  qed
qed

text \<open>A serialiser that stores records as they are, and a disk that never fails.\<close>

definition sample_record :: SandboxRecord where
  "sample_record = new_pending 5 ''a'' [''pause'']"

definition plain_ext :: "SandboxRecord reg_ext" where
  "plain_ext = \<lparr>now = (\<lambda>t. int t), pid = 7, uuid = (\<lambda>_. ''u''), fault = (\<lambda>_. None),
     empty_body = sample_record, torn = (\<lambda>_. sample_record), survives = (\<lambda>_ _. True),
     made = (\<lambda>_. 0), enc_record = Inr, dec_record = Inr\<rparr>"

definition one_sandbox :: "SandboxRecord reg_world" where
  "one_sandbox = \<lparr>tick = 0, tmp_counter = 0, disk = [],
     records = [(''a'', sample_record)], locks = [], lock_seq = 0\<rparr>"

definition run_paths :: OadPaths where
  "run_paths = OadPaths_new [''/'', ''run'']"

theorem reg_update_spec_witness:
  "let w' = snd (reg_update plain_ext run_paths ''a'' (\<lambda>t. set_status t Running) one_sandbox);
       u = set_status 0 Running sample_record in
   bt_get (records w') ''a'' = Some u \<and> d_get (disk w') (state_file run_paths ''a'') = Some (File u)"
proof -
  let ?run = "reg_update plain_ext run_paths ''a'' (\<lambda>t. set_status t Running) one_sandbox"
  let ?u = "set_status 0 Running sample_record"
  have "fst ?run = Inr (Some ?u)" by code_simp
  moreover have "case ?run of (res, w') \<Rightarrow> case bt_get (records one_sandbox) ''a'' of
      None \<Rightarrow> res = Inr None \<and> w' = one_sandbox
    | Some r \<Rightarrow> let u = set_status (now plain_ext (tick one_sandbox)) Running r in
        (\<exists>e. res = Inl e \<and> records w' = records one_sandbox)
        \<or> (res = Inr (Some u) \<and> bt_get (records w') = (bt_get (records one_sandbox))(''a'' \<mapsto> u)
            \<and> (\<exists>b. enc_record plain_ext u = Inr b
                \<and> d_get (disk w') (state_file run_paths ''a'') = Some (File b)))"
    by (rule reg_update_spec)
      (code_simp, auto simp: one_sandbox_def sample_record_def new_pending_def set_status_def)
  ultimately show ?thesis
    by (auto simp: Let_def one_sandbox_def plain_ext_def case_prod_beta)
qed

text \<open>
  C30. Nothing acknowledged is lost by a restart: once \<open>insert\<close> has returned \<open>Ok\<close>, \<open>recover\<close> on
  the resulting disk terminates with that record in the registry, and the recovered registry holds
  for every id exactly the record its state file holds; provided the serialiser round-trips, the
  recovery meets no I/O failure, and state files name the directory they are in.
\<close>

theorem insert_recover:
  fixes w :: "('b, 'z) reg_world_scheme"
  assumes "validate_id_segment (sb_id r) = Inr ()"
    and "reg_insert ex ps r w = (Inr (), w1)"
    and codec: "\<And>b. enc_record ex r = Inr b \<Longrightarrow> dec_record ex' b = Inr r"
    and "no_faults ex'"
    and own: "\<And>n x. d_get (disk w1) (sandboxes_dir ps @ [n]) \<noteq> None \<Longrightarrow>
      state_of ex' (disk w1) (sandboxes_dir ps) n = Some x \<Longrightarrow> sb_id x = n"
  shows "\<exists>w2. recover ex' ps w1 = (Inr (), w2) \<and> bt_get (records w2) (sb_id r) = Some r
    \<and> disk w2 = disk w1
    \<and> (\<forall>i. bt_get (records w2) i = (if d_get (disk w1) (sandboxes_dir ps @ [i]) \<noteq> None
         then state_of ex' (disk w1) (sandboxes_dir ps) i else None))"
proof -
  let ?i = "sb_id r"
  have plain: "plain_segment ?i" by (rule validated_plain [OF assms(1)])
  have dir: "sandbox_dir ps ?i = sandboxes_dir ps @ [?i]" by (simp add: sandbox_dir_def plain)
  obtain w0 where p: "reg_persist ex ps r w = (Inr (), w0)" and d: "disk w1 = disk w0"
    using assms(2) by (auto simp: reg_insert_def reg_insert_memory_def res_simps
        split: prod.splits sum.splits)
  obtain b where b: "enc_record ex r = Inr b" "d_get (disk w1) (state_file ps ?i) = Some (File b)"
    using persist_ok(1) [OF assms(1) p] d by auto
  have "write_atomic_file ex (sandbox_dir ps ?i @ [''state.json'']) b w = (Inr (), w0)"
    using p b(1) by (simp add: reg_persist_def write_json_atomic_def state_file_eq [OF assms(1)])
  then have "dirs_ok (sandbox_dir ps ?i) w1"
    using write_atomic_file_dirs [of "''state.json''"] d by (simp add: dirs_ok_def)
  then have dirs: "d_get (disk w1) (sandboxes_dir ps @ [?i]) = Some Dir"
      "is_dir (disk w1) (sandboxes_dir ps)"
    by (auto simp: dirs_ok_def dir is_dir_def)
  have st: "state_of ex' (disk w1) (sandboxes_dir ps) ?i = Some r"
    using b codec [OF b(1)] by (simp add: state_of_def plain state_file_def dir)
  show ?thesis
    using recover_run [OF assms(4) dirs(2) own] st dirs(1) by auto
qed

definition empty_world :: "SandboxRecord reg_world" where
  "empty_world = \<lparr>tick = 0, tmp_counter = 0, disk = [], records = [], locks = [], lock_seq = 0\<rparr>"

theorem insert_recover_witness:
  "let w1 = snd (reg_insert plain_ext run_paths sample_record empty_world) in
   \<exists>w2. recover plain_ext run_paths w1 = (Inr (), w2) \<and> bt_get (records w2) ''a'' = Some sample_record"
proof -
  let ?w1 = "snd (reg_insert plain_ext run_paths sample_record empty_world)"
  have ran: "reg_insert plain_ext run_paths sample_record empty_world = (Inr (), ?w1)"
    by (rule prod_eqI) (code_simp, simp)
  have valid: "validate_id_segment (sb_id sample_record) = Inr ()" by code_simp
  have disk: "disk ?w1 = [([''/'', ''run'', ''sandboxes'', ''a'', ''state.json''], File sample_record),
      ([''/'', ''run'', ''sandboxes'', ''a''], Dir), ([''/'', ''run'', ''sandboxes''], Dir),
      ([''/'', ''run''], Dir), ([''/''], Dir)]"
    by code_simp
  have dir: "sandboxes_dir run_paths = [''/'', ''run'', ''sandboxes'']" by code_simp
  have own: "sb_id x = n" if "d_get (disk ?w1) (sandboxes_dir run_paths @ [n]) \<noteq> None"
      "state_of plain_ext (disk ?w1) (sandboxes_dir run_paths) n = Some x" for n x
    using that unfolding disk dir
    by (auto simp: state_of_def plain_ext_def sample_record_def new_pending_def split: if_splits)
  have "\<exists>w2. recover plain_ext run_paths ?w1 = (Inr (), w2)
      \<and> bt_get (records w2) (sb_id sample_record) = Some sample_record \<and> disk w2 = disk ?w1
      \<and> (\<forall>i. bt_get (records w2) i = (if d_get (disk ?w1) (sandboxes_dir run_paths @ [i]) \<noteq> None
           then state_of plain_ext (disk ?w1) (sandboxes_dir run_paths) i else None))"
    by (rule insert_recover [OF valid ran]) (auto simp: plain_ext_def own [unfolded plain_ext_def])
  moreover have "sb_id sample_record = ''a''" by code_simp
  ultimately show ?thesis by (auto simp: Let_def)
qed

end
