(* ===== verification/Snapshots.thy ===== *)
theory Snapshots
  imports Registry
begin

text \<open>
  The snapshot store of \<open>oad/src/snapshots.rs\<close>: a directory per snapshot below the cache, with a
  checkpoint image and a manifest. Reservation is what makes two captures of one name exclude each
  other; the lemmas say exactly when it succeeds and what it leaves on disk.
\<close>

record SnapshotManifest =
  sm_name :: string
  sm_pause_image :: string
  sm_containers :: "ContainerSpec list"
  sm_network :: SandboxNetworkSpec
  sm_created_at :: int

text \<open>The manifest's serialiser and the RFC 3339 formatter, which fails on unformattable times.\<close>

record 'b snap_ext = "'b reg_ext" +
  enc_manifest :: "SnapshotManifest \<Rightarrow> (string, 'b) result"
  dec_manifest :: "'b \<Rightarrow> (string, SnapshotManifest) result"
  rfc3339 :: "int \<Rightarrow> string option"

definition SnapshotManifest_new ::
  "int \<Rightarrow> string \<Rightarrow> string \<Rightarrow> ContainerSpec list \<Rightarrow> SandboxNetworkSpec \<Rightarrow> SnapshotManifest" where
  "SnapshotManifest_new now_utc name pause_image containers network =
     \<lparr>sm_name = name, sm_pause_image = pause_image, sm_containers = containers,
      sm_network = network, sm_created_at = now_utc\<rparr>"

definition manifest_container_names :: "SnapshotManifest \<Rightarrow> string list" where
  "manifest_container_names m = container_names (sm_containers m)"

definition created_at_rfc3339 :: "('b, 'x) snap_ext_scheme \<Rightarrow> SnapshotManifest \<Rightarrow> string" where
  "created_at_rfc3339 ex m = (case rfc3339 ex (sm_created_at m) of Some s \<Rightarrow> s | None \<Rightarrow> [])"

definition write_manifest ::
  "('b, 'x) snap_ext_scheme \<Rightarrow> OadPaths \<Rightarrow> SnapshotManifest
   \<Rightarrow> (('b, 'z) world_scheme, io_error, unit) comp" where
  "write_manifest ex ps m = write_json_atomic ex (enc_manifest ex) (snapshot_manifest ps (sm_name m)) m"

definition read_manifest ::
  "('b, 'x) snap_ext_scheme \<Rightarrow> OadPaths \<Rightarrow> string
   \<Rightarrow> (('b, 'z) world_scheme, io_error, SnapshotManifest) comp" where
  "read_manifest ex ps name = read_json ex (dec_manifest ex) (snapshot_manifest ps name)"

definition snapshot_exists ::
  "('b, 'x) snap_ext_scheme \<Rightarrow> OadPaths \<Rightarrow> string \<Rightarrow> (('b, 'z) world_scheme, 'e, bool) comp" where
  "snapshot_exists ex ps name =
     try_case (try_exists ex (snapshot_manifest ps name)) (\<lambda>_. ok False) ok"

definition snapshot_delete ::
  "('b, 'x) snap_ext_scheme \<Rightarrow> OadPaths \<Rightarrow> string \<Rightarrow> (('b, 'z) world_scheme, io_error, bool) comp" where
  "snapshot_delete ex ps name =
     try_case (remove_dir_all ex (snapshot_dir ps name))
       (\<lambda>e. if e = NotFound then ok False else err e)
       (\<lambda>_. ok True)"

definition reserve ::
  "('b, 'x) snap_ext_scheme \<Rightarrow> OadPaths \<Rightarrow> string \<Rightarrow> (('b, 'z) world_scheme, io_error, bool) comp" where
  "reserve ex ps name =
     andThen (create_dir_all ex (snapshots_dir ps)) (\<lambda>_.
     try_case (create_dir ex (snapshot_dir ps name))
       (\<lambda>e. if e = AlreadyExists
            then try_case (read_manifest ex ps name)
              (\<lambda>_. andThen (snapshot_delete ex ps name) (\<lambda>_.
                   try_case (create_dir ex (snapshot_dir ps name))
                     (\<lambda>e. if e = AlreadyExists then ok False else err e)
                     (\<lambda>_. ok True)))
              (\<lambda>_. ok False)
            else err e)
       (\<lambda>_. ok True))"

text \<open>Entries that cannot be read are skipped; a failing directory read ends the listing.\<close>

fun list_entries ::
  "('b, 'x) snap_ext_scheme \<Rightarrow> OadPaths \<Rightarrow> string list \<Rightarrow> SnapshotManifest list
   \<Rightarrow> (('b, 'z) world_scheme, 'e, SnapshotManifest list) comp" where
  "list_entries ex ps [] out = ok out"
| "list_entries ex ps (n # ns) out =
     try_case (next_entry ex)
       (\<lambda>_. ok out)
       (\<lambda>_. try_case (read_manifest ex ps n)
          (\<lambda>_. list_entries ex ps ns out)
          (\<lambda>m. list_entries ex ps ns (out @ [m])))"

definition snapshot_list ::
  "('b, 'x) snap_ext_scheme \<Rightarrow> OadPaths \<Rightarrow> (('b, 'z) world_scheme, 'e, SnapshotManifest list) comp" where
  "snapshot_list ex ps =
     try_case (read_dir ex (snapshots_dir ps)) (\<lambda>_. ok []) (\<lambda>names. list_entries ex ps names [])"

section \<open>Lemmas\<close>

lemma snapshot_manifest_eq:
  "validate_id_segment n = Inr () \<Longrightarrow> snapshot_manifest ps n = snapshot_dir ps n @ [''manifest.json'']"
  by (simp add: snapshot_manifest_def)

lemma snapshot_dir_snoc:
  "validate_id_segment n = Inr () \<Longrightarrow> snapshot_dir ps n = snapshots_dir ps @ [n]"
  by (simp add: snapshot_dir_def validated_plain)

text \<open>The manifest that is on disk for a name and parses.\<close>

definition manifest_of ::
  "('b, 'x) snap_ext_scheme \<Rightarrow> OadPaths \<Rightarrow> 'b disk \<Rightarrow> string \<Rightarrow> SnapshotManifest option" where
  "manifest_of ex ps d n = (case d_get d (snapshot_manifest ps n) of
       Some (File b) \<Rightarrow> (case dec_manifest ex b of Inr m \<Rightarrow> Some m | Inl _ \<Rightarrow> None)
     | _ \<Rightarrow> None)"

lemma read_manifest_run:
  "fault ex (tick w) = None \<Longrightarrow>
   read_manifest ex ps n w =
     (case manifest_of ex ps (disk w) n of
        Some m \<Rightarrow> Inr m
      | None \<Rightarrow> fst (read_manifest ex ps n w), w\<lparr>tick := Suc (tick w)\<rparr>)
   \<and> (manifest_of ex ps (disk w) n = None \<longrightarrow> isl (fst (read_manifest ex ps n w)))"
  by (auto simp: read_manifest_def read_json_def read_file_def syscall_def manifest_of_def Let_def
      res_simps split: option.splits node.splits sum.splits)

lemma touch_read_manifest [pres_intros]: "keeps (touch S) (read_manifest ex ps n)"
  unfolding read_manifest_def by (intro pres_intros)

lemma touch_snapshot_exists [pres_intros]: "keeps (touch S) (snapshot_exists ex ps n)"
  unfolding snapshot_exists_def by (intro pres_intros)

lemma touch_snapshot_delete: "keeps (touch {q. prefix (snapshot_dir ps n) q}) (snapshot_delete ex ps n)"
  unfolding snapshot_delete_def by (intro pres_intros touch_remove_dir_all)

lemma touch_write_manifest:
  "validate_id_segment (sm_name m) = Inr () \<Longrightarrow>
   keeps (touch (around (snapshot_dir ps (sm_name m)))) (write_manifest ex ps m)"
  by (simp add: write_manifest_def snapshot_manifest_eq touch_write_json_atomic)

lemma touch_reserve:
  assumes "validate_id_segment n = Inr ()"
  shows "keeps (touch (around (snapshot_dir ps n))) (reserve ex ps n)"
proof -
  have sub: "{q. q \<noteq> [] \<and> prefix q (snapshots_dir ps)} \<subseteq> around (snapshot_dir ps n)"
    "{snapshot_dir ps n} \<subseteq> around (snapshot_dir ps n)"
    "{q. prefix (snapshot_dir ps n) q} \<subseteq> around (snapshot_dir ps n)"
    by (auto simp: around_def snapshot_dir_snoc [OF assms])
  show ?thesis unfolding reserve_def
    by (intro pres_intros keeps_touch_mono [OF touch_create_dir_all sub(1)]
        keeps_touch_mono [OF touch_create_dir sub(2)] keeps_touch_mono [OF touch_snapshot_delete sub(3)])
qed

lemma create_dir_run:
  "no_faults ex \<Longrightarrow> create_dir ex p w =
     (if d_get (disk w) p \<noteq> None then (Inl AlreadyExists, w\<lparr>tick := Suc (tick w)\<rparr>)
      else if \<not> parent_is_dir (disk w) p then (Inl NotFound, w\<lparr>tick := Suc (tick w)\<rparr>)
      else (Inr (), w\<lparr>tick := Suc (tick w), disk := d_put p Dir (disk w)\<rparr>))"
  by (simp add: create_dir_def syscall_def Let_def)

lemma snapshot_delete_run:
  "no_faults ex \<Longrightarrow> d_get (disk w) (snapshot_dir ps n) = Some Dir \<Longrightarrow>
   snapshot_delete ex ps n w =
     (Inr True, w\<lparr>tick := Suc (tick w), disk := d_del_tree (snapshot_dir ps n) (disk w)\<rparr>)"
  by (simp add: snapshot_delete_def remove_dir_all_def syscall_def Let_def res_simps)

lemma create_dir_all_run:
  "no_faults ex \<Longrightarrow> (\<And>q. q \<noteq> [] \<Longrightarrow> prefix q p \<Longrightarrow> \<not> is_file (disk w) q) \<Longrightarrow>
   create_dir_all ex p w =
     (Inr (), w\<lparr>tick := Suc (tick w), disk := d_add_dirs (ancestors p) (disk w)\<rparr>)"
  by (auto simp: create_dir_all_def syscall_def Let_def set_ancestors)

lemma reserve_fresh:
  assumes "no_faults ex" and "dirs_ok (snapshots_dir ps) w" and "validate_id_segment n = Inr ()"
    and "d_get (disk w) (snapshot_dir ps n) = None"
  shows "create_dir ex (snapshot_dir ps n) w =
    (Inr (), w\<lparr>tick := Suc (tick w), disk := d_put (snapshot_dir ps n) Dir (disk w)\<rparr>)"
  using assms
  by (auto simp: create_dir_run parent_is_dir_def snapshot_dir_snoc validated_plain is_dir_def dirs_ok_def)

section \<open>Properties\<close>

text \<open>
  Reserving a snapshot name, when no I/O call fails: if a readable manifest exists for the name
  the answer is \<open>false\<close> and nothing below the snapshot's directory changes; otherwise the answer is
  \<open>true\<close> and the directory exists and is empty, a stale directory without a readable manifest
  having been reclaimed.
\<close>

theorem reserve_spec:
  assumes nf: "no_faults ex" and valid: "validate_snapshot_name n = Inr ()"
    and dirs: "\<And>q. q \<noteq> [] \<Longrightarrow> prefix q (snapshot_dir ps n) \<Longrightarrow> \<not> is_file (disk w) q"
    and tree: "d_get (disk w) (snapshot_dir ps n) = None \<Longrightarrow>
      \<forall>r. strict_prefix (snapshot_dir ps n) r \<longrightarrow> d_get (disk w) r = None"
  shows "\<exists>w'. reserve ex ps n w = (Inr (manifest_of ex ps (disk w) n = None), w')
    \<and> (if manifest_of ex ps (disk w) n = None
        then d_get (disk w') (snapshot_dir ps n) = Some Dir
          \<and> (\<forall>r. strict_prefix (snapshot_dir ps n) r \<longrightarrow> d_get (disk w') r = None)
        else \<forall>r. prefix (snapshot_dir ps n) r \<longrightarrow> d_get (disk w') r = d_get (disk w) r)"
proof -
  let ?dir = "snapshot_dir ps n"
  have v: "validate_id_segment n = Inr ()" using valid by (simp add: validate_snapshot_name_def)
  have snoc: "?dir = snapshots_dir ps @ [n]" by (rule snapshot_dir_snoc [OF v])
  define w1 where "w1 = w\<lparr>tick := Suc (tick w), disk := d_add_dirs (ancestors (snapshots_dir ps)) (disk w)\<rparr>"
  have mk: "create_dir_all ex (snapshots_dir ps) w = (Inr (), w1)"
    unfolding w1_def by (rule create_dir_all_run [OF nf]) (use dirs snoc in auto)
  have dirs1: "dirs_ok (snapshots_dir ps) w1" by (rule create_dir_all_dirs_ok [OF mk])
  have below: "d_get (disk w1) r = d_get (disk w) r" if "prefix ?dir r" for r
    using that snoc not_prefix_below [of "snapshots_dir ps" n r]
    by (auto simp: w1_def set_ancestors split: option.splits)
  have man: "manifest_of ex ps (disk w1) n = manifest_of ex ps (disk w) n"
    by (simp add: manifest_of_def snapshot_manifest_eq [OF v] below)
  show ?thesis
  proof (cases "d_get (disk w) ?dir")
    case None
    then have "manifest_of ex ps (disk w) n = None"
      using tree [OF None] by (simp add: manifest_of_def snapshot_manifest_eq [OF v] strict_prefix_def)
    then show ?thesis
      using reserve_fresh [OF nf dirs1 v] None below tree [OF None] mk
      by (auto simp: reserve_def res_simps strict_prefix_def)
  next
    case (Some x)
    then have x: "d_get (disk w1) ?dir = Some Dir"
      using dirs [of ?dir] below [of ?dir] snoc by (simp add: not_is_file)
    have ex1: "create_dir ex ?dir w1 = (Inl AlreadyExists, w1\<lparr>tick := Suc (tick w1)\<rparr>)"
      by (simp add: create_dir_run [OF nf] x)
    define w2 where "w2 = w1\<lparr>tick := Suc (tick w1)\<rparr>"
    note rd = read_manifest_run [of ex w2 ps n, simplified nf, simplified]
    show ?thesis
    proof (cases "manifest_of ex ps (disk w) n")
      case (Some m)
      then have "read_manifest ex ps n w2 = (Inr m, w2\<lparr>tick := Suc (tick w2)\<rparr>)"
        using rd man by (simp add: w2_def)
      then show ?thesis using Some mk ex1 below
        by (simp add: reserve_def res_simps w2_def [symmetric]) (simp add: w2_def)
    next
      case nm: None
      then obtain e where rd': "read_manifest ex ps n w2 = (Inl e, w2\<lparr>tick := Suc (tick w2)\<rparr>)"
        using rd man by (cases "fst (read_manifest ex ps n w2)") (auto simp: w2_def)
      define w3 where "w3 = w2\<lparr>tick := Suc (tick w2)\<rparr>"
      define w4 where "w4 = w3\<lparr>tick := Suc (tick w3), disk := d_del_tree ?dir (disk w3)\<rparr>"
      have del: "snapshot_delete ex ps n w3 = (Inr True, w4)"
        unfolding w4_def by (rule snapshot_delete_run [OF nf]) (simp add: w3_def w2_def x)
      have "dirs_ok (snapshots_dir ps) w4"
        using dirs1 by (auto simp: w4_def w3_def w2_def dirs_ok_def snoc dest: not_prefix_below)
      from reserve_fresh [OF nf this v]
      have "create_dir ex ?dir w4 = (Inr (), w4\<lparr>tick := Suc (tick w4), disk := d_put ?dir Dir (disk w4)\<rparr>)"
        by (simp add: w4_def)
      then show ?thesis
        using nm mk ex1 rd' del
        by (simp add: reserve_def res_simps w2_def [symmetric] w3_def [symmetric])
          (auto simp: w4_def strict_prefix_def)
    qed
  qed
qed

definition sample_manifest :: SnapshotManifest where
  "sample_manifest = SnapshotManifest_new 9 ''golden'' ''pause:latest'' [] SandboxNetworkSpec_default"

text \<open>A serialiser that stores manifests as they are; \<open>bad\<close> lists the interactions that fail.\<close>

definition manifest_ext :: "nat list \<Rightarrow> SnapshotManifest option snap_ext" where
  "manifest_ext bad = \<lparr>now = (\<lambda>t. int t), pid = 7, uuid = (\<lambda>_. ''u''),
     fault = (\<lambda>t. if List.member bad t then Some ''EMFILE'' else None),
     empty_body = None, torn = (\<lambda>_. None), survives = (\<lambda>_ _. True), made = (\<lambda>_. 0),
     enc_record = (\<lambda>_. Inl []), dec_record = (\<lambda>_. Inl []),
     enc_manifest = (\<lambda>m. Inr (Some m)),
     dec_manifest = (\<lambda>b. case b of Some m \<Rightarrow> Inr m | None \<Rightarrow> Inl ''EOF''),
     rfc3339 = (\<lambda>t. Some (show_int t))\<rparr>"

definition golden_disk :: "SnapshotManifest option world" where
  "golden_disk = \<lparr>tick = 0, tmp_counter = 0, disk =
     [([''/''], Dir), ([''/'', ''cache''], Dir), ([''/'', ''cache'', ''snapshots''], Dir),
      ([''/'', ''cache'', ''snapshots'', ''golden''], Dir),
      ([''/'', ''cache'', ''snapshots'', ''golden'', ''manifest.json''], File (Some sample_manifest))]\<rparr>"

definition root_paths :: OadPaths where
  "root_paths = OadPaths_new [''/'']"

theorem reserve_spec_witness:
  "\<exists>w'. reserve (manifest_ext []) root_paths ''golden'' golden_disk = (Inr False, w')
     \<and> d_get (disk w') (snapshot_manifest root_paths ''golden'') = Some (File (Some sample_manifest))"
proof -
  have p: "snapshot_dir root_paths ''golden'' = [''/'', ''cache'', ''snapshots'', ''golden'']"
    and q: "snapshot_manifest root_paths ''golden'' =
      [''/'', ''cache'', ''snapshots'', ''golden'', ''manifest.json'']"
    by code_simp+
  have m: "manifest_of (manifest_ext []) root_paths (disk golden_disk) ''golden'' = Some sample_manifest"
    by (simp add: manifest_of_def q golden_disk_def manifest_ext_def)
  have "\<exists>w'. reserve (manifest_ext []) root_paths ''golden'' golden_disk =
      (Inr (manifest_of (manifest_ext []) root_paths (disk golden_disk) ''golden'' = None), w')
    \<and> (if manifest_of (manifest_ext []) root_paths (disk golden_disk) ''golden'' = None
        then d_get (disk w') (snapshot_dir root_paths ''golden'') = Some Dir
          \<and> (\<forall>r. strict_prefix (snapshot_dir root_paths ''golden'') r \<longrightarrow> d_get (disk w') r = None)
        else \<forall>r. prefix (snapshot_dir root_paths ''golden'') r \<longrightarrow>
          d_get (disk w') r = d_get (disk golden_disk) r)"
  proof (rule reserve_spec)
    show "validate_snapshot_name ''golden'' = Inr ()" by code_simp
    show "\<not> is_file (disk golden_disk) r" if "prefix r (snapshot_dir root_paths ''golden'')" for r
      using that unfolding p by (auto simp: prefix_Cons is_file_def golden_disk_def)
  qed (simp_all add: manifest_ext_def p golden_disk_def)
  then show ?thesis unfolding m by (auto simp: p q golden_disk_def)
qed


text \<open>
  A snapshot whose manifest has been written is found again: after \<open>write_manifest\<close> returned
  \<open>Ok\<close>, \<open>exists\<close> answers \<open>true\<close> and \<open>read_manifest\<close> returns the manifest, given a serialiser that
  round-trips and reads that do not fail; and the listing includes it.
\<close>

theorem write_read_manifest:
  assumes "validate_snapshot_name (sm_name m) = Inr ()"
    and "write_manifest ex ps m w = (Inr (), w')"
    and codec: "\<And>b. enc_manifest ex m = Inr b \<Longrightarrow> dec_manifest ex' b = Inr m"
    and nf: "no_faults ex'"
  shows "fst (read_manifest ex' ps (sm_name m) w') = Inr m
    \<and> fst (snapshot_exists ex' ps (sm_name m) w') = (Inr True :: io_error + bool)
    \<and> d_get (disk w') (snapshot_dir ps (sm_name m)) = Some Dir
    \<and> sm_name m \<in> set (child_names (disk w') (snapshots_dir ps))"
proof (intro conjI)
  have v: "validate_id_segment (sm_name m) = Inr ()"
    using assms(1) by (simp add: validate_snapshot_name_def)
  note eq = snapshot_manifest_eq [OF v, of ps]
  obtain b where b: "enc_manifest ex m = Inr b"
    "d_get (disk w') (snapshot_dir ps (sm_name m) @ [''manifest.json'']) = Some (File b)"
    using write_json_atomic_result [of "''manifest.json''" ex "enc_manifest ex" "snapshot_dir ps (sm_name m)" m w w']
      assms(2) by (auto simp: write_manifest_def eq)
  have "manifest_of ex' ps (disk w') (sm_name m) = Some m"
    by (simp add: manifest_of_def eq b(2) codec [OF b(1)])
  then show "fst (read_manifest ex' ps (sm_name m) w') = Inr m"
    using read_manifest_run [of ex' w' ps "sm_name m"] nf by simp
  show "fst (snapshot_exists ex' ps (sm_name m) w') = (Inr True :: io_error + bool)"
    using nf b(2) by (simp add: snapshot_exists_def try_exists_def syscall_def Let_def res_simps eq)
  have "write_atomic_file ex (snapshot_dir ps (sm_name m) @ [''manifest.json'']) b w = (Inr (), w')"
    using assms(2) b(1) by (simp add: write_manifest_def write_json_atomic_def eq)
  then have "dirs_ok (snapshot_dir ps (sm_name m)) w'"
    by (rule write_atomic_file_dirs [rotated]) simp
  then show dir: "d_get (disk w') (snapshot_dir ps (sm_name m)) = Some Dir"
    by (auto simp: dirs_ok_def snapshot_dir_snoc [OF v])
  then show "sm_name m \<in> set (child_names (disk w') (snapshots_dir ps))"
    by (simp add: set_child_names snapshot_dir_snoc [OF v])
qed

theorem write_read_manifest_witness:
  "fst (read_manifest (manifest_ext []) root_paths ''golden''
     (snd (write_manifest (manifest_ext []) root_paths sample_manifest (golden_disk\<lparr>disk := []\<rparr>))))
   = Inr sample_manifest"
proof -
  let ?w = "golden_disk\<lparr>disk := []\<rparr>"
  let ?run = "write_manifest (manifest_ext []) root_paths sample_manifest ?w"
  have ran: "?run = (Inr (), snd ?run)"
    by (rule prod_eqI) (code_simp, simp)
  have name: "sm_name sample_manifest = ''golden''" by code_simp
  have valid: "validate_snapshot_name (sm_name sample_manifest) = Inr ()" by code_simp
  have "fst (read_manifest (manifest_ext []) root_paths (sm_name sample_manifest) (snd ?run)) =
      Inr sample_manifest"
    by (rule write_read_manifest [OF valid ran, THEN conjunct1]) (auto simp: manifest_ext_def)
  then show ?thesis by (simp add: name)
qed

end
