(* ===== verification/Runsc.thy ===== *)
theory Runsc
  imports Snapshots
begin

text \<open>
  The crate \<open>oad-runtime\<close>: command lines for the \<open>runsc\<close> container runtime, the sequences that start,
  checkpoint, restore and delete the containers of a sandbox, and the publication of checkpoint
  images. \<open>runsc\<close> is an external program: its outcome and its effect on the file system at each
  interaction are parameters; the state records the command lines it was run with.
\<close>

section \<open>External programs\<close>

text \<open>An exit status without a code is a termination by a signal.\<close>

record cmd_output =
  co_status :: "int option"
  co_stdout :: string
  co_stderr :: string

record 'b run_ext = "'b snap_ext" +
  run_cmd :: "nat \<Rightarrow> string \<Rightarrow> string list \<Rightarrow> (string, cmd_output) result"
  cmd_disk :: "nat \<Rightarrow> string \<Rightarrow> string list \<Rightarrow> 'b disk \<Rightarrow> 'b disk"
  temp_log :: "nat \<Rightarrow> (string, path) result"
  utf8_lossy :: "string \<Rightarrow> string"
  json_status :: "string \<Rightarrow> string option"
  bytes_of :: "'b \<Rightarrow> string"

record 'b run_world = "'b reg_world" +
  cmds :: "(string \<times> string list) list"

definition status_success :: "cmd_output \<Rightarrow> bool" where
  "status_success out \<longleftrightarrow> co_status out = Some 0"

definition show_status :: "int option \<Rightarrow> string" where
  "show_status st = (case st of Some c \<Rightarrow> ''exit status: '' @ show_int c | None \<Rightarrow> ''signal'')"

text \<open>A spawned program is recorded and may change the file system; a failed spawn does neither.\<close>

definition spawn_cmd ::
  "('b, 'x) run_ext_scheme \<Rightarrow> string \<Rightarrow> string list
   \<Rightarrow> (('b, 'z) run_world_scheme, string, cmd_output) comp" where
  "spawn_cmd ex prog args = (\<lambda>w. let t = tick w; w' = w\<lparr>tick := Suc t\<rparr> in
     case run_cmd ex t prog args of
       Inl m \<Rightarrow> (Inl m, w')
     | Inr out \<Rightarrow> (Inr out, w'\<lparr>cmds := cmds w @ [(prog, args)],
                                disk := cmd_disk ex t prog args (disk w)\<rparr>))"

lemma spawn_cmd_run [code]:
  "spawn_cmd ex prog args w = (let t = tick w; w' = w\<lparr>tick := Suc t\<rparr> in
     case run_cmd ex t prog args of
       Inl m \<Rightarrow> (Inl m, w')
     | Inr out \<Rightarrow> (Inr out, w'\<lparr>cmds := cmds w @ [(prog, args)],
                                disk := cmd_disk ex t prog args (disk w)\<rparr>))"
  by (simp add: spawn_cmd_def)

section \<open>Types\<close>

definition RUNSC :: string where
  "RUNSC = ''runsc''"

definition RUNSC_CHECKPOINT_IMAGE :: string where
  "RUNSC_CHECKPOINT_IMAGE = ''checkpoint.img''"

definition RUNSC_ERROR_LOG_TAIL_BYTES :: nat where
  "RUNSC_ERROR_LOG_TAIL_BYTES = 64 * 1024"

definition SAVE_RESTORE_NETSTACK_ARG :: string where
  "SAVE_RESTORE_NETSTACK_ARG = ''-save-restore-netstack=true''"

datatype RunscNetworkMode = RnSandbox | RnHost

fun RunscNetworkMode_from :: "NetworkMode \<Rightarrow> RunscNetworkMode" where
  "RunscNetworkMode_from NmSandbox = RnSandbox"
| "RunscNetworkMode_from NmHost = RnHost"

fun NetworkMode_from :: "RunscNetworkMode \<Rightarrow> NetworkMode" where
  "NetworkMode_from RnSandbox = NmSandbox"
| "NetworkMode_from RnHost = NmHost"

datatype RestoreSpecValidation = Enforce | Warning

fun as_runsc_arg :: "RestoreSpecValidation \<Rightarrow> string" where
  "as_runsc_arg Enforce = ''enforce''"
| "as_runsc_arg Warning = ''warning''"

record Runsc =
  state_dir :: path
  network_mode :: RunscNetworkMode

record ExecOutput =
  eo_exit_code :: int
  eo_stdout :: string
  eo_stderr :: string

datatype RuntimeError =
    RtSpawn string
  | RtExit "int option" "string list" string string
  | RtIo io_error
  | TeardownFailures "(string \<times> string) list"

fun show_io_error :: "io_error \<Rightarrow> string" where
  "show_io_error NotFound = ''No such file or directory (os error 2)''"
| "show_io_error (NotFoundAt m) = m"
| "show_io_error AlreadyExists = ''File exists (os error 17)''"
| "show_io_error (OtherIo m) = m"

fun show_RuntimeError :: "RuntimeError \<Rightarrow> string" where
  "show_RuntimeError (RtSpawn m) = ''failed to spawn runsc: '' @ m"
| "show_RuntimeError (RtExit st args out er) =
     ''runsc exited with '' @ show_status st @ ''; args='' @ show_debug_list args
       @ ''; stdout='' @ show_debug out @ ''; stderr='' @ show_debug er"
| "show_RuntimeError (RtIo e) = ''i/o error: '' @ show_io_error e"
| "show_RuntimeError (TeardownFailures fs) =
     ''failed to delete containers after checkpoint: '' @ show_debug_pairs fs"

section \<open>Command lines\<close>

definition Runsc_new :: "path \<Rightarrow> Runsc" where
  "Runsc_new d = \<lparr>state_dir = d, network_mode = RnSandbox\<rparr>"

definition with_network_mode :: "path \<Rightarrow> RunscNetworkMode \<Rightarrow> Runsc" where
  "with_network_mode d m = \<lparr>state_dir = d, network_mode = m\<rparr>"

definition base_args :: "Runsc \<Rightarrow> path option \<Rightarrow> string list" where
  "base_args r log_path =
     [''-log-format'', ''json'']
     @ (case log_path of Some p \<Rightarrow> [''-log'', display p] | None \<Rightarrow> [])
     @ [''-root'', display (state_dir r)]"

definition base_args_with_network :: "Runsc \<Rightarrow> path option \<Rightarrow> string list" where
  "base_args_with_network r log_path =
     base_args r log_path @ (if network_mode r = RnHost then [''-network'', ''host''] else [])"

definition overlay_arg :: "path \<Rightarrow> string" where
  "overlay_arg overlay_dir = ''--overlay2=root:dir='' @ display overlay_dir"

definition create_args :: "Runsc \<Rightarrow> path \<Rightarrow> path \<Rightarrow> string \<Rightarrow> path \<Rightarrow> string list" where
  "create_args r bundle pidf container overlay =
     base_args_with_network r None @ [overlay_arg overlay]
     @ [''create'', ''-bundle'', display bundle, ''-pid-file'', display pidf, container]"

definition start_args :: "Runsc \<Rightarrow> string \<Rightarrow> path \<Rightarrow> string list" where
  "start_args r container overlay =
     base_args_with_network r None @ [''-net-disconnect-ok=true'', SAVE_RESTORE_NETSTACK_ARG]
     @ [overlay_arg overlay] @ [''start'', container]"

definition checkpoint_args :: "Runsc \<Rightarrow> string \<Rightarrow> path \<Rightarrow> path \<Rightarrow> bool \<Rightarrow> string list" where
  "checkpoint_args r container image_dir overlay leave_running =
     base_args r None @ [overlay_arg overlay] @ [''checkpoint'']
     @ (if leave_running then [''-leave-running''] else [])
     @ [''-image-path'', display image_dir, container]"

definition restore_args ::
  "Runsc \<Rightarrow> string \<Rightarrow> path \<Rightarrow> path \<Rightarrow> path \<Rightarrow> path \<Rightarrow> RestoreSpecValidation \<Rightarrow> string list" where
  "restore_args r container bundle image_dir pidf overlay spec_validation =
     base_args_with_network r None @ [SAVE_RESTORE_NETSTACK_ARG] @ [overlay_arg overlay]
     @ [''-restore-spec-validation'', as_runsc_arg spec_validation]
     @ [''restore'', ''-bundle'', display bundle, ''-image-path'', display image_dir,
        ''-pid-file'', display pidf, ''-detach'', container]"

definition delete_args :: "Runsc \<Rightarrow> string \<Rightarrow> path option \<Rightarrow> string list" where
  "delete_args r container log_path = base_args r log_path @ [''delete'', ''-force'', container]"

definition state_args :: "Runsc \<Rightarrow> string \<Rightarrow> path option \<Rightarrow> string list" where
  "state_args r container log_path = base_args r log_path @ [''state'', container]"

definition exec_args ::
  "Runsc \<Rightarrow> string \<Rightarrow> string list \<Rightarrow> string list \<Rightarrow> string option \<Rightarrow> path option \<Rightarrow> string list" where
  "exec_args r container command env cwd log_path =
     base_args r log_path @ [''exec'']
     @ (case cwd of Some d \<Rightarrow> [''-cwd'', d] | None \<Rightarrow> [])
     @ concat (map (\<lambda>var. [''-env'', var]) env)
     @ [''--''] @ [container] @ command"

section \<open>Running \<open>runsc\<close>\<close>

definition read_tail ::
  "('b, 'x) run_ext_scheme \<Rightarrow> path \<Rightarrow> nat \<Rightarrow> (('b, 'z) world_scheme, io_error, string) comp" where
  "read_tail ex p max_bytes =
     andThen (read_file ex p) (\<lambda>b.
     let body = bytes_of ex b; start = length body - max_bytes in
     ok (utf8_lossy ex (drop start body)))"

definition is_blank :: "string \<Rightarrow> bool" where
  "is_blank s \<longleftrightarrow> list_all (\<lambda>c. let n = (of_char c :: nat) in n = 32 \<or> (9 \<le> n \<and> n \<le> 13)) s"

definition runsc_log_error ::
  "('b, 'x) run_ext_scheme \<Rightarrow> path \<Rightarrow> (('b, 'z) world_scheme, 'e, string) comp" where
  "runsc_log_error ex log_path =
     try_case (read_tail ex log_path RUNSC_ERROR_LOG_TAIL_BYTES)
       (\<lambda>e. ok (''see '' @ display log_path @ '' (failed to read log: '' @ show_io_error e @ '')''))
       (\<lambda>log. if is_blank log then ok (''see '' @ display log_path @ '' (log was empty)'')
              else ok (''see '' @ display log_path @ ''; log tail:'' @ nl @ log))"

text \<open>\<open>OpenOptions::new().create(true).append(true).open(p)\<close>\<close>

definition open_append ::
  "('b, 'x) ext_scheme \<Rightarrow> path \<Rightarrow> (('b, 'z) world_scheme, io_error, unit) comp" where
  "open_append ex p = syscall ex untouched
     (\<lambda>d. case d_get d p of
        Some Dir \<Rightarrow> Inl (OtherIo ''Is a directory'')
      | Some (File _) \<Rightarrow> Inr ((), d)
      | None \<Rightarrow> if parent_is_dir d p then Inr ((), d_put p (File (empty_body ex)) d) else Inl NotFound)"

definition run_logged ::
  "('b, 'x) run_ext_scheme \<Rightarrow> string list \<Rightarrow> path
   \<Rightarrow> (('b, 'z) run_world_scheme, RuntimeError, unit) comp" where
  "run_logged ex args log_path =
     andThen (map_err RtIo (create_parent ex log_path)) (\<lambda>_.
     andThen (map_err RtIo (open_append ex log_path)) (\<lambda>_.
     andThen (map_err RtIo (flush ex)) (\<lambda>_.
     andThen (map_err RtSpawn (spawn_cmd ex RUNSC args)) (\<lambda>out.
     if status_success out then ok ()
     else andThen (runsc_log_error ex log_path) (\<lambda>stderr.
          err (RtExit (co_status out) args [] stderr))))))"

definition run_captured ::
  "('b, 'x) run_ext_scheme \<Rightarrow> string list
   \<Rightarrow> (('b, 'z) run_world_scheme, RuntimeError, cmd_output) comp" where
  "run_captured ex args =
     andThen (map_err RtSpawn (spawn_cmd ex RUNSC args)) (\<lambda>out.
     if status_success out then ok out
     else err (RtExit (co_status out) args (utf8_lossy ex (co_stdout out)) (utf8_lossy ex (co_stderr out))))"

definition temp_runsc_log ::
  "('b, 'x) run_ext_scheme \<Rightarrow> (('b, 'z) world_scheme, RuntimeError, path) comp" where
  "temp_runsc_log ex = (\<lambda>w. case temp_log ex (tick w) of
       Inl m \<Rightarrow> (Inl (RtIo (OtherIo m)), w\<lparr>tick := Suc (tick w)\<rparr>)
     | Inr p \<Rightarrow> (Inr p, w\<lparr>tick := Suc (tick w)\<rparr>))"

definition runsc_create ::
  "('b, 'x) run_ext_scheme \<Rightarrow> Runsc \<Rightarrow> path \<Rightarrow> path \<Rightarrow> string \<Rightarrow> path \<Rightarrow> path
   \<Rightarrow> (('b, 'z) run_world_scheme, RuntimeError, unit) comp" where
  "runsc_create ex r bundle pidf container overlay log_path =
     run_logged ex (create_args r bundle pidf container overlay) log_path"

definition runsc_start ::
  "('b, 'x) run_ext_scheme \<Rightarrow> Runsc \<Rightarrow> string \<Rightarrow> path \<Rightarrow> path
   \<Rightarrow> (('b, 'z) run_world_scheme, RuntimeError, unit) comp" where
  "runsc_start ex r container overlay log_path = run_logged ex (start_args r container overlay) log_path"

definition runsc_checkpoint ::
  "('b, 'x) run_ext_scheme \<Rightarrow> Runsc \<Rightarrow> string \<Rightarrow> path \<Rightarrow> path \<Rightarrow> path \<Rightarrow> bool
   \<Rightarrow> (('b, 'z) run_world_scheme, RuntimeError, unit) comp" where
  "runsc_checkpoint ex r container image_dir overlay log_path leave_running =
     run_logged ex (checkpoint_args r container image_dir overlay leave_running) log_path"

definition runsc_restore ::
  "('b, 'x) run_ext_scheme \<Rightarrow> Runsc \<Rightarrow> string \<Rightarrow> path \<Rightarrow> path \<Rightarrow> path \<Rightarrow> path \<Rightarrow> RestoreSpecValidation
   \<Rightarrow> path \<Rightarrow> (('b, 'z) run_world_scheme, RuntimeError, unit) comp" where
  "runsc_restore ex r container bundle image_dir pidf overlay spec_validation log_path =
     run_logged ex (restore_args r container bundle image_dir pidf overlay spec_validation) log_path"

definition runsc_delete ::
  "('b, 'x) run_ext_scheme \<Rightarrow> Runsc \<Rightarrow> string \<Rightarrow> (('b, 'z) run_world_scheme, RuntimeError, unit) comp" where
  "runsc_delete ex r container =
     andThen (temp_runsc_log ex) (\<lambda>log.
     andThen (run_captured ex (delete_args r container (Some log))) (\<lambda>_. ok ()))"

definition runsc_state ::
  "('b, 'x) run_ext_scheme \<Rightarrow> Runsc \<Rightarrow> string \<Rightarrow> (('b, 'z) run_world_scheme, RuntimeError, string) comp" where
  "runsc_state ex r container =
     andThen (temp_runsc_log ex) (\<lambda>log.
     andThen (run_captured ex (state_args r container (Some log))) (\<lambda>out.
     ok (utf8_lossy ex (co_stdout out))))"

definition runsc_exec ::
  "('b, 'x) run_ext_scheme \<Rightarrow> Runsc \<Rightarrow> string \<Rightarrow> string list \<Rightarrow> string list \<Rightarrow> string option
   \<Rightarrow> (('b, 'z) run_world_scheme, RuntimeError, ExecOutput) comp" where
  "runsc_exec ex r container command env cwd =
     andThen (temp_runsc_log ex) (\<lambda>log.
     andThen (map_err RtSpawn (spawn_cmd ex RUNSC (exec_args r container command env cwd (Some log)))) (\<lambda>out.
     ok \<lparr>eo_exit_code = (case co_status out of Some c \<Rightarrow> c | None \<Rightarrow> - 1),
         eo_stdout = co_stdout out, eo_stderr = co_stderr out\<rparr>))"

section \<open>Sequences over the containers of a sandbox\<close>

definition runsc_for_sandbox :: "OadPaths \<Rightarrow> SandboxId \<Rightarrow> Runsc" where
  "runsc_for_sandbox ps i = Runsc_new (runsc_state_dir ps i)"

definition runsc_for_sandbox_with_network :: "OadPaths \<Rightarrow> SandboxId \<Rightarrow> RunscNetworkMode \<Rightarrow> Runsc" where
  "runsc_for_sandbox_with_network ps i m = with_network_mode (runsc_state_dir ps i) m"

definition create_runtime_dirs ::
  "('b, 'x) ext_scheme \<Rightarrow> OadPaths \<Rightarrow> SandboxId \<Rightarrow> (('b, 'z) world_scheme, RuntimeError, unit) comp" where
  "create_runtime_dirs ex ps i =
     andThen (map_err RtIo (create_dir_all ex (runsc_state_dir ps i))) (\<lambda>_.
     andThen (map_err RtIo (create_dir_all ex (pidfiles_dir ps i))) (\<lambda>_.
     map_err RtIo (create_dir_all ex (logs_dir ps i))))"

definition create_and_start ::
  "('b, 'x) run_ext_scheme \<Rightarrow> OadPaths \<Rightarrow> SandboxId \<Rightarrow> Runsc \<Rightarrow> string
   \<Rightarrow> (('b, 'z) run_world_scheme, RuntimeError, unit) comp" where
  "create_and_start ex ps i r container =
     (let bundle = bundle_dir ps i container; pidf = pidfile ps i container;
          overlay = rootfs_overlay_dir ps i container; log = container_log ps i container in
      andThen (runsc_create ex r bundle pidf container overlay log) (\<lambda>_.
      runsc_start ex r container overlay log))"

definition start_container_sequence ::
  "('b, 'x) run_ext_scheme \<Rightarrow> OadPaths \<Rightarrow> SandboxId \<Rightarrow> string list \<Rightarrow> RunscNetworkMode
   \<Rightarrow> (('b, 'z) run_world_scheme, RuntimeError, unit) comp" where
  "start_container_sequence ex ps i containers m =
     andThen (create_runtime_dirs ex ps i) (\<lambda>_.
     for_each containers (create_and_start ex ps i (runsc_for_sandbox_with_network ps i m)))"

text \<open>The loop of \<open>delete_visible_containers\<close> over the containers in the order it visits them.\<close>

fun delete_visible_loop ::
  "('b, 'x) run_ext_scheme \<Rightarrow> Runsc \<Rightarrow> string list \<Rightarrow> (string \<times> string) list
   \<Rightarrow> (('b, 'z) run_world_scheme, 'e, (string \<times> string) list) comp" where
  "delete_visible_loop ex r [] failures = ok failures"
| "delete_visible_loop ex r (container # rest) failures =
     try_case (runsc_state ex r container)
       (\<lambda>_. delete_visible_loop ex r rest failures)
       (\<lambda>_. try_case (runsc_delete ex r container)
          (\<lambda>e. delete_visible_loop ex r rest (failures @ [(container, show_RuntimeError e)]))
          (\<lambda>_. delete_visible_loop ex r rest failures))"

definition delete_visible_containers ::
  "('b, 'x) run_ext_scheme \<Rightarrow> Runsc \<Rightarrow> string list
   \<Rightarrow> (('b, 'z) run_world_scheme, 'e, (string \<times> string) list) comp" where
  "delete_visible_containers ex r containers = delete_visible_loop ex r (rev containers) []"

definition delete_visible_container_sequence ::
  "('b, 'x) run_ext_scheme \<Rightarrow> OadPaths \<Rightarrow> SandboxId \<Rightarrow> string list
   \<Rightarrow> (('b, 'z) run_world_scheme, RuntimeError, (string \<times> string) list) comp" where
  "delete_visible_container_sequence ex ps i containers =
     delete_visible_containers ex (runsc_for_sandbox ps i) containers"

definition exec_in_container ::
  "('b, 'x) run_ext_scheme \<Rightarrow> OadPaths \<Rightarrow> SandboxId \<Rightarrow> string \<Rightarrow> string list \<Rightarrow> string list \<Rightarrow> string option
   \<Rightarrow> (('b, 'z) run_world_scheme, RuntimeError, ExecOutput) comp" where
  "exec_in_container ex ps i container args env cwd =
     runsc_exec ex (runsc_for_sandbox ps i) container args env cwd"

definition parse_runsc_status :: "('b, 'x) run_ext_scheme \<Rightarrow> string \<Rightarrow> string option" where
  "parse_runsc_status ex state_json = json_status ex state_json"

definition container_running_result ::
  "('b, 'x) run_ext_scheme \<Rightarrow> OadPaths \<Rightarrow> SandboxId \<Rightarrow> string
   \<Rightarrow> (('b, 'z) run_world_scheme, RuntimeError, bool) comp" where
  "container_running_result ex ps i container =
     andThen (runsc_state ex (runsc_for_sandbox ps i) container) (\<lambda>st.
     ok (parse_runsc_status ex st = Some ''running''))"

definition container_running ::
  "('b, 'x) run_ext_scheme \<Rightarrow> OadPaths \<Rightarrow> SandboxId \<Rightarrow> string
   \<Rightarrow> (('b, 'z) run_world_scheme, 'e, bool) comp" where
  "container_running ex ps i container =
     try_case (container_running_result ex ps i container) (\<lambda>_. ok False) ok"

text \<open>
  \<open>spawn_exec\<close> and \<open>spawn_pty_exec\<close> hand the running process to the caller; its streams are not part
  of this state, so the result is the argument vector it was started with. The command runs on, and
  its effects belong to later interactions.
\<close>

definition spawn_exec ::
  "('b, 'x) run_ext_scheme \<Rightarrow> Runsc \<Rightarrow> string \<Rightarrow> string list \<Rightarrow> string list \<Rightarrow> string option \<Rightarrow> path option
   \<Rightarrow> (('b, 'z) run_world_scheme, RuntimeError, string list) comp" where
  "spawn_exec ex r container command env cwd log_path =
     andThen (case log_path of None \<Rightarrow> ok () | Some p \<Rightarrow> map_err RtIo (create_parent ex p)) (\<lambda>_.
     let arguments = exec_args r container command env cwd log_path in
     andThen (map_err RtSpawn (spawn_cmd ex RUNSC arguments)) (\<lambda>_. ok arguments))"

definition spawn_exec_in_container ::
  "('b, 'x) run_ext_scheme \<Rightarrow> OadPaths \<Rightarrow> SandboxId \<Rightarrow> string \<Rightarrow> string list \<Rightarrow> string list \<Rightarrow> string option
   \<Rightarrow> path option \<Rightarrow> (('b, 'z) run_world_scheme, RuntimeError, string list) comp" where
  "spawn_exec_in_container ex ps i container args env cwd log_path =
     spawn_exec ex (runsc_for_sandbox ps i) container args env cwd log_path"

section \<open>Which commands are run\<close>

lemma touch_cmds:
  fixes w w' :: "('b, 'z) run_world_scheme"
  assumes "touch S w w'"
  shows "cmds w' = cmds w"
proof -
  have "world.more w' = world.more w" using assms by (simp add: touch_def)
  then show ?thesis by (cases w, cases w') simp
qed

text \<open>
  \<open>emits m xs\<close>: \<open>m\<close> runs the commands \<open>xs\<close> in this order; when it fails it has run a prefix of them.
\<close>

definition emits ::
  "(('b, 'z) run_world_scheme, 'e, 'a) comp \<Rightarrow> (string \<times> string list) list \<Rightarrow> bool" where
  "emits m xs \<longleftrightarrow> (\<forall>w. \<exists>ys. prefix ys xs \<and> cmds (snd (m w)) = cmds w @ ys
     \<and> (is_ok (fst (m w)) \<longrightarrow> ys = xs))"

lemma emits_run:
  assumes "emits m xs" and "m w = (r, w')"
  obtains ys where "prefix ys xs" and "cmds w' = cmds w @ ys" and "is_ok r \<longrightarrow> ys = xs"
  using assms unfolding emits_def by (metis fst_conv snd_conv)

lemma emitsI:
  assumes "\<And>w r w'. m w = (r, w') \<Longrightarrow>
    \<exists>ys. prefix ys xs \<and> cmds w' = cmds w @ ys \<and> (is_ok r \<longrightarrow> ys = xs)"
  shows "emits m xs"
  unfolding emits_def using assms by (metis prod.collapse)

lemma emits_touch: "keeps (touch S) m \<Longrightarrow> emits m []"
  by (rule emitsI) (auto dest: keepsD' touch_cmds)

lemma emits_ok [pres_intros]: "emits (ok x) []"
  by (rule emitsI) (simp add: ok_def)

lemma emits_map_err [pres_intros]: "emits m xs \<Longrightarrow> emits (map_err g m) xs"
  by (rule emitsI) (auto simp: map_err_def split: prod.splits sum.splits elim!: emits_run)

lemma emits_andThen [pres_intros]:
  assumes "emits m xs" and "\<And>x. emits (f x) ys"
  shows "emits (andThen m f) (xs @ ys)"
proof (rule emitsI)
  fix w r w'
  assume run: "andThen m f w = (r, w')"
  obtain r1 w1 where m: "m w = (r1, w1)" by force
  obtain zs where zs: "prefix zs xs" "cmds w1 = cmds w @ zs" "is_ok r1 \<longrightarrow> zs = xs"
    by (rule emits_run [OF assms(1) m])
  show "\<exists>vs. prefix vs (xs @ ys) \<and> cmds w' = cmds w @ vs \<and> (is_ok r \<longrightarrow> vs = xs @ ys)"
  proof (cases r1)
    case (Inl e)
    with run m have "r = Inl e" "w' = w1" by (simp_all add: andThen_def)
    with zs show ?thesis by auto
  next
    case (Inr x)
    with run m have "f x w1 = (r, w')" by (simp add: andThen_def)
    from emits_run [OF assms(2) this] obtain us where
      "prefix us ys" "cmds w' = cmds w1 @ us" "is_ok r \<longrightarrow> us = ys" by metis
    with zs Inr show ?thesis by (intro exI [of _ "xs @ us"]) auto
  qed
qed

lemma emits_andThen_last: "emits m xs \<Longrightarrow> (\<And>x. emits (f x) []) \<Longrightarrow> emits (andThen m f) xs"
  using emits_andThen [of m xs f "[]"] by simp

lemma emits_for_each: "(\<And>x. emits (f x) (g x)) \<Longrightarrow> emits (for_each xs f) (concat (map g xs))"
  by (induction xs) (simp_all add: emits_ok emits_andThen)

lemma spawn_cmd_result:
  "fst (spawn_cmd ex prog args w) = run_cmd ex (tick w) prog args"
  "cmds (snd (spawn_cmd ex prog args w)) =
     cmds w @ (case run_cmd ex (tick w) prog args of Inl _ \<Rightarrow> [] | Inr _ \<Rightarrow> [(prog, args)])"
  by (cases "run_cmd ex (tick w) prog args", simp_all add: spawn_cmd_def Let_def)+

lemma emits_spawn_cmd: "emits (spawn_cmd ex prog args) [(prog, args)]"
  unfolding emits_def spawn_cmd_result by (auto split: sum.splits)

lemma touch_open_append: "keeps (touch {p}) (open_append ex p)"
  unfolding open_append_def
  by (rule keeps_syscall) (auto split: option.splits node.splits if_splits)

lemma touch_runsc_log_error [pres_intros]: "keeps (touch S) (runsc_log_error ex p)"
  unfolding runsc_log_error_def read_tail_def Let_def by (intro pres_intros)

lemma touch_temp_runsc_log [pres_intros]: "keeps (touch S) (temp_runsc_log ex)"
  by (auto simp: keeps_def temp_runsc_log_def touch_def split: sum.splits)

lemma emits_err_after: "keeps (touch S) m \<Longrightarrow> emits (andThen m (\<lambda>x. err (f x))) []"
  by (rule emits_touch [where S = S]) (intro pres_intros)

lemma emits_run_logged: "emits (run_logged ex args log_path) [(RUNSC, args)]"
proof -
  have after: "emits (if status_success out then ok () else andThen (runsc_log_error ex log_path)
      (\<lambda>stderr. err (RtExit (co_status out) args [] stderr))) []" for out
    by (simp add: emits_ok emits_err_after [OF touch_runsc_log_error [where S = "{}"]])
  show ?thesis
    unfolding run_logged_def
    using emits_andThen [OF emits_map_err [OF emits_touch [OF touch_create_parent]]
        emits_andThen [OF emits_map_err [OF emits_touch [OF touch_open_append]]
        emits_andThen [OF emits_map_err [OF emits_touch [OF touch_readonly(1) [where S = "{}"]]]
        emits_andThen_last [OF emits_map_err [OF emits_spawn_cmd] after]]]]
    by simp
qed

text \<open>The commands that start one container.\<close>

definition start_commands :: "OadPaths \<Rightarrow> SandboxId \<Rightarrow> Runsc \<Rightarrow> string \<Rightarrow> (string \<times> string list) list" where
  "start_commands ps i r c =
     [(RUNSC, create_args r (bundle_dir ps i c) (pidfile ps i c) c (rootfs_overlay_dir ps i c)),
      (RUNSC, start_args r c (rootfs_overlay_dir ps i c))]"

lemma emits_create_and_start: "emits (create_and_start ex ps i r c) (start_commands ps i r c)"
  unfolding create_and_start_def Let_def runsc_create_def runsc_start_def start_commands_def
  using emits_andThen [OF emits_run_logged emits_run_logged] by simp

lemma emits_create_runtime_dirs: "emits (create_runtime_dirs ex ps i) []"
  unfolding create_runtime_dirs_def
  using emits_andThen [OF emits_map_err [OF emits_touch [OF touch_create_dir_all]]
      emits_andThen [OF emits_map_err [OF emits_touch [OF touch_create_dir_all]]
        emits_map_err [OF emits_touch [OF touch_create_dir_all]]]]
  by simp

subsection \<open>Deleting what is visible\<close>

text \<open>
  A runtime with steady answers: the log file can be created, \<open>runsc\<close> can be spawned, a container is
  visible or not, and deleting it works or not.
\<close>

definition steady_runsc ::
  "('b, 'x) run_ext_scheme \<Rightarrow> Runsc \<Rightarrow> path \<Rightarrow> (string \<Rightarrow> bool) \<Rightarrow> (string \<Rightarrow> bool) \<Rightarrow> bool" where
  "steady_runsc ex r lg visible deletable \<longleftrightarrow>
     (\<forall>t. temp_log ex t = Inr lg)
     \<and> (\<forall>t c. \<exists>out. run_cmd ex t RUNSC (state_args r c (Some lg)) = Inr out
          \<and> status_success out = visible c)
     \<and> (\<forall>t c. \<exists>out. run_cmd ex t RUNSC (delete_args r c (Some lg)) = Inr out
          \<and> status_success out = deletable c)"

definition cleanup_commands ::
  "Runsc \<Rightarrow> path \<Rightarrow> (string \<Rightarrow> bool) \<Rightarrow> string \<Rightarrow> (string \<times> string list) list" where
  "cleanup_commands r lg visible c =
     (RUNSC, state_args r c (Some lg))
       # (if visible c then [(RUNSC, delete_args r c (Some lg))] else [])"

lemma steady_temp_log:
  assumes "steady_runsc ex r lg visible deletable"
  shows "temp_runsc_log ex w = (Inr lg, w\<lparr>tick := Suc (tick w)\<rparr>)"
  using assms by (simp add: steady_runsc_def temp_runsc_log_def)

lemma run_captured_result:
  assumes "run_cmd ex (tick w) RUNSC args = Inr out"
  shows "is_ok (fst (run_captured ex args w)) = status_success out
    \<and> cmds (snd (run_captured ex args w)) = cmds w @ [(RUNSC, args)]"
  using assms by (simp add: run_captured_def spawn_cmd_def Let_def res_simps)

lemma steady_state:
  assumes "steady_runsc ex r lg visible deletable"
  shows "is_ok (fst (runsc_state ex r c w)) = visible c
    \<and> cmds (snd (runsc_state ex r c w)) = cmds w @ [(RUNSC, state_args r c (Some lg))]"
proof -
  let ?w = "w\<lparr>tick := Suc (tick w)\<rparr>"
  obtain out where out: "run_cmd ex (tick ?w) RUNSC (state_args r c (Some lg)) = Inr out"
    "status_success out = visible c"
    using assms unfolding steady_runsc_def by blast
  have "runsc_state ex r c w = andThen (run_captured ex (state_args r c (Some lg))) (\<lambda>out.
      ok (utf8_lossy ex (co_stdout out))) ?w"
    unfolding runsc_state_def by (rule andThen_run) (rule steady_temp_log [OF assms])
  with run_captured_result [OF out(1)] out(2) show ?thesis
    by (simp add: andThen_def ok_def split: prod.splits sum.splits)
qed

lemma steady_delete:
  assumes "steady_runsc ex r lg visible deletable"
  shows "is_ok (fst (runsc_delete ex r c w)) = deletable c
    \<and> cmds (snd (runsc_delete ex r c w)) = cmds w @ [(RUNSC, delete_args r c (Some lg))]"
proof -
  let ?w = "w\<lparr>tick := Suc (tick w)\<rparr>"
  obtain out where out: "run_cmd ex (tick ?w) RUNSC (delete_args r c (Some lg)) = Inr out"
    "status_success out = deletable c"
    using assms unfolding steady_runsc_def by blast
  have "runsc_delete ex r c w = andThen (run_captured ex (delete_args r c (Some lg))) (\<lambda>_. ok ()) ?w"
    unfolding runsc_delete_def by (rule andThen_run) (rule steady_temp_log [OF assms])
  with run_captured_result [OF out(1)] out(2) show ?thesis
    by (simp add: andThen_def ok_def split: prod.splits sum.splits)
qed

lemma delete_visible_loop_result:
  assumes "steady_runsc ex r lg visible deletable"
  shows "\<exists>fs. fst (delete_visible_loop ex r cs acc w) = Inr fs
    \<and> map fst fs = map fst acc @ filter (\<lambda>c. visible c \<and> \<not> deletable c) cs
    \<and> cmds (snd (delete_visible_loop ex r cs acc w)) =
        cmds w @ concat (map (cleanup_commands r lg visible) cs)"
proof (induction cs arbitrary: acc w)
  case (Cons c cs)
  obtain r1 w1 where q: "runsc_state ex r c w = (r1, w1)" by force
  note s = steady_state [OF assms, of c w, unfolded q fst_conv snd_conv]
  show ?case
  proof (cases r1)
    case (Inl e)
    then have "\<not> visible c" using s by simp
    then show ?thesis using Cons.IH [of acc w1] s Inl q
      by (simp add: try_case_def cleanup_commands_def)
  next
    case (Inr x)
    obtain r2 w2 where d: "runsc_delete ex r c w1 = (r2, w2)" by force
    note ds = steady_delete [OF assms, of c w1, unfolded d fst_conv snd_conv]
    have vis: "visible c" using s Inr by simp
    show ?thesis
    proof (cases r2)
      case err: (Inl e)
      with ds have "\<not> deletable c" by simp
      with Cons.IH [of "acc @ [(c, show_RuntimeError e)]" w2] s ds Inr q d err vis show ?thesis
        by (simp add: try_case_def cleanup_commands_def)
    next
      case deleted: (Inr u)
      with ds have "deletable c" by simp
      with Cons.IH [of acc w2] s ds Inr q d deleted vis show ?thesis
        by (simp add: try_case_def cleanup_commands_def)
    qed
  qed
qed (simp add: ok_def)

section \<open>Properties\<close>

text \<open>
  Start order: \<open>start_container_sequence\<close> runs \<open>runsc create\<close> and then \<open>runsc start\<close> for each
  container in the order of the list, and nothing else; when it fails, it has run a prefix of
  these commands.
\<close>

theorem start_container_sequence_order:
  "\<exists>ran. prefix ran (concat (map (start_commands ps i (runsc_for_sandbox_with_network ps i m)) containers))
     \<and> cmds (snd (start_container_sequence ex ps i containers m w)) = cmds w @ ran
     \<and> (is_ok (fst (start_container_sequence ex ps i containers m w)) \<longrightarrow>
          ran = concat (map (start_commands ps i (runsc_for_sandbox_with_network ps i m)) containers))"
proof -
  have "emits (start_container_sequence ex ps i containers m)
      (concat (map (start_commands ps i (runsc_for_sandbox_with_network ps i m)) containers))"
    unfolding start_container_sequence_def
    using emits_andThen [OF emits_create_runtime_dirs emits_for_each [OF emits_create_and_start]]
    by simp
  then show ?thesis unfolding emits_def by blast
qed

text \<open>
  The outside world of the examples: \<open>bad\<close> lists the system calls that fail, \<open>run\<close> is the behaviour of
  \<open>runsc\<close>; files hold text and no serialised value.
\<close>

definition runsc_ext :: "nat list \<Rightarrow> (string list \<Rightarrow> (string, cmd_output) result) \<Rightarrow> string run_ext" where
  "runsc_ext bad run = \<lparr>now = (\<lambda>t. int t), pid = 7, uuid = (\<lambda>_. ''u''),
     fault = (\<lambda>t. if List.member bad t then Some ''EIO'' else None),
     empty_body = [], torn = (\<lambda>_. []), survives = (\<lambda>_ _. False), made = (\<lambda>_. 0),
     enc_record = (\<lambda>_. Inl []), dec_record = (\<lambda>_. Inl []), enc_manifest = (\<lambda>_. Inl []),
     dec_manifest = (\<lambda>_. Inl []), rfc3339 = (\<lambda>_. None), run_cmd = (\<lambda>_ _ args. run args),
     cmd_disk = (\<lambda>_ _ _ d. d), temp_log = (\<lambda>_. Inr [''/'', ''tmp'', ''log'']),
     utf8_lossy = (\<lambda>s. s), json_status = (\<lambda>_. None), bytes_of = (\<lambda>s. s)\<rparr>"

definition empty_host :: "string run_world" where
  "empty_host = \<lparr>tick = 0, tmp_counter = 0, disk = [], records = [], locks = [], lock_seq = 0, cmds = []\<rparr>"

definition succeeds :: "string list \<Rightarrow> (string, cmd_output) result" where
  "succeeds args = Inr \<lparr>co_status = Some 0, co_stdout = [], co_stderr = []\<rparr>"

theorem start_container_sequence_order_witness:
  "let w' = snd (start_container_sequence (runsc_ext [] succeeds) root_paths ''a''
        [''pause'', ''web''] RnSandbox empty_host);
       r = runsc_for_sandbox_with_network root_paths ''a'' RnSandbox in
   cmds w' = start_commands root_paths ''a'' r ''pause'' @ start_commands root_paths ''a'' r ''web''"
proof -
  let ?run = "start_container_sequence (runsc_ext [] succeeds) root_paths ''a'' [''pause'', ''web''] RnSandbox empty_host"
  have "is_ok (fst ?run)" by code_simp
  then show ?thesis
    using start_container_sequence_order [where ps = root_paths and i = "''a''" and m = RnSandbox
        and containers = "[''pause'', ''web'']" and ex = "runsc_ext [] succeeds" and w = empty_host]
    by (auto simp: empty_host_def)
qed

text \<open>
  Teardown: \<open>delete_visible_containers\<close> visits the containers in reverse order, asks \<open>runsc state\<close>
  of each, deletes exactly the visible ones, goes on after a failed deletion, and reports exactly the
  containers that were visible and could not be deleted, in the order visited.
\<close>

theorem delete_visible_containers_exact:
  assumes "steady_runsc ex r lg visible deletable"
  shows "\<exists>failures. fst (delete_visible_containers ex r containers w) = Inr failures
    \<and> map fst failures = filter (\<lambda>c. visible c \<and> \<not> deletable c) (rev containers)
    \<and> cmds (snd (delete_visible_containers ex r containers w)) =
        cmds w @ concat (map (cleanup_commands r lg visible) (rev containers))"
  using delete_visible_loop_result [OF assms, of "rev containers" "[]" w]
  by (simp add: delete_visible_containers_def)

text \<open>A runtime in which only \<open>pause\<close> and \<open>web\<close> are visible and \<open>web\<close> cannot be deleted.\<close>

definition stuck_web :: "string list \<Rightarrow> (string, cmd_output) result" where
  "stuck_web args = Inr \<lparr>co_status = (if last args = ''db'' \<or> (last args = ''web'' \<and> List.member args ''delete'')
     then Some 1 else Some 0), co_stdout = [], co_stderr = []\<rparr>"

theorem delete_visible_containers_exact_witness:
  "\<exists>failures. fst (delete_visible_containers (runsc_ext [] stuck_web) (Runsc_new [''/'', ''state''])
      [''pause'', ''web'', ''db''] empty_host) = (Inr failures :: RuntimeError + _) \<and> map fst failures = [''web'']"
proof -
  let ?r = "Runsc_new [''/'', ''state'']" and ?ex = "runsc_ext [] stuck_web"
  have "steady_runsc ?ex ?r [''/'', ''tmp'', ''log''] (\<lambda>c. c \<noteq> ''db'') (\<lambda>c. c \<noteq> ''db'' \<and> c \<noteq> ''web'')"
    by (auto simp: steady_runsc_def runsc_ext_def stuck_web_def state_args_def delete_args_def
        base_args_def status_success_def Runsc_new_def display_def root_component_def)
  from delete_visible_containers_exact [OF this, where containers = "[''pause'', ''web'', ''db'']" and w = empty_host]
  show ?thesis by auto
qed

text \<open>
  The flags of \<open>runsc exec\<close> as the command line library of \<open>runsc\<close> reads them: \<open>-cwd\<close> and \<open>-env\<close> take the
  next argument, \<open>--\<close> ends the flags, any other argument with a leading dash is an unknown flag.
\<close>

fun parse_exec_flags ::
  "string list \<Rightarrow> string option \<Rightarrow> string list \<Rightarrow> (string option \<times> string list \<times> string list) option" where
  "parse_exec_flags [] cwd env = Some (cwd, env, [])"
| "parse_exec_flags (a # rest) cwd env =
     (if a = ''--'' then Some (cwd, env, rest)
      else if a = ''-cwd'' then (case rest of [] \<Rightarrow> None | v # rest' \<Rightarrow> parse_exec_flags rest' (Some v) env)
      else if a = ''-env'' then (case rest of [] \<Rightarrow> None | v # rest' \<Rightarrow> parse_exec_flags rest' cwd (env @ [v]))
      else if a \<noteq> [] \<and> hd a = CHR ''-'' then None
      else Some (cwd, env, a # rest))"

lemma parse_exec_flags_env:
  "parse_exec_flags (concat (map (\<lambda>v. [''-env'', v]) env) @ ''--'' # rest) cwd acc = Some (cwd, acc @ env, rest)"
  by (induction env arbitrary: acc) simp_all

text \<open>
  No argument injection: whatever strings the client sends as command, environment and working
  directory (also strings with a leading dash), reading the flags of the generated command line
  gives back exactly that working directory, that environment, and the container name followed by
  the command.
\<close>

theorem exec_args_roundtrip:
  "\<exists>rest. exec_args r container command env cwd log_path = base_args r log_path @ ''exec'' # rest
     \<and> parse_exec_flags rest None [] = Some (cwd, env, container # command)"
  by (cases cwd) (simp_all add: exec_args_def parse_exec_flags_env)

end
