(* ===== verification/Checkpoints.thy ===== *)
theory Checkpoints
  imports Runsc
begin

text \<open>
  Checkpoint images (\<open>oad-runtime\<close>): which containers are checkpointed and how, the publication of
  an image directory by renaming with a backup of the previous one, the recovery of the backup, and
  suspending, snapshotting, copying and restoring a sandbox. The lemmas follow three directory trees
  (the image, the temporary image and the backup) through every failure of a system call.
\<close>

section \<open>Targets\<close>

definition checkpoint_target_names :: "string list \<Rightarrow> string list" where
  "checkpoint_target_names containers =
     (let workloads = filter (\<lambda>c. c \<noteq> PAUSE_CONTAINER) containers in
      if list_ex (\<lambda>c. c = PAUSE_CONTAINER) containers then PAUSE_CONTAINER # workloads else workloads)"

definition checkpoint_targets :: "string list \<Rightarrow> (string \<times> bool) list" where
  "checkpoint_targets containers = map (\<lambda>c. (c, True)) (checkpoint_target_names containers)"

definition checkpoint_suspend_targets :: "string list \<Rightarrow> (string \<times> bool) list" where
  "checkpoint_suspend_targets containers =
     (let names = checkpoint_target_names containers; last_index = length names - 1 in
      map (\<lambda>(index, c). (c, index \<noteq> last_index)) (enumerate 0 names))"

definition container_checkpoint_dir :: "path \<Rightarrow> string \<Rightarrow> path" where
  "container_checkpoint_dir image_dir container = join image_dir container"

section \<open>Writing images\<close>

definition checkpoint_one ::
  "('b, 'x) run_ext_scheme \<Rightarrow> OadPaths \<Rightarrow> SandboxId \<Rightarrow> Runsc \<Rightarrow> path \<Rightarrow> string \<times> bool
   \<Rightarrow> (('b, 'z) run_world_scheme, RuntimeError, unit) comp" where
  "checkpoint_one ex ps i r image_dir target = (case target of (container, leave_running) \<Rightarrow>
     let dir = container_checkpoint_dir image_dir container;
         overlay = rootfs_overlay_dir ps i container; log = container_log ps i container in
     andThen (map_err RtIo (create_dir_all ex dir)) (\<lambda>_.
     runsc_checkpoint ex r container dir overlay log leave_running))"

definition checkpoint_container_images ::
  "('b, 'x) run_ext_scheme \<Rightarrow> OadPaths \<Rightarrow> SandboxId \<Rightarrow> (string \<times> bool) list \<Rightarrow> path
   \<Rightarrow> (('b, 'z) run_world_scheme, RuntimeError, unit) comp" where
  "checkpoint_container_images ex ps i targets image_dir =
     for_each targets (checkpoint_one ex ps i (runsc_for_sandbox ps i) image_dir)"

definition checkpoint_suspend_images ::
  "('b, 'x) run_ext_scheme \<Rightarrow> OadPaths \<Rightarrow> SandboxId \<Rightarrow> string list \<Rightarrow> path
   \<Rightarrow> (('b, 'z) run_world_scheme, RuntimeError, unit) comp" where
  "checkpoint_suspend_images ex ps i containers image_dir =
     checkpoint_container_images ex ps i (checkpoint_suspend_targets containers) image_dir"

section \<open>Publishing an image directory\<close>

definition remove_dir_if_exists ::
  "('b, 'x) ext_scheme \<Rightarrow> path \<Rightarrow> (('b, 'z) world_scheme, RuntimeError, unit) comp" where
  "remove_dir_if_exists ex p =
     try_case (remove_dir_all ex p)
       (\<lambda>e. if e = NotFound then ok () else err (RtIo e))
       (\<lambda>_. ok ())"

definition path_exists ::
  "('b, 'x) ext_scheme \<Rightarrow> path \<Rightarrow> (('b, 'z) world_scheme, RuntimeError, bool) comp" where
  "path_exists ex p = map_err RtIo (try_exists ex p)"

definition backup_checkpoint_dir :: "path \<Rightarrow> path" where
  "backup_checkpoint_dir image_dir =
     (let dir_name = (case file_name image_dir of None \<Rightarrow> ''checkpoint'' | Some n \<Rightarrow> n) in
      with_file_name image_dir (''.'' @ dir_name @ ''.backup''))"

text \<open>\<open>entry.file_type()\<close> of a directory entry.\<close>

definition entry_is_dir ::
  "('b, 'x) ext_scheme \<Rightarrow> path \<Rightarrow> (('b, 'z) world_scheme, io_error, bool) comp" where
  "entry_is_dir ex p = syscall ex untouched (\<lambda>d. Inr (d_get d p = Some Dir, d))"

fun sync_entries ::
  "('b, 'x) ext_scheme \<Rightarrow> path \<Rightarrow> string list \<Rightarrow> (('b, 'z) world_scheme, io_error, unit) comp" where
  "sync_entries ex image_dir [] = next_entry ex"
| "sync_entries ex image_dir (n # ns) =
     andThen (next_entry ex) (\<lambda>_.
     let dir = join image_dir n in
     andThen (entry_is_dir ex dir) (\<lambda>is_directory.
     if \<not> is_directory then sync_entries ex image_dir ns
     else andThen (sync_file ex (join dir RUNSC_CHECKPOINT_IMAGE)) (\<lambda>_.
          andThen (sync_dir ex dir) (\<lambda>_.
          sync_entries ex image_dir ns))))"

definition sync_checkpoint_dir ::
  "('b, 'x) ext_scheme \<Rightarrow> path \<Rightarrow> (('b, 'z) world_scheme, RuntimeError, unit) comp" where
  "sync_checkpoint_dir ex image_dir = map_err RtIo (
     let top_level_image = join image_dir RUNSC_CHECKPOINT_IMAGE in
     andThen (try_exists ex top_level_image) (\<lambda>found.
     andThen
       (if found then sync_file ex top_level_image
        else andThen (read_dir ex image_dir) (\<lambda>names. sync_entries ex image_dir names)) (\<lambda>_.
     sync_dir ex image_dir)))"

definition publish_checkpoint_dir ::
  "('b, 'x) ext_scheme \<Rightarrow> path \<Rightarrow> path \<Rightarrow> (('b, 'z) world_scheme, RuntimeError, unit) comp" where
  "publish_checkpoint_dir ex tmp_image_dir image_dir =
     andThen (sync_checkpoint_dir ex tmp_image_dir) (\<lambda>_.
     andThen (map_err RtIo (create_parent ex image_dir)) (\<lambda>_.
     let backup = backup_checkpoint_dir image_dir in
     andThen (remove_dir_if_exists ex backup) (\<lambda>_.
     andThen (path_exists ex image_dir) (\<lambda>found.
     andThen
       (if found then
          andThen (map_err RtIo (rename_path ex image_dir backup)) (\<lambda>_.
          andThen (map_err RtIo (sync_parent ex image_dir)) (\<lambda>_. ok True))
        else ok False) (\<lambda>moved_existing_to_backup.
     andThen
       (try_case (rename_path ex tmp_image_dir image_dir)
          (\<lambda>e. if moved_existing_to_backup then
                 andThen (ignore (rename_path ex backup image_dir)) (\<lambda>_.
                 andThen (ignore (sync_parent ex image_dir)) (\<lambda>_. err (RtIo e)))
               else err (RtIo e))
          ok) (\<lambda>_.
     andThen (map_err RtIo (sync_parent ex image_dir)) (\<lambda>_.
     andThen (remove_dir_if_exists ex backup) (\<lambda>_.
     ok ()))))))))"

section \<open>Completeness and recovery\<close>

definition checkpoint_dir_has_image ::
  "('b, 'x) ext_scheme \<Rightarrow> path \<Rightarrow> (('b, 'z) world_scheme, 'e, bool) comp" where
  "checkpoint_dir_has_image ex image_dir =
     try_case (try_exists ex (join image_dir RUNSC_CHECKPOINT_IMAGE)) (\<lambda>_. ok False) ok"

fun all_have_images ::
  "('b, 'x) ext_scheme \<Rightarrow> path \<Rightarrow> string list \<Rightarrow> (('b, 'z) world_scheme, 'e, bool) comp" where
  "all_have_images ex image_dir [] = ok True"
| "all_have_images ex image_dir (c # cs) =
     andThen (checkpoint_dir_has_image ex (container_checkpoint_dir image_dir c)) (\<lambda>found.
     if \<not> found then ok False else all_have_images ex image_dir cs)"

definition checkpoint_tree_complete_for_containers ::
  "('b, 'x) ext_scheme \<Rightarrow> path \<Rightarrow> string list \<Rightarrow> (('b, 'z) world_scheme, 'e, bool) comp" where
  "checkpoint_tree_complete_for_containers ex image_dir containers =
     (let targets = checkpoint_target_names containers in
      if targets = [] then ok False else all_have_images ex image_dir targets)"

text \<open>\<open>checkpoint_dir_has_image(d) || checkpoint_tree_complete_for_containers(d, containers)\<close>\<close>

definition image_or_tree ::
  "('b, 'x) ext_scheme \<Rightarrow> path \<Rightarrow> string list \<Rightarrow> (('b, 'z) world_scheme, 'e, bool) comp" where
  "image_or_tree ex image_dir containers =
     andThen (checkpoint_dir_has_image ex image_dir) (\<lambda>top.
     if top then ok True else checkpoint_tree_complete_for_containers ex image_dir containers)"

definition recover_backup_checkpoint_dir_for_containers ::
  "('b, 'x) ext_scheme \<Rightarrow> path \<Rightarrow> string list \<Rightarrow> (('b, 'z) world_scheme, 'e, bool) comp" where
  "recover_backup_checkpoint_dir_for_containers ex image_dir containers =
     (let backup = backup_checkpoint_dir image_dir in
      andThen (image_or_tree ex backup containers) (\<lambda>usable.
      if \<not> usable then ok False
      else andThen (ignore (remove_dir_if_exists ex image_dir)) (\<lambda>_.
        try_case (rename_path ex backup image_dir)
          (\<lambda>_. image_or_tree ex image_dir containers)
          (\<lambda>_. andThen (ignore (sync_parent ex image_dir)) (\<lambda>_. ok True)))))"

definition checkpoint_image_complete_for_containers ::
  "('b, 'x) ext_scheme \<Rightarrow> path \<Rightarrow> string list \<Rightarrow> (('b, 'z) world_scheme, 'e, bool) comp" where
  "checkpoint_image_complete_for_containers ex image_dir containers =
     andThen (image_or_tree ex image_dir containers) (\<lambda>complete.
     if complete then
       andThen (ignore (remove_dir_if_exists ex (backup_checkpoint_dir image_dir))) (\<lambda>_. ok True)
     else recover_backup_checkpoint_dir_for_containers ex image_dir containers)"

definition no_image_message :: "path \<Rightarrow> string \<Rightarrow> string" where
  "no_image_message image_dir container =
     ''no checkpoint image for container '' @ container @ '' under '' @ display image_dir"

definition checkpoint_image_dir_for_container ::
  "('b, 'x) ext_scheme \<Rightarrow> path \<Rightarrow> string \<Rightarrow> (('b, 'z) world_scheme, RuntimeError, path) comp" where
  "checkpoint_image_dir_for_container ex image_dir container =
     (let dir = container_checkpoint_dir image_dir container in
      andThen (checkpoint_dir_has_image ex dir) (\<lambda>own.
      if own then ok dir
      else andThen (checkpoint_dir_has_image ex image_dir) (\<lambda>top.
        if top then ok image_dir
        else err (RtIo (NotFoundAt (no_image_message image_dir container))))))"

section \<open>Suspend, snapshot and restore\<close>

text \<open>\<open>let _ = fs::remove_dir_all(&tmp).await\<close> after a failure.\<close>

definition checkpoint_sandbox ::
  "('b, 'x) run_ext_scheme \<Rightarrow> OadPaths \<Rightarrow> SandboxId \<Rightarrow> string list \<Rightarrow> path
   \<Rightarrow> (('b, 'z) run_world_scheme, RuntimeError, unit) comp" where
  "checkpoint_sandbox ex ps i containers image_dir =
     andThen (temp_path ex image_dir) (\<lambda>tmp_image_dir.
     on_err
       (andThen (remove_dir_if_exists ex tmp_image_dir) (\<lambda>_.
        andThen (map_err RtIo (create_dir_all ex tmp_image_dir)) (\<lambda>_.
        andThen (checkpoint_suspend_images ex ps i containers tmp_image_dir) (\<lambda>_.
        andThen (delete_visible_containers ex (runsc_for_sandbox ps i) containers) (\<lambda>failures.
        if failures \<noteq> [] then err (TeardownFailures failures)
        else publish_checkpoint_dir ex tmp_image_dir image_dir)))))
       (remove_dir_all ex tmp_image_dir))"

definition snapshot_sandbox ::
  "('b, 'x) run_ext_scheme \<Rightarrow> OadPaths \<Rightarrow> SandboxId \<Rightarrow> string list \<Rightarrow> path
   \<Rightarrow> (('b, 'z) run_world_scheme, RuntimeError, unit) comp" where
  "snapshot_sandbox ex ps i containers image_dir =
     andThen (temp_path ex image_dir) (\<lambda>tmp_image_dir.
     on_err
       (andThen (remove_dir_if_exists ex tmp_image_dir) (\<lambda>_.
        andThen (map_err RtIo (create_dir_all ex tmp_image_dir)) (\<lambda>_.
        andThen (checkpoint_container_images ex ps i (checkpoint_targets containers) tmp_image_dir) (\<lambda>_.
        publish_checkpoint_dir ex tmp_image_dir image_dir))))
       (remove_dir_all ex tmp_image_dir))"

subsection \<open>Copying an image\<close>

text \<open>\<open>fs::copy\<close> of a regular file; a failing copy may leave a part of the target.\<close>

definition copy_file ::
  "('b, 'x) ext_scheme \<Rightarrow> path \<Rightarrow> path \<Rightarrow> (('b, 'z) world_scheme, io_error, unit) comp" where
  "copy_file ex p q = syscall ex (\<lambda>t d. d_put q (File (torn ex t)) d)
     (\<lambda>d. case d_get d p of
        None \<Rightarrow> Inl NotFound
      | Some Dir \<Rightarrow> Inl (OtherIo ''the source path is neither a regular file nor a symlink to a regular file'')
      | Some (File body) \<Rightarrow>
          if d_get d q = Some Dir then Inl (OtherIo ''Is a directory'')
          else if \<not> parent_is_dir d q then Inl NotFound
          else Inr ((), d_put q (File body) d))"

text \<open>The inner loop over one directory's entries; it returns the stack with the directories found.\<close>

fun copy_entries ::
  "('b, 'x) ext_scheme \<Rightarrow> path \<Rightarrow> path \<Rightarrow> string list \<Rightarrow> (path \<times> path) list
   \<Rightarrow> (('b, 'z) world_scheme, io_error, (path \<times> path) list) comp" where
  "copy_entries ex from to [] stack = andThen (next_entry ex) (\<lambda>_. ok stack)"
| "copy_entries ex from to (n # ns) stack =
     andThen (next_entry ex) (\<lambda>_.
     andThen (entry_is_dir ex (join from n)) (\<lambda>is_directory.
     let target = join to n in
     if is_directory then
       andThen (create_dir_all ex target) (\<lambda>_.
       copy_entries ex from to ns (stack @ [(join from n, target)]))
     else
       andThen (copy_file ex (join from n) target) (\<lambda>_.
       copy_entries ex from to ns stack)))"

text \<open>
  The outer loop pops the last entry of the stack; the fuel bounds the number of directories it
  visits, and \<open>None\<close> as the error says that the fuel ran out.
\<close>

fun copy_loop ::
  "('b, 'x) ext_scheme \<Rightarrow> nat \<Rightarrow> (path \<times> path) list \<Rightarrow> (('b, 'z) world_scheme, io_error option, unit) comp" where
  "copy_loop ex 0 stack = (if stack = [] then ok () else err None)"
| "copy_loop ex (Suc fuel) stack =
     (if stack = [] then ok ()
      else case last stack of (from, to) \<Rightarrow>
        andThen (map_err Some (read_dir ex from)) (\<lambda>names.
        andThen (map_err Some (copy_entries ex from to names (butlast stack))) (\<lambda>stack'.
        copy_loop ex fuel stack')))"

text \<open>Every directory visited is an entry of the file system, besides the source itself.\<close>

definition copy_dir_recursive ::
  "('b, 'x) ext_scheme \<Rightarrow> path \<Rightarrow> path \<Rightarrow> (('b, 'z) world_scheme, io_error option, unit) comp" where
  "copy_dir_recursive ex src dst = (\<lambda>w. copy_loop ex (Suc (length (disk w))) [(src, dst)] w)"

definition copy_io_error :: "io_error option \<Rightarrow> RuntimeError" where
  "copy_io_error e = RtIo (case e of Some e' \<Rightarrow> e' | None \<Rightarrow> OtherIo ''out of fuel'')"

definition copy_checkpoint_image ::
  "('b, 'x) ext_scheme \<Rightarrow> path \<Rightarrow> path \<Rightarrow> string list \<Rightarrow> (('b, 'z) world_scheme, RuntimeError, unit) comp" where
  "copy_checkpoint_image ex src_image_dir dst_image_dir containers =
     andThen (checkpoint_image_complete_for_containers ex src_image_dir containers) (\<lambda>complete.
     if \<not> complete then err (RtIo (NotFoundAt (''no checkpoint image at '' @ display src_image_dir)))
     else andThen (temp_path ex dst_image_dir) (\<lambda>tmp_image_dir.
       on_err
         (andThen (remove_dir_if_exists ex tmp_image_dir) (\<lambda>_.
          andThen (map_err RtIo (create_dir_all ex tmp_image_dir)) (\<lambda>_.
          andThen (map_err copy_io_error (copy_dir_recursive ex src_image_dir tmp_image_dir)) (\<lambda>_.
          publish_checkpoint_dir ex tmp_image_dir dst_image_dir))))
         (remove_dir_all ex tmp_image_dir)))"

subsection \<open>Restoring\<close>

definition restore_one ::
  "('b, 'x) run_ext_scheme \<Rightarrow> OadPaths \<Rightarrow> SandboxId \<Rightarrow> Runsc \<Rightarrow> path \<Rightarrow> RestoreSpecValidation \<Rightarrow> bool \<Rightarrow> string
   \<Rightarrow> (('b, 'z) run_world_scheme, RuntimeError, unit) comp" where
  "restore_one ex ps i r image_dir spec_validation legacy_checkpoint container =
     (let bundle = bundle_dir ps i container; pidf = pidfile ps i container;
          overlay = rootfs_overlay_dir ps i container; log = container_log ps i container in
      andThen (if legacy_checkpoint then ok True
               else checkpoint_dir_has_image ex (container_checkpoint_dir image_dir container)) (\<lambda>found.
      if found then
        andThen (checkpoint_image_dir_for_container ex image_dir container) (\<lambda>dir.
        runsc_restore ex r container bundle dir pidf overlay spec_validation log)
      else if container = PAUSE_CONTAINER then
        andThen (runsc_create ex r bundle pidf container overlay log) (\<lambda>_.
        runsc_start ex r container overlay log)
      else err (RtIo (NotFoundAt (no_image_message image_dir container)))))"

definition restore_sandbox ::
  "('b, 'x) run_ext_scheme \<Rightarrow> OadPaths \<Rightarrow> SandboxId \<Rightarrow> string list \<Rightarrow> path \<Rightarrow> RestoreSpecValidation
   \<Rightarrow> RunscNetworkMode \<Rightarrow> (('b, 'z) run_world_scheme, RuntimeError, unit) comp" where
  "restore_sandbox ex ps i containers image_dir spec_validation m =
     andThen (create_runtime_dirs ex ps i) (\<lambda>_.
     andThen (checkpoint_dir_has_image ex image_dir) (\<lambda>legacy_checkpoint.
     for_each containers
       (restore_one ex ps i (runsc_for_sandbox_with_network ps i m) image_dir spec_validation
          legacy_checkpoint)))"

section \<open>The trees around a publication\<close>

text \<open>The tree below a path, by relative path; the empty relative path is the node itself.\<close>

definition tree :: "'b disk \<Rightarrow> path \<Rightarrow> path \<Rightarrow> 'b node option" where
  "tree d p = (\<lambda>r. d_get d (p @ r))"

abbreviation no_tree :: "path \<Rightarrow> 'b node option" where
  "no_tree \<equiv> \<lambda>_. None"

lemma tree_touch: "touch S w w' \<Longrightarrow> (\<And>r. p @ r \<notin> S) \<Longrightarrow> tree (disk w') p = tree (disk w) p"
  by (auto simp: tree_def touch_def)

lemma tree_move:
  assumes "u \<noteq> v"
  shows "tree (d_move_tree (q @ [u]) (q @ [v]) d) (q @ [v]) = tree d (q @ [u])"
    and "tree (d_move_tree (q @ [u]) (q @ [v]) d) (q @ [u]) = no_tree"
    and "x \<noteq> u \<Longrightarrow> x \<noteq> v \<Longrightarrow> tree (d_move_tree (q @ [u]) (q @ [v]) d) (q @ [x]) = tree d (q @ [x])"
  using assms by (auto simp: tree_def d_get_move_tree fun_eq_iff)

lemma dirs_ok_move:
  "u \<noteq> v \<Longrightarrow> dirs_ok q (w\<lparr>tick := n, disk := d_move_tree (q @ [u]) (q @ [v]) (disk w)\<rparr>) = dirs_ok q w"
  by (auto simp: dirs_ok_def d_get_move_tree dest: not_prefix_below)

text \<open>
  \<open>three P\<close>: a property of the trees of three siblings in \<open>q\<close> (the image, the temporary image and
  the backup), in a state where \<open>q\<close> is a directory.
\<close>

definition three ::
  "path \<Rightarrow> string \<Rightarrow> string \<Rightarrow> string
   \<Rightarrow> ((path \<Rightarrow> 'b node option) \<Rightarrow> (path \<Rightarrow> 'b node option) \<Rightarrow> (path \<Rightarrow> 'b node option) \<Rightarrow> bool)
   \<Rightarrow> ('b, 'z) world_scheme \<Rightarrow> bool" where
  "three q s t b P w \<longleftrightarrow> dirs_ok q w
     \<and> P (tree (disk w) (q @ [s])) (tree (disk w) (q @ [t])) (tree (disk w) (q @ [b]))"

lemma three_read:
  assumes "\<And>S. keeps (touch S) m"
  shows "triple (three q s t b P) m (\<lambda>_. three q s t b P) (\<lambda>_. three q s t b P)"
proof (rule triple_keeps [OF assms])
  fix w w' :: "('a, 'b) world_scheme"
  assume t: "touch {} w w'" and "three q s t b P w"
  moreover have "tree (disk w') p = tree (disk w) p" for p by (rule tree_touch [OF t]) simp
  moreover have "dirs_ok q w' = dirs_ok q w" using t by (simp add: dirs_ok_def touch_def)
  ultimately show "three q s t b P w'" by (simp add: three_def)
qed

lemma three_rename:
  assumes "u \<noteq> v"
    and "\<And>w n. three q s t b P w \<Longrightarrow> Q' (w\<lparr>tick := n, disk := d_move_tree (q @ [u]) (q @ [v]) (disk w)\<rparr>)"
  shows "triple (three q s t b P) (rename_path ex (q @ [u]) (q @ [v])) (\<lambda>_. Q') (\<lambda>_. three q s t b P)"
  unfolding rename_path_def
  by (rule triple_syscall) (use assms in \<open>auto simp: three_def dirs_ok_def split: option.splits node.splits if_splits\<close>)

lemma touch_remove_dir_if_exists: "keeps (touch {r. prefix p r}) (remove_dir_if_exists ex p)"
  unfolding remove_dir_if_exists_def by (intro pres_intros touch_remove_dir_all)

lemma three_remove_backup:
  assumes "b \<noteq> s" and "b \<noteq> t"
  shows "triple (three q s t b (\<lambda>x y _. P x y)) (remove_dir_if_exists ex (q @ [b]))
    (\<lambda>_. three q s t b (\<lambda>x y _. P x y)) (\<lambda>_. three q s t b (\<lambda>x y _. P x y))"
proof (rule triple_keeps [OF touch_remove_dir_if_exists])
  fix w w' :: "('a, 'b) world_scheme"
  assume t: "touch {r. prefix (q @ [b]) r} w w'" and P: "three q s t b (\<lambda>x y _. P x y) w"
  have "tree (disk w') (q @ [u]) = tree (disk w) (q @ [u])" if "u \<noteq> b" for u
    by (rule tree_touch [OF t]) (use that in auto)
  moreover have "dirs_ok q w' = dirs_ok q w"
    using t by (auto simp: dirs_ok_def touch_def dest: not_prefix_below)
  ultimately show "three q s t b (\<lambda>x y _. P x y) w'" using P assms by (simp add: three_def)
qed

lemma touch_entry_is_dir [pres_intros]: "keeps (touch S) (entry_is_dir ex p)"
  and touch_next_entry [pres_intros]: "keeps (touch S) (next_entry ex)"
  unfolding entry_is_dir_def next_entry_def by (rule keeps_syscall, auto)+

lemma touch_sync_entries [pres_intros]: "keeps (touch S) (sync_entries ex p ns)"
  by (induction ns) (auto simp: Let_def intro!: pres_intros)

lemma touch_sync_checkpoint_dir [pres_intros]: "keeps (touch S) (sync_checkpoint_dir ex p)"
  unfolding sync_checkpoint_dir_def Let_def by (intro pres_intros)

lemma touch_path_exists [pres_intros]: "keeps (touch S) (path_exists ex p)"
  unfolding path_exists_def by (intro pres_intros)

section \<open>Publication never loses the image\<close>

text \<open>
  The image is the new one or the old one, or the image is absent and the backup is the old one.
\<close>

definition safe_trees ::
  "(path \<Rightarrow> 'b node option) \<Rightarrow> (path \<Rightarrow> 'b node option)
   \<Rightarrow> (path \<Rightarrow> 'b node option) \<Rightarrow> (path \<Rightarrow> 'b node option) \<Rightarrow> (path \<Rightarrow> 'b node option) \<Rightarrow> bool" where
  "safe_trees old new x y z \<longleftrightarrow> x = new \<or> x = old \<or> (x = no_tree \<and> z = old)"

lemma three_weaken: "three q s t b P w \<Longrightarrow> (\<And>x y z. P x y z \<Longrightarrow> Q x y z) \<Longrightarrow> three q s t b Q w"
  by (simp add: three_def)

lemma three_read_conseq:
  assumes "\<And>S. keeps (touch S) m" and "\<And>x y z. P x y z \<Longrightarrow> Q x y z" and "\<And>x y z. P x y z \<Longrightarrow> E x y z"
  shows "triple (three q s t b P) m (\<lambda>_. three q s t b Q) (\<lambda>_. three q s t b E)"
  by (rule triple_conseq [OF three_read [OF assms(1), where P = P]])
    (auto simp: three_def dest: assms(2,3))

lemma move_old_to_backup:
  assumes "plain_segment s" and "s \<noteq> t" "s \<noteq> b" "t \<noteq> b"
  shows "triple (three q s t b (\<lambda>x y _. x = old \<and> y = new))
    (andThen (map_err RtIo (rename_path ex (q @ [s]) (q @ [b]))) (\<lambda>_.
       andThen (map_err RtIo (sync_parent ex (q @ [s]))) (\<lambda>_. ok True)))
    (\<lambda>moved. three q s t b (\<lambda>x y z. moved \<and> x = no_tree \<and> y = new \<and> z = old))
    (\<lambda>_. three q s t b (safe_trees old new))"
proof (intro triple_andThen triple_map_err triple_ok)
  show "triple (three q s t b (\<lambda>x y _. x = old \<and> y = new)) (rename_path ex (q @ [s]) (q @ [b]))
      (\<lambda>_. three q s t b (\<lambda>x y z. x = no_tree \<and> y = new \<and> z = old))
      (\<lambda>_. three q s t b (safe_trees old new))"
    by (rule triple_conseq [OF three_rename [where P = "\<lambda>x y _. x = old \<and> y = new"
        and Q' = "three q s t b (\<lambda>x y z. x = no_tree \<and> y = new \<and> z = old)"]])
      (use assms in \<open>auto simp: three_def dirs_ok_move tree_move safe_trees_def\<close>)
  show "triple (three q s t b (\<lambda>x y z. x = no_tree \<and> y = new \<and> z = old)) (sync_parent ex (q @ [s]))
      (\<lambda>_. three q s t b (\<lambda>x y z. x = no_tree \<and> y = new \<and> z = old))
      (\<lambda>_. three q s t b (safe_trees old new))"
    by (rule three_read_conseq) (auto intro: pres_intros simp: safe_trees_def)
qed (simp add: three_def)

lemma move_new_to_image:
  assumes "s \<noteq> t" "s \<noteq> b" "t \<noteq> b"
  shows "triple (three q s t b (\<lambda>x y z. y = new \<and> (if moved then x = no_tree \<and> z = old else x = old)))
    (try_case (rename_path ex (q @ [t]) (q @ [s]))
       (\<lambda>e. if moved then andThen (ignore (rename_path ex (q @ [b]) (q @ [s]))) (\<lambda>_.
              andThen (ignore (sync_parent ex (q @ [s]))) (\<lambda>_. err (RtIo e)))
            else err (RtIo e)) ok)
    (\<lambda>_. three q s t b (\<lambda>x _ _. x = new)) (\<lambda>_. three q s t b (safe_trees old new))"
proof (rule triple_try_case)
  let ?P = "\<lambda>x y z. y = new \<and> (if moved then x = no_tree \<and> z = old else x = old)"
  show "triple (three q s t b ?P) (rename_path ex (q @ [t]) (q @ [s]))
      (\<lambda>_. three q s t b (\<lambda>x _ _. x = new)) (\<lambda>_. three q s t b ?P)"
    by (rule three_rename) (use assms in \<open>auto simp: three_def dirs_ok_move tree_move\<close>)
  fix e
  let ?E = "\<lambda>_. three q s t b (safe_trees old new)"
  have restored: "triple (three q s t b ?P) (rename_path ex (q @ [b]) (q @ [s])) ?E ?E" if "moved"
    by (rule triple_conseq [OF three_rename [where s = s and t = t and b = b and P = ?P
        and Q' = "three q s t b (safe_trees old new)"]])
      (use assms(2) [symmetric] assms that in \<open>simp_all add: three_def dirs_ok_move tree_move safe_trees_def\<close>)
  have sync: "triple (three q s t b (safe_trees old new)) (sync_parent ex (q @ [s])) ?E ?E"
    by (rule three_read) (intro pres_intros)
  show "triple (three q s t b ?P)
      (if moved then andThen (ignore (rename_path ex (q @ [b]) (q @ [s]))) (\<lambda>_.
          andThen (ignore (sync_parent ex (q @ [s]))) (\<lambda>_. err (RtIo e)))
       else err (RtIo e)) (\<lambda>_. three q s t b (\<lambda>x _ _. x = new)) ?E"
  proof (cases moved)
    case True
    then show ?thesis
      using triple_andThen [OF triple_ignore [OF restored] triple_andThen [OF triple_ignore [OF sync] triple_err]]
      by simp
  qed (auto simp: three_def safe_trees_def intro: triple_err)
qed (simp add: triple_ok)

lemma publish_rest_triple:
  assumes "plain_segment s" and "s \<noteq> t" "s \<noteq> b" "t \<noteq> b"
  shows "triple (three q s t b (\<lambda>x y _. x = old \<and> y = new))
    (andThen (remove_dir_if_exists ex (q @ [b])) (\<lambda>_.
     andThen (path_exists ex (q @ [s])) (\<lambda>found.
     andThen (if found then
          andThen (map_err RtIo (rename_path ex (q @ [s]) (q @ [b]))) (\<lambda>_.
          andThen (map_err RtIo (sync_parent ex (q @ [s]))) (\<lambda>_. ok True))
        else ok False) (\<lambda>moved.
     andThen (try_case (rename_path ex (q @ [t]) (q @ [s]))
          (\<lambda>e. if moved then andThen (ignore (rename_path ex (q @ [b]) (q @ [s]))) (\<lambda>_.
                 andThen (ignore (sync_parent ex (q @ [s]))) (\<lambda>_. err (RtIo e)))
               else err (RtIo e)) ok) (\<lambda>_.
     andThen (map_err RtIo (sync_parent ex (q @ [s]))) (\<lambda>_.
     andThen (remove_dir_if_exists ex (q @ [b])) (\<lambda>_. ok ())))))))
    (\<lambda>_. three q s t b (\<lambda>x _ _. x = new)) (\<lambda>_. three q s t b (safe_trees old new))"
proof (intro triple_andThen)
  let ?E = "\<lambda>_. three q s t b (safe_trees old new)"
  let ?P = "three q s t b (\<lambda>x y _. x = old \<and> y = new)"
  let ?N = "three q s t b (\<lambda>x _ _. x = new)"
  show "triple ?P (remove_dir_if_exists ex (q @ [b])) (\<lambda>_. ?P) ?E"
    by (rule triple_conseq [OF three_remove_backup [where P = "\<lambda>x y. x = old \<and> y = new"]]) (use assms in \<open>auto simp: three_def safe_trees_def\<close>)
  show "triple ?P (path_exists ex (q @ [s])) (\<lambda>_. ?P) ?E"
    by (rule three_read_conseq) (auto intro: pres_intros simp: safe_trees_def)
  show "triple ?P (if found then
          andThen (map_err RtIo (rename_path ex (q @ [s]) (q @ [b]))) (\<lambda>_.
          andThen (map_err RtIo (sync_parent ex (q @ [s]))) (\<lambda>_. ok True))
        else ok False)
      (\<lambda>moved. three q s t b (\<lambda>x y z. y = new \<and> (if moved then x = no_tree \<and> z = old else x = old))) ?E"
    for found
    by (cases found) (auto intro!: triple_ok triple_conseq [OF move_old_to_backup [OF assms]] simp: three_def)
  show "triple ?N (map_err RtIo (sync_parent ex (q @ [s]))) (\<lambda>_. ?N) ?E"
    by (rule triple_map_err, rule three_read_conseq) (auto intro: pres_intros simp: safe_trees_def)
  show "triple ?N (remove_dir_if_exists ex (q @ [b])) (\<lambda>_. ?N) ?E"
    by (rule triple_conseq [OF three_remove_backup [where P = "\<lambda>x y. x = new"]]) (use assms in \<open>auto simp: three_def safe_trees_def\<close>)
  show "triple ?N (ok ()) (\<lambda>_. ?N) ?E" by (rule triple_ok)
qed (rule move_new_to_image [OF assms(2-4)])

lemma publish_checkpoint_dir_triple:
  assumes "plain_segment s" and "s \<noteq> t" "t \<noteq> ''.'' @ s @ ''.backup''"
  defines "b \<equiv> ''.'' @ s @ ''.backup''"
  shows "triple (\<lambda>w. tree (disk w) (q @ [s]) = old \<and> tree (disk w) (q @ [t]) = new)
    (publish_checkpoint_dir ex (q @ [t]) (q @ [s]))
    (\<lambda>_. three q s t b (\<lambda>x _ _. x = new))
    (\<lambda>_ w. tree (disk w) (q @ [s]) = old \<or> three q s t b (safe_trees old new) w)"
proof -
  let ?P = "\<lambda>w. tree (disk w) (q @ [s]) = old \<and> tree (disk w) (q @ [t]) = new"
  let ?E = "\<lambda>(_ :: RuntimeError) w. tree (disk w) (q @ [s]) = old \<or> three q s t b (safe_trees old new) w"
  have b: "plain_segment b" using assms(1) by (auto simp: b_def plain_segment_def)
  have len: "length s < length b" by (simp add: b_def)
  have bak: "backup_checkpoint_dir (q @ [s]) = q @ [b]"
    using assms(1) b by (simp add: backup_checkpoint_dir_def with_file_name_def b_def)
  have sync: "triple ?P (sync_checkpoint_dir ex (q @ [t])) (\<lambda>_. ?P) ?E"
    by (rule triple_conseq [OF triple_keeps [OF touch_sync_checkpoint_dir [where S = "{}"], where P = ?P]])
      (auto simp: tree_touch)
  have dirs: "triple ?P (map_err RtIo (create_parent ex (q @ [s])))
      (\<lambda>_. three q s t b (\<lambda>x y _. x = old \<and> y = new)) ?E"
  proof (rule triple_map_err, rule tripleI)
    fix w w' assume P: "?P w"
    have keep: "?P w'" if "create_parent ex (q @ [s]) w = (r, w')" for r w'
    proof -
      have t: "touch {r. strict_prefix r (q @ [s])} w w'"
        by (rule keepsD' [OF touch_create_parent that])
      have "tree (disk w') (q @ [u]) = tree (disk w) (q @ [u])" for u
        by (rule tree_touch [OF t]) (auto simp: strict_prefix_def dest: prefix_length_le)
      with P show ?thesis by simp
    qed
    show "three q s t b (\<lambda>x y _. x = old \<and> y = new) w'" if run: "create_parent ex (q @ [s]) w = (Inr x, w')" for x w'
      using keep [OF run] create_dir_all_dirs_ok [of ex q w w'] run assms(1)
      by (simp add: three_def create_parent_def)
    show "?E (RtIo e) w'" if "create_parent ex (q @ [s]) w = (Inl e, w')" for e w'
      using keep [OF that] by simp
  qed
  have rest: "triple (three q s t b (\<lambda>x y _. x = old \<and> y = new)) m
      (\<lambda>_. three q s t b (\<lambda>x _ _. x = new)) ?E"
    if "triple (three q s t b (\<lambda>x y _. x = old \<and> y = new)) m
      (\<lambda>_. three q s t b (\<lambda>x _ _. x = new)) (\<lambda>_. three q s t b (safe_trees old new))" for m
    by (rule triple_conseq [OF that]) simp_all
  show ?thesis
    unfolding publish_checkpoint_dir_def Let_def bak
    by (rule triple_andThen [OF sync], rule triple_andThen [OF dirs], rule rest,
        rule publish_rest_triple) (use assms(1-3) len in \<open>auto simp: b_def\<close>)
qed

subsection \<open>Recovery\<close>

definition image_complete :: "'b disk \<Rightarrow> path \<Rightarrow> string list \<Rightarrow> bool" where
  "image_complete d p containers \<longleftrightarrow>
     d_get d (join p RUNSC_CHECKPOINT_IMAGE) \<noteq> None
     \<or> (checkpoint_target_names containers \<noteq> []
        \<and> list_all (\<lambda>c. d_get d (join (container_checkpoint_dir p c) RUNSC_CHECKPOINT_IMAGE) \<noteq> None)
            (checkpoint_target_names containers))"

lemma plain_image [simp]: "plain_segment RUNSC_CHECKPOINT_IMAGE" "plain_segment PAUSE_CONTAINER"
  by code_simp+

lemma plain_targets:
  "list_all plain_segment containers \<Longrightarrow> c \<in> set (checkpoint_target_names containers) \<Longrightarrow> plain_segment c"
  by (auto simp: checkpoint_target_names_def list_all_iff Let_def split: if_splits)

lemma image_complete_tree:
  assumes "list_all plain_segment containers" and "tree d p = tree d' p'"
  shows "image_complete d p containers = image_complete d' p' containers"
proof -
  have eq: "d_get d (p @ r) = d_get d' (p' @ r)" for r
    using fun_cong [OF assms(2), of r] by (simp add: tree_def)
  have "d_get d (join (container_checkpoint_dir p c) RUNSC_CHECKPOINT_IMAGE) =
      d_get d' (join (container_checkpoint_dir p' c) RUNSC_CHECKPOINT_IMAGE)"
    if "c \<in> set (checkpoint_target_names containers)" for c
    using plain_targets [OF assms(1) that] eq [of "[c, RUNSC_CHECKPOINT_IMAGE]"]
    by (simp add: container_checkpoint_dir_def)
  then show ?thesis
    unfolding image_complete_def using eq [of "[RUNSC_CHECKPOINT_IMAGE]"]
    by (auto simp: list_all_iff)
qed

lemma image_complete_no_tree:
  assumes "list_all plain_segment containers" and "tree d p = no_tree"
  shows "\<not> image_complete d p containers"
  using image_complete_tree [of containers d p "[]" "[]"] assms
  by (auto simp: tree_def image_complete_def list_all_iff)

lemma andThen_ran: "fst (m w) = Inr x \<Longrightarrow> andThen m f w = f x (snd (m w))"
  by (cases "m w") (simp add: andThen_def)

lemma has_image_run:
  assumes "no_faults ex"
  shows "fst (checkpoint_dir_has_image ex p w) = Inr (d_get (disk w) (join p RUNSC_CHECKPOINT_IMAGE) \<noteq> None)"
    and "disk (snd (checkpoint_dir_has_image ex p w)) = disk w"
  using assms
  by (simp_all add: checkpoint_dir_has_image_def try_exists_def syscall_def Let_def res_simps)

lemma all_have_images_run:
  assumes "no_faults ex"
  shows "fst (all_have_images ex p cs w) = Inr (list_all (\<lambda>c.
      d_get (disk w) (join (container_checkpoint_dir p c) RUNSC_CHECKPOINT_IMAGE) \<noteq> None) cs)
    \<and> disk (snd (all_have_images ex p cs w)) = disk w"
proof (induction cs arbitrary: w)
  case (Cons c cs)
  then show ?case
    by (simp add: andThen_ran [OF has_image_run(1) [OF assms]] has_image_run(2) [OF assms] ok_def)
qed (simp add: ok_def)

lemma image_or_tree_run:
  assumes "no_faults ex"
  shows "fst (image_or_tree ex p containers w) = Inr (image_complete (disk w) p containers)"
    and "disk (snd (image_or_tree ex p containers w)) = disk w"
  using all_have_images_run [OF assms, of p "checkpoint_target_names containers" "snd (checkpoint_dir_has_image ex p w)"]
  by (simp_all add: image_or_tree_def checkpoint_tree_complete_for_containers_def image_complete_def
      Let_def andThen_ran [OF has_image_run(1) [OF assms]] has_image_run(2) [OF assms] ok_def
      all_have_images_run [OF assms])

lemma complete_when_complete:
  assumes "no_faults ex" and "image_complete (disk w) (q @ [s]) containers" and "plain_segment s"
  shows "fst (checkpoint_image_complete_for_containers ex (q @ [s]) containers w) = Inr True
    \<and> tree (disk (snd (checkpoint_image_complete_for_containers ex (q @ [s]) containers w))) (q @ [s]) =
        tree (disk w) (q @ [s])"
proof -
  let ?b = "''.'' @ s @ ''.backup''"
  have b: "backup_checkpoint_dir (q @ [s]) = q @ [?b]"
    using assms(3) by (simp add: backup_checkpoint_dir_def with_file_name_def plain_segment_def)
  have "touch {r. prefix (q @ [?b]) r} v (snd (remove_dir_if_exists ex (q @ [?b]) v))" for v :: "('a, 'c) world_scheme"
    by (rule keepsD [OF touch_remove_dir_if_exists])
  then have "tree (disk (snd (remove_dir_if_exists ex (q @ [?b]) v))) (q @ [s]) = tree (disk v) (q @ [s])"
    for v :: "('a, 'c) world_scheme"
    by (rule tree_touch) (auto dest: arg_cong [where f = length])
  then show ?thesis
    unfolding checkpoint_image_complete_for_containers_def andThen_ran [OF image_or_tree_run(1) [OF assms(1)]]
    by (simp add: assms(2) b image_or_tree_run(2) [OF assms(1)] ignore_def andThen_def ok_def)
qed

lemma complete_from_backup:
  assumes nf: "no_faults ex" and s: "plain_segment s" and cs: "list_all plain_segment containers"
  defines "b \<equiv> ''.'' @ s @ ''.backup''"
  assumes dirs: "dirs_ok q w" and gone: "tree (disk w) (q @ [s]) = no_tree"
    and old: "d_get (disk w) (q @ [b]) \<noteq> None" "image_complete (disk w) (q @ [b]) containers"
  shows "fst (checkpoint_image_complete_for_containers ex (q @ [s]) containers w) = Inr True
    \<and> tree (disk (snd (checkpoint_image_complete_for_containers ex (q @ [s]) containers w))) (q @ [s]) =
        tree (disk w) (q @ [b])"
proof -
  have bne: "b \<noteq> s" by (auto simp: b_def dest: arg_cong [where f = length])
  have b: "backup_checkpoint_dir (q @ [s]) = q @ [b]"
    using s by (simp add: b_def backup_checkpoint_dir_def with_file_name_def plain_segment_def)
  have d: "d_get (disk w) ((q @ [s]) @ r) = None" for r
    using fun_cong [OF gone, of r] by (simp add: tree_def)
  then have none: "d_get (disk w) (q @ [s]) = None"
    using d [of "[]"] by simp
  then have nofile: "\<not> is_file (disk w) (q @ [s])"
    by (simp add: is_file_def)
  have "\<not> has_child (disk w) (q @ [s])"
  proof
    assume "has_child (disk w) (q @ [s])"
    then obtain r where "q @ [s] @ r \<in> fst ` set (disk w)"
      by (force simp: has_child_def strict_prefix_def prefix_def)
    then show False using d [of r] by (simp add: map_of_eq_None_iff)
  qed
  note free = this none nofile
  have par: "parent_is_dir (disk w) (q @ [s])"
    using dirs parent_snoc_plain [OF s, of q]
    by (auto simp: parent_is_dir_def is_dir_def dirs_ok_def simp del: parent_snoc_plain)
  have remove: "remove_dir_if_exists ex (q @ [s]) v = (Inr (), v\<lparr>tick := Suc (tick v)\<rparr>)"
    if "disk v = disk w" for v :: "('a, 'c) world_scheme"
    using nf free that by (simp add: remove_dir_if_exists_def remove_dir_all_def syscall_def Let_def res_simps)
  have move: "rename_path ex (q @ [b]) (q @ [s]) v =
      (Inr (), v\<lparr>tick := Suc (tick v), disk := d_move_tree (q @ [b]) (q @ [s]) (disk w)\<rparr>)"
    if "disk v = disk w" for v :: "('a, 'c) world_scheme"
    using nf free that old(1) bne par
    by (auto simp: rename_path_def syscall_def Let_def split: node.splits)
  have sync: "tree (disk (snd (sync_parent ex (q @ [s]) v))) p = tree (disk v) p"
    for v :: "('a, 'c) world_scheme" and p
    by (rule tree_touch [OF keepsD [OF touch_sync_parent [where S = "{}"]]]) simp
  show ?thesis
    unfolding checkpoint_image_complete_for_containers_def recover_backup_checkpoint_dir_for_containers_def
      Let_def b andThen_ran [OF image_or_tree_run(1) [OF nf]]
    by (simp add: image_complete_no_tree [OF cs gone] andThen_ran [OF image_or_tree_run(1) [OF nf]]
        image_or_tree_run(2) [OF nf] old(2) ignore_def andThen_run try_case_def remove move)
      (simp add: andThen_def ok_def sync tree_move(1) [OF bne])
qed

section \<open>Which commands run\<close>

lemma map_fst_enumerate_flag: "map fst (map (\<lambda>(k, c). (c, f k)) (enumerate n xs)) = xs"
  by (induction xs arbitrary: n) simp_all

lemma map_snd_enumerate_flag:
  "map snd (map (\<lambda>(k, c). (c, k \<noteq> n + length xs)) (enumerate n (xs @ [x]))) = replicate (length xs) True @ [False]"
  by (induction xs arbitrary: n) (simp_all, metis add_Suc_right add_Suc_shift)

definition checkpoint_command ::
  "OadPaths \<Rightarrow> SandboxId \<Rightarrow> path \<Rightarrow> string \<times> bool \<Rightarrow> (string \<times> string list) list" where
  "checkpoint_command ps i dir target =
     [(RUNSC, checkpoint_args (runsc_for_sandbox ps i) (fst target) (join dir (fst target))
        (rootfs_overlay_dir ps i (fst target)) (snd target))]"

lemma emits_checkpoint_one:
  "emits (checkpoint_one ex ps i (runsc_for_sandbox ps i) dir target) (checkpoint_command ps i dir target)"
  unfolding checkpoint_one_def checkpoint_command_def Let_def container_checkpoint_dir_def runsc_checkpoint_def
  using emits_andThen [OF emits_map_err [OF emits_touch [OF touch_create_dir_all]] emits_run_logged]
  by (cases target) simp

lemma emits_checkpoint_container_images:
  "emits (checkpoint_container_images ex ps i targets dir) (concat (map (checkpoint_command ps i dir) targets))"
  unfolding checkpoint_container_images_def by (rule emits_for_each [OF emits_checkpoint_one])

lemma touch_publish_checkpoint_dir: "keeps (touch UNIV) (publish_checkpoint_dir ex p q)"
  unfolding publish_checkpoint_dir_def Let_def
  by (intro pres_intros keeps_touch_mono [OF touch_rename_path] keeps_touch_mono [OF touch_remove_dir_if_exists]
      keeps_touch_mono [OF touch_create_parent]) auto

lemma emits_on_err: "emits m xs \<Longrightarrow> keeps (touch S) c \<Longrightarrow> emits (on_err m c) xs"
proof (rule emitsI)
  fix w r w'
  assume m: "emits m xs" and c: "keeps (touch S) c" and run: "on_err m c w = (r, w')"
  obtain r1 w1 where r1: "m w = (r1, w1)" by force
  obtain ys where ys: "prefix ys xs" "cmds w1 = cmds w @ ys" "is_ok r1 \<longrightarrow> ys = xs"
    by (rule emits_run [OF m r1])
  have "cmds w' = cmds w1 \<and> isl r = isl r1"
    using run r1 touch_cmds [OF keepsD [OF c], of w1]
    by (cases r1) (auto simp: on_err_def try_case_def andThen_def ignore_def err_def ok_def)
  with ys show "\<exists>ys. prefix ys xs \<and> cmds w' = cmds w @ ys \<and> (is_ok r \<longrightarrow> ys = xs)" by auto
qed

section \<open>Properties\<close>

text \<open>
  C5. Publication never loses a checkpoint. Let a complete image be published and a complete new
  one be ready in the temporary sibling directory. Whatever system calls fail during
  \<open>publish_checkpoint_dir\<close>, and at whatever point it stops, the check that a later resume makes
  (\<open>checkpoint_image_complete_for_containers\<close>, with working system calls) finds a complete image and
  leaves in place exactly the old or exactly the new tree; after a successful publication it is the
  new one.
\<close>

theorem publish_never_loses_image:
  assumes "plain_segment s" and "s \<noteq> t" and "t \<noteq> ''.'' @ s @ ''.backup''"
    and "list_all plain_segment containers"
    and "d_get (disk w) (q @ [s]) = Some Dir"
    and "image_complete (disk w) (q @ [s]) containers"
    and "image_complete (disk w) (q @ [t]) containers"
    and "no_faults ex'"
  shows "case publish_checkpoint_dir ex (q @ [t]) (q @ [s]) w of (r, w1) \<Rightarrow>
    case checkpoint_image_complete_for_containers ex' (q @ [s]) containers w1 of (r', w2) \<Rightarrow>
      r' = (Inr True :: RuntimeError + bool)
      \<and> tree (disk w2) (q @ [s]) \<in> {tree (disk w) (q @ [s]), tree (disk w) (q @ [t])}
      \<and> (r = Inr () \<longrightarrow> tree (disk w2) (q @ [s]) = tree (disk w) (q @ [t]))"
proof -
  let ?old = "tree (disk w) (q @ [s])" and ?new = "tree (disk w) (q @ [t])"
  let ?b = "''.'' @ s @ ''.backup''"
  obtain r w1 where run: "publish_checkpoint_dir ex (q @ [t]) (q @ [s]) w = (r, w1)" by force
  let ?run = "checkpoint_image_complete_for_containers ex' (q @ [s]) containers w1"
  note pub = publish_checkpoint_dir_triple [OF assms(1-3), of q ?old ?new ex]
  have cases: "tree (disk w1) (q @ [s]) = ?new
      \<or> isl r \<and> (tree (disk w1) (q @ [s]) = ?old
          \<or> dirs_ok q w1 \<and> tree (disk w1) (q @ [s]) = no_tree \<and> tree (disk w1) (q @ [?b]) = ?old)"
    using tripleD_ok [OF pub, of w] tripleD_err [OF pub, of w] run
    by (cases r) (auto simp: three_def safe_trees_def)
  have present: "fst ?run = (Inr True :: RuntimeError + bool)
      \<and> tree (disk (snd ?run)) (q @ [s]) = tree (disk w1) (q @ [s])"
    if "tree (disk w1) (q @ [s]) = ?old \<or> tree (disk w1) (q @ [s]) = ?new"
    by (rule complete_when_complete [OF assms(8) _ assms(1)])
      (use that assms(6,7) image_complete_tree [OF assms(4)] in metis)
  have backup: "fst ?run = (Inr True :: RuntimeError + bool) \<and> tree (disk (snd ?run)) (q @ [s]) = ?old"
    if bk: "dirs_ok q w1" "tree (disk w1) (q @ [s]) = no_tree" "tree (disk w1) (q @ [?b]) = ?old"
  proof -
    have "d_get (disk w1) (q @ [?b]) \<noteq> None"
      using fun_cong [OF bk(3), of "[]"] assms(5) by (simp add: tree_def)
    moreover have "image_complete (disk w1) (q @ [?b]) containers"
      using image_complete_tree [OF assms(4) bk(3)] assms(6) by simp
    ultimately show ?thesis
      using complete_from_backup [OF assms(8,1,4) bk(1,2)] bk(3) by simp
  qed
  show ?thesis using cases present backup run by (cases r) (auto simp: case_prod_beta)
qed

text \<open>
  The outside world of the examples below: \<open>runsc checkpoint\<close> writes the image file below the directory
  that follows \<open>-image-path\<close> on its command line.
\<close>

fun image_path_arg :: "string list \<Rightarrow> path option" where
  "image_path_arg (a # b # rest) =
     (if a = ''-image-path'' then Some (path_of b) else image_path_arg (b # rest))"
| "image_path_arg _ = None"

definition ckpt_ext :: "nat list \<Rightarrow> string run_ext" where
  "ckpt_ext bad = (runsc_ext bad succeeds)\<lparr>cmd_disk := (\<lambda>_ _ args d.
     case image_path_arg args of None \<Rightarrow> d
     | Some p \<Rightarrow> d_put (p @ [RUNSC_CHECKPOINT_IMAGE]) (File ''memory'') d)\<rparr>"

definition two_images :: "string run_world" where
  "two_images = empty_host\<lparr>disk :=
     [([''/''], Dir), ([''/'', ''ck''], Dir), ([''/'', ''ck'', ''pause''], Dir),
      ([''/'', ''ck'', ''pause'', ''checkpoint.img''], File ''old''),
      ([''/'', ''tmp''], Dir), ([''/'', ''tmp'', ''pause''], Dir),
      ([''/'', ''tmp'', ''pause'', ''checkpoint.img''], File ''new'')]\<rparr>"

text \<open>
  The rename into place (interaction 17) fails and so does moving the backup back: the old image is
  only in the backup directory until the check recovers it.
\<close>

theorem publish_never_loses_image_witness:
  "let (r, w1) = publish_checkpoint_dir (runsc_ext [17, 18, 19, 20] succeeds) [''/'', ''tmp''] [''/'', ''ck''] two_images;
       (r', w2) = checkpoint_image_complete_for_containers (runsc_ext [] succeeds) [''/'', ''ck''] [''pause''] w1 in
   isl r \<and> d_get (disk w1) [''/'', ''ck''] = None \<and> r' = (Inr True :: RuntimeError + bool)
   \<and> d_get (disk w2) [''/'', ''ck'', ''pause'', ''checkpoint.img''] = Some (File ''old'')"
proof -
  let ?bad = "runsc_ext [17, 18, 19, 20] succeeds" and ?ok = "runsc_ext [] succeeds"
  let ?w1 = "snd (publish_checkpoint_dir ?bad [''/'', ''tmp''] [''/'', ''ck''] two_images)"
  let ?w2 = "snd (checkpoint_image_complete_for_containers ?ok [''/'', ''ck''] [''pause''] ?w1 :: (RuntimeError + bool) \<times> _)"
  have hyp: "d_get (disk two_images) ([''/''] @ [''ck'']) = Some Dir"
    "image_complete (disk two_images) ([''/''] @ [''ck'']) [''pause'']"
    "image_complete (disk two_images) ([''/''] @ [''tmp'']) [''pause'']"
    "plain_segment ''ck''" "list_all plain_segment [''pause'']"
    by code_simp+
  have nf: "no_faults ?ok" by (simp add: runsc_ext_def)
  have isl: "isl (fst (publish_checkpoint_dir ?bad [''/'', ''tmp''] [''/'', ''ck''] two_images))"
    and gone: "d_get (disk ?w1) [''/'', ''ck''] = None"
    and img: "d_get (disk ?w2) [''/'', ''ck'', ''pause'', ''checkpoint.img''] = Some (File ''old'')"
    by code_simp+
  show ?thesis
    using publish_never_loses_image [where s = "''ck''" and t = "''tmp''" and q = "[''/'']" and w = two_images
        and containers = "[''pause'']" and ex = ?bad and ex' = ?ok, OF hyp(4) _ _ hyp(5,1,2,3) nf] isl gone img
    by (simp add: case_prod_beta Let_def)
qed

text \<open>
  Suspending checkpoints every container once, \<open>pause\<close> first when present and the others in their
  order; each checkpoint but the last leaves the sandbox running, and the last one stops it.
\<close>

theorem checkpoint_suspend_targets_spec:
  "map fst (checkpoint_suspend_targets containers) =
     (if PAUSE_CONTAINER \<in> set containers then [PAUSE_CONTAINER] else [])
       @ filter (\<lambda>c. c \<noteq> PAUSE_CONTAINER) containers
   \<and> map snd (checkpoint_suspend_targets containers) =
     (case checkpoint_target_names containers of [] \<Rightarrow> []
      | c # cs \<Rightarrow> replicate (length cs) True @ [False])"
proof
  show "map fst (checkpoint_suspend_targets containers) =
     (if PAUSE_CONTAINER \<in> set containers then [PAUSE_CONTAINER] else [])
       @ filter (\<lambda>c. c \<noteq> PAUSE_CONTAINER) containers"
    unfolding checkpoint_suspend_targets_def Let_def map_fst_enumerate_flag
    by (simp add: checkpoint_target_names_def list_ex_iff)
  show "map snd (checkpoint_suspend_targets containers) =
     (case checkpoint_target_names containers of [] \<Rightarrow> [] | c # cs \<Rightarrow> replicate (length cs) True @ [False])"
  proof (cases "checkpoint_target_names containers" rule: rev_cases)
    case (snoc xs x)
    then show ?thesis
      using map_snd_enumerate_flag [of 0 xs x]
      by (cases xs) (simp_all add: checkpoint_suspend_targets_def Let_def)
  qed (simp add: checkpoint_suspend_targets_def)
qed

text \<open>
  A snapshot never stops the sandbox: whatever its outcome, the only commands
  \<open>snapshot_sandbox\<close> has run are \<open>runsc checkpoint -leave-running\<close>, one per container in checkpoint
  order, each into its own directory below one temporary directory.
\<close>

theorem snapshot_sandbox_leaves_running:
  "\<exists>tmp ran. cmds (snd (snapshot_sandbox ex ps i containers image_dir w)) = cmds w @ ran
     \<and> prefix ran (map (\<lambda>c. (RUNSC, checkpoint_args (runsc_for_sandbox ps i) c (join tmp c)
           (rootfs_overlay_dir ps i c) True)) (checkpoint_target_names containers))"
proof -
  obtain tmp w1 where tmp: "temp_path ex image_dir w = (Inr tmp :: RuntimeError + path, w1)" "cmds w1 = cmds w"
    by (auto simp: temp_path_def read_clock_def Let_def res_simps)
  let ?cs = "map (\<lambda>c. (RUNSC, checkpoint_args (runsc_for_sandbox ps i) c (join tmp c)
           (rootfs_overlay_dir ps i c) True)) (checkpoint_target_names containers)"
  have "concat (map (checkpoint_command ps i tmp) (checkpoint_targets containers)) = ?cs"
    by (simp add: checkpoint_targets_def checkpoint_command_def concat_map_singleton comp_def)
  then have images: "emits (checkpoint_container_images ex ps i (checkpoint_targets containers) tmp) ?cs"
    using emits_checkpoint_container_images [of ex ps i "checkpoint_targets containers" tmp] by simp
  have "emits (on_err
       (andThen (remove_dir_if_exists ex tmp) (\<lambda>_.
        andThen (map_err RtIo (create_dir_all ex tmp)) (\<lambda>_.
        andThen (checkpoint_container_images ex ps i (checkpoint_targets containers) tmp) (\<lambda>_.
        publish_checkpoint_dir ex tmp image_dir)))) (remove_dir_all ex tmp)) ?cs"
    using emits_on_err [OF emits_andThen [OF emits_touch [OF touch_remove_dir_if_exists]
        emits_andThen [OF emits_map_err [OF emits_touch [OF touch_create_dir_all]]
        emits_andThen_last [OF images emits_touch [OF touch_publish_checkpoint_dir]]]] touch_remove_dir_all]
    by simp
  from emits_run [OF this surjective_pairing, of w1]
  show ?thesis
    unfolding snapshot_sandbox_def andThen_run [where m = "temp_path ex image_dir", OF tmp(1)] tmp(2)
    by blast
qed

text \<open>
  The checkpoint of a suspended sandbox is published only after its containers are gone: here
  the container has been checkpointed and deleted, the rename that publishes the image fails,
  and the clean-up removes the temporary image. Neither the running sandbox nor any image of it is
  left.
\<close>

theorem suspend_publish_fault_loses_sandbox:
  "let run = checkpoint_sandbox (ckpt_ext [26]) root_paths ''a'' [''pause''] [''/'', ''ck''] empty_host in
   isl (fst run)
   \<and> map snd (cmds (snd run)) =
       [checkpoint_args (runsc_for_sandbox root_paths ''a'') ''pause'' [''/'', ''.ck.7.0.0.tmp'', ''pause'']
          (rootfs_overlay_dir root_paths ''a'' ''pause'') False,
        state_args (runsc_for_sandbox root_paths ''a'') ''pause'' (Some [''/'', ''tmp'', ''log'']),
        delete_args (runsc_for_sandbox root_paths ''a'') ''pause'' (Some [''/'', ''tmp'', ''log''])]
   \<and> list_all (\<lambda>e. last (fst e) \<noteq> RUNSC_CHECKPOINT_IMAGE) (disk (snd run))"
  by code_simp

end
