(* ===== verification/Network.thy ===== *)
theory Network
  imports Core
begin

unbundle bit_operations_syntax

text \<open>
  Addresses and allocation of the sandbox network (\<open>oad/src/network.rs\<close>): IPv4 addresses and CIDR
  blocks as 32-bit words, the split of the sandbox CIDR into /30 subnets, the hash that names
  interfaces, the choice of a free subnet and a free token for a new sandbox, and the validation of
  network specifications. The lemmas show that allocation never overflows, never leaves the CIDR
  and never hands the same subnet, address, namespace or interface to two sandboxes.
\<close>

section \<open>Errors\<close>

text \<open>\<open>NetPanic\<close> stands for an \<open>expect\<close> that fails.\<close>

datatype NetworkError =
    InvalidConfig string
  | NetCommand string "string list" string string string
  | AddrParse string
  | NetJson string
  | NetIo string
  | NetPanic string

section \<open>Numbers and addresses in text\<close>

definition digit_val :: "char \<Rightarrow> nat" where
  "digit_val c = of_char c - 48"

text \<open>\<open>u8::from_str\<close>: an optional plus sign, then digits, each checked before the overflow it may cause.\<close>

fun parse_digits_u8 :: "nat \<Rightarrow> string \<Rightarrow> (string, nat) result" where
  "parse_digits_u8 acc [] = Inr acc"
| "parse_digits_u8 acc (c # cs) =
     (if \<not> is_ascii_digit c then Inl ''invalid digit found in string''
      else if 255 < 10 * acc + digit_val c then Inl ''number too large to fit in target type''
      else parse_digits_u8 (10 * acc + digit_val c) cs)"

definition parse_u8 :: "string \<Rightarrow> (string, nat) result" where
  "parse_u8 s = (if s = [] then Inl ''cannot parse integer from empty string''
     else if s = ''+'' \<or> s = ''-'' then Inl ''invalid digit found in string''
     else if hd s = CHR ''+'' then parse_digits_u8 0 (tl s)
     else parse_digits_u8 0 s)"

text \<open>\<open>Ipv4Addr::from_str\<close>: four decimal octets without superfluous leading zeros.\<close>

definition parse_octet :: "string \<Rightarrow> nat option" where
  "parse_octet s =
     (if s = [] \<or> 3 < length s \<or> \<not> list_all is_ascii_digit s \<or> (1 < length s \<and> hd s = CHR ''0'') then None
      else (let v = foldl (\<lambda>n c. 10 * n + digit_val c) 0 s in if v \<le> 255 then Some v else None))"

definition octets :: "nat \<Rightarrow> nat \<Rightarrow> nat \<Rightarrow> nat \<Rightarrow> 32 word" where
  "octets a b c d = of_nat a * 0x1000000 + of_nat b * 0x10000 + of_nat c * 0x100 + of_nat d"

definition parse_ipv4 :: "string \<Rightarrow> 32 word option" where
  "parse_ipv4 s = (case map parse_octet (split_on (CHR ''.'') s) of
       [Some a, Some b, Some c, Some d] \<Rightarrow> Some (octets a b c d)
     | _ \<Rightarrow> None)"

definition show_ipv4 :: "32 word \<Rightarrow> string" where
  "show_ipv4 a =
     show_nat (unat (drop_bit 24 a)) @ ''.'' @ show_nat (unat (take_bit 8 (drop_bit 16 a))) @ ''.''
       @ show_nat (unat (take_bit 8 (drop_bit 8 a))) @ ''.'' @ show_nat (unat (take_bit 8 a))"

section \<open>CIDR blocks\<close>

record Ipv4Cidr =
  cidr_network :: "32 word"
  cidr_prefix :: nat

definition parse_ipv4_cidr :: "string \<Rightarrow> (NetworkError, Ipv4Cidr) result" where
  "parse_ipv4_cidr value = (case split_once (CHR ''/'') value of
       None \<Rightarrow> Inl (InvalidConfig (''invalid IPv4 CIDR '' @ show_debug value))
     | Some (ip_text, prefix_text) \<Rightarrow>
         (case parse_ipv4 ip_text of
            None \<Rightarrow> Inl (InvalidConfig (''invalid IPv4 CIDR '' @ show_debug value @ '': invalid IPv4 address syntax''))
          | Some ip \<Rightarrow>
              (case parse_u8 prefix_text of
                 Inl e \<Rightarrow> Inl (InvalidConfig (''invalid IPv4 CIDR prefix in '' @ show_debug value @ '': '' @ e))
               | Inr plen \<Rightarrow>
                   if 32 < plen then Inl (InvalidConfig (''invalid IPv4 CIDR prefix in '' @ show_debug value))
                   else let mask = (if plen = 0 then 0 else push_bit (32 - plen) (- 1 :: 32 word)) in
                     Inr \<lparr>cidr_network = ip AND mask, cidr_prefix = plen\<rparr>)))"

definition block_count_30 :: "Ipv4Cidr \<Rightarrow> (NetworkError, 32 word) result" where
  "block_count_30 c =
     (if 30 < cidr_prefix c then Inl (InvalidConfig ''sandbox CIDR must be /30 or larger'')
      else Inr (push_bit (30 - cidr_prefix c) 1))"

definition nth_30_pair :: "Ipv4Cidr \<Rightarrow> 32 word \<Rightarrow> (NetworkError, 32 word \<times> 32 word) result" where
  "nth_30_pair c index = (case block_count_30 c of
       Inl e \<Rightarrow> Inl e
     | Inr block_count \<Rightarrow>
         if block_count \<le> index then
           Inl (InvalidConfig (''subnet index '' @ show_nat (unat index) @ '' exceeds CIDR capacity ''
             @ show_nat (unat block_count)))
         else let base = cidr_network c + index * 4 in Inr (base + 1, base + 2))"

definition show_Ipv4Cidr :: "Ipv4Cidr \<Rightarrow> string" where
  "show_Ipv4Cidr c = show_ipv4 (cidr_network c) @ ''/'' @ show_nat (cidr_prefix c)"

section \<open>Tokens\<close>

definition stable_hash :: "string \<Rightarrow> 64 word" where
  "stable_hash value =
     foldl (\<lambda>hash byte. (hash XOR of_nat (of_char byte)) * 0x100000001b3) 0xcbf29ce484222325 value"

text \<open>The \<open>w\<close> low hexadecimal digits of a word.\<close>

fun hex_digits :: "nat \<Rightarrow> 64 word \<Rightarrow> string" where
  "hex_digits 0 v = []"
| "hex_digits (Suc w) v = hex_digits w (drop_bit 4 v) @ [digit_char (unat (take_bit 4 v))]"

lemma length_hex_digits [simp]: "length (hex_digits w v) = w"
  by (induction w arbitrary: v) simp_all

text \<open>\<open>{:010x}\<close> of a value below \<open>2^40\<close>.\<close>

definition salted_token :: "SandboxId \<Rightarrow> 32 word \<Rightarrow> string" where
  "salted_token i attempt =
     (let value = (if attempt = 0 then stable_hash i
            else stable_hash (i @ ''#'' @ show_nat (unat attempt)))
      in hex_digits 10 (value AND 0xffffffffff))"

definition HOST_VETH_PREFIX :: string where
  "HOST_VETH_PREFIX = ''oadh''"

definition PEER_VETH_PREFIX :: string where
  "PEER_VETH_PREFIX = ''oadp''"

definition peer_veth :: "string \<Rightarrow> string" where
  "peer_veth token = PEER_VETH_PREFIX @ token"

section \<open>Allocation\<close>

lemma unat_inc: "a \<noteq> - 1 \<Longrightarrow> unat (a + 1 :: 'a::len word) = Suc (unat a)"
proof -
  assume "a \<noteq> - 1"
  then have "1 + a \<noteq> 0" by (metis add_eq_0_iff)
  then show ?thesis by (metis add.commute unatSuc)
qed

lemma unat_below_inc: "a < b \<Longrightarrow> unat (a + 1 :: 'a::len word) = Suc (unat a)"
  by (rule unat_inc) (use word_order.extremum_strict in auto)

record SandboxNetworkState =
  ns_sandbox_id :: SandboxId
  ns_token :: string
  netns_name :: string
  host_veth :: string
  sandbox_ip :: "32 word"
  host_ip :: "32 word"
  prefix_len :: nat
  subnet_index :: "32 word"
  ns_spec :: SandboxNetworkSpec

definition NETNS_DIR :: string where
  "NETNS_DIR = ''/run/netns''"

definition netns_path :: "SandboxNetworkState \<Rightarrow> path" where
  "netns_path state = join (path_of NETNS_DIR) (netns_name state)"

lemma unat_less_32: "unat (a :: 32 word) < 2 ^ 32"
  using unsigned_less [of a] by simp

text \<open>The search \<open>(0..block_count).map(|offset| (start + offset) % block_count).find(unused)\<close>.\<close>

function find_subnet :: "32 word \<Rightarrow> 32 word \<Rightarrow> 32 word list \<Rightarrow> 32 word \<Rightarrow> 32 word option" where
  "find_subnet start block_count used offset =
     (if block_count \<le> offset then None
      else let index = (start + offset) mod block_count in
        if \<not> List.member used index then Some index
        else find_subnet start block_count used (offset + 1))"
  by pat_completeness auto
termination
  by (relation "measure (\<lambda>(start, bc, used, offset). unat bc - unat offset)")
    (auto simp: not_le unat_below_inc word_less_nat_alt)

text \<open>The search \<open>(0..u32::MAX).map(|attempt| salted_token(id, attempt)).find(unused)\<close>.\<close>

function find_token :: "SandboxId \<Rightarrow> string list \<Rightarrow> 32 word \<Rightarrow> string option" where
  "find_token i used attempt =
     (if attempt = - 1 then None
      else let candidate = salted_token i attempt in
        if \<not> List.member used candidate then Some candidate
        else find_token i used (attempt + 1))"
  by pat_completeness auto
termination
  by (relation "measure (\<lambda>(i, used, attempt). 2 ^ 32 - unat attempt)")
    (simp, metis (no_types, lifting) case_prodI2 diff_less_mono2 in_measure lessI old.prod.case unat_inc unat_less_32)

declare find_subnet.simps [simp del] find_token.simps [simp del]

definition allocate_state ::
  "NetworkRuntimeConfig \<Rightarrow> SandboxNetworkState list \<Rightarrow> SandboxId \<Rightarrow> SandboxNetworkSpec
   \<Rightarrow> (NetworkError, SandboxNetworkState) result" where
  "allocate_state cfg existing i spec = (case parse_ipv4_cidr (sandbox_cidr cfg) of
       Inl e \<Rightarrow> Inl e
     | Inr cidr \<Rightarrow>
    (case block_count_30 cidr of
       Inl e \<Rightarrow> Inl e
     | Inr block_count \<Rightarrow>
    (let used = map subnet_index existing;
         used_tokens = map ns_token existing;
         start = ucast (stable_hash i mod ucast block_count) in
     case find_subnet start block_count used 0 of
       None \<Rightarrow> Inl (InvalidConfig (''sandbox network CIDR '' @ show_debug (sandbox_cidr cfg) @ '' has no free /30 subnets''))
     | Some index \<Rightarrow>
    (case nth_30_pair cidr index of
       Inl e \<Rightarrow> Inl e
     | Inr (h, s) \<Rightarrow>
    (case find_token i used_tokens 0 of
       None \<Rightarrow> Inl (NetPanic ''48-bit token space is never exhausted by live sandboxes'')
     | Some token \<Rightarrow>
         Inr \<lparr>ns_sandbox_id = i, ns_token = token, netns_name = ''oad-'' @ token,
              host_veth = HOST_VETH_PREFIX @ token, sandbox_ip = s, host_ip = h, prefix_len = 30,
              subnet_index = index, ns_spec = spec\<rparr>)))))"

section \<open>Validation\<close>

fun check_ports :: "PortRange list \<Rightarrow> (NetworkError, unit) result" where
  "check_ports [] = Inr ()"
| "check_ports (p # ps) =
     (if pr_end p < pr_start p then
        Inl (InvalidConfig (''invalid port range '' @ show_nat (unat (pr_start p)) @ ''-'' @ show_nat (unat (pr_end p))))
      else check_ports ps)"

fun validate_rules :: "EgressRule list \<Rightarrow> (NetworkError, unit) result" where
  "validate_rules [] = Inr ()"
| "validate_rules (rule # rules) = (case destination rule of Cidr cidr \<Rightarrow>
     (case parse_ipv4_cidr cidr of
        Inl e \<Rightarrow> Inl e
      | Inr _ \<Rightarrow> (case check_ports (ports rule) of Inl e \<Rightarrow> Inl e | Inr _ \<Rightarrow> validate_rules rules)))"

definition validate_spec :: "SandboxNetworkSpec \<Rightarrow> (NetworkError, unit) result" where
  "validate_spec spec =
     (case (case egress spec of AllowAll \<Rightarrow> Inr () | DenyAll \<Rightarrow> Inr () | Rules rules \<Rightarrow> validate_rules rules) of
        Inl e \<Rightarrow> Inl e
      | Inr _ \<Rightarrow> (case validate_rules (allow (udp spec)) of
          Inl e \<Rightarrow> Inl e
        | Inr _ \<Rightarrow> (case latency_ms (shaping spec) of
            Some latency \<Rightarrow> if latency = 0
              then Inl (InvalidConfig ''network.shaping.latency_ms must be greater than zero'') else Inr ()
          | None \<Rightarrow> Inr ())))"

section \<open>Subnets do not overflow and do not overlap\<close>

lemma unat_two_power: "n < 32 \<Longrightarrow> unat (2 ^ n :: 32 word) = 2 ^ n"
proof (induction n)
  case (Suc n)
  then show ?case
    using power_strict_increasing [of "Suc n" 32 "2 :: nat"] by (simp add: unat_word_ariths)
qed simp

lemma masked_aligned: "2 ^ k dvd unat (ip AND NOT (mask k) :: 32 word)"
  by (simp add: and_mask_dvd_nat) (rule bit_eqI, auto simp: bit_and_iff bit_not_iff bit_mask_iff)

lemma aligned_room:
  assumes "k \<le> 32" and "2 ^ k dvd unat (a :: 32 word)"
  shows "unat a + 2 ^ k \<le> 2 ^ 32"
proof -
  obtain m where m: "unat a = 2 ^ k * m" using assms(2) by (auto elim: dvdE)
  have p: "(2 :: nat) ^ 32 = 2 ^ k * 2 ^ (32 - k)" using assms(1) by (simp flip: power_add)
  have "2 ^ k * m < 2 ^ k * (2 :: nat) ^ (32 - k)" using unat_less_32 [of a] unfolding m p .
  then have "Suc m \<le> 2 ^ (32 - k)" by simp
  then have "2 ^ k * Suc m \<le> 2 ^ k * 2 ^ (32 - k)" by (rule mult_le_mono2)
  then show ?thesis unfolding m p by simp
qed

text \<open>A parsed CIDR block is aligned to its size.\<close>

definition cidr_ok :: "Ipv4Cidr \<Rightarrow> bool" where
  "cidr_ok c \<longleftrightarrow> cidr_prefix c \<le> 32 \<and> 2 ^ (32 - cidr_prefix c) dvd unat (cidr_network c)"

lemma parse_ipv4_cidr_ok: "parse_ipv4_cidr s = Inr c \<Longrightarrow> cidr_ok c"
  by (auto simp: parse_ipv4_cidr_def cidr_ok_def Let_def masked_aligned
      split: option.splits prod.splits sum.splits if_splits)

lemma block_count_30_value:
  "block_count_30 c = Inr n \<longleftrightarrow> cidr_prefix c \<le> 30 \<and> n = 2 ^ (30 - cidr_prefix c)"
  by (auto simp: block_count_30_def)

lemma unat_block_count: "block_count_30 c = Inr n \<Longrightarrow> unat n = 2 ^ (30 - cidr_prefix c)"
  by (simp add: block_count_30_value unat_two_power)

lemma nth_30_pair_unat:
  assumes c: "cidr_ok c" and pair: "nth_30_pair c k = Inr (h, s)"
  shows "unat h = unat (cidr_network c) + 4 * unat k + 1"
    and "unat s = unat (cidr_network c) + 4 * unat k + 2"
    and "unat k < 2 ^ (30 - cidr_prefix c)"
    and "unat (cidr_network c) + 4 * unat k + 4 \<le> unat (cidr_network c) + 2 ^ (32 - cidr_prefix c)"
    and "unat (cidr_network c) + 2 ^ (32 - cidr_prefix c) \<le> 2 ^ 32"
proof -
  let ?p = "cidr_prefix c" and ?n = "unat (cidr_network c)"
  obtain n where n: "block_count_30 c = Inr n" "\<not> n \<le> k"
    and hs: "h = cidr_network c + k * 4 + 1" "s = cidr_network c + k * 4 + 2"
    using pair by (auto simp: nth_30_pair_def Let_def split: sum.splits if_splits)
  have p: "?p \<le> 30" using n(1) by (simp add: block_count_30_value)
  show k: "unat k < 2 ^ (30 - ?p)"
    using n unat_block_count [OF n(1)] by (simp add: not_le word_less_nat_alt)
  have "32 - ?p = Suc (Suc (30 - ?p))" using p by simp
  then have "4 * (2 :: nat) ^ (30 - ?p) = 2 ^ (32 - ?p)" by simp
  with k show room: "?n + 4 * unat k + 4 \<le> ?n + 2 ^ (32 - ?p)" by linarith
  show top: "?n + 2 ^ (32 - ?p) \<le> 2 ^ 32"
    using aligned_room [of "32 - ?p"] c by (simp add: cidr_ok_def)
  have "?n + 4 * unat k + 4 \<le> 2 ^ 32" using room top by linarith
  then show "unat h = ?n + 4 * unat k + 1" and "unat s = ?n + 4 * unat k + 2"
    unfolding hs by (simp_all add: unat_word_ariths)
qed

section \<open>The searches\<close>

lemma find_subnet_Some:
  "find_subnet start bc used off = Some k \<Longrightarrow> k \<notin> set used \<and> k < bc"
proof (induction start bc used off rule: find_subnet.induct)
  case (1 start bc used off)
  have "(start + off) mod bc < bc" if "\<not> bc \<le> off"
    using that by (simp add: word_less_nat_alt unat_mod not_le)
  with 1 show ?case
    by (subst (asm) find_subnet.simps) (auto simp: Let_def split: if_splits)
qed

lemma find_subnet_None:
  "find_subnet start bc used off = None \<Longrightarrow> off \<le> k \<Longrightarrow> k < bc \<Longrightarrow> (start + k) mod bc \<in> set used"
proof (induction start bc used off rule: find_subnet.induct)
  case (1 start bc used off)
  have off: "\<not> bc \<le> off" using 1(3,4) by auto
  have used: "(start + off) mod bc \<in> set used"
    and rest: "find_subnet start bc used (off + 1) = None"
    using 1(2) off by (subst (asm) find_subnet.simps, simp add: Let_def split: if_splits)+
  show ?case
  proof (cases "k = off")
    case False
    with 1(3) have "off < k" by simp
    then have "off + 1 \<le> k" by (simp add: word_le_nat_alt word_less_nat_alt unat_below_inc)
    then show ?thesis using 1(1) [OF off refl _ rest] used 1(4) by simp
  qed (use used in simp)
qed

lemma offset_exists:
  assumes "start < bc" and "k < bc" and "unat bc \<le> 2 ^ 30"
  obtains off where "off < (bc :: 32 word)" and "(start + off) mod bc = k"
proof (cases "start \<le> k")
  case True
  have "k - start < bc" using assms(2) True by (simp add: word_less_nat_alt unat_sub)
  then show thesis using that [of "k - start"] assms(2) by (simp add: mod_word_less)
next
  case False
  let ?off = "bc - start + k"
  have s: "unat start < unat bc" "unat k < unat start" "unat k < unat bc"
    using assms(1,2) False by (simp_all add: word_less_nat_alt not_le)
  have off: "unat ?off = unat bc - unat start + unat k"
    using s assms(1,3) by (simp add: unat_word_ariths unat_sub word_le_nat_alt)
  have "(start + ?off) mod bc = (bc + k) mod bc" by (simp add: algebra_simps)
  also have "unat \<dots> = unat k"
    using s assms(3) by (simp add: unat_mod unat_word_ariths)
  finally have "(start + ?off) mod bc = k" by (simp add: word_unat_eq_iff)
  moreover have "?off < bc" using s by (simp add: word_less_nat_alt off)
  ultimately show thesis using that by blast
qed

lemma find_subnet_full:
  assumes "start < bc" and "unat bc \<le> 2 ^ 30"
  shows "find_subnet start bc used 0 = None \<longleftrightarrow> {k. k < bc} \<subseteq> set used"
proof
  assume none: "find_subnet start bc used 0 = None"
  show "{k. k < bc} \<subseteq> set used"
  proof
    fix k assume "k \<in> {k. k < bc}"
    then obtain off where "off < bc" "(start + off) mod bc = k"
      using offset_exists [OF assms(1) _ assms(2)] by auto
    then show "k \<in> set used" using find_subnet_None [OF none, of off] by simp
  qed
next
  assume "{k. k < bc} \<subseteq> set used"
  then show "find_subnet start bc used 0 = None"
    using find_subnet_Some [of start bc used 0] by (cases "find_subnet start bc used 0") auto
qed

lemma length_salted_token: "length (salted_token i a) = 10"
  by (simp add: salted_token_def Let_def)

lemma find_token_Some: "find_token i used a = Some t \<Longrightarrow> t \<notin> set used \<and> length t = 10"
proof (induction i used a rule: find_token.induct)
  case (1 i used a)
  then show ?case
    by (subst (asm) (2) find_token.simps) (auto simp: Let_def length_salted_token split: if_splits)
qed

lemma start_below:
  assumes "block_count_30 c = Inr n"
  shows "(ucast (h mod ucast n :: 64 word) :: 32 word) < n" and "unat n \<le> 2 ^ 30"
proof -
  have n: "unat n = 2 ^ (30 - cidr_prefix c)" by (rule unat_block_count [OF assms])
  then show le: "unat n \<le> 2 ^ 30" using power_increasing [of "30 - cidr_prefix c" 30 "2 :: nat"] by simp
  have u: "unat (ucast n :: 64 word) = unat n"
    using unat_less_32 [of n] by (simp add: unsigned_ucast_eq take_bit_nat_eq_self)
  have "unat (h mod ucast n) < unat n" using n by (simp add: unat_mod u)
  then show "(ucast (h mod ucast n :: 64 word) :: 32 word) < n"
    using le by (simp add: word_less_nat_alt unsigned_ucast_eq take_bit_nat_eq_self)
qed

section \<open>Allocated states\<close>

text \<open>What the allocation establishes for one state, and what holds between the states of all sandboxes.\<close>

definition alloc_ok :: "Ipv4Cidr \<Rightarrow> SandboxNetworkState \<Rightarrow> bool" where
  "alloc_ok c st \<longleftrightarrow> nth_30_pair c (subnet_index st) = Inr (host_ip st, sandbox_ip st)
     \<and> netns_name st = ''oad-'' @ ns_token st \<and> host_veth st = HOST_VETH_PREFIX @ ns_token st
     \<and> length (ns_token st) = 10"

definition alloc_inv :: "Ipv4Cidr \<Rightarrow> SandboxNetworkState list \<Rightarrow> bool" where
  "alloc_inv c sts \<longleftrightarrow> list_all (alloc_ok c) sts \<and> distinct (map subnet_index sts)
     \<and> distinct (map ns_token sts)"

lemma allocate_state_Inr:
  assumes "allocate_state cfg existing i spec = Inr st" and "parse_ipv4_cidr (sandbox_cidr cfg) = Inr c"
  shows "alloc_ok c st \<and> subnet_index st \<notin> subnet_index ` set existing
    \<and> ns_token st \<notin> ns_token ` set existing \<and> ns_sandbox_id st = i \<and> ns_spec st = spec"
  using assms
  by (auto simp: allocate_state_def alloc_ok_def Let_def
      dest!: find_subnet_Some find_token_Some split: sum.splits option.splits)

lemma alloc_inv_allocate:
  assumes "alloc_inv c existing" and "allocate_state cfg existing i spec = Inr st"
    and "parse_ipv4_cidr (sandbox_cidr cfg) = Inr c"
  shows "alloc_inv c (st # existing)"
  using assms(1) allocate_state_Inr [OF assms(2,3)] by (simp add: alloc_inv_def)

lemma alloc_ok_disjoint:
  assumes c: "cidr_ok c" and "alloc_ok c a" "alloc_ok c b" and "subnet_index a \<noteq> subnet_index b"
  shows "{host_ip a, sandbox_ip a} \<inter> {host_ip b, sandbox_ip b} = {}"
proof -
  have k: "unat (subnet_index a) \<noteq> unat (subnet_index b)" using assms(4) by (simp add: word_unat_eq_iff)
  have pa: "nth_30_pair c (subnet_index a) = Inr (host_ip a, sandbox_ip a)"
    and pb: "nth_30_pair c (subnet_index b) = Inr (host_ip b, sandbox_ip b)"
    using assms(2,3) by (simp_all add: alloc_ok_def)
  note na = nth_30_pair_unat(1,2) [OF c pa] and nb = nth_30_pair_unat(1,2) [OF c pb]
  have "unat x \<noteq> unat y" if "x \<in> {host_ip a, sandbox_ip a}" "y \<in> {host_ip b, sandbox_ip b}" for x y
    using that na nb k by (elim insertE emptyE; simp; presburger)
  then show ?thesis by blast
qed

section \<open>Properties\<close>

text \<open>
  Subnet arithmetic: for every CIDR text that parses and every index, \<open>nth_30_pair\<close> either reports
  an error or returns the first and second host address of the \<open>index\<close>-th /30 block; these lie inside
  the CIDR block, and the 32-bit arithmetic does not wrap.
\<close>

theorem nth_30_pair_in_cidr:
  assumes "parse_ipv4_cidr s = Inr c" and "nth_30_pair c index = Inr (h, b)"
  shows "unat h = unat (cidr_network c) + 4 * unat index + 1 \<and> unat b = unat h + 1
    \<and> unat (cidr_network c) + 4 * unat index + 4 \<le> unat (cidr_network c) + 2 ^ (32 - cidr_prefix c)
    \<and> unat (cidr_network c) + 2 ^ (32 - cidr_prefix c) \<le> 2 ^ 32"
  using nth_30_pair_unat [OF parse_ipv4_cidr_ok [OF assms(1)] assms(2)] by simp

theorem nth_30_pair_in_cidr_witness:
  "\<exists>c h b. parse_ipv4_cidr ''255.255.255.0/24'' = Inr c \<and> nth_30_pair c 63 = Inr (h, b)
     \<and> unat b = unat h + 1 \<and> show_ipv4 b = ''255.255.255.254''"
proof -
  have c: "parse_ipv4_cidr ''255.255.255.0/24'' = Inr \<lparr>cidr_network = 0xffffff00, cidr_prefix = 24\<rparr>"
    by code_simp
  have p: "nth_30_pair \<lparr>cidr_network = 0xffffff00, cidr_prefix = 24\<rparr> 63 = Inr (0xfffffffd, 0xfffffffe)"
    by code_simp
  have "show_ipv4 0xfffffffe = ''255.255.255.254''"
    by code_simp
  with c p nth_30_pair_in_cidr [OF c p] show ?thesis by blast
qed

text \<open>
  C28. No two sandboxes share network resources: when the existing states have distinct subnets and
  tokens (the invariant that allocation establishes), a newly allocated state keeps this invariant;
  its two addresses, its network namespace, and both ends of its veth pair differ from those of
  every existing sandbox; and the interface names fit the kernel's limit of 15 bytes.
\<close>

theorem allocate_state_disjoint:
  assumes "parse_ipv4_cidr (sandbox_cidr cfg) = Inr c" and "alloc_inv c existing"
    and "allocate_state cfg existing i spec = Inr st"
  shows "alloc_inv c (st # existing)
    \<and> length (host_veth st) \<le> 15 \<and> length (peer_veth (ns_token st)) \<le> 15
    \<and> (\<forall>old \<in> set existing. {host_ip st, sandbox_ip st} \<inter> {host_ip old, sandbox_ip old} = {}
        \<and> netns_name st \<noteq> netns_name old
        \<and> {host_veth st, peer_veth (ns_token st)} \<inter> {host_veth old, peer_veth (ns_token old)} = {})"
proof (intro conjI ballI)
  note new = allocate_state_Inr [OF assms(3,1)]
  show inv: "alloc_inv c (st # existing)" by (rule alloc_inv_allocate [OF assms(2,3,1)])
  show "length (host_veth st) \<le> 15" and "length (peer_veth (ns_token st)) \<le> 15"
    using new by (simp_all add: alloc_ok_def peer_veth_def HOST_VETH_PREFIX_def PEER_VETH_PREFIX_def)
  fix old assume old: "old \<in> set existing"
  then have ok: "alloc_ok c old" "alloc_ok c st" and idx: "subnet_index st \<noteq> subnet_index old"
    and tok: "ns_token st \<noteq> ns_token old"
    using assms(2) new by (auto simp: alloc_inv_def list_all_iff)
  show "{host_ip st, sandbox_ip st} \<inter> {host_ip old, sandbox_ip old} = {}"
    by (rule alloc_ok_disjoint [OF parse_ipv4_cidr_ok [OF assms(1)] ok(2,1) idx])
  show "{host_veth st, peer_veth (ns_token st)} \<inter> {host_veth old, peer_veth (ns_token old)} = {}"
    using ok tok by (auto simp: alloc_ok_def peer_veth_def HOST_VETH_PREFIX_def PEER_VETH_PREFIX_def)
  show "netns_name st \<noteq> netns_name old" using ok tok by (simp add: alloc_ok_def)
qed

definition sample_state :: "string \<Rightarrow> string \<Rightarrow> 32 word \<Rightarrow> 32 word \<Rightarrow> SandboxNetworkState" where
  "sample_state i token h index = \<lparr>ns_sandbox_id = i, ns_token = token, netns_name = ''oad-'' @ token,
     host_veth = ''oadh'' @ token, sandbox_ip = h + 1, host_ip = h, prefix_len = 30,
     subnet_index = index, ns_spec = SandboxNetworkSpec_default\<rparr>"

abbreviation state_a :: SandboxNetworkState where
  "state_a \<equiv> sample_state ''a'' ''4c8601ec8c'' 173716017 11404"

abbreviation state_b :: SandboxNetworkState where
  "state_b \<equiv> sample_state ''b'' ''4c8601f1a5'' 173721237 12709"

theorem allocate_state_disjoint_witness:
  "allocate_state NetworkRuntimeConfig_default [state_a] ''b'' SandboxNetworkSpec_default = Inr state_b
   \<and> {host_ip state_b, sandbox_ip state_b} \<inter> {host_ip state_a, sandbox_ip state_a} = {}"
proof -
  let ?c = "\<lparr>cidr_network = 0x0a5a0000, cidr_prefix = 16\<rparr>"
  have c: "parse_ipv4_cidr (sandbox_cidr NetworkRuntimeConfig_default) = Inr ?c" by code_simp
  have inv: "alloc_inv ?c [state_a]" by code_simp
  have b: "allocate_state NetworkRuntimeConfig_default [state_a] ''b'' SandboxNetworkSpec_default = Inr state_b"
    by code_simp
  show ?thesis using allocate_state_disjoint [OF c inv b] b by simp
qed

text \<open>
  Allocation finds a free subnet whenever there is one: with a CIDR of at most /30, the error
  "has no free /30 subnets" is returned exactly when every subnet index of the CIDR is taken.
\<close>

theorem allocate_state_exhausted_iff:
  assumes "parse_ipv4_cidr (sandbox_cidr cfg) = Inr c" and "block_count_30 c = Inr n"
  shows "allocate_state cfg existing i spec =
      Inl (InvalidConfig (''sandbox network CIDR '' @ show_debug (sandbox_cidr cfg) @ '' has no free /30 subnets''))
    \<longleftrightarrow> {index. index < n} \<subseteq> subnet_index ` set existing"
proof -
  let ?start = "ucast (stable_hash i mod ucast n) :: 32 word"
  let ?find = "find_subnet ?start n (map subnet_index existing) 0"
  have full: "?find = None \<longleftrightarrow> {index. index < n} \<subseteq> subnet_index ` set existing"
    using find_subnet_full [OF start_below(1,2) [OF assms(2)]] by simp
  show ?thesis
  proof (cases ?find)
    case None
    with full show ?thesis by (simp add: allocate_state_def assms Let_def)
  next
    case (Some k)
    then have "k < n" by (rule find_subnet_Some [THEN conjunct2])
    then have "\<exists>h s. nth_30_pair c k = Inr (h, s)" by (simp add: nth_30_pair_def assms(2) Let_def)
    with Some full show ?thesis by (auto simp: allocate_state_def assms Let_def split: option.splits)
  qed
qed

theorem allocate_state_exhausted_iff_witness:
  "let cfg = NetworkRuntimeConfig_default\<lparr>sandbox_cidr := ''10.0.0.0/30''\<rparr> in
   allocate_state cfg [sample_state ''a'' ''t'' 0 0] ''b'' SandboxNetworkSpec_default =
     Inl (InvalidConfig (''sandbox network CIDR '' @ show_debug (sandbox_cidr cfg) @ '' has no free /30 subnets''))"
proof -
  let ?cfg = "NetworkRuntimeConfig_default\<lparr>sandbox_cidr := ''10.0.0.0/30''\<rparr>"
  let ?c = "\<lparr>cidr_network = 0x0a000000, cidr_prefix = 30\<rparr>"
  have c: "parse_ipv4_cidr (sandbox_cidr ?cfg) = Inr ?c" and n: "block_count_30 ?c = Inr 1"
    by code_simp+
  show ?thesis
    unfolding Let_def allocate_state_exhausted_iff [OF c n]
    by (auto simp: sample_state_def word_less_1)
qed

lemma validate_rules_ok:
  "is_ok (validate_rules rules) \<longleftrightarrow> list_all (\<lambda>rule. (case destination rule of Cidr cidr \<Rightarrow>
     is_ok (parse_ipv4_cidr cidr)) \<and> list_all (\<lambda>p. pr_start p \<le> pr_end p) (ports rule)) rules"
proof (induction rules)
  case (Cons rule rules)
  have ports: "is_ok (check_ports ps) \<longleftrightarrow> list_all (\<lambda>p. pr_start p \<le> pr_end p) ps" for ps
    by (induction ps) (auto simp: not_less)
  show ?case
    using Cons by (cases "destination rule")
      (auto simp: ports [symmetric] split: sum.splits)
qed simp

lemma validate_spec_steps:
  "validate_spec spec = Inr () \<longleftrightarrow>
     (case egress spec of Rules rules \<Rightarrow> is_ok (validate_rules rules) | _ \<Rightarrow> True)
     \<and> is_ok (validate_rules (allow (udp spec))) \<and> latency_ms (shaping spec) \<noteq> Some 0"
  by (cases "egress spec"; cases "validate_rules (allow (udp spec))")
    (simp_all add: validate_spec_def split: sum.splits option.splits)

text \<open>
  \<open>validate_spec\<close> accepts exactly the specifications whose rules (egress and UDP) all have a
  destination that parses as an IPv4 CIDR and port ranges with start at most end, and whose shaping
  latency, when given, is positive.
\<close>

theorem validate_spec_iff:
  "validate_spec spec = Inr () \<longleftrightarrow>
     list_all (\<lambda>rule. (case destination rule of Cidr cidr \<Rightarrow> is_ok (parse_ipv4_cidr cidr))
         \<and> list_all (\<lambda>p. pr_start p \<le> pr_end p) (ports rule))
       ((case egress spec of Rules rules \<Rightarrow> rules | _ \<Rightarrow> []) @ allow (udp spec))
     \<and> latency_ms (shaping spec) \<noteq> Some 0"
  by (cases "egress spec") (simp_all add: validate_spec_steps validate_rules_ok)

end
