(* ===== verification/Firewall.thy ===== *)
theory Firewall
  imports Network
begin

unbundle bit_operations_syntax

text \<open>
  The nftables ruleset the daemon renders for all sandboxes (\<open>render_nft_ruleset\<close> and its helpers in
  \<open>oad/src/network.rs\<close>) as the text it is; an abstract ruleset with first-match semantics; and the
  refinement between the two. The properties say what a packet leaving a sandbox meets.
\<close>

section \<open>Socket addresses\<close>

text \<open>
  \<open>SocketAddr::from_str\<close>, as the address text and the port: an IPv4 address and a port separated by a
  colon; the IPv6 form is the argument \<open>v6\<close>.
\<close>

definition parse_port :: "string \<Rightarrow> 16 word option" where
  "parse_port s = (if s = [] \<or> \<not> list_all is_ascii_digit s then None
     else let v = foldl (\<lambda>n c. 10 * n + int (digit_val c)) 0 s in
       if v \<le> 65535 then Some (word_of_int v) else None)"

definition parse_socket_addr ::
  "(string \<Rightarrow> (string \<times> 16 word) option) \<Rightarrow> string \<Rightarrow> (NetworkError, string \<times> 16 word) result" where
  "parse_socket_addr v6 s =
     (case (case split_once (CHR '':'') s of None \<Rightarrow> None
        | Some (a, p) \<Rightarrow> (case (parse_ipv4 a, parse_port p) of (Some ip, Some port) \<Rightarrow> Some (show_ipv4 ip, port)
           | _ \<Rightarrow> None)) of
        Some r \<Rightarrow> Inr r
      | None \<Rightarrow> (case v6 s of Some r \<Rightarrow> Inr r | None \<Rightarrow> Inl (AddrParse ''invalid socket address syntax'')))"

section \<open>Rendering\<close>

definition NFT_TABLE :: string where
  "NFT_TABLE = ''oad''"

definition NFT_FAMILY :: string where
  "NFT_FAMILY = ''inet''"

definition quoted :: "string \<Rightarrow> string" where
  "quoted s = [CHR 0x22] @ s @ [CHR 0x22]"

definition show_port :: "16 word \<Rightarrow> string" where
  "show_port p = show_nat (unat p)"

definition show_range :: "PortRange \<Rightarrow> string" where
  "show_range p = (if pr_start p = pr_end p then show_port (pr_start p)
     else show_port (pr_start p) @ ''-'' @ show_port (pr_end p))"

definition nft_port_set :: "PortRange list \<Rightarrow> string" where
  "nft_port_set ps =
     (if length ps = 1 \<and> pr_start (hd ps) = pr_end (hd ps) then show_port (pr_start (hd ps))
      else ''{ '' @ intersperse_str '', '' (map show_range ps) @ '' }'')"

definition write_nft_rule ::
  "string \<Rightarrow> string \<Rightarrow> string \<Rightarrow> EgressDestination \<Rightarrow> PortRange list \<Rightarrow> string \<Rightarrow> (NetworkError, string) result" where
  "write_nft_rule out iifname proto dst port_ranges verdict = (case dst of Cidr cidr \<Rightarrow>
     (case parse_ipv4_cidr cidr of
        Inl e \<Rightarrow> Inl e
      | Inr _ \<Rightarrow>
          let head = ''    iifname '' @ quoted iifname @ '' ip daddr '' @ cidr in
          if proto = ''icmp'' then
            Inr (out @ head @ '' icmp type echo-request '' @ verdict @ nl)
          else if (proto = ''tcp'' \<or> proto = ''udp'') \<and> port_ranges = [] then
            Inr (out @ head @ '' meta l4proto '' @ proto @ '' '' @ verdict @ nl)
          else if proto = ''tcp'' \<or> proto = ''udp'' then
            Inr (out @ head @ '' '' @ proto @ '' dport '' @ nft_port_set port_ranges @ '' '' @ verdict @ nl)
          else Inl (InvalidConfig (''unsupported nft protocol '' @ show_debug proto))))"

fun write_redirects :: "string \<Rightarrow> string \<Rightarrow> 16 word \<Rightarrow> EgressRule list \<Rightarrow> (NetworkError, string) result" where
  "write_redirects out veth envoy_port [] = Inr out"
| "write_redirects out veth envoy_port (rule # rules) =
     (if protocol rule = Tcp \<or> protocol rule = All then
        (case write_nft_rule out veth ''tcp'' (destination rule) (ports rule)
                (''redirect to :'' @ show_port envoy_port) of
           Inl e \<Rightarrow> Inl e
         | Inr out' \<Rightarrow> write_redirects out' veth envoy_port rules)
      else write_redirects out veth envoy_port rules)"

definition write_tcp_redirect_rules ::
  "string \<Rightarrow> SandboxNetworkState \<Rightarrow> 16 word \<Rightarrow> (NetworkError, string) result" where
  "write_tcp_redirect_rules out state envoy_port = (case egress (ns_spec state) of
       AllowAll \<Rightarrow> Inr (out @ ''    iifname '' @ quoted (host_veth state) @ '' meta l4proto tcp redirect to :''
                     @ show_port envoy_port @ nl)
     | DenyAll \<Rightarrow> Inr out
     | Rules rules \<Rightarrow> write_redirects out (host_veth state) envoy_port rules)"

fun write_udp_allow :: "string \<Rightarrow> string \<Rightarrow> EgressRule list \<Rightarrow> (NetworkError, string) result" where
  "write_udp_allow out veth [] = Inr out"
| "write_udp_allow out veth (rule # rules) =
     (case write_nft_rule out veth ''udp'' (destination rule) (ports rule) ''accept'' of
        Inl e \<Rightarrow> Inl e
      | Inr out' \<Rightarrow> write_udp_allow out' veth rules)"

definition write_egress_rule ::
  "string \<Rightarrow> string \<Rightarrow> bool \<Rightarrow> EgressRule \<Rightarrow> (NetworkError, string) result" where
  "write_egress_rule out veth transparent rule = (case protocol rule of
       Tcp \<Rightarrow> if transparent then Inr out
              else write_nft_rule out veth ''tcp'' (destination rule) (ports rule) ''accept''
     | Udp \<Rightarrow> write_nft_rule out veth ''udp'' (destination rule) (ports rule) ''accept''
     | Icmp \<Rightarrow> write_nft_rule out veth ''icmp'' (destination rule) [] ''accept''
     | All \<Rightarrow>
         (case (if \<not> transparent then write_nft_rule out veth ''tcp'' (destination rule) (ports rule) ''accept''
                else Inr out) of
            Inl e \<Rightarrow> Inl e
          | Inr out1 \<Rightarrow>
              (case write_nft_rule out1 veth ''udp'' (destination rule) (ports rule) ''accept'' of
                 Inl e \<Rightarrow> Inl e
               | Inr out2 \<Rightarrow> write_nft_rule out2 veth ''icmp'' (destination rule) [] ''accept'')))"

fun write_egress_rules ::
  "string \<Rightarrow> string \<Rightarrow> bool \<Rightarrow> EgressRule list \<Rightarrow> (NetworkError, string) result" where
  "write_egress_rules out veth transparent [] = Inr out"
| "write_egress_rules out veth transparent (rule # rules) =
     (case write_egress_rule out veth transparent rule of
        Inl e \<Rightarrow> Inl e
      | Inr out' \<Rightarrow> write_egress_rules out' veth transparent rules)"

definition write_forward_rules :: "string \<Rightarrow> SandboxNetworkState \<Rightarrow> (NetworkError, string) result" where
  "write_forward_rules out state =
     (let veth = host_veth state; spec = ns_spec state in
      case write_udp_allow out veth (allow (udp spec)) of
        Inl e \<Rightarrow> Inl e
      | Inr out1 \<Rightarrow>
          (case egress spec of
             AllowAll \<Rightarrow> Inr (out1 @ ''    iifname '' @ quoted veth @ '' accept'' @ nl)
           | DenyAll \<Rightarrow> Inr (out1 @ ''    iifname '' @ quoted veth @ '' reject'' @ nl)
           | Rules rules \<Rightarrow>
               (case write_egress_rules out1 veth (transparent_tcp (l7 spec)) rules of
                  Inl e \<Rightarrow> Inl e
                | Inr out2 \<Rightarrow> Inr (out2 @ ''    iifname '' @ quoted veth @ '' reject'' @ nl))))"

text \<open>The loops of \<open>render_nft_ruleset\<close> over the states, one per chain.\<close>

fun write_prerouting ::
  "string \<Rightarrow> 16 word \<Rightarrow> 16 word \<Rightarrow> SandboxNetworkState list \<Rightarrow> (NetworkError, string) result" where
  "write_prerouting out dns_port envoy_port [] = Inr out"
| "write_prerouting out dns_port envoy_port (state # states) =
     (let head = ''    iifname '' @ quoted (host_veth state);
          out1 = (if dns_redirect (udp (ns_spec state)) then
              out @ head @ '' udp dport 53 redirect to :'' @ show_port dns_port @ nl
                @ head @ '' tcp dport 53 redirect to :'' @ show_port dns_port @ nl
            else out) in
      case (if transparent_tcp (l7 (ns_spec state)) then
              write_tcp_redirect_rules
                (out1 @ head @ '' ip daddr '' @ show_ipv4 (host_ip state) @ '' tcp dport { '' @ show_port envoy_port
                   @ '', '' @ show_port dns_port @ '' } accept'' @ nl) state envoy_port
            else Inr out1) of
        Inl e \<Rightarrow> Inl e
      | Inr out2 \<Rightarrow> write_prerouting out2 dns_port envoy_port states)"

fun write_input :: "string \<Rightarrow> 16 word \<Rightarrow> 16 word \<Rightarrow> SandboxNetworkState list \<Rightarrow> string" where
  "write_input out dns_port envoy_port [] = out"
| "write_input out dns_port envoy_port (state # states) =
     (let head = ''    iifname '' @ quoted (host_veth state) @ '' ip saddr '' @ show_ipv4 (sandbox_ip state)
            @ '' ip daddr '' @ show_ipv4 (host_ip state) in
      write_input
        (out @ head @ '' udp dport '' @ show_port dns_port @ '' accept'' @ nl
           @ head @ '' tcp dport { '' @ show_port envoy_port @ '', '' @ show_port dns_port @ '' } accept'' @ nl)
        dns_port envoy_port states)"

fun write_forward :: "string \<Rightarrow> SandboxNetworkState list \<Rightarrow> (NetworkError, string) result" where
  "write_forward out [] = Inr out"
| "write_forward out (state # states) =
     (let out1 = (if block_quic (udp (ns_spec state)) then
            out @ ''    iifname '' @ quoted (host_veth state) @ '' udp dport 443 reject'' @ nl else out) in
      case write_forward_rules out1 state of
        Inl e \<Rightarrow> Inl e
      | Inr out2 \<Rightarrow> write_forward out2 states)"

definition render_nft_ruleset ::
  "(string \<Rightarrow> (string \<times> 16 word) option) \<Rightarrow> NetworkRuntimeConfig \<Rightarrow> SandboxNetworkState list
   \<Rightarrow> (NetworkError, string) result" where
  "render_nft_ruleset v6 cfg states = (case parse_ipv4_cidr (sandbox_cidr cfg) of
       Inl e \<Rightarrow> Inl e
     | Inr cidr \<Rightarrow>
    (case parse_socket_addr v6 (envoy_listener cfg) of
       Inl e \<Rightarrow> Inl e
     | Inr (_, envoy_port) \<Rightarrow>
    (case parse_socket_addr v6 (dns_listener cfg) of
       Inl e \<Rightarrow> Inl e
     | Inr (_, dns_port) \<Rightarrow>
    (case write_prerouting
            (''add table '' @ NFT_FAMILY @ '' '' @ NFT_TABLE @ nl
             @ ''delete table '' @ NFT_FAMILY @ '' '' @ NFT_TABLE @ nl
             @ ''table '' @ NFT_FAMILY @ '' '' @ NFT_TABLE @ '' {'' @ nl
             @ ''  chain prerouting { type nat hook prerouting priority dstnat; policy accept;'' @ nl)
            dns_port envoy_port states of
       Inl e \<Rightarrow> Inl e
     | Inr out1 \<Rightarrow>
    (case write_forward
            (write_input
               (out1 @ ''  }'' @ nl
                @ ''  chain input { type filter hook input priority -300; policy accept;'' @ nl)
               dns_port envoy_port states
             @ ''  }'' @ nl
             @ ''  chain forward { type filter hook forward priority -300; policy accept;'' @ nl)
            states of
       Inl e \<Rightarrow> Inl e
     | Inr out2 \<Rightarrow>
         Inr (out2 @ ''  }'' @ nl
           @ ''  chain postrouting { type nat hook postrouting priority srcnat; policy accept;'' @ nl
           @ ''    ip saddr '' @ show_Ipv4Cidr cidr @ '' masquerade'' @ nl
           @ ''  }'' @ nl
           @ ''}'' @ nl))))))"

section \<open>The host firewall\<close>

record HostFirewallRule =
  hf_chain :: string
  hf_args :: "string list"

definition invocation :: "HostFirewallRule \<Rightarrow> string \<Rightarrow> string list \<Rightarrow> string list" where
  "invocation rule op extra = [''-w'', ''2'', op, hf_chain rule] @ extra @ hf_args rule"

definition host_input_accept_rule ::
  "SandboxNetworkState \<Rightarrow> string \<Rightarrow> string \<Rightarrow> string \<Rightarrow> string \<Rightarrow> string \<Rightarrow> HostFirewallRule" where
  "host_input_accept_rule state source dst proto port comment =
     \<lparr>hf_chain = ''INPUT'',
      hf_args = [''-i'', host_veth state, ''-s'', source, ''-d'', dst, ''-p'', proto, ''--dport'', port,
        ''-m'', ''comment'', ''--comment'', comment, ''-j'', ''ACCEPT'']\<rparr>"

definition host_forward_out_rule :: "SandboxNetworkState \<Rightarrow> string \<Rightarrow> string \<Rightarrow> HostFirewallRule" where
  "host_forward_out_rule state source comment =
     \<lparr>hf_chain = ''FORWARD'',
      hf_args = [''-i'', host_veth state, ''-s'', source, ''-m'', ''comment'', ''--comment'', comment,
        ''-j'', ''ACCEPT'']\<rparr>"

definition host_forward_in_rule :: "SandboxNetworkState \<Rightarrow> string \<Rightarrow> string \<Rightarrow> HostFirewallRule" where
  "host_forward_in_rule state dst comment =
     \<lparr>hf_chain = ''FORWARD'',
      hf_args = [''-o'', host_veth state, ''-d'', dst, ''-m'', ''conntrack'', ''--ctstate'',
        ''RELATED,ESTABLISHED'', ''-m'', ''comment'', ''--comment'', comment, ''-j'', ''ACCEPT'']\<rparr>"

definition host_firewall_rules ::
  "(string \<Rightarrow> (string \<times> 16 word) option) \<Rightarrow> NetworkRuntimeConfig \<Rightarrow> SandboxNetworkState
   \<Rightarrow> (NetworkError, HostFirewallRule list) result" where
  "host_firewall_rules v6 cfg state = (case parse_socket_addr v6 (dns_listener cfg) of
       Inl e \<Rightarrow> Inl e
     | Inr (_, dns) \<Rightarrow>
    (case parse_socket_addr v6 (envoy_listener cfg) of
       Inl e \<Rightarrow> Inl e
     | Inr (_, envoy) \<Rightarrow>
    (let dns_port = show_port dns; envoy_port = show_port envoy;
         source = show_ipv4 (sandbox_ip state) @ ''/32'';
         dst = show_ipv4 (host_ip state) @ ''/32'';
         comment_prefix = ''oad:'' @ ns_sandbox_id state in
     Inr [host_input_accept_rule state source dst ''udp'' dns_port (comment_prefix @ '':dns-udp''),
          host_input_accept_rule state source dst ''tcp'' dns_port (comment_prefix @ '':dns-tcp''),
          host_input_accept_rule state source dst ''tcp'' envoy_port (comment_prefix @ '':envoy-tcp''),
          host_forward_out_rule state source (comment_prefix @ '':forward-out''),
          host_forward_in_rule state source (comment_prefix @ '':forward-in'')])))"

section \<open>Abstract rules\<close>

datatype l4 = L4Tcp | L4Udp

datatype nft_cond =
    Dport l4 "16 word"
  | DportPair l4 "16 word" "16 word"
  | Saddr "32 word"
  | Daddr "32 word"
  | DstCidr string
  | L4proto l4
  | Dports l4 "PortRange list"
  | EchoRequest

datatype verdict = Accept | Reject | Redirect "16 word"

record nft_rule =
  r_iif :: string
  r_conds :: "nft_cond list"
  r_verdict :: verdict

fun show_l4 :: "l4 \<Rightarrow> string" where
  "show_l4 L4Tcp = ''tcp''"
| "show_l4 L4Udp = ''udp''"

fun show_cond :: "nft_cond \<Rightarrow> string" where
  "show_cond (Dport p n) = '' '' @ show_l4 p @ '' dport '' @ show_port n"
| "show_cond (DportPair p m n) = '' '' @ show_l4 p @ '' dport { '' @ show_port m @ '', '' @ show_port n @ '' }''"
| "show_cond (Saddr a) = '' ip saddr '' @ show_ipv4 a"
| "show_cond (Daddr a) = '' ip daddr '' @ show_ipv4 a"
| "show_cond (DstCidr c) = '' ip daddr '' @ c"
| "show_cond (L4proto p) = '' meta l4proto '' @ show_l4 p"
| "show_cond (Dports p ps) = '' '' @ show_l4 p @ '' dport '' @ nft_port_set ps"
| "show_cond EchoRequest = '' icmp type echo-request''"

fun show_verdict :: "verdict \<Rightarrow> string" where
  "show_verdict Accept = ''accept''"
| "show_verdict Reject = ''reject''"
| "show_verdict (Redirect p) = ''redirect to :'' @ show_port p"

definition show_rule :: "nft_rule \<Rightarrow> string" where
  "show_rule r = ''    iifname '' @ quoted (r_iif r) @ concat (map show_cond (r_conds r))
     @ '' '' @ show_verdict (r_verdict r) @ nl"

definition show_rules :: "nft_rule list \<Rightarrow> string" where
  "show_rules rs = concat (map show_rule rs)"

text \<open>What each part of a network specification means as rules.\<close>

fun cidr_text :: "EgressDestination \<Rightarrow> string" where
  "cidr_text (Cidr c) = c"

definition port_conds :: "l4 \<Rightarrow> PortRange list \<Rightarrow> nft_cond list" where
  "port_conds p ps = (if ps = [] then [L4proto p] else [Dports p ps])"

definition l4_rule :: "string \<Rightarrow> l4 \<Rightarrow> EgressRule \<Rightarrow> verdict \<Rightarrow> nft_rule" where
  "l4_rule veth p rule v =
     \<lparr>r_iif = veth, r_conds = DstCidr (cidr_text (destination rule)) # port_conds p (ports rule), r_verdict = v\<rparr>"

definition icmp_rule :: "string \<Rightarrow> EgressRule \<Rightarrow> nft_rule" where
  "icmp_rule veth rule =
     \<lparr>r_iif = veth, r_conds = [DstCidr (cidr_text (destination rule)), EchoRequest], r_verdict = Accept\<rparr>"

definition egress_rule :: "string \<Rightarrow> bool \<Rightarrow> EgressRule \<Rightarrow> nft_rule list" where
  "egress_rule veth transparent rule =
     (if protocol rule \<in> {Tcp, All} \<and> \<not> transparent then [l4_rule veth L4Tcp rule Accept] else [])
     @ (if protocol rule \<in> {Udp, All} then [l4_rule veth L4Udp rule Accept] else [])
     @ (if protocol rule \<in> {Icmp, All} then [icmp_rule veth rule] else [])"

definition plain_rule :: "string \<Rightarrow> nft_cond list \<Rightarrow> verdict \<Rightarrow> nft_rule" where
  "plain_rule veth conds v = \<lparr>r_iif = veth, r_conds = conds, r_verdict = v\<rparr>"

definition forward_rules :: "SandboxNetworkState \<Rightarrow> nft_rule list" where
  "forward_rules st =
     (let veth = host_veth st; spec = ns_spec st in
      (if block_quic (udp spec) then [plain_rule veth [Dport L4Udp 443] Reject] else [])
      @ map (\<lambda>rule. l4_rule veth L4Udp rule Accept) (allow (udp spec))
      @ (case egress spec of
           AllowAll \<Rightarrow> [plain_rule veth [] Accept]
         | DenyAll \<Rightarrow> [plain_rule veth [] Reject]
         | Rules rules \<Rightarrow> concat (map (egress_rule veth (transparent_tcp (l7 spec))) rules)
             @ [plain_rule veth [] Reject]))"

definition prerouting_rules :: "16 word \<Rightarrow> 16 word \<Rightarrow> SandboxNetworkState \<Rightarrow> nft_rule list" where
  "prerouting_rules dns_port envoy_port st =
     (let veth = host_veth st; spec = ns_spec st in
      (if dns_redirect (udp spec) then
         [plain_rule veth [Dport L4Udp 53] (Redirect dns_port), plain_rule veth [Dport L4Tcp 53] (Redirect dns_port)]
       else [])
      @ (if transparent_tcp (l7 spec) then
           plain_rule veth [Daddr (host_ip st), DportPair L4Tcp envoy_port dns_port] Accept
           # (case egress spec of
                AllowAll \<Rightarrow> [plain_rule veth [L4proto L4Tcp] (Redirect envoy_port)]
              | DenyAll \<Rightarrow> []
              | Rules rules \<Rightarrow> map (\<lambda>rule. l4_rule veth L4Tcp rule (Redirect envoy_port))
                  (filter (\<lambda>rule. protocol rule = Tcp \<or> protocol rule = All) rules))
         else []))"

definition input_rules :: "16 word \<Rightarrow> 16 word \<Rightarrow> SandboxNetworkState \<Rightarrow> nft_rule list" where
  "input_rules dns_port envoy_port st =
     [plain_rule (host_veth st) [Saddr (sandbox_ip st), Daddr (host_ip st), Dport L4Udp dns_port] Accept,
      plain_rule (host_veth st) [Saddr (sandbox_ip st), Daddr (host_ip st), DportPair L4Tcp envoy_port dns_port] Accept]"

text \<open>The whole ruleset as text, from the abstract chains.\<close>

definition show_ruleset ::
  "Ipv4Cidr \<Rightarrow> nft_rule list \<Rightarrow> nft_rule list \<Rightarrow> nft_rule list \<Rightarrow> string" where
  "show_ruleset cidr pre inp fwd =
     ''add table inet oad'' @ nl @ ''delete table inet oad'' @ nl @ ''table inet oad {'' @ nl
     @ ''  chain prerouting { type nat hook prerouting priority dstnat; policy accept;'' @ nl
     @ show_rules pre @ ''  }'' @ nl
     @ ''  chain input { type filter hook input priority -300; policy accept;'' @ nl
     @ show_rules inp @ ''  }'' @ nl
     @ ''  chain forward { type filter hook forward priority -300; policy accept;'' @ nl
     @ show_rules fwd @ ''  }'' @ nl
     @ ''  chain postrouting { type nat hook postrouting priority srcnat; policy accept;'' @ nl
     @ ''    ip saddr '' @ show_Ipv4Cidr cidr @ '' masquerade'' @ nl @ ''  }'' @ nl @ ''}'' @ nl"

section \<open>The text is the rendering of the abstract rules\<close>

lemma show_known_ports: "show_port 53 = ''53''" "show_port 443 = ''443''"
  by code_simp+

lemma show_rules_append [simp]:
  "show_rules [] = []" "show_rules (r # rs) = show_rule r @ show_rules rs"
  "show_rules (rs @ rs') = show_rules rs @ show_rules rs'"
  by (simp_all add: show_rules_def)

definition valid_rule :: "EgressRule \<Rightarrow> bool" where
  "valid_rule rule \<longleftrightarrow> is_ok (parse_ipv4_cidr (cidr_text (destination rule)))"

lemma case_cidr_text: "(case d of Cidr c \<Rightarrow> P c) = P (cidr_text d)"
  by (cases d) simp

lemma validated_rules: "is_ok (validate_rules rules) \<Longrightarrow> list_all valid_rule rules"
  by (auto simp: validate_rules_ok list_all_iff valid_rule_def case_cidr_text)

lemma write_nft_rule_l4:
  assumes "valid_rule rule"
  shows "write_nft_rule out veth ''tcp'' (destination rule) (ports rule) (show_verdict v) =
      Inr (out @ show_rule (l4_rule veth L4Tcp rule v))"
    and "write_nft_rule out veth ''udp'' (destination rule) (ports rule) (show_verdict v) =
      Inr (out @ show_rule (l4_rule veth L4Udp rule v))"
    and "write_nft_rule out veth ''icmp'' (destination rule) [] ''accept'' =
      Inr (out @ show_rule (icmp_rule veth rule))"
  using assms
  by (cases "destination rule"; auto simp: valid_rule_def write_nft_rule_def show_rule_def l4_rule_def
      icmp_rule_def port_conds_def Let_def split: sum.splits)+

lemmas write_nft_rule_accept =
  write_nft_rule_l4(1,2) [where v = Accept, simplified] write_nft_rule_l4(3)

lemma write_egress_rule_render:
  "valid_rule rule \<Longrightarrow> write_egress_rule out veth tr rule = Inr (out @ show_rules (egress_rule veth tr rule))"
  by (cases "protocol rule") (simp_all add: write_egress_rule_def egress_rule_def write_nft_rule_accept)

lemma write_egress_rules_render:
  "list_all valid_rule rules \<Longrightarrow> write_egress_rules out veth tr rules =
     Inr (out @ show_rules (concat (map (egress_rule veth tr) rules)))"
  by (induction rules arbitrary: out) (simp_all add: write_egress_rule_render)

lemma write_udp_allow_render:
  "list_all valid_rule rules \<Longrightarrow> write_udp_allow out veth rules =
     Inr (out @ show_rules (map (\<lambda>rule. l4_rule veth L4Udp rule Accept) rules))"
  by (induction rules arbitrary: out) (simp_all add: write_nft_rule_accept)

lemma write_redirects_render:
  "list_all valid_rule rules \<Longrightarrow> write_redirects out veth p rules =
     Inr (out @ show_rules (map (\<lambda>rule. l4_rule veth L4Tcp rule (Redirect p))
       (filter (\<lambda>rule. protocol rule = Tcp \<or> protocol rule = All) rules)))"
  by (induction rules arbitrary: out) (simp_all add: write_nft_rule_l4(1) [where v = "Redirect p", simplified])

definition valid_state :: "SandboxNetworkState \<Rightarrow> bool" where
  "valid_state st \<longleftrightarrow> validate_spec (ns_spec st) = Inr ()"

lemma valid_state_rules:
  assumes "valid_state st"
  shows "list_all valid_rule (allow (udp (ns_spec st)))"
    and "egress (ns_spec st) = Rules rules \<Longrightarrow> list_all valid_rule rules"
  using assms by (auto simp: valid_state_def validate_spec_steps intro: validated_rules)

lemma write_forward_render:
  "list_all valid_state sts \<Longrightarrow> write_forward out sts = Inr (out @ show_rules (concat (map forward_rules sts)))"
proof (induction sts arbitrary: out)
  case (Cons st sts)
  then show ?case
    using valid_state_rules [of st]
    by (cases "egress (ns_spec st)")
      (simp_all add: write_forward_rules_def forward_rules_def Let_def write_udp_allow_render
        write_egress_rules_render plain_rule_def show_rule_def show_known_ports)
qed simp

lemma write_prerouting_render:
  "list_all valid_state sts \<Longrightarrow> write_prerouting out dns envoy sts =
     Inr (out @ show_rules (concat (map (prerouting_rules dns envoy) sts)))"
proof (induction sts arbitrary: out)
  case (Cons st sts)
  then show ?case
    using valid_state_rules [of st]
    by (cases "egress (ns_spec st)")
      (simp_all add: write_tcp_redirect_rules_def prerouting_rules_def Let_def write_redirects_render
        plain_rule_def show_rule_def show_known_ports)
qed simp

lemma write_input_render:
  "write_input out dns envoy sts = out @ show_rules (concat (map (input_rules dns envoy) sts))"
  by (induction sts arbitrary: out) (simp_all add: input_rules_def plain_rule_def show_rule_def Let_def)

section \<open>What a packet meets\<close>

datatype packet_proto = PTcp "16 word" | PUdp "16 word" | PEcho | POther

record packet =
  p_iif :: string
  p_src :: "32 word"
  p_dst :: "32 word"
  p_proto :: packet_proto

definition in_cidr :: "Ipv4Cidr \<Rightarrow> 32 word \<Rightarrow> bool" where
  "in_cidr c a \<longleftrightarrow> a AND NOT (mask (32 - cidr_prefix c)) = cidr_network c"

definition in_cidr_text :: "string \<Rightarrow> 32 word \<Rightarrow> bool" where
  "in_cidr_text s a \<longleftrightarrow> (case parse_ipv4_cidr s of Inr c \<Rightarrow> in_cidr c a | Inl _ \<Rightarrow> False)"

fun l4_port :: "l4 \<Rightarrow> packet_proto \<Rightarrow> 16 word option" where
  "l4_port L4Tcp (PTcp p) = Some p"
| "l4_port L4Udp (PUdp p) = Some p"
| "l4_port _ _ = None"

definition in_ranges :: "PortRange list \<Rightarrow> 16 word \<Rightarrow> bool" where
  "in_ranges ps n \<longleftrightarrow> list_ex (\<lambda>r. pr_start r \<le> n \<and> n \<le> pr_end r) ps"

fun cond_matches :: "packet \<Rightarrow> nft_cond \<Rightarrow> bool" where
  "cond_matches pkt (Dport p n) \<longleftrightarrow> l4_port p (p_proto pkt) = Some n"
| "cond_matches pkt (DportPair p m n) \<longleftrightarrow> l4_port p (p_proto pkt) \<in> {Some m, Some n}"
| "cond_matches pkt (Saddr a) \<longleftrightarrow> p_src pkt = a"
| "cond_matches pkt (Daddr a) \<longleftrightarrow> p_dst pkt = a"
| "cond_matches pkt (DstCidr c) \<longleftrightarrow> in_cidr_text c (p_dst pkt)"
| "cond_matches pkt (L4proto p) \<longleftrightarrow> l4_port p (p_proto pkt) \<noteq> None"
| "cond_matches pkt (Dports p ps) \<longleftrightarrow>
     (case l4_port p (p_proto pkt) of Some n \<Rightarrow> in_ranges ps n | None \<Rightarrow> False)"
| "cond_matches pkt EchoRequest \<longleftrightarrow> p_proto pkt = PEcho"

definition rule_matches :: "packet \<Rightarrow> nft_rule \<Rightarrow> bool" where
  "rule_matches pkt r \<longleftrightarrow> p_iif pkt = r_iif r \<and> list_all (cond_matches pkt) (r_conds r)"

text \<open>The first matching rule decides; the policy of every chain is to accept.\<close>

fun chain_verdict :: "nft_rule list \<Rightarrow> packet \<Rightarrow> verdict" where
  "chain_verdict [] pkt = Accept"
| "chain_verdict (r # rs) pkt = (if rule_matches pkt r then r_verdict r else chain_verdict rs pkt)"

text \<open>The meaning of an egress rule: destination and, for TCP and UDP, the ports (none means all).\<close>

definition l4_permits :: "EgressRule \<Rightarrow> packet \<Rightarrow> 16 word \<Rightarrow> bool" where
  "l4_permits rule pkt port \<longleftrightarrow> in_cidr_text (cidr_text (destination rule)) (p_dst pkt)
     \<and> (ports rule = [] \<or> in_ranges (ports rule) port)"

definition forward_permits :: "bool \<Rightarrow> EgressRule \<Rightarrow> packet \<Rightarrow> bool" where
  "forward_permits transparent rule pkt \<longleftrightarrow> (case p_proto pkt of
       PTcp port \<Rightarrow> \<not> transparent \<and> protocol rule \<in> {Tcp, All} \<and> l4_permits rule pkt port
     | PUdp port \<Rightarrow> protocol rule \<in> {Udp, All} \<and> l4_permits rule pkt port
     | PEcho \<Rightarrow> protocol rule \<in> {Icmp, All} \<and> in_cidr_text (cidr_text (destination rule)) (p_dst pkt)
     | POther \<Rightarrow> False)"

definition egress_permits :: "SandboxNetworkSpec \<Rightarrow> packet \<Rightarrow> bool" where
  "egress_permits spec pkt \<longleftrightarrow> (case p_proto pkt of
       PUdp port \<Rightarrow> \<not> (block_quic (udp spec) \<and> port = 443)
         \<and> (list_ex (\<lambda>rule. l4_permits rule pkt port) (allow (udp spec))
            \<or> (case egress spec of AllowAll \<Rightarrow> True | DenyAll \<Rightarrow> False
               | Rules rules \<Rightarrow> list_ex (\<lambda>rule. forward_permits (transparent_tcp (l7 spec)) rule pkt) rules))
     | _ \<Rightarrow> (case egress spec of AllowAll \<Rightarrow> True | DenyAll \<Rightarrow> False
         | Rules rules \<Rightarrow> list_ex (\<lambda>rule. forward_permits (transparent_tcp (l7 spec)) rule pkt) rules))"

lemma chain_verdict_append:
  "chain_verdict (rs @ rs') pkt =
     (case find (rule_matches pkt) rs of Some r \<Rightarrow> r_verdict r | None \<Rightarrow> chain_verdict rs' pkt)"
  by (induction rs) auto

lemma find_all_accept:
  "list_all (\<lambda>r. r_verdict r = Accept) rs \<Longrightarrow> chain_verdict (rs @ rs') pkt =
     (if list_ex (rule_matches pkt) rs then Accept else chain_verdict rs' pkt)"
  by (induction rs) auto

lemma foreign_rules:
  "list_all (\<lambda>r. r_iif r \<noteq> p_iif pkt) rs \<Longrightarrow> chain_verdict (rs @ rs') pkt = chain_verdict rs' pkt"
  by (induction rs) (auto simp: rule_matches_def)

lemma port_conds_match:
  "list_all (cond_matches pkt) (port_conds p ps) \<longleftrightarrow>
     (case l4_port p (p_proto pkt) of Some n \<Rightarrow> ps = [] \<or> in_ranges ps n | None \<Rightarrow> False)"
  by (auto simp: port_conds_def split: option.splits)

lemma l4_rule_matches:
  "rule_matches pkt (l4_rule veth p rule v) \<longleftrightarrow> p_iif pkt = veth
     \<and> (case l4_port p (p_proto pkt) of Some n \<Rightarrow> l4_permits rule pkt n | None \<Rightarrow> False)"
  by (auto simp: rule_matches_def l4_rule_def port_conds_match l4_permits_def split: option.splits)

lemma icmp_rule_matches:
  "rule_matches pkt (icmp_rule veth rule) \<longleftrightarrow> p_iif pkt = veth
     \<and> in_cidr_text (cidr_text (destination rule)) (p_dst pkt) \<and> p_proto pkt = PEcho"
  by (simp add: rule_matches_def icmp_rule_def)

lemma plain_rule_matches:
  "rule_matches pkt (plain_rule veth conds v) \<longleftrightarrow> p_iif pkt = veth \<and> list_all (cond_matches pkt) conds"
  "r_verdict (plain_rule veth conds v) = v"
  by (simp_all add: rule_matches_def plain_rule_def)

lemma egress_rule_matches:
  "list_ex (rule_matches pkt) (egress_rule veth tr rule) \<longleftrightarrow> p_iif pkt = veth \<and> forward_permits tr rule pkt"
  by (cases "p_proto pkt"; cases "protocol rule")
    (auto simp: egress_rule_def l4_rule_matches forward_permits_def icmp_rule_matches)

lemma egress_rules_match:
  "list_ex (rule_matches pkt) (concat (map (egress_rule veth tr) rules)) \<longleftrightarrow>
     p_iif pkt = veth \<and> list_ex (\<lambda>rule. forward_permits tr rule pkt) rules"
  by (induction rules) (auto simp: egress_rule_matches)

lemma egress_rules_accept:
  "list_all (\<lambda>r. r_verdict r = Accept) (concat (map (egress_rule veth tr) rules))"
  by (induction rules) (auto simp: egress_rule_def l4_rule_def icmp_rule_def)

lemma udp_allow_match:
  "list_ex (rule_matches pkt) (map (\<lambda>rule. l4_rule veth L4Udp rule Accept) rules) \<longleftrightarrow> p_iif pkt = veth
     \<and> (case p_proto pkt of PUdp n \<Rightarrow> list_ex (\<lambda>rule. l4_permits rule pkt n) rules | _ \<Rightarrow> False)"
  by (induction rules) (auto simp: l4_rule_matches split: packet_proto.splits)

lemma forward_rules_verdict:
  assumes "p_iif pkt = host_veth st"
  shows "chain_verdict (forward_rules st @ rest) pkt = (if egress_permits (ns_spec st) pkt then Accept else Reject)"
proof -
  let ?u = "map (\<lambda>rule. l4_rule (host_veth st) L4Udp rule Accept) (allow (udp (ns_spec st)))"
  have u: "list_all (\<lambda>r. r_verdict r = Accept) ?u" by (simp add: list_all_iff l4_rule_def)
  show ?thesis
    using assms
    by (cases "egress (ns_spec st)"; cases "p_proto pkt")
      (simp_all add: forward_rules_def Let_def find_all_accept [OF u] udp_allow_match egress_permits_def
        find_all_accept [OF egress_rules_accept] egress_rules_match plain_rule_matches)
qed

lemma forward_rules_iif: "list_all (\<lambda>r. r_iif r = host_veth st) (forward_rules st)"
proof -
  have "list_all (\<lambda>r. r_iif r = v) (concat (map (egress_rule v tr) rules))" for v tr rules
    by (induction rules) (auto simp: egress_rule_def l4_rule_def icmp_rule_def)
  then show ?thesis
    by (cases "egress (ns_spec st)")
      (auto simp: forward_rules_def Let_def plain_rule_def l4_rule_def list_all_iff)
qed

lemma forward_chain_verdict:
  assumes "distinct (map host_veth sts)" and "st \<in> set sts" and "p_iif pkt = host_veth st"
  shows "chain_verdict (concat (map forward_rules sts)) pkt =
    (if egress_permits (ns_spec st) pkt then Accept else Reject)"
  using assms
proof (induction sts)
  case (Cons s sts)
  show ?case
  proof (cases "s = st")
    case True
    then show ?thesis using forward_rules_verdict [OF Cons.prems(3)] by simp
  next
    case False
    then have "st \<in> set sts" "host_veth s \<noteq> host_veth st" using Cons.prems by auto
    then have "list_all (\<lambda>r. r_iif r \<noteq> p_iif pkt) (forward_rules s)"
      using forward_rules_iif [of s] Cons.prems(3) by (auto simp: list_all_iff)
    then show ?thesis using Cons \<open>st \<in> set sts\<close> by (simp add: foreign_rules)
  qed
qed simp

section \<open>Properties\<close>

text \<open>
  C27. The ruleset text refines the abstract ruleset: for a configuration that parses and states with
  validated specifications, \<open>render_nft_ruleset\<close> succeeds, and its output is the rendering of the
  abstract prerouting, input and forward chains, sandbox after sandbox.
\<close>

theorem render_nft_ruleset_refines:
  assumes "parse_ipv4_cidr (sandbox_cidr cfg) = Inr cidr"
    and "parse_socket_addr v6 (envoy_listener cfg) = Inr (ea, envoy_port)"
    and "parse_socket_addr v6 (dns_listener cfg) = Inr (da, dns_port)"
    and "list_all valid_state states"
  shows "render_nft_ruleset v6 cfg states = Inr (show_ruleset cidr
    (concat (map (prerouting_rules dns_port envoy_port) states))
    (concat (map (input_rules dns_port envoy_port) states))
    (concat (map forward_rules states)))"
  using assms
  by (simp add: render_nft_ruleset_def write_prerouting_render write_input_render write_forward_render
      show_ruleset_def NFT_FAMILY_def NFT_TABLE_def)

theorem render_nft_ruleset_refines_witness:
  "let cfg = NetworkRuntimeConfig_default\<lparr>envoy_listener := ''0.0.0.0:81'', dns_listener := ''0.0.0.0:82''\<rparr> in
   \<exists>cidr. render_nft_ruleset (\<lambda>_. None) cfg [state_a] = Inr (show_ruleset cidr
     (prerouting_rules 82 81 state_a) (input_rules 82 81 state_a) (forward_rules state_a))"
proof -
  let ?cfg = "NetworkRuntimeConfig_default\<lparr>envoy_listener := ''0.0.0.0:81'', dns_listener := ''0.0.0.0:82''\<rparr>"
  have c: "parse_ipv4_cidr (sandbox_cidr ?cfg) = Inr \<lparr>cidr_network = 0x0a5a0000, cidr_prefix = 16\<rparr>" by code_simp
  have e: "parse_socket_addr (\<lambda>_. None) (envoy_listener ?cfg) = Inr (''0.0.0.0'', 81)"
    and d: "parse_socket_addr (\<lambda>_. None) (dns_listener ?cfg) = Inr (''0.0.0.0'', 82)" by code_simp+
  have v: "list_all valid_state [state_a]" by code_simp
  show ?thesis using render_nft_ruleset_refines [OF c e d v] by auto
qed

text \<open>
  C6. Egress policy and isolation: the text the program writes for the forward chain is the text of
  a list of rules, and under these rules of all sandboxes a packet that enters
  through the interface of a sandbox is accepted when that sandbox's own specification permits it
  and rejected otherwise, whatever the specifications of the other sandboxes. A specification with
  rules denies by default; QUIC blocking comes before everything; UDP exceptions apply under every
  policy; with transparent TCP no TCP packet is forwarded directly.
\<close>

theorem forward_chain_enforces_spec:
  assumes "alloc_inv c states" and "st \<in> set states" and "p_iif pkt = host_veth st"
    and "list_all valid_state states"
  shows "let rules = concat (map forward_rules states) in
    write_forward out states = Inr (out @ show_rules rules) \<and>
    chain_verdict rules pkt = (if egress_permits (ns_spec st) pkt then Accept else Reject)"
  unfolding Let_def
proof (intro conjI)
  show "write_forward out states = Inr (out @ show_rules (concat (map forward_rules states)))"
    by (rule write_forward_render [OF assms(4)])
  have "map host_veth states = map (\<lambda>s. HOST_VETH_PREFIX @ ns_token s) states"
    using assms(1) by (auto simp: alloc_inv_def alloc_ok_def list_all_iff)
  then have "distinct (map host_veth states)"
    using assms(1) by (auto simp: alloc_inv_def distinct_map inj_on_def)
  then show "chain_verdict (concat (map forward_rules states)) pkt =
      (if egress_permits (ns_spec st) pkt then Accept else Reject)"
    by (rule forward_chain_verdict [OF _ assms(2,3)])
qed

text \<open>Sandbox \<open>a\<close> may reach one web server; sandbox \<open>b\<close> is open.\<close>

definition web_only :: SandboxNetworkSpec where
  "web_only = SandboxNetworkSpec_default\<lparr>egress := Rules [\<lparr>destination = Cidr ''1.1.1.1/32'', protocol = Udp,
     ports = [\<lparr>pr_start = 80, pr_end = 90\<rparr>]\<rparr>]\<rparr>"

theorem forward_chain_enforces_spec_witness:
  "let sts = [state_a\<lparr>ns_spec := web_only\<rparr>, state_b];
       pkt = (\<lambda>v p. \<lparr>p_iif = v, p_src = 1, p_dst = 0x01010101, p_proto = PUdp p\<rparr>) in
   write_forward [] sts = Inr (show_rules (concat (map forward_rules sts))) \<and>
   map (chain_verdict (concat (map forward_rules sts)))
     [pkt (host_veth state_a) 81, pkt (host_veth state_a) 91, pkt (host_veth state_b) 91] = [Accept, Reject, Accept]"
proof -
  let ?a = "state_a\<lparr>ns_spec := web_only\<rparr>"
  let ?sts = "[?a, state_b]"
  let ?pkt = "\<lambda>v p. \<lparr>p_iif = v, p_src = 1, p_dst = 0x01010101, p_proto = PUdp p\<rparr>"
  have inv: "alloc_inv \<lparr>cidr_network = 0x0a5a0000, cidr_prefix = 16\<rparr> ?sts" by code_simp
  have valid: "list_all valid_state ?sts" by code_simp
  note v = forward_chain_enforces_spec [OF inv _ _ valid, where out = "[]", unfolded Let_def]
  have "egress_permits web_only (?pkt (host_veth state_a) 81)"
    "\<not> egress_permits web_only (?pkt (host_veth state_a) 91)"
    "egress_permits SandboxNetworkSpec_default (?pkt (host_veth state_b) 91)"
    by code_simp+
  then show ?thesis
    using v [of ?a "?pkt (host_veth state_a) 81"] v [of ?a "?pkt (host_veth state_a) 91"]
      v [of state_b "?pkt (host_veth state_b) 91"]
    by (simp add: Let_def sample_state_def)
qed

text \<open>
  A prefix length with a plus sign passes validation and reaches the ruleset as it was written:
  the rule text holds the client's text and not the parsed block, and all sandboxes share the one
  ruleset that is applied as a whole.
\<close>

theorem unnormalised_cidr_reaches_ruleset:
  "validate_spec (SandboxNetworkSpec_default\<lparr>egress := Rules [\<lparr>destination = Cidr ''10.0.0.0/+8'', protocol = Udp, ports = []\<rparr>]\<rparr>)
     = Inr ()
   \<and> write_nft_rule [] ''oadh0'' ''udp'' (Cidr ''10.0.0.0/+8'') [] ''accept''
     = Inr (''    iifname '' @ quoted ''oadh0'' @ '' ip daddr 10.0.0.0/+8 meta l4proto udp accept'' @ nl)"
  by code_simp

end
