(* ===== verification/Envoy.thy ===== *)
theory Envoy
  imports Firewall
begin

text \<open>
  The configuration of the transparent proxy (\<open>render_envoy_config\<close> and its helpers in
  \<open>oad/src/network.rs\<close>) as a JSON value; the text form belongs to the JSON library. A JSON object is
  a map with sorted keys, as \<open>serde_json\<close> keeps it.
\<close>

datatype json = JStr string | JNum "16 word" | JBool bool | JArr "json list" | JObj "(string \<times> json) list"

definition jobj :: "(string \<times> json) list \<Rightarrow> json" where
  "jobj kvs = JObj (foldl (\<lambda>m (k, v). bt_insert k v m) [] kvs)"

text \<open>\<open>value[key] = v\<close> on an object; on anything else it panics, which does not occur below.\<close>

fun jset :: "string \<Rightarrow> json \<Rightarrow> json \<Rightarrow> json" where
  "jset k v (JObj m) = JObj (bt_insert k v m)"
| "jset k v j = j"

definition listener_inspector :: "string \<Rightarrow> string \<Rightarrow> json" where
  "listener_inspector name message = jobj
     [(''name'', JStr (''envoy.filters.listener.'' @ name)),
      (''typed_config'', jobj [(''@type'',
         JStr (''type.googleapis.com/envoy.extensions.filters.listener.'' @ name @ ''.v3.'' @ message))])]"

definition grpc_access_log :: "string \<Rightarrow> string \<Rightarrow> string \<Rightarrow> json" where
  "grpc_access_log logger_name type_url log_name = JArr [jobj
     [(''name'', JStr logger_name),
      (''typed_config'', jobj
         [(''@type'', JStr type_url),
          (''common_config'', jobj
             [(''log_name'', JStr log_name),
              (''grpc_service'', jobj
                 [(''envoy_grpc'', jobj [(''cluster_name'', JStr ''oad_accesslog'')]),
                  (''timeout'', JStr ''5s'')])])])]]"

definition accesslog_cluster :: "string \<Rightarrow> json" where
  "accesslog_cluster socket_path = jobj
     [(''name'', JStr ''oad_accesslog''),
      (''type'', JStr ''STATIC''),
      (''connect_timeout'', JStr ''1s''),
      (''lb_policy'', JStr ''ROUND_ROBIN''),
      (''typed_extension_protocol_options'', jobj
         [(''envoy.extensions.upstreams.http.v3.HttpProtocolOptions'', jobj
             [(''@type'', JStr ''type.googleapis.com/envoy.extensions.upstreams.http.v3.HttpProtocolOptions''),
              (''explicit_http_config'', jobj [(''http2_protocol_options'', jobj [])])])]),
      (''load_assignment'', jobj
         [(''cluster_name'', JStr ''oad_accesslog''),
          (''endpoints'', JArr [jobj
             [(''lb_endpoints'', JArr [jobj
                [(''endpoint'', jobj [(''address'', jobj [(''pipe'', jobj [(''path'', JStr socket_path)])])])]])]])])]"

definition envoy_http_filter_chain :: "json \<Rightarrow> json" where
  "envoy_http_filter_chain access_log =
     (let hcm = jobj
        [(''@type'', JStr ''type.googleapis.com/envoy.extensions.filters.network.http_connection_manager.v3.HttpConnectionManager''),
         (''stat_prefix'', JStr ''oad_http''),
         (''codec_type'', JStr ''AUTO''),
         (''stream_idle_timeout'', JStr ''0s''),
         (''upgrade_configs'', JArr [jobj [(''upgrade_type'', JStr ''websocket'')], jobj [(''upgrade_type'', JStr ''CONNECT'')]]),
         (''route_config'', jobj
            [(''name'', JStr ''oad_http_routes''),
             (''virtual_hosts'', JArr [jobj
                [(''name'', JStr ''all''),
                 (''domains'', JArr [JStr ''*'']),
                 (''routes'', JArr [jobj
                    [(''match'', jobj [(''prefix'', JStr ''/'')]),
                     (''route'', jobj [(''cluster'', JStr ''original_dst''), (''timeout'', JStr ''0s'')])]])]])]),
         (''http_filters'', JArr [jobj
            [(''name'', JStr ''envoy.filters.http.router''),
             (''typed_config'', jobj [(''@type'', JStr ''type.googleapis.com/envoy.extensions.filters.http.router.v3.Router'')])]])];
          hcm = jset ''access_log'' access_log hcm in
      jobj
        [(''filter_chain_match'', jobj
            [(''transport_protocol'', JStr ''raw_buffer''),
             (''application_protocols'', JArr [JStr ''http/1.1'', JStr ''h2c''])]),
         (''filters'', JArr [jobj
            [(''name'', JStr ''envoy.filters.network.http_connection_manager''),
             (''typed_config'', hcm)]])])"

definition original_dst_cluster :: json where
  "original_dst_cluster = jobj
     [(''name'', JStr ''original_dst''), (''type'', JStr ''ORIGINAL_DST''),
      (''connect_timeout'', JStr ''5s''), (''lb_policy'', JStr ''CLUSTER_PROVIDED'')]"

definition render_envoy_config ::
  "(string \<Rightarrow> (string \<times> 16 word) option) \<Rightarrow> NetworkRuntimeConfig \<Rightarrow> bool \<Rightarrow> OadPaths \<Rightarrow> (NetworkError, json) result" where
  "render_envoy_config v6 cfg audit_enabled ps = (case parse_socket_addr v6 (envoy_listener cfg) of
       Inl e \<Rightarrow> Inl e
     | Inr (ip, port) \<Rightarrow>
    (let listener_filters = [jobj
           [(''name'', JStr ''envoy.filters.listener.original_dst''),
            (''typed_config'', jobj
               [(''@type'', JStr ''type.googleapis.com/envoy.extensions.filters.listener.original_dst.v3.OriginalDst'')])]];
         tcp_proxy = jobj
           [(''@type'', JStr ''type.googleapis.com/envoy.extensions.filters.network.tcp_proxy.v3.TcpProxy''),
            (''stat_prefix'', JStr ''oad_tcp''), (''cluster'', JStr ''original_dst'')];
         clusters = [original_dst_cluster];
         listener = jobj
           [(''name'', JStr ''oad_transparent_tcp''),
            (''address'', jobj [(''socket_address'', jobj [(''address'', JStr ip), (''port_value'', JNum port)])])];
         filter_chains = [];
         (listener, listener_filters, filter_chains, tcp_proxy, clusters) =
           (if audit_enabled then
              (jset ''listener_filters_timeout'' (JStr ''1s'')
                 (jset ''continue_on_listener_filters_timeout'' (JBool True) listener),
               listener_filters @ [listener_inspector ''tls_inspector'' ''TlsInspector'',
                 listener_inspector ''http_inspector'' ''HttpInspector''],
               filter_chains @ [envoy_http_filter_chain (grpc_access_log ''envoy.access_loggers.http_grpc''
                 ''type.googleapis.com/envoy.extensions.access_loggers.grpc.v3.HttpGrpcAccessLogConfig'' ''oad_http'')],
               jset ''access_log'' (grpc_access_log ''envoy.access_loggers.tcp_grpc''
                 ''type.googleapis.com/envoy.extensions.access_loggers.grpc.v3.TcpGrpcAccessLogConfig'' ''oad_tcp'') tcp_proxy,
               clusters @ [accesslog_cluster (display (envoy_access_log_socket ps))])
            else (listener, listener_filters, filter_chains, tcp_proxy, clusters));
         filter_chains = filter_chains @ [jobj
           [(''filters'', JArr [jobj
              [(''name'', JStr ''envoy.filters.network.tcp_proxy''), (''typed_config'', tcp_proxy)]])]];
         listener = jset ''filter_chains'' (JArr filter_chains)
           (jset ''listener_filters'' (JArr listener_filters) listener) in
     Inr (jobj
       [(''static_resources'', jobj [(''listeners'', JArr [listener]), (''clusters'', JArr clusters)])])))"

section \<open>References\<close>

fun jget :: "string \<Rightarrow> json \<Rightarrow> json option" where
  "jget k (JObj m) = bt_get m k"
| "jget k _ = None"

fun jitems :: "json option \<Rightarrow> json list" where
  "jitems (Some (JArr xs)) = xs"
| "jitems _ = []"

fun jstr :: "json option \<Rightarrow> string list" where
  "jstr (Some (JStr s)) = [s]"
| "jstr _ = []"

text \<open>The names of the clusters a configuration defines and those it refers to.\<close>

definition cluster_defs :: "json \<Rightarrow> string list" where
  "cluster_defs j = concat (map (\<lambda>c. jstr (jget ''name'' c))
     (jitems (Option.bind (jget ''static_resources'' j) (jget ''clusters''))))"

fun cluster_refs :: "json \<Rightarrow> string list" where
  "cluster_refs (JArr xs) = concat (map cluster_refs xs)"
| "cluster_refs (JObj m) = concat (map (\<lambda>e.
     (if fst e = ''cluster'' \<or> fst e = ''cluster_name'' then jstr (Some (snd e)) else []) @ cluster_refs (snd e)) m)"
| "cluster_refs _ = []"

section \<open>Properties\<close>

text \<open>
  The proxy configuration is closed: with and without auditing, and for every listener address and
  socket path, every cluster that a route, a filter or an access logger refers to is defined, and no
  access-log cluster is defined unless auditing is on.
\<close>

theorem envoy_clusters_closed:
  assumes "render_envoy_config v6 cfg audit ps = Inr j"
  shows "set (cluster_refs j) \<subseteq> set (cluster_defs j)
    \<and> (''oad_accesslog'' \<in> set (cluster_defs j) \<longleftrightarrow> audit)"
  using assms
  by (cases audit)
    (auto simp: render_envoy_config_def Let_def cluster_defs_def jobj_def envoy_http_filter_chain_def
      original_dst_cluster_def accesslog_cluster_def grpc_access_log_def listener_inspector_def
      split: sum.splits)

theorem envoy_clusters_closed_witness:
  "\<exists>j. render_envoy_config (\<lambda>_. None) (NetworkRuntimeConfig_default\<lparr>envoy_listener := ''0.0.0.0:81''\<rparr>) True
       (OadPaths_new [''/'']) = Inr j
     \<and> ''oad_accesslog'' \<in> set (cluster_defs j) \<and> set (cluster_refs j) \<subseteq> set (cluster_defs j)"
proof -
  let ?run = "render_envoy_config (\<lambda>_. None) (NetworkRuntimeConfig_default\<lparr>envoy_listener := ''0.0.0.0:81''\<rparr>) True
       (OadPaths_new [''/''])"
  have "is_ok ?run" by code_simp
  then obtain j where "?run = Inr j" by (cases ?run) auto
  then show ?thesis using envoy_clusters_closed by blast
qed

end
