(* ===== verification/Net_Manager.thy ===== *)
theory Net_Manager
  imports Envoy Checkpoints
begin

text \<open>
  The network manager of \<open>oad/src/network.rs\<close>: the state files of the sandboxes, the commands that
  create and configure namespaces, interfaces, queueing disciplines and firewall rules, and the
  operations \<open>reconcile_sandbox\<close>, \<open>reconcile_all\<close> and \<open>delete_sandbox\<close> over them. The programs \<open>ip\<close>,
  \<open>tc\<close>, \<open>nft\<close>, \<open>iptables\<close> and \<open>envoy\<close> are external; the state records what was run and which rulesets
  \<open>nft\<close> accepted. The manager's mutex serialises these operations, so each is one computation.
\<close>

section \<open>State\<close>

text \<open>
  \<open>envoy_exited t\<close>: asking the proxy process for its state at interaction \<open>t\<close> does not say that it is
  running. \<open>text_body\<close> is a file with the given text, \<open>json_body\<close> the text of a JSON value.
\<close>

record 'b net_ext = "'b run_ext" +
  enc_net :: "SandboxNetworkState \<Rightarrow> (string, 'b) result"
  dec_net :: "'b \<Rightarrow> (string, SandboxNetworkState) result"
  socket_v6 :: "string \<Rightarrow> (string \<times> 16 word) option"
  envoy_exited :: "nat \<Rightarrow> bool"
  json_body :: "json \<Rightarrow> (string, 'b) result"
  text_body :: "string \<Rightarrow> 'b"

text \<open>
  The proxy child, whether the DNS proxy was started, the index from addresses to sandboxes, and the
  rulesets accepted so far, the latest first.
\<close>

record 'b net_world = "'b run_world" +
  ip_map :: "(32 word, SandboxId) btree_map"
  dns_started :: bool
  envoy_child :: bool
  applied :: "string list"

record NetworkManager =
  nm_config :: NetworkRuntimeConfig
  audit_enabled :: bool

definition net_io :: "io_error \<Rightarrow> NetworkError" where
  "net_io e = NetIo (show_io_error e)"

definition NetworkManager_new ::
  "(string \<Rightarrow> (string \<times> 16 word) option) \<Rightarrow> NetworkRuntimeConfig \<Rightarrow> bool \<Rightarrow> (NetworkError, NetworkManager) result" where
  "NetworkManager_new v6 cfg audit =
     (if nc_enabled cfg then
        (case parse_ipv4_cidr (sandbox_cidr cfg) of
           Inl e \<Rightarrow> Inl e
         | Inr _ \<Rightarrow> (case parse_socket_addr v6 (envoy_listener cfg) of
           Inl e \<Rightarrow> Inl e
         | Inr _ \<Rightarrow> (case parse_socket_addr v6 (dns_listener cfg) of
           Inl e \<Rightarrow> Inl e
         | Inr _ \<Rightarrow> (case parse_socket_addr v6 (dns_upstream cfg) of
           Inl e \<Rightarrow> Inl e
         | Inr _ \<Rightarrow> Inr \<lparr>nm_config = cfg, audit_enabled = audit\<rparr>))))
      else Inr \<lparr>nm_config = cfg, audit_enabled = audit\<rparr>)"

section \<open>Running programs\<close>

definition IP :: string where "IP = ''ip''"
definition IPTABLES :: string where "IPTABLES = ''iptables''"
definition IPTABLES_NFT :: string where "IPTABLES_NFT = ''iptables-nft''"
definition NFT :: string where "NFT = ''nft''"
definition TC :: string where "TC = ''tc''"
definition ENVOY :: string where "ENVOY = ''envoy''"

definition net_run ::
  "('b, 'x) run_ext_scheme \<Rightarrow> string \<Rightarrow> string list \<Rightarrow> (('b, 'z) run_world_scheme, NetworkError, unit) comp" where
  "net_run ex program args =
     andThen (map_err NetIo (spawn_cmd ex program args)) (\<lambda>out.
     if status_success out then ok ()
     else err (NetCommand program args (show_status (co_status out)) (utf8_lossy ex (co_stdout out))
            (utf8_lossy ex (co_stderr out))))"

definition run_with_stdin ::
  "('b, 'x) run_ext_scheme \<Rightarrow> string \<Rightarrow> string list \<Rightarrow> string \<Rightarrow> (('b, 'z) net_world_scheme, NetworkError, unit) comp" where
  "run_with_stdin ex program args stdin =
     andThen (map_err NetIo (spawn_cmd ex program args)) (\<lambda>out.
     andThen (map_err net_io (flush ex)) (\<lambda>_.
     if status_success out then modify (\<lambda>w. w\<lparr>applied := stdin # applied w\<rparr>)
     else err (NetCommand program args (show_status (co_status out)) (utf8_lossy ex (co_stdout out))
            (utf8_lossy ex (co_stderr out)))))"

definition command_succeeds ::
  "('b, 'x) run_ext_scheme \<Rightarrow> string \<Rightarrow> string list \<Rightarrow> (('b, 'z) run_world_scheme, 'e, bool) comp" where
  "command_succeeds ex program args =
     try_case (spawn_cmd ex program args) (\<lambda>_. ok False) (\<lambda>out. ok (status_success out))"

definition iptables_program ::
  "('b, 'x) run_ext_scheme \<Rightarrow> (('b, 'z) run_world_scheme, 'e, string option) comp" where
  "iptables_program ex =
     andThen (command_succeeds ex IPTABLES_NFT [''--version'']) (\<lambda>nft.
     if nft then ok (Some IPTABLES_NFT)
     else andThen (command_succeeds ex IPTABLES [''--version'']) (\<lambda>legacy.
       if legacy then ok (Some IPTABLES) else ok None))"

section \<open>State files\<close>

definition read_state ::
  "('b, 'x) net_ext_scheme \<Rightarrow> OadPaths \<Rightarrow> SandboxId
   \<Rightarrow> (('b, 'z) world_scheme, NetworkError, SandboxNetworkState option) comp" where
  "read_state ex ps i =
     try_case (read_file ex (sandbox_network_state ps i))
       (\<lambda>e. if e = NotFound then ok None else err (net_io e))
       (\<lambda>body. case dec_net ex body of Inl m \<Rightarrow> err (NetJson m) | Inr st \<Rightarrow> ok (Some st))"

fun read_states_loop ::
  "('b, 'x) net_ext_scheme \<Rightarrow> path \<Rightarrow> string list \<Rightarrow> SandboxNetworkState list
   \<Rightarrow> (('b, 'z) world_scheme, NetworkError, SandboxNetworkState list) comp" where
  "read_states_loop ex dir [] out = andThen (map_err net_io (next_entry ex)) (\<lambda>_. ok out)"
| "read_states_loop ex dir (n # ns) out =
     andThen (map_err net_io (next_entry ex)) (\<lambda>_.
     try_case (read_file ex (join (join dir n) ''network.json''))
       (\<lambda>e. if e = NotFound then read_states_loop ex dir ns out else err (net_io e))
       (\<lambda>body. case dec_net ex body of
          Inl m \<Rightarrow> err (NetJson m)
        | Inr st \<Rightarrow> read_states_loop ex dir ns (out @ [st])))"

definition read_states ::
  "('b, 'x) net_ext_scheme \<Rightarrow> OadPaths \<Rightarrow> (('b, 'z) world_scheme, NetworkError, SandboxNetworkState list) comp" where
  "read_states ex ps =
     try_case (read_dir ex (sandboxes_dir ps))
       (\<lambda>_. ok [])
       (\<lambda>names. read_states_loop ex (sandboxes_dir ps) names [])"

definition write_state ::
  "('b, 'x) net_ext_scheme \<Rightarrow> OadPaths \<Rightarrow> SandboxNetworkState \<Rightarrow> (('b, 'z) world_scheme, NetworkError, unit) comp" where
  "write_state ex ps st =
     map_err net_io (write_json_atomic ex (enc_net ex) (sandbox_network_state ps (ns_sandbox_id st)) st)"

definition write_resolv_conf ::
  "('b, 'x) net_ext_scheme \<Rightarrow> OadPaths \<Rightarrow> SandboxNetworkState \<Rightarrow> (('b, 'z) world_scheme, NetworkError, unit) comp" where
  "write_resolv_conf ex ps st =
     map_err net_io (write_atomic_file ex (sandbox_resolv_conf ps (ns_sandbox_id st))
       (text_body ex (''nameserver '' @ show_ipv4 (host_ip st) @ nl @ ''options edns0 trust-ad'' @ nl)))"

definition nm_allocate_state ::
  "('b, 'x) net_ext_scheme \<Rightarrow> NetworkManager \<Rightarrow> OadPaths \<Rightarrow> SandboxId \<Rightarrow> SandboxNetworkSpec
   \<Rightarrow> (('b, 'z) world_scheme, NetworkError, SandboxNetworkState) comp" where
  "nm_allocate_state ex nm ps i spec =
     andThen (lift_result (parse_ipv4_cidr (sandbox_cidr (nm_config nm)))) (\<lambda>cidr.
     andThen (lift_result (block_count_30 cidr)) (\<lambda>_.
     andThen (read_states ex ps) (\<lambda>existing.
     lift_result (allocate_state (nm_config nm) existing i spec))))"

section \<open>Namespaces and interfaces\<close>

definition ensure_netns ::
  "('b, 'x) run_ext_scheme \<Rightarrow> SandboxNetworkState \<Rightarrow> (('b, 'z) run_world_scheme, NetworkError, unit) comp" where
  "ensure_netns ex st =
     andThen (map_err net_io (create_dir_all ex (path_of NETNS_DIR))) (\<lambda>_.
     andThen (map_err net_io (try_exists ex (netns_path st))) (\<lambda>found.
     if \<not> found then net_run ex IP [''netns'', ''add'', netns_name st] else ok ()))"

definition ensure_veth ::
  "('b, 'x) run_ext_scheme \<Rightarrow> SandboxNetworkState \<Rightarrow> (('b, 'z) run_world_scheme, NetworkError, unit) comp" where
  "ensure_veth ex st =
     andThen (command_succeeds ex IP [''link'', ''show'', host_veth st]) (\<lambda>found.
     if \<not> found then
       let peer = peer_veth (ns_token st) in
       andThen (net_run ex IP [''link'', ''add'', host_veth st, ''type'', ''veth'', ''peer'', ''name'', peer]) (\<lambda>_.
       net_run ex IP [''link'', ''set'', peer, ''netns'', netns_name st])
     else ok ())"

definition show_addr :: "32 word \<Rightarrow> nat \<Rightarrow> string" where
  "show_addr a n = show_ipv4 a @ ''/'' @ show_nat n"

definition configure_host_interface ::
  "('b, 'x) run_ext_scheme \<Rightarrow> SandboxNetworkState \<Rightarrow> (('b, 'z) run_world_scheme, NetworkError, unit) comp" where
  "configure_host_interface ex st =
     andThen (net_run ex IP [''addr'', ''replace'', show_addr (host_ip st) (prefix_len st), ''dev'', host_veth st]) (\<lambda>_.
     net_run ex IP [''link'', ''set'', host_veth st, ''up''])"

definition configure_sandbox_interface ::
  "('b, 'x) run_ext_scheme \<Rightarrow> SandboxNetworkState \<Rightarrow> (('b, 'z) run_world_scheme, NetworkError, unit) comp" where
  "configure_sandbox_interface ex st =
     (let n = netns_name st in
      andThen (command_succeeds ex IP [''-n'', n, ''link'', ''show'', ''eth0'']) (\<lambda>found.
      andThen (if \<not> found then
          net_run ex IP [''-n'', n, ''link'', ''set'', peer_veth (ns_token st), ''name'', ''eth0'']
        else ok ()) (\<lambda>_.
      andThen (net_run ex IP [''-n'', n, ''link'', ''set'', ''lo'', ''up'']) (\<lambda>_.
      andThen (net_run ex IP [''-n'', n, ''addr'', ''replace'', show_addr (sandbox_ip st) (prefix_len st), ''dev'', ''eth0'']) (\<lambda>_.
      andThen (net_run ex IP [''-n'', n, ''link'', ''set'', ''eth0'', ''up'']) (\<lambda>_.
      net_run ex IP [''-n'', n, ''route'', ''replace'', ''default'', ''via'', show_ipv4 (host_ip st), ''dev'', ''eth0'']))))))"

definition ensure_namespace ::
  "('b, 'x) net_ext_scheme \<Rightarrow> SandboxNetworkState \<Rightarrow> (('b, 'z) run_world_scheme, NetworkError, unit) comp" where
  "ensure_namespace ex st =
     andThen (ensure_netns ex st) (\<lambda>_.
     andThen (ensure_veth ex st) (\<lambda>_.
     andThen (configure_host_interface ex st) (\<lambda>_.
     andThen (configure_sandbox_interface ex st) (\<lambda>_.
     ignore (write_all ex (path_of ''/proc/sys/net/ipv4/ip_forward'') (text_body ex (''1'' @ nl)))))))"

section \<open>Traffic shaping\<close>

definition DEFAULT_SHAPING_BURST_BYTES :: "64 word" where "DEFAULT_SHAPING_BURST_BYTES = 262144"
definition DEFAULT_SHAPING_LATENCY_MS :: "32 word" where "DEFAULT_SHAPING_LATENCY_MS = 50"

definition tbf_args :: "64 word \<Rightarrow> TrafficShapingPolicy \<Rightarrow> string list" where
  "tbf_args rate policy =
     [''root'', ''tbf'', ''rate'', show_nat (unat rate) @ ''bit'', ''burst'',
      show_nat (unat (case burst_bytes policy of Some b \<Rightarrow> b | None \<Rightarrow> DEFAULT_SHAPING_BURST_BYTES)) @ ''b'', ''latency'',
      show_nat (unat (case latency_ms policy of Some l \<Rightarrow> l | None \<Rightarrow> DEFAULT_SHAPING_LATENCY_MS)) @ ''ms'']"

definition apply_qdisc_sandbox ::
  "('b, 'x) run_ext_scheme \<Rightarrow> SandboxNetworkState \<Rightarrow> TrafficShapingPolicy \<Rightarrow> (('b, 'z) run_world_scheme, NetworkError, unit) comp" where
  "apply_qdisc_sandbox ex st policy = (case upload_bps policy of
       None \<Rightarrow> ok ()
     | Some rate \<Rightarrow> net_run ex IP ([''netns'', ''exec'', netns_name st, TC, ''qdisc'', ''replace'', ''dev'', ''eth0'']
         @ tbf_args rate policy))"

definition apply_qdisc_host ::
  "('b, 'x) run_ext_scheme \<Rightarrow> SandboxNetworkState \<Rightarrow> TrafficShapingPolicy \<Rightarrow> (('b, 'z) run_world_scheme, NetworkError, unit) comp" where
  "apply_qdisc_host ex st policy = (case download_bps policy of
       None \<Rightarrow> ok ()
     | Some rate \<Rightarrow> net_run ex TC ([''qdisc'', ''replace'', ''dev'', host_veth st] @ tbf_args rate policy))"

definition delete_qdisc_sandbox ::
  "('b, 'x) run_ext_scheme \<Rightarrow> SandboxNetworkState \<Rightarrow> (('b, 'z) run_world_scheme, NetworkError, unit) comp" where
  "delete_qdisc_sandbox ex st =
     net_run ex IP [''netns'', ''exec'', netns_name st, TC, ''qdisc'', ''del'', ''dev'', ''eth0'', ''root'']"

definition delete_qdisc_host ::
  "('b, 'x) run_ext_scheme \<Rightarrow> SandboxNetworkState \<Rightarrow> (('b, 'z) run_world_scheme, NetworkError, unit) comp" where
  "delete_qdisc_host ex st = net_run ex TC [''qdisc'', ''del'', ''dev'', host_veth st, ''root'']"

definition apply_shaping ::
  "('b, 'x) run_ext_scheme \<Rightarrow> SandboxNetworkState \<Rightarrow> (('b, 'z) run_world_scheme, NetworkError, unit) comp" where
  "apply_shaping ex st =
     (let policy = shaping (ns_spec st) in
      andThen (if upload_bps policy \<noteq> None then apply_qdisc_sandbox ex st policy
               else ignore (delete_qdisc_sandbox ex st)) (\<lambda>_.
      if download_bps policy \<noteq> None then apply_qdisc_host ex st policy
      else ignore (delete_qdisc_host ex st)))"

section \<open>Firewall\<close>

definition apply_nft_states ::
  "('b, 'x) net_ext_scheme \<Rightarrow> NetworkManager \<Rightarrow> SandboxNetworkState list \<Rightarrow> (('b, 'z) net_world_scheme, NetworkError, unit) comp" where
  "apply_nft_states ex nm states =
     andThen (lift_result (render_nft_ruleset (socket_v6 ex) (nm_config nm) states)) (\<lambda>ruleset.
     run_with_stdin ex NFT [''-f'', ''-''] ruleset)"

definition apply_nft_ruleset ::
  "('b, 'x) net_ext_scheme \<Rightarrow> NetworkManager \<Rightarrow> OadPaths \<Rightarrow> (('b, 'z) net_world_scheme, NetworkError, unit) comp" where
  "apply_nft_ruleset ex nm ps = andThen (read_states ex ps) (\<lambda>states. apply_nft_states ex nm states)"

definition ensure_host_firewall_rules ::
  "('b, 'x) net_ext_scheme \<Rightarrow> NetworkManager \<Rightarrow> SandboxNetworkState \<Rightarrow> (('b, 'z) run_world_scheme, NetworkError, unit) comp" where
  "ensure_host_firewall_rules ex nm st =
     andThen (iptables_program ex) (\<lambda>found. case found of
       None \<Rightarrow> ok ()
     | Some program \<Rightarrow>
         andThen (lift_result (host_firewall_rules (socket_v6 ex) (nm_config nm) st)) (\<lambda>rules.
         for_each rules (\<lambda>rule.
           andThen (command_succeeds ex program (invocation rule ''-C'' [])) (\<lambda>present.
           if present then ok () else net_run ex program (invocation rule ''-I'' [''1''])))))"

definition delete_host_firewall_rules ::
  "('b, 'x) net_ext_scheme \<Rightarrow> NetworkManager \<Rightarrow> SandboxNetworkState \<Rightarrow> (('b, 'z) run_world_scheme, NetworkError, unit) comp" where
  "delete_host_firewall_rules ex nm st =
     andThen (iptables_program ex) (\<lambda>found. case found of
       None \<Rightarrow> ok ()
     | Some program \<Rightarrow>
         andThen (lift_result (host_firewall_rules (socket_v6 ex) (nm_config nm) st)) (\<lambda>rules.
         for_each rules (\<lambda>rule. ignore (net_run ex program (invocation rule ''-D'' [])))))"

section \<open>Services\<close>

definition bind_socket :: "('b, 'x) ext_scheme \<Rightarrow> (('b, 'z) world_scheme, NetworkError, unit) comp" where
  "bind_socket ex = map_err net_io (syscall ex untouched (\<lambda>d. Inr ((), d)))"

definition ensure_dns_proxy ::
  "('b, 'x) net_ext_scheme \<Rightarrow> NetworkManager \<Rightarrow> (('b, 'z) net_world_scheme, NetworkError, unit) comp" where
  "ensure_dns_proxy ex nm =
     andThen (gets dns_started) (\<lambda>started.
     if started then ok ()
     else andThen (lift_result (parse_socket_addr (socket_v6 ex) (dns_listener (nm_config nm)))) (\<lambda>_.
       andThen (lift_result (parse_socket_addr (socket_v6 ex) (dns_upstream (nm_config nm)))) (\<lambda>_.
       andThen (bind_socket ex) (\<lambda>_.
       andThen (bind_socket ex) (\<lambda>_.
       modify (\<lambda>w. w\<lparr>dns_started := True\<rparr>))))))"

definition ensure_envoy ::
  "('b, 'x) net_ext_scheme \<Rightarrow> NetworkManager \<Rightarrow> OadPaths \<Rightarrow> (('b, 'z) net_world_scheme, NetworkError, unit) comp" where
  "ensure_envoy ex nm ps =
     andThen (gets (\<lambda>w. envoy_child w \<and> \<not> envoy_exited ex (tick w))) (\<lambda>alive.
     if alive then ok ()
     else andThen (map_err net_io (create_dir_all ex (network_dir ps))) (\<lambda>_.
       andThen (lift_result (render_envoy_config (socket_v6 ex) (nm_config nm) (audit_enabled nm) ps)) (\<lambda>config.
       andThen (lift_result (case json_body ex config of Inl m \<Rightarrow> Inl (NetJson m) | Inr b \<Rightarrow> Inr b)) (\<lambda>body.
       andThen (map_err net_io (write_atomic_file ex (envoy_config ps) body)) (\<lambda>_.
       andThen (map_err net_io (open_append ex (envoy_log ps))) (\<lambda>_.
       andThen (map_err net_io (flush ex)) (\<lambda>_.
       andThen (map_err NetIo (spawn_cmd ex ENVOY [''--config-path'', display (envoy_config ps)])) (\<lambda>_.
       modify (\<lambda>w. w\<lparr>envoy_child := True\<rparr>)))))))))"

definition ensure_services ::
  "('b, 'x) net_ext_scheme \<Rightarrow> NetworkManager \<Rightarrow> OadPaths \<Rightarrow> (('b, 'z) net_world_scheme, NetworkError, unit) comp" where
  "ensure_services ex nm ps = andThen (ensure_dns_proxy ex nm) (\<lambda>_. ensure_envoy ex nm ps)"

section \<open>Operations\<close>

definition ip_map_insert :: "32 word \<Rightarrow> SandboxId \<Rightarrow> (('b, 'z) net_world_scheme, 'e, unit) comp" where
  "ip_map_insert a i = modify (\<lambda>w. w\<lparr>ip_map := bt_insert a i (ip_map w)\<rparr>)"

definition ip_map_remove :: "32 word \<Rightarrow> (('b, 'z) net_world_scheme, 'e, unit) comp" where
  "ip_map_remove a = modify (\<lambda>w. w\<lparr>ip_map := bt_remove a (ip_map w)\<rparr>)"

definition ip_map_replace_all :: "(32 word \<times> SandboxId) list \<Rightarrow> (('b, 'z) net_world_scheme, 'e, unit) comp" where
  "ip_map_replace_all entries =
     modify (\<lambda>w. w\<lparr>ip_map := foldl (\<lambda>m (a, i). bt_insert a i m) [] entries\<rparr>)"

definition ip_map_get :: "32 word \<Rightarrow> (('b, 'z) net_world_scheme, 'e, SandboxId option) comp" where
  "ip_map_get a = gets (\<lambda>w. bt_get (ip_map w) a)"

record SandboxNetworkInfo =
  host_gateway_ip :: "32 word"
  info_sandbox_ip :: "32 word"

definition sandbox_info ::
  "('b, 'x) net_ext_scheme \<Rightarrow> NetworkManager \<Rightarrow> OadPaths \<Rightarrow> SandboxId
   \<Rightarrow> (('b, 'z) world_scheme, NetworkError, SandboxNetworkInfo option) comp" where
  "sandbox_info ex nm ps i =
     (if \<not> nc_enabled (nm_config nm) then ok None
      else andThen (read_state ex ps i) (\<lambda>found.
        ok (map_option (\<lambda>st. \<lparr>host_gateway_ip = host_ip st, info_sandbox_ip = sandbox_ip st\<rparr>) found)))"

definition reconcile_sandbox ::
  "('b, 'x) net_ext_scheme \<Rightarrow> NetworkManager \<Rightarrow> OadPaths \<Rightarrow> SandboxId \<Rightarrow> SandboxNetworkSpec
   \<Rightarrow> (('b, 'z) net_world_scheme, NetworkError, path option) comp" where
  "reconcile_sandbox ex nm ps i spec =
     (if \<not> nc_enabled (nm_config nm) then ok None
      else
       andThen (lift_result (validate_spec spec)) (\<lambda>_.
       andThen (ensure_services ex nm ps) (\<lambda>_.
       andThen (read_state ex ps i) (\<lambda>found.
       andThen (case found of
           Some st \<Rightarrow> ok (st\<lparr>ns_spec := spec\<rparr>)
         | None \<Rightarrow> nm_allocate_state ex nm ps i spec) (\<lambda>st0.
       let st = st0\<lparr>ns_spec := spec\<rparr> in
       andThen (write_state ex ps st) (\<lambda>_.
       andThen (ip_map_insert (sandbox_ip st) (ns_sandbox_id st)) (\<lambda>_.
       andThen (write_resolv_conf ex ps st) (\<lambda>_.
       andThen (ensure_namespace ex st) (\<lambda>_.
       andThen (apply_shaping ex st) (\<lambda>_.
       andThen (apply_nft_ruleset ex nm ps) (\<lambda>_.
       andThen (ensure_host_firewall_rules ex nm st) (\<lambda>_.
       ok (Some (netns_path st))))))))))))))"

fun restore_states ::
  "('b, 'x) net_ext_scheme \<Rightarrow> NetworkManager \<Rightarrow> SandboxNetworkState list
   \<Rightarrow> (('b, 'z) net_world_scheme, NetworkError, unit) comp" where
  "restore_states ex nm [] = ok ()"
| "restore_states ex nm (st # sts) =
     andThen (try_case (try_exists ex (netns_path st)) (\<lambda>_. ok False) ok) (\<lambda>found.
     andThen (if found then ignore (apply_shaping ex st) else ok ()) (\<lambda>_.
     andThen (ensure_host_firewall_rules ex nm st) (\<lambda>_.
     restore_states ex nm sts)))"

definition reconcile_all ::
  "('b, 'x) net_ext_scheme \<Rightarrow> NetworkManager \<Rightarrow> OadPaths \<Rightarrow> (('b, 'z) net_world_scheme, NetworkError, unit) comp" where
  "reconcile_all ex nm ps =
     (if \<not> nc_enabled (nm_config nm) then ok ()
      else
       andThen (ensure_services ex nm ps) (\<lambda>_.
       andThen (read_states ex ps) (\<lambda>states.
       andThen (ip_map_replace_all (map (\<lambda>s. (sandbox_ip s, ns_sandbox_id s)) states)) (\<lambda>_.
       andThen (restore_states ex nm states) (\<lambda>_.
       apply_nft_states ex nm states)))))"

definition delete_sandbox_network ::
  "('b, 'x) net_ext_scheme \<Rightarrow> NetworkManager \<Rightarrow> OadPaths \<Rightarrow> SandboxId
   \<Rightarrow> (('b, 'z) net_world_scheme, NetworkError, unit) comp" where
  "delete_sandbox_network ex nm ps i =
     (if \<not> nc_enabled (nm_config nm) then ok ()
      else
       andThen (read_state ex ps i) (\<lambda>found. case found of
         None \<Rightarrow> apply_nft_ruleset ex nm ps
       | Some st \<Rightarrow>
           andThen (ignore (delete_host_firewall_rules ex nm st)) (\<lambda>_.
           andThen (ignore (delete_qdisc_host ex st)) (\<lambda>_.
           andThen (ignore (delete_qdisc_sandbox ex st)) (\<lambda>_.
           andThen (ignore (net_run ex IP [''link'', ''delete'', host_veth st])) (\<lambda>_.
           andThen (ignore (net_run ex IP [''netns'', ''delete'', netns_name st])) (\<lambda>_.
           andThen (ip_map_remove (sandbox_ip st)) (\<lambda>_.
           andThen (try_case (remove_file ex (sandbox_network_state ps i))
               (\<lambda>e. if e = NotFound then ok () else err (net_io e)) ok) (\<lambda>_.
           apply_nft_ruleset ex nm ps)))))))))"

section \<open>Reading the state files\<close>

text \<open>The states that the files of the sandboxes directory hold, in directory order.\<close>

definition decoded_state :: "('b, 'x) net_ext_scheme \<Rightarrow> 'b disk \<Rightarrow> path \<Rightarrow> SandboxNetworkState option" where
  "decoded_state ex d p = (case d_get d p of
       Some (File b) \<Rightarrow> (case dec_net ex b of Inr st \<Rightarrow> Some st | Inl _ \<Rightarrow> None)
     | _ \<Rightarrow> None)"

definition states_on_disk :: "('b, 'x) net_ext_scheme \<Rightarrow> OadPaths \<Rightarrow> 'b disk \<Rightarrow> SandboxNetworkState list" where
  "states_on_disk ex ps d =
     (if is_dir d (sandboxes_dir ps) then
        List.map_filter (\<lambda>n. decoded_state ex d (join (join (sandboxes_dir ps) n) ''network.json''))
          (child_names d (sandboxes_dir ps))
      else [])"

lemma next_entry_run: "no_faults ex \<Longrightarrow> next_entry ex w = (Inr (), w\<lparr>tick := Suc (tick w), disk := disk w\<rparr>)"
  by (simp add: next_entry_def syscall_def Let_def)

lemma read_states_loop_ok:
  assumes "no_faults ex" and "read_states_loop ex dir ns out w = (Inr r, w')"
  shows "r = out @ List.map_filter (\<lambda>n. decoded_state ex (disk w) (join (join dir n) ''network.json'')) ns
    \<and> disk w' = disk w"
  using assms(2)
proof (induction ns arbitrary: out w)
  case Nil
  then show ?case
    using assms(1) by (auto simp: res_simps next_entry_run)
next
  case (Cons n ns)
  let ?p = "join (join dir n) ''network.json''"
  let ?w1 = "w\<lparr>tick := Suc (Suc (tick w))\<rparr>"
  have skip: ?case if "decoded_state ex (disk w) ?p = None" "read_states_loop ex dir ns out ?w1 = (Inr r, w')"
    using Cons.IH [OF that(2)] that(1) by (simp add: List.map_filter_simps)
  have take: ?case if "decoded_state ex (disk w) ?p = Some st" "read_states_loop ex dir ns (out @ [st]) ?w1 = (Inr r, w')"
    for st
    using Cons.IH [OF that(2)] that(1) by (simp add: List.map_filter_simps)
  show ?case
    using Cons.prems assms(1) skip take
    by (auto simp: res_simps next_entry_run read_file_def syscall_def Let_def decoded_state_def
        split: option.splits node.splits sum.splits)
qed

lemma read_states_ok:
  assumes "no_faults ex" and "read_states ex ps w = (Inr r, w')"
  shows "r = states_on_disk ex ps (disk w) \<and> disk w' = disk w"
proof -
  have "read_dir ex (sandboxes_dir ps) w =
      (if is_dir (disk w) (sandboxes_dir ps) then (Inr (child_names (disk w) (sandboxes_dir ps)), w\<lparr>tick := Suc (tick w), disk := disk w\<rparr>)
       else (Inl (if d_get (disk w) (sandboxes_dir ps) = None then NotFound else OtherIo ''Not a directory''), w\<lparr>tick := Suc (tick w)\<rparr>))"
    using assms(1) by (simp add: read_dir_def syscall_def Let_def)
  then show ?thesis
    using assms(2) read_states_loop_ok [OF assms(1), of "sandboxes_dir ps" "child_names (disk w) (sandboxes_dir ps)"
        "[]" "w\<lparr>tick := Suc (tick w), disk := disk w\<rparr>" r w']
    by (auto simp: read_states_def try_case_def states_on_disk_def ok_def split: if_splits)
qed

text \<open>External programs that leave the daemon's files alone (here: all files).\<close>

definition inert_cmds :: "('b, 'x) run_ext_scheme \<Rightarrow> bool" where
  "inert_cmds ex \<longleftrightarrow> (\<forall>t prog args d. cmd_disk ex t prog args d = d)"

lemma spawn_cmd_inert:
  "inert_cmds ex \<Longrightarrow> disk (snd (spawn_cmd ex prog args w)) = disk w"
  by (simp add: spawn_cmd_def Let_def inert_cmds_def split: sum.splits)

lemma spawn_cmd_applied:
  fixes w :: "('b, 'z) net_world_scheme"
  shows "applied (snd (spawn_cmd ex prog args w)) = applied w \<and> ip_map (snd (spawn_cmd ex prog args w)) = ip_map w"
  by (simp add: spawn_cmd_def Let_def split: sum.splits)

lemma touch_net:
  fixes w w' :: "('b, 'z) net_world_scheme"
  assumes "touch S w w'"
  shows "applied w' = applied w" and "ip_map w' = ip_map w"
proof -
  have "world.more w' = world.more w" using assms by (simp add: touch_def)
  then have "applied w' = applied w \<and> ip_map w' = ip_map w" by (cases w, cases w') simp
  then show "applied w' = applied w" and "ip_map w' = ip_map w" by simp_all
qed

lemma touch_read_states_loop [pres_intros]: "keeps (touch S) (read_states_loop ex dir ns out)"
  by (induction ns arbitrary: out) (auto intro!: pres_intros)

lemma touch_read_states [pres_intros]: "keeps (touch S) (read_states ex ps)"
  unfolding read_states_def by (intro pres_intros)

lemma touch_read_state [pres_intros]: "keeps (touch S) (read_state ex ps i)"
  unfolding read_state_def by (intro pres_intros)

lemma run_with_stdin_ok:
  assumes "inert_cmds ex" and "run_with_stdin ex prog args text w = (Inr (), w')"
  shows "applied w' = text # applied w \<and> disk w' = disk w"
proof -
  obtain out w1 w2 where s: "spawn_cmd ex prog args w = (Inr out, w1)"
    and f: "flush ex w1 = (Inr (), w2)" and w': "w' = w2\<lparr>applied := text # applied w2\<rparr>"
    using assms(2) by (auto simp: run_with_stdin_def ok_iffs split: if_splits)
  have t: "touch {} w1 w2"
    by (rule keepsD' [OF touch_readonly(1) f])
  have "applied w2 = applied w" using touch_net(1) [OF t] spawn_cmd_applied [of ex prog args w] s by simp
  moreover have "disk w2 = disk w1"
    using f by (auto simp: flush_def syscall_def Let_def split: option.splits)
  moreover have "disk w1 = disk w" using spawn_cmd_inert [OF assms(1), of prog args w] s by simp
  ultimately show ?thesis using w' by simp
qed

lemma apply_nft_ruleset_ok:
  assumes "no_faults ex" and "inert_cmds ex" and "apply_nft_ruleset ex nm ps w = (Inr (), w')"
  shows "disk w' = disk w \<and> (\<exists>ruleset. applied w' = ruleset # applied w
    \<and> render_nft_ruleset (socket_v6 ex) (nm_config nm) (states_on_disk ex ps (disk w)) = Inr ruleset)"
proof -
  obtain states w1 where r: "read_states ex ps w = (Inr states, w1)"
    and run: "apply_nft_states ex nm states w1 = (Inr (), w')"
    using assms(3) by (auto simp: apply_nft_ruleset_def andThen_ok_iff)
  have w1: "states = states_on_disk ex ps (disk w)" "disk w1 = disk w"
    using read_states_ok [OF assms(1) r] by simp_all
  have "applied w1 = applied w" by (rule touch_net(1) [OF keepsD' [OF touch_read_states r]])
  moreover obtain ruleset where "render_nft_ruleset (socket_v6 ex) (nm_config nm) states = Inr ruleset"
    and "run_with_stdin ex NFT [''-f'', ''-''] ruleset w1 = (Inr (), w')"
    using run by (auto simp: apply_nft_states_def andThen_ok_iff lift_result_def)
  moreover have "applied w' = ruleset # applied w1 \<and> disk w' = disk w1"
    using run_with_stdin_ok [OF assms(2)] calculation(3) by blast
  ultimately show ?thesis using w1 by simp
qed

section \<open>What the operations leave on disk\<close>

text \<open>The disk is unchanged: what holds of every computation that only runs inert programs.\<close>

abbreviation same_disk :: "('b, 'z) world_scheme \<Rightarrow> ('b, 'z) world_scheme \<Rightarrow> bool" where
  "same_disk w w' \<equiv> disk w' = disk w"

interpretation same_disk: transition_rel same_disk
  by unfold_locales auto

lemma keeps_spawn_cmd [pres_intros]: "inert_cmds ex \<Longrightarrow> keeps same_disk (spawn_cmd ex prog args)"
  by (simp add: keeps_def spawn_cmd_inert)

lemma keeps_net_run [pres_intros]: "inert_cmds ex \<Longrightarrow> keeps same_disk (net_run ex prog args)"
  and keeps_command_succeeds [pres_intros]: "inert_cmds ex \<Longrightarrow> keeps same_disk (command_succeeds ex prog args)"
  unfolding net_run_def command_succeeds_def by (intro pres_intros; assumption)+

lemma keeps_iptables_program [pres_intros]: "inert_cmds ex \<Longrightarrow> keeps same_disk (iptables_program ex)"
  unfolding iptables_program_def by (intro pres_intros)

lemma keeps_host_firewall [pres_intros]:
  "inert_cmds ex \<Longrightarrow> keeps same_disk (ensure_host_firewall_rules ex nm st)"
  "inert_cmds ex \<Longrightarrow> keeps same_disk (delete_host_firewall_rules ex nm st)"
  unfolding ensure_host_firewall_rules_def delete_host_firewall_rules_def by (intro pres_intros; assumption)+

lemma keeps_shaping [pres_intros]:
  "inert_cmds ex \<Longrightarrow> keeps same_disk (apply_shaping ex st)"
  "inert_cmds ex \<Longrightarrow> keeps same_disk (delete_qdisc_host ex st)"
  "inert_cmds ex \<Longrightarrow> keeps same_disk (delete_qdisc_sandbox ex st)"
  unfolding apply_shaping_def Let_def apply_qdisc_host_def apply_qdisc_sandbox_def
    delete_qdisc_host_def delete_qdisc_sandbox_def
  by (intro pres_intros; assumption)+

text \<open>The accepted rulesets are unchanged.\<close>

abbreviation same_applied :: "('b, 'z) net_world_scheme \<Rightarrow> ('b, 'z) net_world_scheme \<Rightarrow> bool" where
  "same_applied w w' \<equiv> applied w' = applied w"

interpretation same_applied: transition_rel same_applied
  by unfold_locales auto

lemma applied_spawn_cmd [pres_intros]: "keeps same_applied (spawn_cmd ex prog args)"
  by (simp add: keeps_def spawn_cmd_applied)

lemma applied_net_run [pres_intros]: "keeps same_applied (net_run ex prog args)"
  and applied_command_succeeds [pres_intros]: "keeps same_applied (command_succeeds ex prog args)"
  unfolding net_run_def command_succeeds_def by (intro pres_intros)+

lemma applied_host_firewall [pres_intros]: "keeps same_applied (ensure_host_firewall_rules ex nm st)"
  unfolding ensure_host_firewall_rules_def iptables_program_def by (intro pres_intros)

text \<open>
  A successful \<open>reconcile_sandbox\<close> has applied the firewall of all sandboxes: when no system call
  fails, the ruleset that \<open>nft\<close> accepted last is the rendering of exactly the network states on disk,
  and the specification passed validation.
\<close>

lemma reconcile_applies_states_on_disk:
  assumes "no_faults ex" and "inert_cmds ex" and "nc_enabled (nm_config nm)"
    and "reconcile_sandbox ex nm ps i spec w = (Inr r, w')"
  shows "validate_spec spec = Inr () \<and> r \<noteq> None
    \<and> (\<exists>ruleset older. applied w' = ruleset # older
        \<and> render_nft_ruleset (socket_v6 ex) (nm_config nm) (states_on_disk ex ps (disk w')) = Inr ruleset)"
proof -
  obtain st w1 w2 where valid: "validate_spec spec = Inr ()"
    and nft: "apply_nft_ruleset ex nm ps w1 = (Inr (), w2)"
    and hf: "ensure_host_firewall_rules ex nm st w2 = (Inr (), w')" and r: "r = Some (netns_path st)"
    using assms(3,4) by (auto simp: reconcile_sandbox_def ok_iffs Let_def)
  have "disk w' = disk w2" "applied w' = applied w2"
    by (rule keepsD' [OF keeps_host_firewall(1) [OF assms(2)] hf], rule keepsD' [OF applied_host_firewall hf])
  then show ?thesis
    using apply_nft_ruleset_ok [OF assms(1,2) nft] valid r by auto
qed

section \<open>Properties\<close>

text \<open>The outside world of the examples; files hold a network state or text.\<close>

definition net_sample_ext :: "nat list \<Rightarrow> (SandboxNetworkState + string) net_ext" where
  "net_sample_ext bad = \<lparr>now = (\<lambda>t. int t), pid = 7, uuid = (\<lambda>_. ''u''),
     fault = (\<lambda>t. if List.member bad t then Some ''EMFILE'' else None),
     empty_body = Inr [], torn = (\<lambda>_. Inr []), survives = (\<lambda>_ _. False), made = (\<lambda>_. 0),
     enc_record = (\<lambda>_. Inl []), dec_record = (\<lambda>_. Inl []), enc_manifest = (\<lambda>_. Inl []),
     dec_manifest = (\<lambda>_. Inl []), rfc3339 = (\<lambda>_. None), run_cmd = (\<lambda>_ prog args. if prog = NFT \<or> prog = IP then succeeds args else Inl ''ENOENT''),
     cmd_disk = (\<lambda>_ _ _ d. d), temp_log = (\<lambda>_. Inr [''/'', ''tmp'', ''log'']),
     utf8_lossy = (\<lambda>s. s), json_status = (\<lambda>_. None),
     bytes_of = (\<lambda>b. case b of Inl _ \<Rightarrow> [] | Inr s \<Rightarrow> s),
     enc_net = (\<lambda>st. Inr (Inl st)), dec_net = (\<lambda>b. case b of Inl st \<Rightarrow> Inr st | Inr _ \<Rightarrow> Inl ''EOF''),
     socket_v6 = (\<lambda>_. None), envoy_exited = (\<lambda>_. False), json_body = (\<lambda>_. Inr (Inr ''{}'')), text_body = Inr\<rparr>"

definition sample_manager :: NetworkManager where
  "sample_manager = \<lparr>nm_config = NetworkRuntimeConfig_default\<lparr>envoy_listener := ''0.0.0.0:81'', dns_listener := ''0.0.0.0:82''\<rparr>,
     audit_enabled = False\<rparr>"

text \<open>Sandbox \<open>a\<close>, allocated earlier, with all egress denied.\<close>

definition denied_a :: SandboxNetworkState where
  "denied_a = state_a\<lparr>ns_spec := SandboxNetworkSpec_default\<lparr>egress := DenyAll\<rparr>\<rparr>"

definition one_network :: "(SandboxNetworkState + string) net_world" where
  "one_network = \<lparr>tick = 0, tmp_counter = 0, disk =
      [([''/''], Dir), ([''/'', ''sandboxes''], Dir), ([''/'', ''sandboxes'', ''a''], Dir),
       ([''/'', ''sandboxes'', ''a'', ''network.json''], File (Inl denied_a))],
     records = [], locks = [], lock_seq = 0, cmds = [], ip_map = [], dns_started = True, envoy_child = True, applied = []\<rparr>"

text \<open>
  The firewall follows the state files: when no system call fails and \<open>apply_nft_ruleset\<close> (the last
  step of creating, reconciling and deleting a sandbox network) succeeds, the ruleset \<open>nft\<close> has accepted
  is the rendering of exactly the network states on disk, and the files are untouched.
\<close>

theorem apply_nft_ruleset_exact:
  assumes "no_faults ex" and "inert_cmds ex" and "apply_nft_ruleset ex nm ps w = (Inr (), w')"
  shows "disk w' = disk w \<and> (\<exists>ruleset. applied w' = ruleset # applied w
    \<and> render_nft_ruleset (socket_v6 ex) (nm_config nm) (states_on_disk ex ps (disk w')) = Inr ruleset)"
  using apply_nft_ruleset_ok [OF assms] by auto

theorem apply_nft_ruleset_exact_witness:
  "\<exists>ruleset. applied (snd (apply_nft_ruleset (net_sample_ext []) sample_manager root_paths one_network)) = [ruleset]
     \<and> render_nft_ruleset (\<lambda>_. None) (nm_config sample_manager) [denied_a] = Inr ruleset"
proof -
  let ?run = "apply_nft_ruleset (net_sample_ext []) sample_manager root_paths one_network"
  have "fst ?run = Inr ()" by code_simp
  then have run: "?run = (Inr (), snd ?run)" by (cases ?run) simp
  have "no_faults (net_sample_ext [])" "inert_cmds (net_sample_ext [])"
    by (simp_all add: net_sample_ext_def inert_cmds_def)
  note exact = apply_nft_ruleset_exact [OF this run]
  have "states_on_disk (net_sample_ext []) root_paths (disk one_network) = [denied_a]" "applied one_network = []"
    by code_simp+
  with exact show ?thesis by (auto simp: net_sample_ext_def)
qed


end
