(* ===== verification/Background_Exec.thy ===== *)
theory Background_Exec
  imports Runsc
begin

text \<open>
  Background exec sessions (\<open>oad/src/background_exec.rs\<close>) and the event stream that the daemon
  serves from them (\<open>stream_background_exec_events\<close> in \<open>oad/src/main.rs\<close>). A session numbers the
  events of one process, retains the last ones and broadcasts each; reader tasks push output, a
  waiter task ends the session. The tasks interleave between their critical sections, so a session
  with its tasks is a step relation. The handles of the process (its input, its terminal, its
  killer) belong to the operating system; what a call on them does is a parameter.
\<close>

section \<open>Sessions and events\<close>

definition EVENT_BUFFER_CAPACITY :: nat where
  "EVENT_BUFFER_CAPACITY = 4096"

datatype BackgroundExecStatus = ExecRunning | ExecExited | ExecFailed

record BackgroundExecInfo =
  bi_id :: string
  bi_sandbox_id :: string
  bi_container :: string
  bi_command :: "string list"
  bi_pty :: bool
  bi_status :: BackgroundExecStatus
  bi_exit_code :: "int option"
  bi_last_error :: "string option"

datatype BackgroundExecEventKind =
    Stdout string
  | Stderr string
  | Exited int
  | Failed string

record BackgroundExecEvent =
  ev_sequence :: "64 word"
  ev_exec_id :: string
  ev_event :: BackgroundExecEventKind

fun is_terminal :: "BackgroundExecEventKind \<Rightarrow> bool" where
  "is_terminal (Exited _) = True"
| "is_terminal (Failed _) = True"
| "is_terminal _ = False"

fun background_exec_event_name :: "BackgroundExecEventKind \<Rightarrow> string" where
  "background_exec_event_name (Stdout _) = ''stdout''"
| "background_exec_event_name (Stderr _) = ''stderr''"
| "background_exec_event_name (Exited _) = ''exited''"
| "background_exec_event_name (Failed _) = ''failed''"

text \<open>
  \<open>kill_tx\<close> is present until it is used or dropped; the receiving end belongs to the waiter and is
  open, has the message, or is gone.
\<close>

datatype oneshot = RxOpen | RxSent | RxClosed

datatype ('h, 'm, 'k) SessionControl =
    Pipes "'h option" bool
  | Pty "'h option" 'm "'k option" bool

text \<open>
  The broadcast channel is the list of all values sent, of which it can still deliver the last
  \<^const>\<open>EVENT_BUFFER_CAPACITY\<close>; \<open>s_finished\<close> counts the calls of \<open>notify_waiters\<close>.
\<close>

record ('h, 'm, 'k) BackgroundExecSession =
  s_info :: BackgroundExecInfo
  s_control :: "('h, 'm, 'k) SessionControl"
  s_events :: "BackgroundExecEvent list"
  s_next_sequence :: "64 word"
  s_tx :: "BackgroundExecEvent list"
  s_finished :: nat
  s_kill_rx :: oneshot

definition session_new :: "BackgroundExecInfo \<Rightarrow> 'h \<Rightarrow> ('h, 'm, 'k) BackgroundExecSession" where
  "session_new info stdin = \<lparr>s_info = info, s_control = Pipes (Some stdin) True, s_events = [],
     s_next_sequence = 1, s_tx = [], s_finished = 0, s_kill_rx = RxOpen\<rparr>"

definition session_new_pty ::
  "BackgroundExecInfo \<Rightarrow> 'h \<Rightarrow> 'm \<Rightarrow> 'k \<Rightarrow> ('h, 'm, 'k) BackgroundExecSession" where
  "session_new_pty info writer master killer = \<lparr>s_info = info, s_control = Pty (Some writer) master (Some killer) True,
     s_events = [], s_next_sequence = 1, s_tx = [], s_finished = 0, s_kill_rx = RxOpen\<rparr>"

definition events_since :: "('h, 'm, 'k) BackgroundExecSession \<Rightarrow> 64 word \<Rightarrow> BackgroundExecEvent list" where
  "events_since s from_sequence = filter (\<lambda>e. ev_sequence e \<ge> from_sequence) (s_events s)"

definition push_event ::
  "string \<Rightarrow> BackgroundExecEventKind \<Rightarrow> ('h, 'm, 'k) BackgroundExecSession \<Rightarrow> ('h, 'm, 'k) BackgroundExecSession" where
  "push_event exec_id kind s =
     (let ev = \<lparr>ev_sequence = s_next_sequence s, ev_exec_id = exec_id, ev_event = kind\<rparr>;
          evs = (if length (s_events s) = EVENT_BUFFER_CAPACITY then tl (s_events s) else s_events s)
      in s\<lparr>s_next_sequence := s_next_sequence s + 1, s_events := evs @ [ev], s_tx := s_tx s @ [ev]\<rparr>)"

section \<open>Control\<close>

text \<open>What the operating system does with a call on a handle of the process.\<close>

record ('h, 'm, 'k) proc_ext =
  write_all_to :: "'h \<Rightarrow> string \<Rightarrow> (io_error, unit) result \<times> 'h"
  flush_to :: "'h \<Rightarrow> (io_error, unit) result \<times> 'h"
  resize_master :: "'m \<Rightarrow> 16 word \<Rightarrow> 16 word \<Rightarrow> (io_error, unit) result \<times> 'm"
  kill_child :: "'k \<Rightarrow> (io_error, unit) result"

definition write_data ::
  "('h, 'm, 'k) proc_ext \<Rightarrow> string \<Rightarrow> 'h \<Rightarrow> (io_error, unit) result \<times> 'h" where
  "write_data ex data h = (if data = [] then (Inr (), h) else
     (case write_all_to ex h data of (Inl e, h') \<Rightarrow> (Inl e, h') | (Inr _, h') \<Rightarrow> flush_to ex h'))"

text \<open>The new handle is the old one, moved on by the writes, or nothing once it is closed.\<close>

definition write_handle ::
  "('h, 'm, 'k) proc_ext \<Rightarrow> string \<Rightarrow> bool \<Rightarrow> 'h option \<Rightarrow> (io_error, bool) result \<times> 'h option" where
  "write_handle ex data close handle = (case handle of None \<Rightarrow> (Inr False, None)
     | Some h \<Rightarrow> (case write_data ex data h of
         (Inl e, h') \<Rightarrow> (Inl e, Some h')
       | (Inr _, h') \<Rightarrow> (Inr True, if close then None else Some h')))"

definition write_stdin ::
  "('h, 'm, 'k) proc_ext \<Rightarrow> string \<Rightarrow> bool \<Rightarrow> (('h, 'm, 'k) BackgroundExecSession, io_error, bool) comp" where
  "write_stdin ex data close s = (case s_control s of
       Pipes stdin tx \<Rightarrow>
         (case write_handle ex data close stdin of (r, stdin') \<Rightarrow> (r, s\<lparr>s_control := Pipes stdin' tx\<rparr>))
     | Pty writer master killer tx \<Rightarrow>
         (case write_handle ex data close writer of (r, writer') \<Rightarrow>
            (r, s\<lparr>s_control := Pty writer' master killer tx\<rparr>)))"

definition session_resize ::
  "('h, 'm, 'k) proc_ext \<Rightarrow> 16 word \<Rightarrow> 16 word \<Rightarrow> ('h, 'm, 'k) BackgroundExecSession
   \<Rightarrow> bool \<times> ('h, 'm, 'k) BackgroundExecSession" where
  "session_resize ex rows cols s = (case s_control s of
       Pipes stdin tx \<Rightarrow> (False, s)
     | Pty writer master killer tx \<Rightarrow>
         (case resize_master ex master rows cols of (r, master') \<Rightarrow>
            (is_ok r, s\<lparr>s_control := Pty writer master' killer tx\<rparr>)))"

text \<open>\<open>oneshot::Sender::send\<close> succeeds while the receiver is there.\<close>

definition send_kill ::
  "bool \<Rightarrow> ('h, 'm, 'k) BackgroundExecSession \<Rightarrow> bool \<times> ('h, 'm, 'k) BackgroundExecSession" where
  "send_kill tx s = (if tx \<and> s_kill_rx s = RxOpen then (True, s\<lparr>s_kill_rx := RxSent\<rparr>) else (False, s))"

definition session_kill ::
  "('h, 'm, 'k) proc_ext \<Rightarrow> ('h, 'm, 'k) BackgroundExecSession \<Rightarrow> bool \<times> ('h, 'm, 'k) BackgroundExecSession" where
  "session_kill ex s = (case s_control s of
       Pipes stdin tx \<Rightarrow> send_kill tx (s\<lparr>s_control := Pipes None False\<rparr>)
     | Pty writer master killer tx \<Rightarrow>
         (case send_kill tx (s\<lparr>s_control := Pty None master None False\<rparr>) of (killed_waiter, s') \<Rightarrow>
            (killed_waiter \<or> (case killer of None \<Rightarrow> False | Some k \<Rightarrow> is_ok (kill_child ex k)), s')))"

section \<open>The end of a session\<close>

text \<open>The three critical sections of \<open>finish\<close> and its notification, then \<open>finish\<close> itself.\<close>

definition finish_mark ::
  "BackgroundExecStatus \<Rightarrow> int option \<Rightarrow> string option \<Rightarrow> ('h, 'm, 'k) BackgroundExecSession
   \<Rightarrow> ('h, 'm, 'k) BackgroundExecSession option" where
  "finish_mark st code last_err s = (if bi_status (s_info s) \<noteq> ExecRunning then None
     else Some (s\<lparr>s_info := (s_info s)\<lparr>bi_status := st, bi_exit_code := code, bi_last_error := last_err\<rparr>\<rparr>))"

definition finish_release ::
  "('h, 'm, 'k) BackgroundExecSession \<Rightarrow> ('h, 'm, 'k) BackgroundExecSession" where
  "finish_release s = (case s_control s of
       Pipes stdin tx \<Rightarrow> s\<lparr>s_control := Pipes None False\<rparr>
     | Pty writer master killer tx \<Rightarrow> s\<lparr>s_control := Pty None master None False\<rparr>)"

definition notify_waiters ::
  "('h, 'm, 'k) BackgroundExecSession \<Rightarrow> ('h, 'm, 'k) BackgroundExecSession" where
  "notify_waiters s = s\<lparr>s_finished := Suc (s_finished s)\<rparr>"

definition finish ::
  "string \<Rightarrow> BackgroundExecStatus \<Rightarrow> int option \<Rightarrow> string option \<Rightarrow> BackgroundExecEventKind
   \<Rightarrow> ('h, 'm, 'k) BackgroundExecSession \<Rightarrow> ('h, 'm, 'k) BackgroundExecSession" where
  "finish exec_id st code last_err kind s = (case finish_mark st code last_err s of None \<Rightarrow> s
     | Some s' \<Rightarrow> notify_waiters (push_event exec_id kind (finish_release s')))"

definition finish_exited ::
  "string \<Rightarrow> int \<Rightarrow> ('h, 'm, 'k) BackgroundExecSession \<Rightarrow> ('h, 'm, 'k) BackgroundExecSession" where
  "finish_exited exec_id code = finish exec_id ExecExited (Some code) None (Exited code)"

definition finish_failed ::
  "string \<Rightarrow> string \<Rightarrow> ('h, 'm, 'k) BackgroundExecSession \<Rightarrow> ('h, 'm, 'k) BackgroundExecSession" where
  "finish_failed exec_id message = finish exec_id ExecFailed None (Some message) (Failed message)"

text \<open>\<open>finish_child\<close>: the exit code of the process (\<open>-1\<close> when a signal ended it), or the wait error.\<close>

definition finish_child ::
  "string \<Rightarrow> (io_error, int option) result \<Rightarrow> ('h, 'm, 'k) BackgroundExecSession \<Rightarrow> ('h, 'm, 'k) BackgroundExecSession" where
  "finish_child exec_id status = (case status of
       Inr code \<Rightarrow> finish_exited exec_id (case code of Some c \<Rightarrow> c | None \<Rightarrow> - 1)
     | Inl e \<Rightarrow> finish_failed exec_id (''failed to wait for background exec: '' @ show_io_error e))"

section \<open>The tasks of a session\<close>

text \<open>
  A reader is blocked in \<open>read\<close> or holds data it has read and waits for the lock of the events; it
  ends at end of file or on an error. The waiter of a process with pipes waits for the process or the
  kill message, then for the readers (after a kill only for a while, and then it aborts them), then
  finishes the session in four steps.
\<close>

datatype reader = Reading | Holding string | Gone

datatype waiter =
    Watching
  | KillSent
  | Joining "(io_error, int option) result"
  | Draining "(io_error, int option) result"
  | Aborting "(io_error, int option) result"
  | Marking BackgroundExecEventKind
  | Releasing_handles BackgroundExecEventKind
  | Announcing BackgroundExecEventKind
  | Notifying
  | Finished

record ('h, 'm, 'k) exec_state =
  sess :: "('h, 'm, 'k) BackgroundExecSession"
  out_rd :: reader
  err_rd :: reader
  wtr :: waiter

definition exec_id_of :: "('h, 'm, 'k) exec_state \<Rightarrow> string" where
  "exec_id_of x = bi_id (s_info (sess x))"

text \<open>The event a wait result leads to, and the fields it stores (\<open>finish_child\<close>).\<close>

definition child_event :: "(io_error, int option) result \<Rightarrow> BackgroundExecEventKind" where
  "child_event status = (case status of
       Inr code \<Rightarrow> Exited (case code of Some c \<Rightarrow> c | None \<Rightarrow> - 1)
     | Inl e \<Rightarrow> Failed (''failed to wait for background exec: '' @ show_io_error e))"

fun end_status :: "BackgroundExecEventKind \<Rightarrow> BackgroundExecStatus" where
  "end_status (Exited _) = ExecExited"
| "end_status _ = ExecFailed"

fun end_code :: "BackgroundExecEventKind \<Rightarrow> int option" where
  "end_code (Exited c) = Some c"
| "end_code _ = None"

fun end_error :: "BackgroundExecEventKind \<Rightarrow> string option" where
  "end_error (Failed m) = Some m"
| "end_error _ = None"

text \<open>The last part of every waiter: the critical sections of \<open>finish\<close>, one step each.\<close>

inductive finish_step :: "('h, 'm, 'k) exec_state \<Rightarrow> ('h, 'm, 'k) exec_state \<Rightarrow> bool" where
  marked: "wtr x = Marking k \<Longrightarrow> finish_mark (end_status k) (end_code k) (end_error k) (sess x) = Some s
     \<Longrightarrow> finish_step x (x\<lparr>sess := s, wtr := Releasing_handles k\<rparr>)"
| already: "wtr x = Marking k \<Longrightarrow> finish_mark (end_status k) (end_code k) (end_error k) (sess x) = None
     \<Longrightarrow> finish_step x (x\<lparr>wtr := Finished\<rparr>)"
| released: "wtr x = Releasing_handles k
     \<Longrightarrow> finish_step x (x\<lparr>sess := finish_release (sess x), wtr := Announcing k\<rparr>)"
| announced: "wtr x = Announcing k
     \<Longrightarrow> finish_step x (x\<lparr>sess := push_event (exec_id_of x) k (sess x), wtr := Notifying\<rparr>)"
| notified: "wtr x = Notifying
     \<Longrightarrow> finish_step x (x\<lparr>sess := notify_waiters (sess x), wtr := Finished\<rparr>)"

text \<open>\<open>spawn_stream_reader\<close>, once for each stream.\<close>

inductive stream_reader_step :: "('h, 'm, 'k) exec_state \<Rightarrow> ('h, 'm, 'k) exec_state \<Rightarrow> bool" where
  out_read: "out_rd x = Reading \<Longrightarrow> data \<noteq> [] \<Longrightarrow> stream_reader_step x (x\<lparr>out_rd := Holding data\<rparr>)"
| out_push: "out_rd x = Holding data
     \<Longrightarrow> stream_reader_step x (x\<lparr>sess := push_event (exec_id_of x) (Stdout data) (sess x), out_rd := Reading\<rparr>)"
| out_end: "out_rd x = Reading \<Longrightarrow> stream_reader_step x (x\<lparr>out_rd := Gone\<rparr>)"
| err_read: "err_rd x = Reading \<Longrightarrow> data \<noteq> [] \<Longrightarrow> stream_reader_step x (x\<lparr>err_rd := Holding data\<rparr>)"
| err_push: "err_rd x = Holding data
     \<Longrightarrow> stream_reader_step x (x\<lparr>sess := push_event (exec_id_of x) (Stderr data) (sess x), err_rd := Reading\<rparr>)"
| err_end: "err_rd x = Reading \<Longrightarrow> stream_reader_step x (x\<lparr>err_rd := Gone\<rparr>)"

text \<open>\<open>drain_or_abort_stream_readers\<close>: an aborted task ends at its next suspension point.\<close>

inductive drain_step :: "('h, 'm, 'k) exec_state \<Rightarrow> ('h, 'm, 'k) exec_state \<Rightarrow> bool" where
  drained: "wtr x = Draining r \<Longrightarrow> out_rd x = Gone \<Longrightarrow> err_rd x = Gone
     \<Longrightarrow> drain_step x (x\<lparr>wtr := Marking (child_event r)\<rparr>)"
| timed_out: "wtr x = Draining r \<Longrightarrow> drain_step x (x\<lparr>wtr := Aborting r\<rparr>)"
| abort_out: "wtr x = Aborting r \<Longrightarrow> drain_step x (x\<lparr>out_rd := Gone\<rparr>)"
| abort_err: "wtr x = Aborting r \<Longrightarrow> drain_step x (x\<lparr>err_rd := Gone\<rparr>)"
| aborted: "wtr x = Aborting r \<Longrightarrow> out_rd x = Gone \<Longrightarrow> err_rd x = Gone
     \<Longrightarrow> drain_step x (x\<lparr>wtr := Marking (child_event r)\<rparr>)"

text \<open>\<open>spawn_waiter\<close>: when one branch of the \<open>select!\<close> wins, the receiver of the kill message is dropped.\<close>

inductive waiter_step :: "('h, 'm, 'k) exec_state \<Rightarrow> ('h, 'm, 'k) exec_state \<Rightarrow> bool" where
  exited: "wtr x = Watching
     \<Longrightarrow> waiter_step x (x\<lparr>sess := (sess x)\<lparr>s_kill_rx := RxClosed\<rparr>, wtr := Joining r\<rparr>)"
| killed: "wtr x = Watching \<Longrightarrow> s_kill_rx (sess x) = RxSent
     \<Longrightarrow> waiter_step x (x\<lparr>sess := (sess x)\<lparr>s_kill_rx := RxClosed\<rparr>, wtr := KillSent\<rparr>)"
| reaped: "wtr x = KillSent \<Longrightarrow> waiter_step x (x\<lparr>wtr := Draining r\<rparr>)"
| drain: "drain_step x x' \<Longrightarrow> waiter_step x x'"
| joined: "wtr x = Joining r \<Longrightarrow> out_rd x = Gone \<Longrightarrow> err_rd x = Gone
     \<Longrightarrow> waiter_step x (x\<lparr>wtr := Marking (child_event r)\<rparr>)"
| finishing: "finish_step x x' \<Longrightarrow> waiter_step x x'"

text \<open>
  \<open>spawn_pty_reader\<close> and \<open>spawn_pty_waiter\<close> run on blocking threads. Aborting a task that runs on
  such a thread has no effect: the reader goes on.
\<close>

inductive pty_reader_step :: "('h, 'm, 'k) exec_state \<Rightarrow> ('h, 'm, 'k) exec_state \<Rightarrow> bool" where
  pty_read: "out_rd x = Reading \<Longrightarrow> data \<noteq> [] \<Longrightarrow> pty_reader_step x (x\<lparr>out_rd := Holding data\<rparr>)"
| pty_push: "out_rd x = Holding data
     \<Longrightarrow> pty_reader_step x (x\<lparr>sess := push_event (exec_id_of x) (Stdout data) (sess x), out_rd := Reading\<rparr>)"
| pty_end: "out_rd x = Reading \<Longrightarrow> pty_reader_step x (x\<lparr>out_rd := Gone\<rparr>)"

text \<open>The exit code of a terminal process is a \<open>u32\<close>; one that does not fit an \<open>i32\<close> becomes \<open>-1\<close>.\<close>

definition pty_exit_code :: "32 word \<Rightarrow> int" where
  "pty_exit_code c = (if uint c < 2 ^ 31 then uint c else - 1)"

inductive pty_waiter_step :: "('h, 'm, 'k) exec_state \<Rightarrow> ('h, 'm, 'k) exec_state \<Rightarrow> bool" where
  pty_exited: "wtr x = Watching \<or> wtr x = KillSent
     \<Longrightarrow> pty_waiter_step x (x\<lparr>wtr := Draining (Inr (Some (pty_exit_code c)))\<rparr>)"
| pty_failed: "wtr x = Watching \<or> wtr x = KillSent
     \<Longrightarrow> pty_waiter_step x (x\<lparr>sess := (sess x)\<lparr>s_kill_rx := RxClosed\<rparr>,
           wtr := Marking (Failed (''failed to wait for pty background exec: '' @ show_io_error e))\<rparr>)"
| pty_killed: "wtr x = Watching \<Longrightarrow> s_kill_rx (sess x) = RxSent \<Longrightarrow> pty_waiter_step x (x\<lparr>wtr := KillSent\<rparr>)"
| pty_drained: "wtr x = Draining r \<Longrightarrow> pty_waiter_step x (x\<lparr>wtr := Marking (child_event r)\<rparr>)"
| pty_finishing: "finish_step x x' \<Longrightarrow> pty_waiter_step x x'"

text \<open>Requests of clients reach the control and the kill channel of a session at any time.\<close>

inductive client_step ::
  "('h, 'm, 'k) proc_ext \<Rightarrow> ('h, 'm, 'k) exec_state \<Rightarrow> ('h, 'm, 'k) exec_state \<Rightarrow> bool" for ex where
  client_write: "write_stdin ex data close (sess x) = (r, s) \<Longrightarrow> client_step ex x (x\<lparr>sess := s\<rparr>)"
| client_resize: "session_resize ex rows cols (sess x) = (r, s) \<Longrightarrow> client_step ex x (x\<lparr>sess := s\<rparr>)"
| client_kill: "session_kill ex (sess x) = (r, s) \<Longrightarrow> client_step ex x (x\<lparr>sess := s\<rparr>)"

text \<open>The two kinds of session and what they reach from their start.\<close>

definition pipe_step ::
  "('h, 'm, 'k) proc_ext \<Rightarrow> ('h, 'm, 'k) exec_state \<Rightarrow> ('h, 'm, 'k) exec_state \<Rightarrow> bool" where
  "pipe_step ex x x' \<longleftrightarrow> stream_reader_step x x' \<or> waiter_step x x' \<or> client_step ex x x'"

definition pty_step ::
  "('h, 'm, 'k) proc_ext \<Rightarrow> ('h, 'm, 'k) exec_state \<Rightarrow> ('h, 'm, 'k) exec_state \<Rightarrow> bool" where
  "pty_step ex x x' \<longleftrightarrow> pty_reader_step x x' \<or> pty_waiter_step x x' \<or> client_step ex x x'"

definition insert_start :: "BackgroundExecInfo \<Rightarrow> 'h \<Rightarrow> ('h, 'm, 'k) exec_state" where
  "insert_start info stdin = \<lparr>sess = session_new info stdin, out_rd = Reading, err_rd = Reading, wtr = Watching\<rparr>"

definition insert_pty_start :: "BackgroundExecInfo \<Rightarrow> 'h \<Rightarrow> 'm \<Rightarrow> 'k \<Rightarrow> ('h, 'm, 'k) exec_state" where
  "insert_pty_start info writer master killer = \<lparr>sess = session_new_pty info writer master killer,
     out_rd = Reading, err_rd = Gone, wtr = Watching\<rparr>"

section \<open>The log of events\<close>

text \<open>
  The log invariant: the events sent are numbered from one without a gap, and the retained ones are
  the last \<^const>\<open>EVENT_BUFFER_CAPACITY\<close> of them.
\<close>

definition log_ok :: "('h, 'm, 'k) BackgroundExecSession \<Rightarrow> bool" where
  "log_ok s \<longleftrightarrow> (\<forall>i < length (s_tx s). ev_sequence (s_tx s ! i) = of_nat (Suc i)) \<and>
     s_next_sequence s = of_nat (Suc (length (s_tx s))) \<and>
     s_events s = drop (length (s_tx s) - EVENT_BUFFER_CAPACITY) (s_tx s)"

definition log_of ::
  "('h, 'm, 'k) BackgroundExecSession \<Rightarrow> BackgroundExecEvent list \<times> BackgroundExecEvent list \<times> 64 word" where
  "log_of s = (s_tx s, s_events s, s_next_sequence s)"

lemma log_ok_cong: "log_of s' = log_of s \<Longrightarrow> log_ok s' = log_ok s"
  by (auto simp: log_of_def log_ok_def)

text \<open>One step on a log: nothing, or one event more.\<close>

definition logs :: "('h, 'm, 'k) BackgroundExecSession \<Rightarrow> ('h, 'm, 'k) BackgroundExecSession \<Rightarrow> bool" where
  "logs s s' \<longleftrightarrow> log_of s' = log_of s \<or> (\<exists>i k. log_of s' = log_of (push_event i k s))"

lemma logsI: "log_of s' = log_of s \<Longrightarrow> logs s s'" "logs s (push_event i k s)"
  by (auto simp: logs_def)

lemma log_ok_start [simp]: "log_ok (session_new info h)" "log_ok (session_new_pty info h m k)"
  by (simp_all add: log_ok_def session_new_def session_new_pty_def)

lemma s_tx_push [simp]:
  "s_tx (push_event i k s) = s_tx s @ [\<lparr>ev_sequence = s_next_sequence s, ev_exec_id = i, ev_event = k\<rparr>]"
  by (simp add: push_event_def Let_def)

lemma push_event_keeps [simp]:
  "s_info (push_event i k s) = s_info s" "s_control (push_event i k s) = s_control s"
  "s_finished (push_event i k s) = s_finished s" "s_kill_rx (push_event i k s) = s_kill_rx s"
  by (simp_all add: push_event_def Let_def)

lemma EVENT_BUFFER_CAPACITY_pos [simp]: "0 < EVENT_BUFFER_CAPACITY"
  by (simp add: EVENT_BUFFER_CAPACITY_def)

lemma retained_push:
  assumes "es = drop (length xs - EVENT_BUFFER_CAPACITY) xs"
  shows "(if length es = EVENT_BUFFER_CAPACITY then tl es else es) @ [e]
    = drop (length (xs @ [e]) - EVENT_BUFFER_CAPACITY) (xs @ [e])"
proof (cases "EVENT_BUFFER_CAPACITY \<le> length xs")
  case True
  then have "tl es = drop (Suc (length xs - EVENT_BUFFER_CAPACITY)) xs"
    by (simp add: assms drop_Suc tl_drop)
  moreover have "Suc 0 - EVENT_BUFFER_CAPACITY = 0" by (simp add: EVENT_BUFFER_CAPACITY_def)
  ultimately show ?thesis using True by (simp add: assms Suc_diff_le)
qed (simp add: assms)

lemma log_ok_push:
  assumes "log_ok s" shows "log_ok (push_event i k s)"
  using assms retained_push [of "s_events s" "s_tx s"]
  by (auto simp: log_ok_def push_event_def Let_def nth_append less_Suc_eq)

text \<open>Any way of running a session that only pushes events keeps its log.\<close>

locale event_session =
  fixes step :: "('h, 'm, 'k) exec_state \<Rightarrow> ('h, 'm, 'k) exec_state \<Rightarrow> bool"
    and start :: "('h, 'm, 'k) exec_state"
  assumes start_log: "log_ok (sess start)"
    and step_log: "step x x' \<Longrightarrow> logs (sess x) (sess x')"
begin

lemma reachable_log_ok: "step\<^sup>*\<^sup>* start x \<Longrightarrow> log_ok (sess x)"
proof (induction rule: rtranclp_induct)
  case base
  show ?case by (rule start_log)
next
  case (step y z)
  from step_log [OF step.hyps(2)] show ?case
    unfolding logs_def using step.IH log_ok_cong log_ok_push by metis
qed

text \<open>Events already sent never change: later states extend the log.\<close>

lemma log_grows: "step\<^sup>*\<^sup>* x y \<Longrightarrow> prefix (s_tx (sess x)) (s_tx (sess y))"
proof (induction rule: rtranclp_induct)
  case (step y z)
  have "prefix (s_tx (sess y)) (s_tx (sess z))"
    using step_log [OF step.hyps(2)] by (auto simp: logs_def log_of_def)
  with step.IH show ?case by (rule prefix_order.order_trans)
qed simp

end

lemmas control_defs = write_stdin_def session_resize_def session_kill_def send_kill_def

lemma write_stdin_log: "write_stdin ex data close s = (r, s') \<Longrightarrow> log_of s' = log_of s \<and> s_info s' = s_info s \<and> s_finished s' = s_finished s"
  by (auto simp: write_stdin_def log_of_def split: SessionControl.splits prod.splits)

lemma session_resize_log: "session_resize ex rw cl s = (r, s') \<Longrightarrow> log_of s' = log_of s \<and> s_info s' = s_info s \<and> s_finished s' = s_finished s"
  by (auto simp: session_resize_def log_of_def split: SessionControl.splits prod.splits)

lemma session_kill_log: "session_kill ex s = (r, s') \<Longrightarrow> log_of s' = log_of s \<and> s_info s' = s_info s \<and> s_finished s' = s_finished s"
  by (auto simp: session_kill_def send_kill_def log_of_def split: SessionControl.splits if_splits prod.splits)

lemma client_step_keeps:
  assumes "client_step ex x x'"
  shows "log_of (sess x') = log_of (sess x) \<and> s_info (sess x') = s_info (sess x)
    \<and> s_finished (sess x') = s_finished (sess x) \<and> out_rd x' = out_rd x \<and> err_rd x' = err_rd x \<and> wtr x' = wtr x"
  using assms by cases (auto dest: write_stdin_log session_resize_log session_kill_log)

lemma finish_mark_SomeD:
  "finish_mark st c e s = Some s' \<Longrightarrow> log_of s' = log_of s \<and> s_finished s' = s_finished s
     \<and> bi_status (s_info s) = ExecRunning \<and> bi_status (s_info s') = st \<and> bi_id (s_info s') = bi_id (s_info s)"
  by (auto simp: finish_mark_def log_of_def split: if_splits)

lemma finish_release_keeps [simp]:
  "log_of (finish_release s) = log_of s" "s_info (finish_release s) = s_info s"
  "s_finished (finish_release s) = s_finished s" "s_tx (finish_release s) = s_tx s"
  by (auto simp: finish_release_def log_of_def split: SessionControl.splits)

lemma log_of_updates [simp]:
  "log_of (notify_waiters s) = log_of s" "log_of (s\<lparr>s_kill_rx := rx\<rparr>) = log_of s"
  by (simp_all add: log_of_def notify_waiters_def)

lemma finish_step_log:
  "finish_step x x' \<Longrightarrow> logs (sess x) (sess x')"
  by (cases rule: finish_step.cases)
    (auto dest!: finish_mark_SomeD intro: logsI)

lemma pipe_step_log:
  assumes "pipe_step ex x x'"
  shows "logs (sess x) (sess x')"
proof -
  have "stream_reader_step x x' \<Longrightarrow> ?thesis" by (cases rule: stream_reader_step.cases) (auto intro: logsI)
  moreover have "drain_step x x' \<Longrightarrow> ?thesis" by (cases rule: drain_step.cases) (auto intro: logsI)
  moreover have "waiter_step x x' \<Longrightarrow> drain_step x x' \<or> ?thesis"
    by (cases rule: waiter_step.cases) (auto dest: finish_step_log intro: logsI)
  ultimately show ?thesis
    using assms client_step_keeps [of ex x x'] by (auto simp: pipe_step_def intro: logsI)
qed

lemma pty_step_log:
  assumes "pty_step ex x x'"
  shows "logs (sess x) (sess x')"
proof -
  have "pty_reader_step x x' \<Longrightarrow> ?thesis" by (cases rule: pty_reader_step.cases) (auto intro: logsI)
  moreover have "pty_waiter_step x x' \<Longrightarrow> ?thesis"
    by (cases rule: pty_waiter_step.cases) (auto dest: finish_step_log intro: logsI)
  ultimately show ?thesis
    using assms client_step_keeps [of ex x x'] by (auto simp: pty_step_def intro: logsI)
qed

interpretation pipes: event_session "pipe_step ex" "insert_start info h" for ex info h
  by unfold_locales (auto simp: insert_start_def intro: pipe_step_log)

interpretation ptys: event_session "pty_step ex" "insert_pty_start info h m k" for ex info h m k
  by unfold_locales (auto simp: insert_pty_start_def intro: pty_step_log)

section \<open>Sessions with pipes end with their terminal event\<close>

abbreviation status_of :: "('h, 'm, 'k) exec_state \<Rightarrow> BackgroundExecStatus" where
  "status_of x \<equiv> bi_status (s_info (sess x))"

definition no_terminal :: "BackgroundExecEvent list \<Rightarrow> bool" where
  "no_terminal es \<longleftrightarrow> list_all (\<lambda>e. \<not> is_terminal (ev_event e)) es"

definition ended :: "BackgroundExecEvent list \<Rightarrow> bool" where
  "ended es \<longleftrightarrow> es \<noteq> [] \<and> no_terminal (butlast es) \<and> is_terminal (ev_event (last es))"

lemma no_terminal_simps [simp]:
  "no_terminal []" "no_terminal (es @ fs) \<longleftrightarrow> no_terminal es \<and> no_terminal fs"
  "no_terminal (e # es) \<longleftrightarrow> \<not> is_terminal (ev_event e) \<and> no_terminal es"
  by (auto simp: no_terminal_def)

lemma ended_snoc [simp]: "ended (es @ [e]) \<longleftrightarrow> no_terminal es \<and> is_terminal (ev_event e)"
  by (simp add: ended_def)

text \<open>What holds at each point of the waiter.\<close>

fun at_point :: "waiter \<Rightarrow> ('h, 'm, 'k) exec_state \<Rightarrow> bool" where
  "at_point (Marking k) x \<longleftrightarrow> out_rd x = Gone \<and> err_rd x = Gone \<and> is_terminal k
     \<and> status_of x = ExecRunning \<and> no_terminal (s_tx (sess x)) \<and> s_finished (sess x) = 0"
| "at_point (Releasing_handles k) x \<longleftrightarrow> out_rd x = Gone \<and> err_rd x = Gone \<and> is_terminal k
     \<and> status_of x = end_status k \<and> no_terminal (s_tx (sess x)) \<and> s_finished (sess x) = 0"
| "at_point (Announcing k) x \<longleftrightarrow> out_rd x = Gone \<and> err_rd x = Gone \<and> is_terminal k
     \<and> status_of x = end_status k \<and> no_terminal (s_tx (sess x)) \<and> s_finished (sess x) = 0"
| "at_point Notifying x \<longleftrightarrow> out_rd x = Gone \<and> err_rd x = Gone \<and> ended (s_tx (sess x))
     \<and> status_of x = end_status (ev_event (last (s_tx (sess x)))) \<and> s_finished (sess x) = 0"
| "at_point Finished x \<longleftrightarrow> out_rd x = Gone \<and> err_rd x = Gone \<and> ended (s_tx (sess x))
     \<and> status_of x = end_status (ev_event (last (s_tx (sess x)))) \<and> s_finished (sess x) = 1"
| "at_point _ x \<longleftrightarrow> status_of x = ExecRunning \<and> no_terminal (s_tx (sess x)) \<and> s_finished (sess x) = 0"

abbreviation pipe_inv :: "('h, 'm, 'k) exec_state \<Rightarrow> bool" where
  "pipe_inv x \<equiv> at_point (wtr x) x"

lemma end_status_not_running [simp]: "end_status k \<noteq> ExecRunning"
  by (cases k) simp_all

lemma running_not_end [simp]: "ExecRunning \<noteq> end_status k"
  using end_status_not_running [of k] by metis

lemma child_event_terminal [simp]: "is_terminal (child_event r)"
  by (simp add: child_event_def split: sum.split)

lemma at_point_client:
  assumes "client_step ex x x'" "at_point w x" shows "at_point w x'"
  using client_step_keeps [OF assms(1)] assms(2) by (cases w) (auto simp: log_of_def)

lemma at_point_reader:
  assumes "stream_reader_step x x'" "pipe_inv x" shows "pipe_inv x'"
  using assms by (cases rule: stream_reader_step.cases; cases "wtr x") auto

lemma at_point_drain:
  assumes "drain_step x x'" "pipe_inv x" shows "pipe_inv x'"
  using assms by (cases rule: drain_step.cases) auto

lemma at_point_finish:
  assumes "finish_step x x'" "pipe_inv x" shows "pipe_inv x'"
  using assms
  by (cases rule: finish_step.cases)
    (auto dest!: finish_mark_SomeD simp: log_of_def notify_waiters_def finish_mark_def)

lemma pipe_inv_step:
  assumes "pipe_step ex x x'" "pipe_inv x" shows "pipe_inv x'"
proof -
  note inv = assms(2)
  have "waiter_step x x' \<Longrightarrow> ?thesis"
    by (cases rule: waiter_step.cases) (use inv in \<open>auto intro: at_point_drain at_point_finish\<close>)
  then show ?thesis
    using assms at_point_reader at_point_client [of ex x x'] client_step_keeps [of ex x x']
    by (auto simp: pipe_step_def)
qed

lemma pipe_inv_reachable:
  assumes "bi_status info = ExecRunning" and "(pipe_step ex)\<^sup>*\<^sup>* (insert_start info h) x"
  shows "pipe_inv x"
  using assms(2)
proof (induction rule: rtranclp_induct)
  case base
  show ?case using assms(1) by (simp add: insert_start_def session_new_def)
qed (rule pipe_inv_step)

lemma ended_terminal_last: "ended es \<Longrightarrow> i < length es \<Longrightarrow> is_terminal (ev_event (es ! i)) \<Longrightarrow> Suc i = length es"
  by (cases es rule: rev_cases) (auto simp: no_terminal_def nth_append list_all_length split: if_splits)

lemma no_terminal_nth: "no_terminal es \<Longrightarrow> i < length es \<Longrightarrow> \<not> is_terminal (ev_event (es ! i))"
  by (simp add: no_terminal_def list_all_length)

section \<open>Waiting for the end\<close>

text \<open>
  \<open>wait_finished\<close>: the future of the notification is created before the status is checked, and a
  future receives every \<open>notify_waiters\<close> call after its creation.
\<close>

datatype observer = Enrolling | Checking nat | Parked nat | Returned

inductive wait_finished_step :: "('h, 'm, 'k) BackgroundExecSession \<Rightarrow> observer \<Rightarrow> observer \<Rightarrow> bool" for s where
  enroll: "wait_finished_step s Enrolling (Checking (s_finished s))"
| seen: "bi_status (s_info s) \<noteq> ExecRunning \<Longrightarrow> wait_finished_step s (Checking n) Returned"
| park: "bi_status (s_info s) = ExecRunning \<Longrightarrow> wait_finished_step s (Checking n) (Parked n)"
| wake: "n < s_finished s \<Longrightarrow> wait_finished_step s (Parked n) Enrolling"

inductive observed_step ::
  "('h, 'm, 'k) proc_ext \<Rightarrow> ('h, 'm, 'k) exec_state \<times> observer \<Rightarrow> ('h, 'm, 'k) exec_state \<times> observer \<Rightarrow> bool"
  for ex where
  session_moves: "pipe_step ex x x' \<Longrightarrow> observed_step ex (x, ob) (x', ob)"
| observer_moves: "wait_finished_step (sess x) ob ob' \<Longrightarrow> observed_step ex (x, ob) (x, ob')"

lemma s_finished_running: "pipe_inv x \<Longrightarrow> status_of x = ExecRunning \<Longrightarrow> s_finished (sess x) = 0"
  by (cases "wtr x") auto

lemma s_finished_mono:
  assumes "pipe_step ex x x'" "pipe_inv x" shows "s_finished (sess x) \<le> s_finished (sess x')"
proof (cases "wtr x = Finished")
  case True
  then show ?thesis using assms client_step_keeps [of ex x x']
    by (auto simp: pipe_step_def elim!: stream_reader_step.cases waiter_step.cases drain_step.cases finish_step.cases)
next
  case False
  then show ?thesis using assms(2) by (cases "wtr x") auto
qed

lemma observed_inv:
  assumes "bi_status info = ExecRunning" and "(observed_step ex)\<^sup>*\<^sup>* (insert_start info h, Enrolling) p"
  shows "pipe_inv (fst p) \<and> (case snd p of Checking n \<Rightarrow> n \<le> s_finished (sess (fst p)) | Parked n \<Rightarrow> n = 0 | _ \<Rightarrow> True)"
  using assms(2)
proof (induction rule: rtranclp_induct)
  case base
  show ?case using assms(1) by (simp add: insert_start_def session_new_def)
next
  case (step y z)
  from step.hyps(2) show ?case
  proof cases
    case (session_moves x x' ob)
    then show ?thesis using step.IH pipe_inv_step s_finished_mono [of ex x x']
      by (auto split: observer.splits intro: order_trans)
  next
    case (observer_moves x ob ob')
    from observer_moves(3) show ?thesis
      using step.IH observer_moves(1,2) s_finished_running [of x] by cases auto
  qed
qed

section \<open>The event stream\<close>

text \<open>
  A receiver of the broadcast channel is a position in the values sent. \<open>recv\<close> delivers the value
  there, reports a lag when it is no longer held (and moves to the oldest one that is), or waits.
\<close>

datatype recv_result = Received BackgroundExecEvent | Lagged | NoEvent

definition subscribe :: "('h, 'm, 'k) BackgroundExecSession \<Rightarrow> nat" where
  "subscribe s = length (s_tx s)"

definition recv :: "BackgroundExecEvent list \<Rightarrow> nat \<Rightarrow> recv_result \<times> nat" where
  "recv sent pos = (if length sent \<le> pos then (NoEvent, pos)
     else if EVENT_BUFFER_CAPACITY < length sent - pos then (Lagged, length sent - EVENT_BUFFER_CAPACITY)
     else (Received (sent ! pos), Suc pos))"

definition sat_succ :: "64 word \<Rightarrow> 64 word" where
  "sat_succ w = (if w = - 1 then w else w + 1)"

record stream_state =
  st_rx :: nat
  st_next :: "64 word"
  st_pending :: "BackgroundExecEvent list"
  st_done :: bool

datatype stream_result = Yield BackgroundExecEvent stream_state | Waits stream_state | Ends

text \<open>
  One poll of the live stream: its loop runs until it yields an event, ends, or has to wait in
  \<open>recv\<close>, from where the next poll goes on with the same state.
\<close>

definition deliver :: "BackgroundExecEvent \<Rightarrow> stream_state \<Rightarrow> stream_result" where
  "deliver e st = Yield e (st\<lparr>st_next := sat_succ (ev_sequence e), st_done := is_terminal (ev_event e)\<rparr>)"

function live_next :: "('h, 'm, 'k) BackgroundExecSession \<Rightarrow> stream_state \<Rightarrow> stream_result" where
  "live_next s st = (if st_done st then Ends else
     (case st_pending st of
        e # es \<Rightarrow> (if ev_sequence e < st_next st then live_next s (st\<lparr>st_pending := es\<rparr>)
                  else deliver e (st\<lparr>st_pending := es\<rparr>))
      | [] \<Rightarrow> (case recv (s_tx s) (st_rx st) of
          (NoEvent, rx) \<Rightarrow> Waits st
        | (Received e, rx) \<Rightarrow> (if ev_sequence e < st_next st then live_next s (st\<lparr>st_rx := rx\<rparr>)
                             else deliver e (st\<lparr>st_rx := rx\<rparr>))
        | (Lagged, rx) \<Rightarrow> live_next s (st\<lparr>st_rx := rx, st_pending := events_since s (st_next st)\<rparr>))))"
  by pat_completeness auto

termination
  by (relation "measures [\<lambda>(s, st). length (s_tx s) - st_rx st, \<lambda>(s, st). length (st_pending st)]")
    (auto simp: recv_def split: if_splits)

declare live_next.simps [simp del]

text \<open>
  Opening a stream: subscribe, then replay the retained events; events may arrive in between. When the
  replay ends with a terminal event the live part is empty.
\<close>

definition open_stream ::
  "('h, 'm, 'k) BackgroundExecSession \<Rightarrow> ('h, 'm, 'k) BackgroundExecSession \<Rightarrow> 64 word option
   \<Rightarrow> BackgroundExecEvent list \<times> stream_state" where
  "open_stream s0 s query_from =
     (let from = (case query_from of Some f \<Rightarrow> f | None \<Rightarrow> 1);
          receiver = subscribe s0;
          replay = events_since s from;
          replay_terminal = (replay \<noteq> [] \<and> is_terminal (ev_event (last replay)));
          next_live = (if replay = [] then from else sat_succ (ev_sequence (last replay)))
      in (replay, \<lparr>st_rx = receiver, st_next = next_live, st_pending = [], st_done = replay_terminal\<rparr>))"

text \<open>A run of a session and its stream: events are pushed and the client polls, in any order.\<close>

datatype stream_action = Push BackgroundExecEventKind | Poll

fun run_stream ::
  "string \<Rightarrow> stream_action list \<Rightarrow> ('h, 'm, 'k) BackgroundExecSession \<Rightarrow> stream_state \<Rightarrow> BackgroundExecEvent list" where
  "run_stream i [] s st = []"
| "run_stream i (Push k # as) s st = run_stream i as (push_event i k s) st"
| "run_stream i (Poll # as) s st = (case live_next s st of
       Yield e st' \<Rightarrow> e # run_stream i as s st'
     | Waits st' \<Rightarrow> run_stream i as s st'
     | Ends \<Rightarrow> run_stream i as s st)"

fun after_pushes ::
  "string \<Rightarrow> stream_action list \<Rightarrow> ('h, 'm, 'k) BackgroundExecSession \<Rightarrow> ('h, 'm, 'k) BackgroundExecSession" where
  "after_pushes i [] s = s"
| "after_pushes i (Push k # as) s = after_pushes i as (push_event i k s)"
| "after_pushes i (Poll # as) s = after_pushes i as s"

text \<open>The index of the first event that the stream has not delivered.\<close>

abbreviation next_index :: "stream_state \<Rightarrow> nat" where
  "next_index st \<equiv> unat (st_next st) - 1"

definition small :: "('h, 'm, 'k) BackgroundExecSession \<Rightarrow> bool" where
  "small s \<longleftrightarrow> Suc (length (s_tx s)) < 2 ^ 64"

text \<open>
  The stream invariant: the pending events are a segment of the log that starts at the next index, or
  later when the events before it were evicted; the receiver has not gone past what is pending.
\<close>

definition stream_inv :: "('h, 'm, 'k) BackgroundExecSession \<Rightarrow> stream_state \<Rightarrow> bool" where
  "stream_inv s st \<longleftrightarrow> st_rx st \<le> length (s_tx s) \<and>
     (if st_pending st = [] then st_rx st \<le> next_index st
      else (\<exists>a b. st_pending st = drop a (take b (s_tx s)) \<and> a < b \<and> b \<le> length (s_tx s)
              \<and> next_index st \<le> a \<and> st_rx st \<le> b
              \<and> (a \<noteq> next_index st \<longrightarrow> next_index st < length (s_tx s) - EVENT_BUFFER_CAPACITY)))"

lemma seq_nth:
  assumes "log_ok s" "small s" "i < length (s_tx s)"
  shows "unat (ev_sequence (s_tx s ! i)) = Suc i" and "unat (sat_succ (ev_sequence (s_tx s ! i))) = Suc (Suc i)"
proof -
  have e: "ev_sequence (s_tx s ! i) = of_nat (Suc i)" using assms(1,3) by (simp add: log_ok_def)
  have u: "unat (of_nat n :: 64 word) = n" if "n \<le> Suc (Suc i)" for n
    using assms(2,3) that by (simp add: small_def unat_of_nat)
  have "Suc i < 2 ^ 64 - 1" using assms(2,3) by (simp add: small_def)
  moreover have "unat (- 1 :: 64 word) = 2 ^ 64 - 1" by (simp add: unsigned_minus_1_eq_mask mask_eq_exp_minus_1)
  ultimately have "ev_sequence (s_tx s ! i) \<noteq> - 1" using e u [of "Suc i"]
    by (metis le_SucI less_irrefl order_refl)
  then have s: "sat_succ (ev_sequence (s_tx s ! i)) = of_nat (Suc (Suc i))"
    by (simp add: sat_succ_def e)
  show "unat (ev_sequence (s_tx s ! i)) = Suc i" unfolding e by (rule u) simp
  show "unat (sat_succ (ev_sequence (s_tx s ! i))) = Suc (Suc i)" unfolding s by (rule u) simp
qed

lemma filter_suffix: "(\<And>i. i < length xs \<Longrightarrow> P (xs ! i) \<longleftrightarrow> m \<le> i) \<Longrightarrow> filter P xs = drop m xs"
proof (induction xs arbitrary: m)
  case (Cons x xs)
  have "P (xs ! i) \<longleftrightarrow> m - 1 \<le> i" if "i < length xs" for i
    using Cons.prems [of "Suc i"] that by auto
  then have "filter P xs = drop (m - 1) xs" by (rule Cons.IH)
  then show ?case using Cons.prems [of 0] by (cases m) auto
qed simp

lemma events_since_drop:
  assumes "log_ok s" "small s"
  shows "events_since s f = drop (max (length (s_tx s) - EVENT_BUFFER_CAPACITY) (unat f - 1)) (s_tx s)"
proof -
  let ?d = "length (s_tx s) - EVENT_BUFFER_CAPACITY"
  have "filter (\<lambda>e. f \<le> ev_sequence e) (drop ?d (s_tx s)) = drop (unat f - 1 - ?d) (drop ?d (s_tx s))"
    by (rule filter_suffix) (use seq_nth(1) [OF assms] in \<open>auto simp: word_le_nat_alt\<close>)
  also have "\<dots> = drop (max ?d (unat f - 1)) (s_tx s)"
    unfolding drop_drop by (rule arg_cong [where f = "\<lambda>n. drop n (s_tx s)"]) simp
  finally show ?thesis using assms(1) by (simp add: events_since_def log_ok_def)
qed

lemma stream_inv_segment:
  assumes "st_pending st = drop a (take b (s_tx s))" "a < b" "b \<le> length (s_tx s)" "next_index st \<le> a" "st_rx st \<le> b"
    and "a \<noteq> next_index st \<longrightarrow> next_index st < length (s_tx s) - EVENT_BUFFER_CAPACITY"
  shows "stream_inv s st"
proof -
  have "st_pending st \<noteq> []" using assms(1-3) by simp
  moreover have "st_rx st \<le> length (s_tx s)" using assms(3,5) by simp
  ultimately show ?thesis unfolding stream_inv_def using assms by (simp only: if_False) blast
qed

text \<open>What one poll owes its client: the next event, or one after a gap of evicted events.\<close>

definition polled :: "('h, 'm, 'k) BackgroundExecSession \<Rightarrow> stream_state \<Rightarrow> stream_result \<Rightarrow> bool" where
  "polled s st r \<longleftrightarrow> (case r of
       Yield e st' \<Rightarrow> (\<exists>k. e = s_tx s ! k \<and> next_index st \<le> k \<and> k < length (s_tx s)
         \<and> (k \<noteq> next_index st \<longrightarrow> next_index st < length (s_tx s) - EVENT_BUFFER_CAPACITY)
         \<and> stream_inv s st' \<and> next_index st' = Suc k \<and> st_done st' = is_terminal (ev_event e))
     | Waits st' \<Rightarrow> length (s_tx s) \<le> next_index st \<and> stream_inv s st' \<and> st_next st' = st_next st \<and> \<not> st_done st'
     | Ends \<Rightarrow> False)"

lemma polled_deliver:
  assumes "log_ok s" "small s" "k < length (s_tx s)" "next_index st \<le> k"
    and "k \<noteq> next_index st \<longrightarrow> next_index st < length (s_tx s) - EVENT_BUFFER_CAPACITY"
    and "\<And>w d. unat w = Suc (Suc k) \<Longrightarrow> stream_inv s (st'\<lparr>st_next := w, st_done := d\<rparr>)"
  shows "polled s st (deliver (s_tx s ! k) st')"
  using assms seq_nth(2) [OF assms(1-3)] by (auto simp: polled_def deliver_def)

lemma live_next_pending:
  assumes "log_ok s" "small s" "stream_inv s st" "\<not> st_done st" "st_pending st = e # es"
  shows "polled s st (live_next s st)"
proof -
  from assms(3,5) obtain a b where ab: "st_pending st = drop a (take b (s_tx s))" "a < b" "b \<le> length (s_tx s)"
    "next_index st \<le> a" "st_rx st \<le> b"
    "a \<noteq> next_index st \<longrightarrow> next_index st < length (s_tx s) - EVENT_BUFFER_CAPACITY"
    and rx: "st_rx st \<le> length (s_tx s)"
    by (auto simp: stream_inv_def)
  have "drop a (take b (s_tx s)) = s_tx s ! a # drop (Suc a) (take b (s_tx s))"
    using ab(2,3) by (simp add: Cons_nth_drop_Suc [symmetric])
  with ab(1) assms(5) have e: "e = s_tx s ! a" and es: "es = drop (Suc a) (take b (s_tx s))"
    by simp_all
  have "\<not> ev_sequence e < st_next st"
    using seq_nth(1) [OF assms(1,2), of a] ab(2-4) by (simp add: e word_less_nat_alt)
  then have "live_next s st = deliver (s_tx s ! a) (st\<lparr>st_pending := es\<rparr>)"
    using assms(4,5) e by (simp add: live_next.simps)
  moreover have "stream_inv s (st\<lparr>st_pending := es, st_next := w, st_done := d\<rparr>)" if "unat w = Suc (Suc a)" for w d
  proof (cases "es = []")
    case True
    with es ab(2,3) have "b = Suc a" by simp
    with True that ab(5) rx show ?thesis by (simp add: stream_inv_def)
  next
    case False
    moreover from False es have "Suc a < b" by auto
    ultimately show ?thesis using that es ab(3,5) rx by (auto simp: stream_inv_def)
  qed
  ultimately show ?thesis
    using polled_deliver [OF assms(1,2) _ ab(4,6), of "st\<lparr>st_pending := es\<rparr>"] ab(2,3) by simp
qed

lemma polled_mono:
  "st_next st1 = st_next st \<Longrightarrow> polled s st1 r \<Longrightarrow> polled s st r"
  by (simp add: polled_def split: stream_result.splits)

lemma live_next_polled:
  assumes "log_ok s" "small s" "stream_inv s st" "\<not> st_done st"
  shows "polled s st (live_next s st)"
  using assms
proof (induction s st rule: live_next.induct)
  case (1 s st)
  show ?case
  proof (cases "st_pending st")
    case Nil
    with "1.prems"(3) have rx: "st_rx st \<le> length (s_tx s)" "st_rx st \<le> next_index st"
      by (auto simp: stream_inv_def)
    consider (empty) "length (s_tx s) \<le> st_rx st"
      | (lag) "EVENT_BUFFER_CAPACITY < length (s_tx s) - st_rx st"
      | (got) "st_rx st < length (s_tx s)" "\<not> EVENT_BUFFER_CAPACITY < length (s_tx s) - st_rx st"
      by linarith
    then show ?thesis
    proof cases
      case empty
      then have "live_next s st = Waits st"
        using Nil "1.prems"(4) by (simp add: live_next.simps recv_def)
      then show ?thesis using empty rx "1.prems"(3,4) by (simp add: polled_def)
    next
      case lag
      let ?rx = "length (s_tx s) - EVENT_BUFFER_CAPACITY"
      let ?st = "st\<lparr>st_rx := ?rx, st_pending := events_since s (st_next st)\<rparr>"
      have r: "recv (s_tx s) (st_rx st) = (Lagged, ?rx)" using lag by (simp add: recv_def)
      then have "live_next s st = live_next s ?st"
        using Nil "1.prems"(4) live_next.simps [of s st] by simp
      moreover have "stream_inv s ?st"
      proof (cases "next_index st < length (s_tx s)")
        case True
        define m where "m = max ?rx (next_index st)"
        have m: "m < length (s_tx s)" "next_index st \<le> m" "m \<noteq> next_index st \<longrightarrow> next_index st < ?rx"
          using True lag by (auto simp: m_def max_def EVENT_BUFFER_CAPACITY_def)
        have ev: "events_since s (st_next st) = drop m (s_tx s)"
          unfolding m_def by (rule events_since_drop [OF "1.prems"(1,2)])
        show ?thesis
          by (rule stream_inv_segment [of _ m "length (s_tx s)"]) (use m in \<open>simp_all add: ev\<close>)
      next
        case False
        then show ?thesis by (simp add: stream_inv_def events_since_drop [OF "1.prems"(1,2)])
      qed
      ultimately show ?thesis
        using "1.IH"(2) [OF "1.prems"(4) Nil r [symmetric] refl "1.prems"(1,2)] "1.prems"(4) polled_mono [of ?st st]
        by simp
    next
      case got
      let ?e = "s_tx s ! st_rx st"
      have r: "recv (s_tx s) (st_rx st) = (Received ?e, Suc (st_rx st))" using got by (simp add: recv_def)
      have seq: "unat (ev_sequence ?e) = Suc (st_rx st)" using seq_nth(1) [OF "1.prems"(1,2)] got(1) .
      show ?thesis
      proof (cases "ev_sequence ?e < st_next st")
        case True
        then have "Suc (st_rx st) \<le> next_index st" using seq by (simp add: word_less_nat_alt)
        then have "stream_inv s (st\<lparr>st_rx := Suc (st_rx st)\<rparr>)" using Nil got(1) by (simp add: stream_inv_def)
        moreover have "live_next s st = live_next s (st\<lparr>st_rx := Suc (st_rx st)\<rparr>)"
          using Nil "1.prems"(4) live_next.simps [of s st] r True by simp
        ultimately show ?thesis
          using "1.IH"(1) [OF "1.prems"(4) Nil r [symmetric] refl True "1.prems"(1,2)] "1.prems"(4)
            polled_mono [of "st\<lparr>st_rx := Suc (st_rx st)\<rparr>" st] by simp
      next
        case False
        then have n: "next_index st = st_rx st" using seq rx by (simp add: word_less_nat_alt)
        have "live_next s st = deliver ?e (st\<lparr>st_rx := Suc (st_rx st)\<rparr>)"
          using Nil "1.prems"(4) live_next.simps [of s st] r False by simp
        moreover have "polled s st (deliver ?e (st\<lparr>st_rx := Suc (st_rx st)\<rparr>))"
          using n got(1) Nil by (intro polled_deliver [OF "1.prems"(1,2)]) (simp_all add: stream_inv_def)
        ultimately show ?thesis by simp
      qed
    qed
  qed (rule live_next_pending [OF "1.prems"])
qed

lemma stream_inv_grow:
  assumes "stream_inv s st" "prefix (s_tx s) (s_tx s')" shows "stream_inv s' st"
proof -
  from assms(2) obtain ys where ys: "s_tx s' = s_tx s @ ys" by (auto simp: prefix_def)
  show ?thesis
  proof (cases "st_pending st = []")
    case False
    with assms(1) obtain a b where ab: "st_pending st = drop a (take b (s_tx s))" "a < b" "b \<le> length (s_tx s)"
      "next_index st \<le> a" "st_rx st \<le> b"
      "a \<noteq> next_index st \<longrightarrow> next_index st < length (s_tx s) - EVENT_BUFFER_CAPACITY"
      and rx: "st_rx st \<le> length (s_tx s)"
      by (auto simp: stream_inv_def)
    have "take b (s_tx s') = take b (s_tx s)" using ab(3) ys by simp
    moreover have "length (s_tx s) \<le> length (s_tx s')" by (simp add: ys)
    ultimately show ?thesis
      by (intro stream_inv_segment [of _ a b]) (use ab in auto)
  qed (use assms(1) ys in \<open>simp add: stream_inv_def\<close>)
qed

lemma after_pushes_grow: "prefix (s_tx s) (s_tx (after_pushes i as s))"
proof (induction i as s rule: after_pushes.induct)
  case (2 i k as s)
  have "prefix (s_tx s) (s_tx (push_event i k s))" by simp
  then show ?case using 2 by (metis after_pushes.simps(2) prefix_order.order_trans)
qed simp_all

lemma small_before: "small s' \<Longrightarrow> prefix (s_tx s) (s_tx s') \<Longrightarrow> small s"
  by (auto simp: small_def dest: prefix_length_le)

lemma run_stream_done: "st_done st \<Longrightarrow> run_stream i as s st = []"
  by (induction i as s st rule: run_stream.induct) (simp_all add: live_next.simps)

text \<open>The stream is in order and without repetition: sequence numbers increase strictly.\<close>

lemma run_stream_increasing:
  assumes "log_ok s" "small (after_pushes i as s)" "stream_inv s st"
  shows "sorted_wrt (<) (map ev_sequence (run_stream i as s st))
    \<and> (\<forall>e \<in> set (run_stream i as s st). next_index st < unat (ev_sequence e))"
  using assms
proof (induction i as s st rule: run_stream.induct)
  case (2 i k as s st)
  then show ?case using log_ok_push stream_inv_grow [of s st "push_event i k s"] by auto
next
  case (3 i as s st)
  note sm = small_before [OF "3.prems"(2), OF after_pushes_grow]
  show ?case
  proof (cases "st_done st")
    case False
    note p = live_next_polled [OF "3.prems"(1) sm "3.prems"(3) False]
    show ?thesis
    proof (cases "live_next s st")
      case (Yield e st')
      with p obtain k where k: "e = s_tx s ! k" "next_index st \<le> k" "k < length (s_tx s)"
        "stream_inv s st'" "next_index st' = Suc k"
        by (auto simp: polled_def)
      note seq = seq_nth(1) [OF "3.prems"(1) sm k(3)]
      have rest: "sorted_wrt (<) (map ev_sequence (run_stream i as s st'))
        \<and> (\<forall>f \<in> set (run_stream i as s st'). Suc k < unat (ev_sequence f))"
        using "3.IH"(1) [OF Yield "3.prems"(1) _ k(4)] "3.prems"(2) k(5) by simp
      then have "ev_sequence e < ev_sequence f" if "f \<in> set (run_stream i as s st')" for f
        using that seq k(1) by (auto simp: word_less_nat_alt)
      moreover have "next_index st < unat (ev_sequence f)" if "f \<in> set (run_stream i as s st')" for f
        using rest that k(2) by fastforce
      ultimately show ?thesis using Yield rest k(1,2) seq by auto
    next
      case (Waits st')
      then show ?thesis using p "3.IH"(2) [OF Waits "3.prems"(1)] "3.prems"(2) by (simp add: polled_def)
    qed (use p in \<open>simp add: polled_def\<close>)
  qed (simp add: run_stream_done [of st i "Poll # as" s] del: run_stream.simps)
qed simp

lemma run_stream_exact:
  assumes "log_ok s" "length (s_tx (after_pushes i as s)) \<le> EVENT_BUFFER_CAPACITY" "stream_inv s st"
  shows "\<exists>m. run_stream i as s st = take m (drop (next_index st) (s_tx (after_pushes i as s)))"
  using assms
proof (induction i as s st rule: run_stream.induct)
  case (2 i k as s st)
  then show ?case using log_ok_push stream_inv_grow [of s st "push_event i k s"] by auto
next
  case (3 i as s st)
  let ?tx = "s_tx (after_pushes i as s)"
  note grow = after_pushes_grow [of s i as]
  have len: "length (s_tx s) \<le> EVENT_BUFFER_CAPACITY" using "3.prems"(2) prefix_length_le [OF grow] by simp
  then have sm: "small s" by (simp add: small_def EVENT_BUFFER_CAPACITY_def)
  show ?case
  proof (cases "st_done st")
    case False
    note p = live_next_polled [OF "3.prems"(1) sm "3.prems"(3) False]
    show ?thesis
    proof (cases "live_next s st")
      case (Yield e st')
      with p len have k: "e = s_tx s ! next_index st" "next_index st < length (s_tx s)"
        "stream_inv s st'" "next_index st' = Suc (next_index st)"
        by (auto simp: polled_def)
      obtain m where m: "run_stream i as s st' = take m (drop (Suc (next_index st)) ?tx)"
        using "3.IH"(1) [OF Yield "3.prems"(1) _ k(3)] "3.prems"(2) k(4) by auto
      have "?tx ! next_index st = e" "next_index st < length ?tx"
        using grow k(1,2) by (auto simp: prefix_def nth_append)
      then have "e # take m (drop (Suc (next_index st)) ?tx) = take (Suc m) (drop (next_index st) ?tx)"
        by (metis Cons_nth_drop_Suc take_Suc_Cons)
      then show ?thesis using Yield m by (simp only: run_stream.simps after_pushes.simps stream_result.case) blast
    next
      case (Waits st')
      then show ?thesis using p "3.IH"(2) [OF Waits "3.prems"(1)] "3.prems"(2) by (simp add: polled_def)
    qed (use p in \<open>simp add: polled_def\<close>)
  qed (simp add: run_stream_done [of st i "Poll # as" s] exI [of _ 0] del: run_stream.simps)
qed (auto intro: exI [of _ 0])

section \<open>The store\<close>

type_synonym ('h, 'm, 'k) exec_store = "(string, ('h, 'm, 'k) BackgroundExecSession) btree_map"

definition store_insert ::
  "BackgroundExecInfo \<Rightarrow> 'h \<Rightarrow> ('h, 'm, 'k) exec_store \<Rightarrow> ('h, 'm, 'k) exec_store" where
  "store_insert info stdin st = bt_insert (bi_id info) (session_new info stdin) st"

definition store_insert_pty ::
  "BackgroundExecInfo \<Rightarrow> 'h \<Rightarrow> 'm \<Rightarrow> 'k \<Rightarrow> ('h, 'm, 'k) exec_store \<Rightarrow> ('h, 'm, 'k) exec_store" where
  "store_insert_pty info writer master killer st = bt_insert (bi_id info) (session_new_pty info writer master killer) st"

definition store_get :: "string \<Rightarrow> ('h, 'm, 'k) exec_store \<Rightarrow> ('h, 'm, 'k) BackgroundExecSession option" where
  "store_get exec_id st = bt_get st exec_id"

definition sessions_of :: "string \<Rightarrow> ('h, 'm, 'k) exec_store \<Rightarrow> ('h, 'm, 'k) BackgroundExecSession list" where
  "sessions_of sandbox_id st = filter (\<lambda>s. bi_sandbox_id (s_info s) = sandbox_id) (bt_values st)"

definition list_for_sandbox :: "string \<Rightarrow> ('h, 'm, 'k) exec_store \<Rightarrow> BackgroundExecInfo list" where
  "list_for_sandbox sandbox_id st = sort_key bi_id (map s_info (sessions_of sandbox_id st))"

text \<open>
  \<open>kill_for_sandbox\<close>: kill every session of the sandbox, wait for each (\<open>settle\<close> is what its tasks do
  until it finishes or the timeout passes), then drop them from the store.
\<close>

definition kill_for_sandbox ::
  "('h, 'm, 'k) proc_ext \<Rightarrow> (('h, 'm, 'k) BackgroundExecSession \<Rightarrow> ('h, 'm, 'k) BackgroundExecSession)
   \<Rightarrow> string \<Rightarrow> ('h, 'm, 'k) exec_store \<Rightarrow> ('h, 'm, 'k) BackgroundExecSession list \<times> ('h, 'm, 'k) exec_store" where
  "kill_for_sandbox ex settle sandbox_id st =
     (let matching = sessions_of sandbox_id st;
          exec_ids = map (\<lambda>s. bi_id (s_info s)) matching
      in (map (\<lambda>s. settle (snd (session_kill ex s))) matching, foldl (\<lambda>m k. bt_remove k m) st exec_ids))"

text \<open>Every session is stored under its own id.\<close>

definition store_ok :: "('h, 'm, 'k) exec_store \<Rightarrow> bool" where
  "store_ok st \<longleftrightarrow> bt_ok st \<and> list_all (\<lambda>(k, s). bi_id (s_info s) = k) st"

fun input_closed :: "('h, 'm, 'k) SessionControl \<Rightarrow> bool" where
  "input_closed (Pipes stdin tx) \<longleftrightarrow> stdin = None \<and> \<not> tx"
| "input_closed (Pty writer master killer tx) \<longleftrightarrow> writer = None \<and> killer = None \<and> \<not> tx"

lemma store_ok_insert: "store_ok st \<Longrightarrow> bi_id (s_info s) = k \<Longrightarrow> store_ok (bt_insert k s st)"
proof -
  have "set (bt_insert k s st) \<subseteq> insert (k, s) (set st)" by (induction st) (auto split: if_splits)
  then show "store_ok st \<Longrightarrow> bi_id (s_info s) = k \<Longrightarrow> store_ok (bt_insert k s st)"
    by (auto simp: store_ok_def list_all_iff intro: bt_ok_insert)
qed

lemma store_ok_inserts [simp]:
  "store_ok st \<Longrightarrow> store_ok (store_insert info h st)"
  "store_ok st \<Longrightarrow> store_ok (store_insert_pty info h m k st)"
  by (simp_all add: store_insert_def store_insert_pty_def store_ok_insert session_new_def session_new_pty_def)

lemma foldl_bt_remove: "foldl (\<lambda>m k. bt_remove k m) st ks = filter (\<lambda>p. fst p \<notin> set ks) st"
proof (induction ks arbitrary: st)
  case (Cons k ks)
  have "filter (\<lambda>p. fst p \<notin> set ks) (bt_remove k st) = filter (\<lambda>p. fst p \<notin> set (k # ks)) st"
    by (auto simp: bt_remove_def intro: filter_cong)
  then show ?case by (simp add: Cons.IH)
qed simp

lemma kill_for_sandbox_store:
  assumes "store_ok st"
  shows "snd (kill_for_sandbox ex settle i st) = filter (\<lambda>p. bi_sandbox_id (s_info (snd p)) \<noteq> i) st"
proof -
  have inj: "inj_on fst (set st)" using assms by (simp add: store_ok_def bt_ok_def strict_sorted_iff distinct_map)
  have key: "bi_id (s_info (snd q)) = fst q" if "q \<in> set st" for q
    using assms that by (auto simp: store_ok_def list_all_iff)
  have ss: "set (sessions_of i st) = snd ` {q \<in> set st. bi_sandbox_id (s_info (snd q)) = i}"
    by (auto simp: sessions_of_def bt_values_def)
  have "fst p \<in> (\<lambda>s. bi_id (s_info s)) ` set (sessions_of i st) \<longleftrightarrow> bi_sandbox_id (s_info (snd p)) = i"
    if p: "p \<in> set st" for p
  proof
    assume "fst p \<in> (\<lambda>s. bi_id (s_info s)) ` set (sessions_of i st)"
    then obtain q where q: "q \<in> set st" "bi_sandbox_id (s_info (snd q)) = i" "fst p = bi_id (s_info (snd q))"
      by (auto simp: ss)
    with key have "fst p = fst q" by simp
    with inj p q(1) have "p = q" by (metis inj_onD)
    with q(2) show "bi_sandbox_id (s_info (snd p)) = i" by simp
  next
    assume "bi_sandbox_id (s_info (snd p)) = i"
    with p key [OF p] show "fst p \<in> (\<lambda>s. bi_id (s_info s)) ` set (sessions_of i st)"
      unfolding ss image_image by (metis (mono_tags, lifting) image_eqI mem_Collect_eq)
  qed
  then show ?thesis
    by (auto simp: kill_for_sandbox_def Let_def foldl_bt_remove intro!: filter_cong)
qed

lemma session_kill_closes: "input_closed (s_control (snd (session_kill ex s)))"
  by (auto simp: session_kill_def send_kill_def split: SessionControl.splits)

text \<open>
  Deleting or suspending a sandbox ends its background execs: each of its sessions loses its input
  and its handles and is removed from the store, and the sessions of other sandboxes stay as they were.
\<close>

theorem kill_for_sandbox_exact:
  assumes "store_ok st"
  shows "let (killed, st') = kill_for_sandbox ex settle i st in
    store_ok st' \<and> list_for_sandbox i st' = [] \<and>
    (\<forall>j. j \<noteq> i \<longrightarrow> list_for_sandbox j st' = list_for_sandbox j st) \<and>
    (\<forall>k s. store_get k st' = Some s \<longleftrightarrow> store_get k st = Some s \<and> bi_sandbox_id (s_info s) \<noteq> i) \<and>
    (\<exists>ks. killed = map settle ks \<and> length ks = length (sessions_of i st) \<and> list_all (\<lambda>s. input_closed (s_control s)) ks)"
proof -
  note st' = kill_for_sandbox_store [OF assms, of ex settle i]
  define st' where "st' = filter (\<lambda>p. bi_sandbox_id (s_info (snd p)) \<noteq> i) st"
  have ok': "store_ok st'"
    using assms by (auto simp: store_ok_def st'_def bt_ok_def list_all_iff sorted_wrt_map sorted_wrt_filter)
  have "sessions_of i st' = []" by (auto simp: sessions_of_def st'_def bt_values_def filter_empty_conv)
  moreover have "sessions_of j st' = sessions_of j st" if "j \<noteq> i" for j
    using that by (simp add: sessions_of_def st'_def bt_values_def filter_map o_def) (rule arg_cong [where f = "map snd"], rule filter_cong, auto)
  moreover have "store_get k st' = Some s \<longleftrightarrow> store_get k st = Some s \<and> bi_sandbox_id (s_info s) \<noteq> i" for k s
    using bt.entries_get [of st' k s] bt.entries_get [of st k s] assms ok' by (auto simp: store_get_def store_ok_def st'_def)
  moreover define ks where "ks = map (\<lambda>s. snd (session_kill ex s)) (sessions_of i st)"
  have "kill_for_sandbox ex settle i st = (map settle ks, st')"
    using st' by (simp add: kill_for_sandbox_def Let_def ks_def o_def st'_def)
  moreover have "length ks = length (sessions_of i st)" "list_all (\<lambda>s. input_closed (s_control s)) ks"
    by (auto simp: ks_def list_all_iff session_kill_closes)
  ultimately show ?thesis
    using ok' by (auto simp: list_for_sandbox_def)
qed

text \<open>A process whose handles always work, and two sessions.\<close>

definition plain_proc :: "(unit, unit, unit) proc_ext" where
  "plain_proc = \<lparr>write_all_to = (\<lambda>h data. (Inr (), h)), flush_to = (\<lambda>h. (Inr (), h)),
     resize_master = (\<lambda>m rows cols. (Inr (), m)), kill_child = (\<lambda>k. Inr ())\<rparr>"

definition sample_info :: "string \<Rightarrow> string \<Rightarrow> BackgroundExecInfo" where
  "sample_info i b = \<lparr>bi_id = i, bi_sandbox_id = b, bi_container = ''c'', bi_command = [''sh''], bi_pty = False,
     bi_status = ExecRunning, bi_exit_code = None, bi_last_error = None\<rparr>"

definition two_sessions :: "(unit, unit, unit) exec_store" where
  "two_sessions = store_insert (sample_info ''e1'' ''a'') () (store_insert (sample_info ''e2'' ''b'') () [])"

theorem kill_for_sandbox_exact_witness:
  "let st' = snd (kill_for_sandbox plain_proc (\<lambda>s. s) ''a'' two_sessions) in
   list_for_sandbox ''a'' two_sessions = [sample_info ''e1'' ''a''] \<and>
   list_for_sandbox ''a'' st' = [] \<and> list_for_sandbox ''b'' st' = [sample_info ''e2'' ''b'']"
proof -
  have ok: "store_ok two_sessions" unfolding two_sessions_def by (intro store_ok_inserts) (simp add: store_ok_def)
  have "list_for_sandbox ''a'' two_sessions = [sample_info ''e1'' ''a'']"
    "list_for_sandbox ''b'' two_sessions = [sample_info ''e2'' ''b'']"
    by code_simp+
  with kill_for_sandbox_exact [OF ok, of plain_proc "\<lambda>s. s" "''a''"] show ?thesis
    by (auto simp: Let_def split: prod.splits)
qed


text \<open>
  C25. No wake-up of \<open>wait_finished\<close> is lost: once the waiter of a session is done, a task in
  \<open>wait_finished\<close> returns, wherever it was when the session finished.
\<close>

theorem wait_finished_returns:
  assumes "bi_status info = ExecRunning"
    and "(observed_step ex)\<^sup>*\<^sup>* (insert_start info h, Enrolling) (x, ob)" and "wtr x = Finished"
  shows "(wait_finished_step (sess x))\<^sup>*\<^sup>* ob Returned"
proof -
  have inv: "pipe_inv x" "\<And>n. ob = Parked n \<Longrightarrow> n = 0"
    using observed_inv [OF assms(1,2)] by (auto split: observer.splits)
  then have st: "status_of x \<noteq> ExecRunning" "s_finished (sess x) = 1" using assms(3) by auto
  have c: "(wait_finished_step (sess x))\<^sup>*\<^sup>* (Checking n) Returned" for n
    using seen [OF st(1)] by blast
  have e: "(wait_finished_step (sess x))\<^sup>*\<^sup>* Enrolling Returned"
    using enroll c by (rule converse_rtranclp_into_rtranclp)
  have p: "(wait_finished_step (sess x))\<^sup>*\<^sup>* (Parked 0) Returned"
    by (rule converse_rtranclp_into_rtranclp [OF wake e]) (simp add: st(2))
  show ?thesis using c e p inv(2) by (cases ob) auto
qed


text \<open>A session that prints one line and exits with code 0.\<close>

lemma sample_pipe_run:
  "\<exists>x. (pipe_step plain_proc)\<^sup>*\<^sup>* (insert_start (sample_info ''e'' ''a'') ()) x \<and> wtr x = Finished
     \<and> map ev_event (s_tx (sess x)) = [Stdout ''hi'', Exited 0]"
proof -
  have r: "stream_reader_step x x' \<Longrightarrow> pipe_step plain_proc x x'" and w: "waiter_step x x' \<Longrightarrow> pipe_step plain_proc x x'"
    and f: "finish_step x x' \<Longrightarrow> pipe_step plain_proc x x'" for x x'
    by (auto simp: pipe_step_def intro: waiter_step.finishing)
  let ?x0 = "insert_start (sample_info ''e'' ''a'') () :: (unit, unit, unit) exec_state"
  let ?x1 = "?x0\<lparr>out_rd := Holding ''hi''\<rparr>"
  let ?x2 = "?x1\<lparr>sess := push_event (exec_id_of ?x1) (Stdout ''hi'') (sess ?x1), out_rd := Reading\<rparr>"
  let ?x3 = "?x2\<lparr>out_rd := Gone\<rparr>" let ?x4 = "?x3\<lparr>err_rd := Gone\<rparr>"
  let ?x5 = "?x4\<lparr>sess := (sess ?x4)\<lparr>s_kill_rx := RxClosed\<rparr>, wtr := Joining (Inr (Some 0))\<rparr>"
  let ?x6 = "?x5\<lparr>wtr := Marking (child_event (Inr (Some 0)))\<rparr>"
  let ?k = "child_event (Inr (Some 0))"
  let ?s7 = "(sess ?x6)\<lparr>s_info := (s_info (sess ?x6))\<lparr>bi_status := ExecExited, bi_exit_code := Some 0, bi_last_error := None\<rparr>\<rparr>"
  let ?x7 = "?x6\<lparr>sess := ?s7, wtr := Releasing_handles ?k\<rparr>"
  let ?x8 = "?x7\<lparr>sess := finish_release (sess ?x7), wtr := Announcing ?k\<rparr>"
  let ?x9 = "?x8\<lparr>sess := push_event (exec_id_of ?x8) ?k (sess ?x8), wtr := Notifying\<rparr>"
  let ?x10 = "?x9\<lparr>sess := notify_waiters (sess ?x9), wtr := Finished\<rparr>"
  have s1: "pipe_step plain_proc ?x0 ?x1" by (rule r, rule out_read) (simp_all add: insert_start_def)
  have s2: "pipe_step plain_proc ?x1 ?x2" by (rule r, rule out_push) simp
  have s3: "pipe_step plain_proc ?x2 ?x3" by (rule r, rule out_end) simp
  have s4: "pipe_step plain_proc ?x3 ?x4" by (rule r, rule err_end) (simp add: insert_start_def)
  have s5: "pipe_step plain_proc ?x4 ?x5" by (rule w, rule exited) (simp add: insert_start_def)
  have s6: "pipe_step plain_proc ?x5 ?x6" by (rule w, rule joined) simp_all
  have s7: "pipe_step plain_proc ?x6 ?x7"
    by (rule f, rule marked)
      (simp_all add: finish_mark_def child_event_def insert_start_def session_new_def sample_info_def)
  have s8: "pipe_step plain_proc ?x7 ?x8" by (rule f, rule released) simp
  have s9: "pipe_step plain_proc ?x8 ?x9" by (rule f, rule announced) simp
  have s10: "pipe_step plain_proc ?x9 ?x10" by (rule f, rule notified) simp
  have "(pipe_step plain_proc)\<^sup>*\<^sup>* ?x0 ?x10"
    using s1 s2 s3 s4 s5 s6 s7 s8 s9 s10
    by (elim converse_rtranclp_into_rtranclp [where r = "pipe_step plain_proc"]) (rule rtranclp.rtrancl_refl)
  then show ?thesis
    by (intro exI [of _ ?x10]) (simp add: notify_waiters_def child_event_def insert_start_def session_new_def)
qed


theorem wait_finished_returns_witness:
  "\<exists>x :: (unit, unit, unit) exec_state. wtr x = Finished \<and> (wait_finished_step (sess x))\<^sup>*\<^sup>* Enrolling Returned"
proof -
  obtain x :: "(unit, unit, unit) exec_state"
    where x: "(pipe_step plain_proc)\<^sup>*\<^sup>* (insert_start (sample_info ''e'' ''a'') ()) x" "wtr x = Finished"
    using sample_pipe_run by (elim exE conjE)
  have "(observed_step plain_proc)\<^sup>*\<^sup>* (insert_start (sample_info ''e'' ''a'') (), Enrolling) (x, Enrolling)"
    using x(1) by (induction rule: rtranclp_induct) (auto intro: rtranclp.rtrancl_into_rtrancl session_moves)
  from wait_finished_returns [OF _ this x(2)] x(2) show ?thesis by (auto simp: sample_info_def)
qed

lemma events_since_last:
  assumes "log_ok s" "small s" "events_since s f \<noteq> []"
  shows "unat (sat_succ (ev_sequence (last (events_since s f)))) = Suc (length (s_tx s))"
proof -
  define d where "d = max (length (s_tx s) - EVENT_BUFFER_CAPACITY) (unat f - 1)"
  have e: "events_since s f = drop d (s_tx s)" unfolding d_def by (rule events_since_drop [OF assms(1,2)])
  with assms(3) have "d < length (s_tx s)" by simp
  then have "last (events_since s f) = s_tx s ! (length (s_tx s) - 1)" "0 < length (s_tx s)"
    by (auto simp: e last_drop last_conv_nth)
  then show ?thesis using seq_nth(2) [OF assms(1,2), of "length (s_tx s) - 1"] by simp
qed

lemma open_stream_next:
  assumes "log_ok s" "small s" "open_stream s0 s f = (replay, st)" "replay \<noteq> []"
  shows "next_index st = length (s_tx s)"
  using assms events_since_last [OF assms(1,2)] by (auto simp: open_stream_def Let_def)

lemma open_stream_inv:
  assumes "log_ok s" "small s" "prefix (s_tx s0) (s_tx s)" "open_stream s0 s f = (replay, st)"
  shows "stream_inv s st"
proof -
  have st: "st_rx st \<le> length (s_tx s)" "st_pending st = []"
    using assms(3,4) by (auto simp: open_stream_def Let_def subscribe_def dest: prefix_length_le)
  moreover have "length (s_tx s) \<le> next_index st"
  proof (cases "replay = []")
    case False
    then show ?thesis using open_stream_next [OF assms(1,2,4)] by simp
  next
    case True
    then show ?thesis
      using assms(4) by (auto simp: open_stream_def Let_def events_since_drop [OF assms(1,2)] max_def
        EVENT_BUFFER_CAPACITY_def split: if_splits)
  qed
  ultimately show ?thesis by (simp add: stream_inv_def)
qed


definition two_events :: "(unit, unit, unit) BackgroundExecSession" where
  "two_events = push_event ''e'' (Stderr ''b'') (push_event ''e'' (Stdout ''a'') (session_new (sample_info ''e'' ''a'') ()))"




lemma pty_over: "wtr x = Finished \<Longrightarrow> out_rd x = Gone \<Longrightarrow> \<not> pty_reader_step x x' \<and> \<not> pty_waiter_step x x'"
  by (auto elim!: pty_reader_step.cases pty_waiter_step.cases finish_step.cases)

text \<open>
  The terminal event of a session on a pseudo-terminal need not be the last: after the drain
  timeout the waiter aborts the reader, which runs on a blocking thread and goes on. Here a line is
  pushed after the exit; nothing of the session will ever run again, and a client that opens its event
  stream gets the terminal event in the middle of the replay and then waits for ever.
\<close>

theorem pty_output_after_exit:
  "\<exists>x. (pty_step plain_proc)\<^sup>*\<^sup>* (insert_pty_start (sample_info ''e'' ''a'') () () ()) x
     \<and> wtr x = Finished \<and> (\<forall>x'. \<not> pty_reader_step x x' \<and> \<not> pty_waiter_step x x')
     \<and> (let (replay, st) = open_stream (sess x) (sess x) None in
        map ev_event replay = [Exited 0, Stdout ''late''] \<and> live_next (sess x) st = Waits st)"
proof -
  have r: "pty_reader_step x x' \<Longrightarrow> pty_step plain_proc x x'" and w: "pty_waiter_step x x' \<Longrightarrow> pty_step plain_proc x x'"
    and f: "finish_step x x' \<Longrightarrow> pty_step plain_proc x x'" for x x'
    by (auto simp: pty_step_def intro: pty_waiter_step.pty_finishing)
  let ?x0 = "insert_pty_start (sample_info ''e'' ''a'') () () () :: (unit, unit, unit) exec_state"
  let ?res = "Inr (Some (pty_exit_code 0))" let ?k = "child_event ?res"
  let ?x1 = "?x0\<lparr>wtr := Draining ?res\<rparr>"
  let ?x2 = "?x1\<lparr>wtr := Marking ?k\<rparr>"
  let ?s3 = "(sess ?x2)\<lparr>s_info := (s_info (sess ?x2))\<lparr>bi_status := ExecExited, bi_exit_code := Some 0, bi_last_error := None\<rparr>\<rparr>"
  let ?x3 = "?x2\<lparr>sess := ?s3, wtr := Releasing_handles ?k\<rparr>"
  let ?x4 = "?x3\<lparr>sess := finish_release (sess ?x3), wtr := Announcing ?k\<rparr>"
  let ?x5 = "?x4\<lparr>sess := push_event (exec_id_of ?x4) ?k (sess ?x4), wtr := Notifying\<rparr>"
  let ?x6 = "?x5\<lparr>sess := notify_waiters (sess ?x5), wtr := Finished\<rparr>"
  let ?x7 = "?x6\<lparr>out_rd := Holding ''late''\<rparr>"
  let ?x8 = "?x7\<lparr>sess := push_event (exec_id_of ?x7) (Stdout ''late'') (sess ?x7), out_rd := Reading\<rparr>"
  let ?x9 = "?x8\<lparr>out_rd := Gone\<rparr>"
  have s1: "pty_step plain_proc ?x0 ?x1" by (rule w, rule pty_exited) (simp add: insert_pty_start_def)
  have s2: "pty_step plain_proc ?x1 ?x2" by (rule w, rule pty_drained) simp
  have s3: "pty_step plain_proc ?x2 ?x3"
    by (rule f, rule marked)
      (simp_all add: finish_mark_def child_event_def insert_pty_start_def session_new_pty_def sample_info_def pty_exit_code_def)
  have s4: "pty_step plain_proc ?x3 ?x4" by (rule f, rule released) simp
  have s5: "pty_step plain_proc ?x4 ?x5" by (rule f, rule announced) simp
  have s6: "pty_step plain_proc ?x5 ?x6" by (rule f, rule notified) simp
  have s7: "pty_step plain_proc ?x6 ?x7" by (rule r, rule pty_read) (simp_all add: insert_pty_start_def)
  have s8: "pty_step plain_proc ?x7 ?x8" by (rule r, rule pty_push) simp
  have s9: "pty_step plain_proc ?x8 ?x9" by (rule r, rule pty_end) simp
  have "(pty_step plain_proc)\<^sup>*\<^sup>* ?x0 ?x9"
    using s1 s2 s3 s4 s5 s6 s7 s8 s9
    by (elim converse_rtranclp_into_rtranclp [where r = "pty_step plain_proc"]) (rule rtranclp.rtrancl_refl)
  moreover have "\<not> pty_reader_step ?x9 x' \<and> \<not> pty_waiter_step ?x9 x'" for x'
    by (rule pty_over) simp_all
  moreover have "let (replay, st) = open_stream (sess ?x9) (sess ?x9) None in
      map ev_event replay = [Exited 0, Stdout ''late''] \<and> live_next (sess ?x9) st = Waits st"
    by code_simp
  ultimately show ?thesis by (intro exI [of _ ?x9] conjI) simp_all
qed

end
