(* ===== verification/Images.thy ===== *)
theory Images
  imports Runsc
begin

unbundle bit_operations_syntax

text \<open>
  The parts of the image store (\<open>oad-oci/src/lib.rs\<close>) that need no state: image references, the
  addresses a registry may have, manifests and configurations, digests and cache names, the command
  line and environment of a container, and the registry's authentication challenge. The URL parser,
  SHA-256 and the JSON library are parameters.
\<close>

section \<open>Errors\<close>

datatype OciError =
    InvalidReference string
  | Http string
  | OciIo string
  | OciJson string
  | JsonBody string string string string
  | MissingAuthChallenge
  | InvalidAuthChallenge
  | MissingToken
  | InvalidManifest string
  | PlatformUnavailable string
  | UnsupportedDigest string
  | DigestMismatch string string
  | BodyTooLarge string "64 word"
  | UnsupportedTarEntry string
  | UnsafeArchivePath string
  | NoCommand string
  | MkfsErofsSpawn string
  | MkfsErofsExit string string string
  | OciJoin string

fun show_OciError :: "OciError \<Rightarrow> string" where
  "show_OciError (InvalidReference s) = ''invalid image reference '' @ show_debug s"
| "show_OciError (Http m) = ''http error: '' @ m"
| "show_OciError (OciIo m) = ''i/o error: '' @ m"
| "show_OciError (OciJson m) = ''json error: '' @ m"
| "show_OciError (JsonBody kind body_source e preview) = kind @ '' JSON from '' @ show_debug body_source
     @ '' is invalid: '' @ e @ ''; body starts with '' @ show_debug preview"
| "show_OciError MissingAuthChallenge = ''registry auth challenge is missing''"
| "show_OciError InvalidAuthChallenge = ''registry auth challenge is invalid''"
| "show_OciError MissingToken = ''registry token response is missing a token''"
| "show_OciError (InvalidManifest m) = ''manifest is invalid: '' @ m"
| "show_OciError (PlatformUnavailable p) = ''platform '' @ p @ '' is not available in image index''"
| "show_OciError (UnsupportedDigest d) = ''unsupported digest '' @ show_debug d"
| "show_OciError (DigestMismatch expected actual) = ''digest mismatch: expected '' @ expected @ '', got '' @ actual"
| "show_OciError (BodyTooLarge kind limit) = kind @ '' body exceeded '' @ show_nat (unat limit) @ '' bytes''"
| "show_OciError (UnsupportedTarEntry e) = ''unsupported tar entry '' @ e"
| "show_OciError (UnsafeArchivePath p) = ''archive path is unsafe: '' @ p"
| "show_OciError (NoCommand c) = ''container '' @ show_debug c @ '' has no command to execute''"
| "show_OciError (MkfsErofsSpawn m) = ''failed to spawn mkfs.erofs: '' @ m"
| "show_OciError (MkfsErofsExit st out er) = ''mkfs.erofs failed with '' @ st @ '': stdout='' @ show_debug out
     @ '', stderr='' @ show_debug er"
| "show_OciError (OciJoin m) = ''background task failed: '' @ m"

abbreviation oci_io :: "io_error \<Rightarrow> OciError" where
  "oci_io e \<equiv> OciIo (show_io_error e)"

section \<open>Constants\<close>

definition DOCKER_HUB_REGISTRY :: string where
  "DOCKER_HUB_REGISTRY = ''registry-1.docker.io''"

definition DEFAULT_TAG :: string where
  "DEFAULT_TAG = ''latest''"

definition DEFAULT_PATH :: string where
  "DEFAULT_PATH = ''/usr/local/sbin:/usr/local/bin:/usr/sbin:/usr/bin:/sbin:/bin''"

definition MAX_MANIFEST_BYTES :: "64 word" where
  "MAX_MANIFEST_BYTES = 8 * 1024 * 1024"

definition MAX_CONFIG_BYTES :: "64 word" where
  "MAX_CONFIG_BYTES = 16 * 1024 * 1024"

definition MAX_TOKEN_BYTES :: "64 word" where
  "MAX_TOKEN_BYTES = 1024 * 1024"

definition MAX_LAYER_BYTES :: "64 word" where
  "MAX_LAYER_BYTES = 2 * 1024 * 1024 * 1024"

definition MAX_UNPACKED_IMAGE_BYTES :: "64 word" where
  "MAX_UNPACKED_IMAGE_BYTES = 16 * 1024 * 1024 * 1024"

definition MAX_LAYERS :: nat where
  "MAX_LAYERS = 512"

definition MAX_REGISTRY_REDIRECTS :: nat where
  "MAX_REGISTRY_REDIRECTS = 5"

definition MANIFEST_ACCEPT :: string where
  "MANIFEST_ACCEPT = ''application/vnd.oci.image.manifest.v1+json, application/vnd.docker.distribution.manifest.v2+json, ''
     @ ''application/vnd.oci.image.index.v1+json, application/vnd.docker.distribution.manifest.list.v2+json''"

section \<open>Where a registry may be\<close>

text \<open>A parsed URL; an IPv6 address is its eight segments.\<close>

datatype Host = Domain string | Ipv4 "8 word" "8 word" "8 word" "8 word" | Ipv6 "16 word list"

record Url =
  url_scheme :: string
  url_host :: "Host option"
  url_text :: string

text \<open>The classifications of \<open>std::net::Ipv4Addr\<close>.\<close>

definition is_loopback :: "8 word \<Rightarrow> bool" where
  "is_loopback a \<longleftrightarrow> a = 127"

definition is_private :: "8 word \<Rightarrow> 8 word \<Rightarrow> bool" where
  "is_private a b \<longleftrightarrow> a = 10 \<or> (a = 172 \<and> 16 \<le> b \<and> b \<le> 31) \<or> (a = 192 \<and> b = 168)"

definition is_link_local :: "8 word \<Rightarrow> 8 word \<Rightarrow> bool" where
  "is_link_local a b \<longleftrightarrow> a = 169 \<and> b = 254"

definition is_multicast :: "8 word \<Rightarrow> bool" where
  "is_multicast a \<longleftrightarrow> 224 \<le> a \<and> a \<le> 239"

definition forbidden_ipv4_host :: "8 word \<Rightarrow> 8 word \<Rightarrow> 8 word \<Rightarrow> 8 word \<Rightarrow> bool" where
  "forbidden_ipv4_host a b c d \<longleftrightarrow>
     is_loopback a \<or> is_private a b \<or> is_link_local a b
     \<or> (a = 0 \<and> b = 0 \<and> c = 0 \<and> d = 0)
     \<or> is_multicast a
     \<or> (a = 255 \<and> b = 255 \<and> c = 255 \<and> d = 255)
     \<or> a = 0
     \<or> (a = 100 \<and> b AND 0xc0 = 0x40)
     \<or> (a = 192 \<and> b = 0 \<and> c = 0)"

text \<open>\<open>Ipv6Addr::to_ipv4\<close>: mapped and compatible addresses.\<close>

definition high_byte :: "16 word \<Rightarrow> 8 word" where
  "high_byte s = ucast (drop_bit 8 s)"

definition to_ipv4 :: "16 word list \<Rightarrow> (8 word \<times> 8 word \<times> 8 word \<times> 8 word) option" where
  "to_ipv4 seg = (if length seg = 8 \<and> take 5 seg = [0, 0, 0, 0, 0] \<and> (seg ! 5 = 0 \<or> seg ! 5 = 0xffff)
     then Some (high_byte (seg ! 6), ucast (seg ! 6), high_byte (seg ! 7), ucast (seg ! 7)) else None)"

definition forbidden_ipv6_host :: "16 word list \<Rightarrow> bool" where
  "forbidden_ipv6_host seg = (case to_ipv4 seg of
       Some (a, b, c, d) \<Rightarrow> forbidden_ipv4_host a b c d
     | None \<Rightarrow> seg = [0, 0, 0, 0, 0, 0, 0, 1] \<or> seg = [0, 0, 0, 0, 0, 0, 0, 0]
         \<or> seg ! 0 AND 0xfe00 = 0xfc00
         \<or> seg ! 0 AND 0xffc0 = 0xfe80
         \<or> seg ! 0 AND 0xff00 = 0xff00)"

definition validate_remote_https_url :: "Url \<Rightarrow> bool" where
  "validate_remote_https_url url \<longleftrightarrow> url_scheme url = ''https'' \<and>
     (case url_host url of
        None \<Rightarrow> False
      | Some (Domain domain) \<Rightarrow> \<not> (to_ascii_lowercase domain = ''localhost''
          \<or> suffix ''.localhost'' (to_ascii_lowercase domain))
      | Some (Ipv4 a b c d) \<Rightarrow> \<not> forbidden_ipv4_host a b c d
      | Some (Ipv6 seg) \<Rightarrow> \<not> forbidden_ipv6_host seg)"

definition validate_token_realm :: "Url \<Rightarrow> (OciError, unit) result" where
  "validate_token_realm url = (if validate_remote_https_url url then Inr () else Inl InvalidAuthChallenge)"

definition validate_registry_url :: "Url \<Rightarrow> (OciError, unit) result" where
  "validate_registry_url url = (if validate_remote_https_url url then Inr () else Inl (InvalidReference (url_text url)))"

text \<open>The redirect policy: the number of URLs visited so far and the next one.\<close>

definition registry_redirect_policy :: "nat \<Rightarrow> Url \<Rightarrow> (string, unit) result" where
  "registry_redirect_policy previous url =
     (if MAX_REGISTRY_REDIRECTS < previous then Inl ''registry redirect limit exceeded''
      else if \<not> validate_remote_https_url url
      then Inl (''registry redirect is invalid or unsafe: '' @ url_text url)
      else Inr ())"

section \<open>Image references\<close>

text \<open>\<open>str::rsplit_once\<close> and \<open>str::rfind\<close> for a character.\<close>

definition rsplit_once :: "'a \<Rightarrow> 'a list \<Rightarrow> ('a list \<times> 'a list) option" where
  "rsplit_once c xs = map_option (\<lambda>(a, b). (rev b, rev a)) (split_once c (rev xs))"

definition rfind :: "'a \<Rightarrow> 'a list \<Rightarrow> nat option" where
  "rfind c xs = map_option (\<lambda>(a, b). length a) (rsplit_once c xs)"

definition tag_colon :: "string \<Rightarrow> nat option" where
  "tag_colon name =
     (let last_slash = (case rfind (CHR ''/'') name of None \<Rightarrow> 0 | Some i \<Rightarrow> i + 1) in
      case rfind (CHR '':'') name of None \<Rightarrow> None
      | Some colon \<Rightarrow> if last_slash < colon then Some colon else None)"

definition strip_tag :: "string \<Rightarrow> string" where
  "strip_tag name = (case tag_colon name of None \<Rightarrow> name | Some colon \<Rightarrow> take colon name)"

definition split_reference :: "string \<Rightarrow> string \<times> string option" where
  "split_reference input = (case rsplit_once (CHR ''@'') input of
       Some (name, digest) \<Rightarrow> (strip_tag name, Some digest)
     | None \<Rightarrow> (case tag_colon input of
         None \<Rightarrow> (input, None)
       | Some colon \<Rightarrow> (take colon input, Some (drop (colon + 1) input))))"

definition looks_like_registry :: "string \<Rightarrow> bool" where
  "looks_like_registry value \<longleftrightarrow>
     value = ''localhost'' \<or> CHR ''.'' \<in> set value \<or> CHR '':'' \<in> set value"

record ImageReference =
  registry :: string
  repository :: string
  ref_reference :: string
  reference_is_digest :: bool

definition ImageReference_parse :: "string \<Rightarrow> (OciError, ImageReference) result" where
  "ImageReference_parse input =
     (if input = [] then Inl (InvalidReference input) else
      let is_digest = (rsplit_once (CHR ''@'') input \<noteq> None);
          (name, reference) = split_reference input;
          parts = split_on (CHR ''/'') name;
          (reg, repo) = (if 1 < length parts \<and> looks_like_registry (hd parts)
             then (hd parts, intersperse_str ''/'' (tl parts))
             else (DOCKER_HUB_REGISTRY,
               if length parts = 1 then ''library/'' @ hd parts else intersperse_str ''/'' parts))
      in if repo = [] then Inl (InvalidReference input)
         else Inr \<lparr>registry = reg, repository = repo,
           ref_reference = (case reference of Some r \<Rightarrow> r | None \<Rightarrow> DEFAULT_TAG), reference_is_digest = is_digest\<rparr>)"

text \<open>\<open>url_parse\<close> is \<open>Url::parse\<close>.\<close>

definition registry_url :: "(string \<Rightarrow> Url option) \<Rightarrow> ImageReference \<Rightarrow> string \<Rightarrow> (OciError, Url) result" where
  "registry_url url_parse r p = (case url_parse (''https://'' @ registry r @ p) of
       None \<Rightarrow> Inl (InvalidReference (registry r))
     | Some url \<Rightarrow> (case validate_registry_url url of Inl e \<Rightarrow> Inl e | Inr _ \<Rightarrow> Inr url))"

section \<open>Manifests and configurations\<close>

record Platform =
  pl_os :: string
  pl_arch :: string

record Descriptor =
  d_media_type :: "string option"
  d_digest :: string
  d_size :: "64 word option"
  d_platform :: "Platform option"

record ImageManifest =
  im_manifests :: "Descriptor list option"
  im_config :: "Descriptor option"
  im_layers :: "Descriptor list"

record ImageConfigBody =
  icb_entrypoint :: "string list option"
  icb_cmd :: "string list option"
  icb_env :: "string list option"
  icb_working_dir :: "string option"

record TokenResponse =
  tr_token :: "string option"
  tr_access_token :: "string option"

text \<open>\<open>ImageConfig\<close> wraps its body; its methods are on the body.\<close>

definition entrypoint :: "ImageConfigBody \<Rightarrow> string list" where
  "entrypoint c = (case icb_entrypoint c of Some v \<Rightarrow> v | None \<Rightarrow> [])"

definition image_cmd :: "ImageConfigBody \<Rightarrow> string list" where
  "image_cmd c = (case icb_cmd c of Some v \<Rightarrow> v | None \<Rightarrow> [])"

definition image_env :: "ImageConfigBody \<Rightarrow> EnvVar list" where
  "image_env c = List.map_filter (\<lambda>entry. case split_once (CHR ''='') entry of
       None \<Rightarrow> None | Some (n, v) \<Rightarrow> Some \<lparr>env_name = n, env_value = v\<rparr>)
     (case icb_env c of Some v \<Rightarrow> v | None \<Rightarrow> [])"

definition working_dir :: "ImageConfigBody \<Rightarrow> string option" where
  "working_dir c = (case icb_working_dir c of Some v \<Rightarrow> if v \<noteq> [] then Some v else None | None \<Rightarrow> None)"

definition resolve_args :: "ContainerSpec \<Rightarrow> ImageConfigBody \<Rightarrow> (OciError, string list) result" where
  "resolve_args container image_config =
     (let args = (if cs_command container \<noteq> [] then argv container
            else if cs_args container \<noteq> [] then entrypoint image_config @ cs_args container
            else entrypoint image_config @ image_cmd image_config)
      in if args = [] then Inl (NoCommand (cs_name container)) else Inr args)"

definition env_map :: "EnvVar list \<Rightarrow> (string, string) btree_map \<Rightarrow> (string, string) btree_map" where
  "env_map items m = foldl (\<lambda>m item. bt_insert (env_name item) (env_value item) m) m items"

definition merged_env :: "EnvVar list \<Rightarrow> EnvVar list \<Rightarrow> string list" where
  "merged_env image_vars request_vars =
     map (\<lambda>(n, v). n @ ''='' @ v) (env_map (image_vars @ request_vars) (bt_insert ''PATH'' DEFAULT_PATH []))"

definition cwd_or_root :: "string option \<Rightarrow> string" where
  "cwd_or_root value = (case value of Some v \<Rightarrow> if v \<noteq> [] \<and> hd v = CHR ''/'' then v else ''/'' | None \<Rightarrow> ''/'')"

text \<open>\<open>arch\<close> is \<open>std::env::consts::ARCH\<close>.\<close>

definition oci_arch :: "string \<Rightarrow> string" where
  "oci_arch arch = (if arch = ''x86_64'' then ''amd64'' else if arch = ''aarch64'' then ''arm64'' else arch)"

definition select_platform_manifest :: "string \<Rightarrow> Descriptor list \<Rightarrow> (OciError, Descriptor) result" where
  "select_platform_manifest arch manifests =
     (case find (\<lambda>d. case d_platform d of None \<Rightarrow> False
          | Some p \<Rightarrow> pl_os p = ''linux'' \<and> pl_arch p = oci_arch arch) manifests of
        Some d \<Rightarrow> Inr d
      | None \<Rightarrow> Inl (PlatformUnavailable (''linux/'' @ oci_arch arch)))"

definition descriptor_body_limit :: "Descriptor \<Rightarrow> 64 word \<Rightarrow> string \<Rightarrow> (OciError, 64 word) result" where
  "descriptor_body_limit d default_limit kind = (case d_size d of
       Some n \<Rightarrow> if default_limit < n then Inl (BodyTooLarge kind default_limit) else Inr n
     | None \<Rightarrow> Inr default_limit)"

section \<open>Digests and cache names\<close>

text \<open>\<open>sha256\<close> gives the hexadecimal digest of some bytes.\<close>

definition strip_prefix :: "string \<Rightarrow> string \<Rightarrow> string option" where
  "strip_prefix p s = (if prefix p s then Some (drop (length p) s) else None)"

definition verify_digest_hex :: "string \<Rightarrow> string \<Rightarrow> (OciError, unit) result" where
  "verify_digest_hex actual expected = (case strip_prefix ''sha256:'' expected of
       None \<Rightarrow> Inl (UnsupportedDigest expected)
     | Some hex_expected \<Rightarrow> if actual = hex_expected then Inr ()
         else Inl (DigestMismatch expected (''sha256:'' @ actual)))"

definition verify_digest :: "(string \<Rightarrow> string) \<Rightarrow> string \<Rightarrow> string \<Rightarrow> (OciError, unit) result" where
  "verify_digest sha256 bytes expected = verify_digest_hex (sha256 bytes) expected"

definition is_ascii_hexdigit :: "char \<Rightarrow> bool" where
  "is_ascii_hexdigit c \<longleftrightarrow> is_ascii_digit c \<or> char_between (CHR ''a'') (CHR ''f'') c \<or> char_between (CHR ''A'') (CHR ''F'') c"

definition blob_filename :: "string \<Rightarrow> (OciError, string) result" where
  "blob_filename d = (case strip_prefix ''sha256:'' d of
       None \<Rightarrow> Inl (UnsupportedDigest d)
     | Some hex_digest \<Rightarrow> if length hex_digest \<noteq> 64 \<or> \<not> list_all is_ascii_hexdigit hex_digest
         then Inl (UnsupportedDigest d) else Inr (''sha256-'' @ hex_digest @ ''.blob''))"

definition ROOTFS_BUILDER_VERSION :: string where
  "ROOTFS_BUILDER_VERSION = ''2026-05-31''"

definition rootfs_cache_key :: "(string \<Rightarrow> string) \<Rightarrow> Descriptor list \<Rightarrow> string" where
  "rootfs_cache_key sha256 layers =
     sha256 (ROOTFS_BUILDER_VERSION @ nl @ concat (map (\<lambda>l. d_digest l @ nl) layers))"

definition MANIFEST_CACHE_VERSION :: string where
  "MANIFEST_CACHE_VERSION = ''2026-05-31''"

definition manifest_cache_key :: "(string \<Rightarrow> string) \<Rightarrow> ImageReference \<Rightarrow> string \<Rightarrow> string" where
  "manifest_cache_key sha256 r manifest_ref =
     sha256 (MANIFEST_CACHE_VERSION @ [CHR 0x00] @ registry r @ [CHR 0x00] @ repository r @ [CHR 0x00] @ manifest_ref)"

definition manifest_cache_path :: "(string \<Rightarrow> string) \<Rightarrow> path \<Rightarrow> ImageReference \<Rightarrow> string \<Rightarrow> path" where
  "manifest_cache_path sha256 dir r manifest_ref =
     join dir (manifest_cache_key sha256 r manifest_ref @ ''.json'')"

text \<open>Times in nanoseconds; a modification time in the future counts as fresh.\<close>

definition manifest_cache_entry_is_fresh :: "int \<Rightarrow> int \<Rightarrow> int \<Rightarrow> bool" where
  "manifest_cache_entry_is_fresh modified current ttl \<longleftrightarrow> (if modified \<le> current then current - modified \<le> ttl else True)"

definition body_preview :: "(string \<Rightarrow> string) \<Rightarrow> string \<Rightarrow> string" where
  "body_preview lossy body = lossy (take 256 body)"

definition parse_json_body ::
  "(string \<Rightarrow> string) \<Rightarrow> (string \<Rightarrow> (string, 'a) result) \<Rightarrow> string \<Rightarrow> string \<Rightarrow> string \<Rightarrow> (OciError, 'a) result" where
  "parse_json_body lossy dec kind body_source body = (case dec body of
       Inl e \<Rightarrow> Inl (JsonBody kind body_source e (body_preview lossy body))
     | Inr v \<Rightarrow> Inr v)"

section \<open>The authentication challenge\<close>

record BearerChallenge =
  bc_realm :: string
  bc_service :: "string option"
  bc_scope :: "string option"

text \<open>\<open>str::trim\<close> on ASCII text and \<open>trim_matches('"')\<close>.\<close>

definition is_space :: "char \<Rightarrow> bool" where
  "is_space c \<longleftrightarrow> c = CHR '' '' \<or> char_between (CHR 0x09) (CHR 0x0D) c"

definition trim_by :: "(char \<Rightarrow> bool) \<Rightarrow> string \<Rightarrow> string" where
  "trim_by P s = rev (dropWhile P (rev (dropWhile P s)))"

definition challenge_piece :: "BearerChallenge \<Rightarrow> string \<Rightarrow> BearerChallenge" where
  "challenge_piece c piece = (case split_once (CHR ''='') (trim_by is_space piece) of
       None \<Rightarrow> c
     | Some (key, raw) \<Rightarrow>
         (let value = trim_by (\<lambda>ch. ch = CHR 0x22) raw in
          if key = ''realm'' then c\<lparr>bc_realm := value\<rparr>
          else if key = ''service'' then c\<lparr>bc_service := Some value\<rparr>
          else if key = ''scope'' then c\<lparr>bc_scope := Some value\<rparr>
          else c))"

definition BearerChallenge_parse :: "string \<Rightarrow> (OciError, BearerChallenge) result" where
  "BearerChallenge_parse value = (case strip_prefix ''Bearer '' value of
       None \<Rightarrow> Inl InvalidAuthChallenge
     | Some rest \<Rightarrow>
         (let challenge = foldl challenge_piece \<lparr>bc_realm = [], bc_service = None, bc_scope = None\<rparr>
                (split_on (CHR '','') rest)
          in if bc_realm challenge = [] then Inl InvalidAuthChallenge else Inr challenge))"

section \<open>Byte counts\<close>

text \<open>\<open>u64::checked_add\<close> with the length of a chunk.\<close>

definition checked_add :: "64 word \<Rightarrow> nat \<Rightarrow> 64 word option" where
  "checked_add a n = (if unat a + n < 2 ^ 64 then Some (a + of_nat n) else None)"

text \<open>The loop that reads a body in chunks up to a limit; a chunk may be a read error.\<close>

fun read_chunks ::
  "string \<Rightarrow> 64 word \<Rightarrow> (OciError, string) result list \<Rightarrow> 64 word \<Rightarrow> string \<Rightarrow> (OciError, string) result" where
  "read_chunks kind limit [] downloaded body = Inr body"
| "read_chunks kind limit (Inl e # cs) downloaded body = Inl e"
| "read_chunks kind limit (Inr chunk # cs) downloaded body =
     (case checked_add downloaded (length chunk) of
        None \<Rightarrow> Inl (BodyTooLarge kind limit)
      | Some so_far \<Rightarrow> if limit < so_far then Inl (BodyTooLarge kind limit)
          else read_chunks kind limit cs so_far (body @ chunk))"

section \<open>Lemmas\<close>

lemma split_once_rev: "c \<notin> set b \<Longrightarrow> rsplit_once c (a @ c # b) = Some (a, b)"
  by (simp add: rsplit_once_def split_once_append)

lemma rsplit_once_None: "rsplit_once c xs = None \<longleftrightarrow> c \<notin> set xs"
  by (simp add: rsplit_once_def split_once_None)

lemma rfind_app: "c \<notin> set b \<Longrightarrow> rfind c (a @ c # b) = Some (length a)"
  by (simp add: rfind_def split_once_rev)

lemma rfind_None: "rfind c xs = None \<longleftrightarrow> c \<notin> set xs"
  by (simp add: rfind_def rsplit_once_None)

lemma rfind_less: "rfind c xs = Some i \<Longrightarrow> i < length xs \<and> xs ! i = c"
  by (auto simp: rfind_def rsplit_once_def dest!: split_once_SomeD)
    (auto simp: rev_swap nth_append)

lemma rfind_prefix:
  assumes "c \<notin> set b"
  shows "rfind c (a @ b) = rfind c a"
proof (cases "c \<in> set a")
  case True
  then obtain x y where "a = x @ c # y" "c \<notin> set y" by (metis split_list_last)
  then show ?thesis using rfind_app [of c y x] rfind_app [of c "y @ b" x] assms by simp
next
  case False
  then show ?thesis using assms rfind_None [of c a] rfind_None [of c "a @ b"] by simp
qed

text \<open>A name whose last segment is not empty, followed by a tag.\<close>

lemma tag_colon_append:
  assumes "name \<noteq> []" and "last name \<noteq> CHR ''/''" and "CHR '':'' \<notin> set tag" and "CHR ''/'' \<notin> set tag"
  shows "tag_colon (name @ CHR '':'' # tag) = Some (length name)"
proof -
  have slash: "rfind (CHR ''/'') (name @ CHR '':'' # tag) = rfind (CHR ''/'') name"
    by (rule rfind_prefix) (use assms(4) in auto)
  have "i + 1 < length name" if i: "rfind (CHR ''/'') name = Some i" for i
  proof (rule ccontr)
    assume "\<not> ?thesis"
    with rfind_less [OF i] have "i = length name - 1" by linarith
    with rfind_less [OF i] assms(1,2) show False by (simp add: last_conv_nth)
  qed
  with slash show ?thesis
    using assms(1) rfind_app [OF assms(3), of name] by (auto simp: tag_colon_def Let_def split: option.splits)
qed

lemma tag_colon_port:
  assumes "CHR '':'' \<notin> set repo" and "CHR ''/'' \<notin> set reg"
  shows "tag_colon (reg @ CHR ''/'' # repo) = None"
proof -
  obtain i where i: "rfind (CHR ''/'') (reg @ CHR ''/'' # repo) = Some i"
    using rfind_None [of "CHR ''/''" "reg @ CHR ''/'' # repo"] by auto
  have "length reg \<le> i"
    using rfind_less [OF i] assms(2) by (metis in_set_conv_nth not_le_imp_less nth_append)
  moreover have "rfind (CHR '':'') (reg @ CHR ''/'' # repo) = rfind (CHR '':'') reg"
    by (rule rfind_prefix) (use assms(1) in auto)
  ultimately show ?thesis using i rfind_less [of "CHR '':''" reg]
    by (fastforce simp: tag_colon_def Let_def split: option.splits)
qed

lemma split_on_append: "c \<notin> set a \<Longrightarrow> split_on c (a @ c # b) = a # split_on c b"
  by (induction a) auto

lemma intersperse_split_on: "intersperse_str [c] (split_on c xs) = xs"
proof (induction xs)
  case (Cons x xs)
  then show ?case by (cases "split_on c xs") (auto simp: split: list.splits, (metis append_Cons intersperse_str.simps(2,3) list.exhaust)+)
qed simp


lemma find_app: "find P (xs @ ys) = (case find P xs of None \<Rightarrow> find P ys | Some x \<Rightarrow> Some x)"
  by (induction xs) auto

lemma env_map_get: "bt_get (env_map items m) n =
    (case find (\<lambda>v. env_name v = n) (rev items) of Some v \<Rightarrow> Some (env_value v) | None \<Rightarrow> bt_get m n)"
  by (induction items arbitrary: m) (auto simp: env_map_def bt_get_insert find_app split: option.splits)

lemma env_map_ok: "bt_ok m \<Longrightarrow> bt_ok (env_map items m)"
  by (induction items arbitrary: m) (auto simp: env_map_def bt_ok_insert)

lemma hexdigit_plain: "list_all is_ascii_hexdigit s \<Longrightarrow> CHR ''/'' \<notin> set s"
  by (auto simp: list_all_iff is_ascii_hexdigit_def is_ascii_digit_def char_between_def)

lemma read_chunks_ok:
  assumes "read_chunks kind limit cs n body = Inr r" and "unat n = length body" and "n \<le> limit"
  shows "r = body @ concat (map projr cs) \<and> length r \<le> unat limit"
  using assms
proof (induction kind limit cs n body rule: read_chunks.induct)
  case (1 kind limit n body)
  then show ?case by (simp add: word_le_nat_alt)
next
  case (3 kind limit chunk cs n body)
  then obtain m where m: "checked_add n (length chunk) = Some m" "\<not> limit < m"
      "read_chunks kind limit cs m (body @ chunk) = Inr r"
    by (auto split: option.splits if_splits)
  then have "unat m = length (body @ chunk)" using "3.prems"(2)
    by (auto simp: checked_add_def unat_word_ariths(1) unat_of_nat split: if_splits)
  with "3.IH" [OF m(1,2,3)] m(2) show ?case by (auto simp: not_less)
qed simp

section \<open>Properties\<close>

text \<open>The canonical spelling of a reference, and the references that have one.\<close>

definition show_reference :: "ImageReference \<Rightarrow> string" where
  "show_reference r = registry r @ ''/'' @ repository r @ (if reference_is_digest r then ''@'' else '':'') @ ref_reference r"

definition canonical_reference :: "ImageReference \<Rightarrow> bool" where
  "canonical_reference r \<longleftrightarrow> looks_like_registry (registry r) \<and> CHR ''/'' \<notin> set (registry r) \<and> CHR ''@'' \<notin> set (registry r)
     \<and> repository r \<noteq> [] \<and> last (repository r) \<noteq> CHR ''/'' \<and> CHR '':'' \<notin> set (repository r) \<and> CHR ''@'' \<notin> set (repository r)
     \<and> CHR ''@'' \<notin> set (ref_reference r)
     \<and> (reference_is_digest r \<or> CHR '':'' \<notin> set (ref_reference r) \<and> CHR ''/'' \<notin> set (ref_reference r))"

text \<open>
  C31. Parsing an image reference inverts writing it: registry (also with a port), repository and tag or
  digest are recovered exactly.
\<close>

theorem parse_show_reference:
  assumes "canonical_reference r"
  shows "ImageReference_parse (show_reference r) = Inr r"
proof -
  note c = assms [unfolded canonical_reference_def]
  define name where "name = registry r @ CHR ''/'' # repository r"
  have name: "name \<noteq> []" "last name \<noteq> CHR ''/''" using c by (auto simp: name_def)
  have parts: "split_on (CHR ''/'') name = registry r # split_on (CHR ''/'') (repository r)"
    unfolding name_def by (rule split_on_append) (use c in simp)
  have strip: "strip_tag name = name"
    using tag_colon_port [of "repository r" "registry r"] c by (simp add: strip_tag_def name_def)
  have split: "split_reference (show_reference r) = (name, Some (ref_reference r))"
    "rsplit_once (CHR ''@'') (show_reference r) \<noteq> None \<longleftrightarrow> reference_is_digest r"
  proof -
    have eq: "show_reference r = name @ (if reference_is_digest r then CHR ''@'' else CHR '':'') # ref_reference r"
      by (simp add: show_reference_def name_def)
    have "rsplit_once (CHR ''@'') (show_reference r) = (if reference_is_digest r then Some (name, ref_reference r) else None)"
      using c split_once_rev [of "CHR ''@''" "ref_reference r" name] by (auto simp: eq rsplit_once_None name_def)
    moreover have "tag_colon (show_reference r) = Some (length name)" if "\<not> reference_is_digest r"
      using tag_colon_append [OF name, of "ref_reference r"] c that by (simp add: eq)
    ultimately show "split_reference (show_reference r) = (name, Some (ref_reference r))"
      "rsplit_once (CHR ''@'') (show_reference r) \<noteq> None \<longleftrightarrow> reference_is_digest r"
      by (auto simp: split_reference_def strip eq)
  qed
  have "show_reference r \<noteq> []" by (simp add: show_reference_def)
  with c split parts show ?thesis
    by (simp add: ImageReference_parse_def Let_def intersperse_split_on Suc_lessI)
qed

theorem parse_show_reference_witness:
  "ImageReference_parse ''ghcr.io:443/a/b:1.2'' =
     Inr \<lparr>registry = ''ghcr.io:443'', repository = ''a/b'', ref_reference = ''1.2'', reference_is_digest = False\<rparr>"
proof -
  let ?r = "\<lparr>registry = ''ghcr.io:443'', repository = ''a/b'', ref_reference = ''1.2'', reference_is_digest = False\<rparr>"
  have "canonical_reference ?r" by (simp add: canonical_reference_def looks_like_registry_def)
  from parse_show_reference [OF this] show ?thesis by (simp add: show_reference_def)
qed

text \<open>
  The name of a cached blob is a single path component, so it stays in the cache directory whatever
  digest a manifest gives, and different digests have different names.
\<close>

theorem blob_filename_safe:
  assumes "blob_filename d = Inr f"
  shows "plain_segment f \<and> join cache f = cache @ [f] \<and> (blob_filename e = Inr f \<longrightarrow> e = d)"
proof -
  obtain h where h: "d = ''sha256:'' @ h" "list_all is_ascii_hexdigit h" "f = ''sha256-'' @ h @ ''.blob''"
    using assms by (auto simp: blob_filename_def strip_prefix_def prefix_def split: option.splits if_splits)
  then have "plain_segment f" using hexdigit_plain [OF h(2)] by (auto simp: plain_segment_def)
  moreover have "e = d" if "blob_filename e = Inr f"
    using that h by (auto simp: blob_filename_def strip_prefix_def prefix_def split: option.splits if_splits)
  ultimately show ?thesis by simp
qed

theorem blob_filename_safe_witness:
  "plain_segment (''sha256-'' @ replicate 64 (CHR ''a'') @ ''.blob'')"
proof -
  have "blob_filename (''sha256:'' @ replicate 64 (CHR ''a'')) = Inr (''sha256-'' @ replicate 64 (CHR ''a'') @ ''.blob'')"
    by (simp add: blob_filename_def strip_prefix_def list_all_iff is_ascii_hexdigit_def char_between_def)
  from blob_filename_safe [OF this] show ?thesis by blast
qed

text \<open>
  The environment of a container: each name once, in order; a variable of the request overrides one
  of the image, which overrides the default search path, and within a list the last one counts.
\<close>

theorem merged_env_spec:
  "\<exists>m. merged_env image_vars request_vars = map (\<lambda>(n, v). n @ ''='' @ v) m \<and> bt_ok m
     \<and> (\<forall>n. bt_get m n = (case find (\<lambda>v. env_name v = n) (rev request_vars) of Some v \<Rightarrow> Some (env_value v)
        | None \<Rightarrow> (case find (\<lambda>v. env_name v = n) (rev image_vars) of Some v \<Rightarrow> Some (env_value v)
        | None \<Rightarrow> if n = ''PATH'' then Some DEFAULT_PATH else None)))"
proof -
  let ?m = "env_map (image_vars @ request_vars) (bt_insert ''PATH'' DEFAULT_PATH [])"
  have "bt_ok ?m" by (intro env_map_ok bt_ok_insert bt_ok_Nil)
  moreover have "bt_get ?m n = (case find (\<lambda>v. env_name v = n) (rev request_vars) of Some v \<Rightarrow> Some (env_value v)
        | None \<Rightarrow> (case find (\<lambda>v. env_name v = n) (rev image_vars) of Some v \<Rightarrow> Some (env_value v)
        | None \<Rightarrow> if n = ''PATH'' then Some DEFAULT_PATH else None))" for n
    by (simp add: env_map_get find_app split: option.splits)
  ultimately show ?thesis unfolding merged_env_def by blast
qed


text \<open>
  The address blocks no registry may be in, as network and prefix length: this host, private networks,
  carrier-grade NAT, loopback, link local, protocol assignments, multicast and broadcast.
\<close>

definition forbidden_blocks :: "(nat \<times> nat) list" where
  "forbidden_blocks = [(0, 8), (10 * 2 ^ 24, 8), (100 * 2 ^ 24 + 64 * 2 ^ 16, 10), (127 * 2 ^ 24, 8),
     (169 * 2 ^ 24 + 254 * 2 ^ 16, 16), (172 * 2 ^ 24 + 16 * 2 ^ 16, 12), (192 * 2 ^ 24, 24),
     (192 * 2 ^ 24 + 168 * 2 ^ 16, 16), (224 * 2 ^ 24, 4), (2 ^ 32 - 1, 32)]"

definition address :: "8 word \<Rightarrow> 8 word \<Rightarrow> 8 word \<Rightarrow> 8 word \<Rightarrow> nat" where
  "address a b c d = unat a * 2 ^ 24 + unat b * 2 ^ 16 + unat c * 2 ^ 8 + unat d"

definition in_block :: "nat \<Rightarrow> nat \<times> nat \<Rightarrow> bool" where
  "in_block ip blk \<longleftrightarrow> ip div 2 ^ (32 - snd blk) = fst blk div 2 ^ (32 - snd blk)"

lemma top_two_bits_table: "list_all (\<lambda>n. ((of_nat n :: 8 word) AND 0xc0 = 0x40) = (n div 64 = 1)) [0..<256]"
  by code_simp

lemma unat_8: "unat (x :: 8 word) < 256"
  using unsigned_less [of x] by simp

lemma top_two_bits: "(b :: 8 word) AND 0xc0 = 0x40 \<longleftrightarrow> unat b div 64 = 1"
  using top_two_bits_table [unfolded list_all_iff, rule_format, of "unat b"] unat_8 [of b] by simp

lemma address_div:
  "address a b c d div 16777216 = unat a" "address a b c d div 4194304 = unat a * 4 + unat b div 64"
  "address a b c d div 65536 = unat a * 256 + unat b" "address a b c d div 1048576 = unat a * 16 + unat b div 16"
  "address a b c d div 256 = unat a * 65536 + unat b * 256 + unat c" "address a b c d div 268435456 = unat a div 16"
  using unat_8 [of a] unat_8 [of b] unat_8 [of c] unat_8 [of d] by (simp_all add: address_def)

lemma in_forbidden_blocks:
  "(\<exists>blk \<in> set forbidden_blocks. in_block (address a b c d) blk) \<longleftrightarrow>
     unat a = 0 \<or> unat a = 10 \<or> (unat a = 100 \<and> unat b div 64 = 1) \<or> unat a = 127 \<or> (unat a = 169 \<and> unat b = 254)
     \<or> (unat a = 172 \<and> unat b div 16 = 1) \<or> (unat a = 192 \<and> unat b = 0 \<and> unat c = 0) \<or> (unat a = 192 \<and> unat b = 168)
     \<or> unat a div 16 = 14 \<or> (unat a = 255 \<and> unat b = 255 \<and> unat c = 255 \<and> unat d = 255)"
proof -
  have digits: "x * n + y = u * n + v \<longleftrightarrow> x = u \<and> y = v" if "y < n" "v < n" for x y u v n :: nat
  proof
    assume e: "x * n + y = u * n + v"
    have "x = (x * n + y) div n" "u = (u * n + v) div n" using that by auto
    with e have "x = u" by metis
    with e show "x = u \<and> y = v" by simp
  qed simp
  have 1: "x * 4 + y div 64 = 401 \<longleftrightarrow> x = 100 \<and> y div 64 = 1" if "y < 256" for x y :: nat
    using digits [of "y div 64" 4 1 x 100] that by simp
  have 2: "x * 256 + y = 43518 \<longleftrightarrow> x = 169 \<and> y = 254" if "y < 256" for x y :: nat
    using digits [of y 256 254 x 169] that by simp
  have 3: "x * 16 + y div 16 = 2753 \<longleftrightarrow> x = 172 \<and> y div 16 = 1" if "y < 256" for x y :: nat
    using digits [of "y div 16" 16 1 x 172] that by simp
  have 4: "x * 65536 + y * 256 + z = 12582912 \<longleftrightarrow> x = 192 \<and> y = 0 \<and> z = 0" if "y < 256" "z < 256" for x y z :: nat
    using digits [of "y * 256 + z" 65536 0 x 192] that by (simp add: add.assoc)
  have 5: "x * 256 + y = 49320 \<longleftrightarrow> x = 192 \<and> y = 168" if "y < 256" for x y :: nat
    using digits [of y 256 168 x 192] that by simp
  note bounds = unat_8 [of a] unat_8 [of b] unat_8 [of c] unat_8 [of d]
  have 6: "address a b c d = 4294967295 \<longleftrightarrow> unat a = 255 \<and> unat b = 255 \<and> unat c = 255 \<and> unat d = 255"
  proof
    assume e: "address a b c d = 4294967295"
    have "unat a = 255" using e bounds by (simp add: address_def)
    moreover from this have "unat b = 255" using e bounds by (simp add: address_def)
    moreover from calculation have "unat c = 255" using e bounds by (simp add: address_def)
    ultimately show "unat a = 255 \<and> unat b = 255 \<and> unat c = 255 \<and> unat d = 255" using e by (simp add: address_def)
  qed (simp add: address_def)
  note blocks = in_block_def address_div 6
  have "in_block (address a b c d) (0, 8) \<longleftrightarrow> unat a = 0"
    "in_block (address a b c d) (10 * 2 ^ 24, 8) \<longleftrightarrow> unat a = 10"
    "in_block (address a b c d) (100 * 2 ^ 24 + 64 * 2 ^ 16, 10) \<longleftrightarrow> unat a = 100 \<and> unat b div 64 = 1"
    "in_block (address a b c d) (127 * 2 ^ 24, 8) \<longleftrightarrow> unat a = 127"
    "in_block (address a b c d) (169 * 2 ^ 24 + 254 * 2 ^ 16, 16) \<longleftrightarrow> unat a = 169 \<and> unat b = 254"
    "in_block (address a b c d) (172 * 2 ^ 24 + 16 * 2 ^ 16, 12) \<longleftrightarrow> unat a = 172 \<and> unat b div 16 = 1"
    "in_block (address a b c d) (192 * 2 ^ 24, 24) \<longleftrightarrow> unat a = 192 \<and> unat b = 0 \<and> unat c = 0"
    "in_block (address a b c d) (192 * 2 ^ 24 + 168 * 2 ^ 16, 16) \<longleftrightarrow> unat a = 192 \<and> unat b = 168"
    "in_block (address a b c d) (224 * 2 ^ 24, 4) \<longleftrightarrow> unat a div 16 = 14"
    "in_block (address a b c d) (2 ^ 32 - 1, 32) \<longleftrightarrow> unat a = 255 \<and> unat b = 255 \<and> unat c = 255 \<and> unat d = 255"
    by (simp_all add: blocks 1 [OF bounds(2)] 2 [OF bounds(2)] 3 [OF bounds(2)] 4 [OF bounds(2,3)] 5 [OF bounds(2)])
  then show ?thesis unfolding forbidden_blocks_def by simp
qed

lemma unat_8_eq: "n < 256 \<Longrightarrow> (x :: 8 word) = of_nat n \<longleftrightarrow> unat x = n"
  by (auto simp: unat_of_nat)

text \<open>
  The test for forbidden registry addresses, written as comparisons of octets and bits, is
  membership in the table of address blocks.
\<close>

theorem forbidden_ipv4_table:
  "forbidden_ipv4_host a b c d \<longleftrightarrow> (\<exists>blk \<in> set forbidden_blocks. in_block (address a b c d) blk)"
proof -
  have b16: "16 \<le> b \<and> b \<le> 31 \<longleftrightarrow> unat b div 16 = 1"
    unfolding word_le_nat_alt by auto
  have a224: "224 \<le> a \<and> a \<le> 239 \<longleftrightarrow> unat a div 16 = 14"
    unfolding word_le_nat_alt by auto
  have z: "(x :: 8 word) = 0 \<longleftrightarrow> unat x = 0" for x by (simp add: unat_eq_0)
  have eqs: "(x :: 8 word) = 127 \<longleftrightarrow> unat x = 127" "x = 10 \<longleftrightarrow> unat x = 10" "x = 172 \<longleftrightarrow> unat x = 172"
    "x = 192 \<longleftrightarrow> unat x = 192" "x = 168 \<longleftrightarrow> unat x = 168" "x = 169 \<longleftrightarrow> unat x = 169" "x = 254 \<longleftrightarrow> unat x = 254"
    "x = 255 \<longleftrightarrow> unat x = 255" "x = 100 \<longleftrightarrow> unat x = 100" for x
    using unat_8_eq [of 127 x] unat_8_eq [of 10 x] unat_8_eq [of 172 x] unat_8_eq [of 192 x] unat_8_eq [of 168 x]
      unat_8_eq [of 169 x] unat_8_eq [of 254 x] unat_8_eq [of 255 x] unat_8_eq [of 100 x] by simp_all
  show ?thesis
    unfolding in_forbidden_blocks forbidden_ipv4_host_def is_loopback_def is_private_def is_link_local_def is_multicast_def
      top_two_bits b16 a224 eqs z by blast
qed

end
