(* ===== verification/Layers.thy ===== *)
theory Layers
  imports Images
begin

unbundle bit_operations_syntax

text \<open>
  Unpacking the layers of an image (\<open>oad-oci/src/lib.rs\<close>) into a staging directory. An archive is
  untrusted: its entries may name any path and create symbolic links, so the file system here has
  symbolic links and every call follows them the way the kernel does. The archive reader (\<open>tar\<close>,
  \<open>flate2\<close>) is a parameter: an archive is the sequence of what the reader returns. Permission bits of
  directories are not part of the tree; paths in messages are shown in normalised form.
\<close>

section \<open>A file system with symbolic links\<close>

datatype inode = Regular "32 word" string | Symlink string

type_synonym tree = "inode disk"

fun is_symlink :: "inode node option \<Rightarrow> bool" where
  "is_symlink (Some (File (Symlink _))) = True"
| "is_symlink _ = False"

text \<open>
  Path resolution: \<open>cur\<close> is the directory reached, then the components still to go. A symbolic link is
  replaced by its target, at most \<open>hops\<close> times (the kernel allows 40); a last component that does not
  exist is returned as it is.
\<close>

function walk :: "nat \<Rightarrow> tree \<Rightarrow> path \<Rightarrow> path \<Rightarrow> (io_error, path) result" where
  "walk hops d cur [] = Inr cur"
| "walk hops d cur (c # cs) =
     (if c = ''..'' then walk hops d (if length cur \<le> 1 then cur else butlast cur) cs
      else (case d_get d (cur @ [c]) of
          Some Dir \<Rightarrow> walk hops d (cur @ [c]) cs
        | Some (File (Symlink link)) \<Rightarrow>
            (case hops of 0 \<Rightarrow> Inl (OtherIo ''Too many levels of symbolic links'')
             | Suc n \<Rightarrow> if is_absolute link then walk n d [] (path_of link @ cs) else walk n d cur (components link @ cs))
        | Some (File (Regular _ _)) \<Rightarrow> if cs = [] then Inr (cur @ [c]) else Inl (OtherIo ''Not a directory'')
        | None \<Rightarrow> if cs = [] then Inr (cur @ [c]) else Inl NotFound))"
  by pat_completeness auto

termination
  by (relation "measures [\<lambda>(hops, d, cur, cs). hops, \<lambda>(hops, d, cur, cs). length cs]") auto

declare walk.simps [simp del]

definition MAX_LINKS :: nat where
  "MAX_LINKS = 40"

text \<open>The directory a call works in, and the entry there: all but the last component are followed.\<close>

definition entry_of :: "tree \<Rightarrow> path \<Rightarrow> (io_error, path) result" where
  "entry_of d p = (if p = [] then Inl NotFound else (case walk MAX_LINKS d [] (butlast p) of
       Inl e \<Rightarrow> Inl e
     | Inr q \<Rightarrow> (if is_dir d q then Inr (q @ [last p])
         else if d_get d q = None then Inl NotFound else Inl (OtherIo ''Not a directory''))))"

text \<open>
  The outside: faults of the calls as in \<open>Disk\<close>, those of \<open>lstat\<close> apart, and the state with the bytes
  that the image may still unpack.
\<close>

datatype EntryType = EtDirectory | EtRegular | EtSymlink | EtLink | EtChar | EtBlock | EtFifo | EtOther string

text \<open>What the archive reader returns of one entry; the body comes in reads of the copying loop.\<close>

record tar_entry =
  te_path :: "(io_error, string) result"
  te_type :: EntryType
  te_mode :: "(io_error, 32 word) result"
  te_link :: "(io_error, string option) result"
  te_body :: "(io_error, string) result list"

type_synonym archive = "(io_error, (io_error, tar_entry) result list) result"

text \<open>\<open>untar gzip bytes\<close>: the archive of a file, as the reader returns it at that moment.\<close>

record layer_ext = "inode run_ext" +
  lstat_fault :: "nat \<Rightarrow> string option"
  umask :: "32 word"
  untar :: "nat \<Rightarrow> bool \<Rightarrow> string \<Rightarrow> archive"

record layer_world = "inode run_world" +
  remaining :: "64 word"

definition symlink_metadata ::
  "'x layer_ext_scheme \<Rightarrow> path \<Rightarrow> ('z layer_world_scheme, io_error, inode node) comp" where
  "symlink_metadata ex p = (\<lambda>w. let t = tick w; w' = w\<lparr>tick := Suc t\<rparr> in
     case lstat_fault ex t of Some e \<Rightarrow> (Inl (OtherIo e), w')
     | None \<Rightarrow> (case entry_of (disk w) p of Inl e \<Rightarrow> (Inl e, w')
        | Inr q \<Rightarrow> (case d_get (disk w) q of None \<Rightarrow> (Inl NotFound, w') | Some n \<Rightarrow> (Inr n, w'))))"

text \<open>\<open>create_dir_all\<close>: existing directories are entered, links to directories too, missing ones made.\<close>

fun make_dirs :: "tree \<Rightarrow> path \<Rightarrow> path \<Rightarrow> (io_error, tree) result" where
  "make_dirs d cur [] = Inr d"
| "make_dirs d cur (c # cs) = (case d_get d (cur @ [c]) of
       None \<Rightarrow> make_dirs (d_put (cur @ [c]) Dir d) (cur @ [c]) cs
     | Some Dir \<Rightarrow> make_dirs d (cur @ [c]) cs
     | Some (File (Regular _ _)) \<Rightarrow> Inl (OtherIo ''Not a directory'')
     | Some (File (Symlink _)) \<Rightarrow> (case walk MAX_LINKS d cur [c] of
           Inl e \<Rightarrow> Inl e
         | Inr q \<Rightarrow> if is_dir d q then make_dirs d q cs else Inl (OtherIo ''File exists'')))"

definition l_create_dir_all :: "'x layer_ext_scheme \<Rightarrow> path \<Rightarrow> ('z layer_world_scheme, io_error, unit) comp" where
  "l_create_dir_all ex p = syscall ex
     (\<lambda>t d. case make_dirs d [] (take (made ex t) p) of Inl _ \<Rightarrow> d | Inr d' \<Rightarrow> d')
     (\<lambda>d. case make_dirs d [] p of Inl e \<Rightarrow> Inl e | Inr d' \<Rightarrow> Inr ((), d'))"

definition l_remove_file :: "'x layer_ext_scheme \<Rightarrow> path \<Rightarrow> ('z layer_world_scheme, io_error, unit) comp" where
  "l_remove_file ex p = syscall ex untouched (\<lambda>d. case entry_of d p of Inl e \<Rightarrow> Inl e
     | Inr q \<Rightarrow> (case d_get d q of None \<Rightarrow> Inl NotFound | Some Dir \<Rightarrow> Inl (OtherIo ''Is a directory'')
         | Some (File _) \<Rightarrow> Inr ((), d_del q d)))"

text \<open>A failing recursive removal leaves some of the entries, each with its parents.\<close>

definition partly_removed :: "(path \<Rightarrow> bool) \<Rightarrow> path \<Rightarrow> tree \<Rightarrow> tree" where
  "partly_removed keep q d =
     filter (\<lambda>e. list_all (\<lambda>r. strict_prefix q r \<longrightarrow> keep r) (prefixes (fst e))) d"

definition l_remove_dir_all :: "'x layer_ext_scheme \<Rightarrow> path \<Rightarrow> ('z layer_world_scheme, io_error, unit) comp" where
  "l_remove_dir_all ex p = syscall ex
     (\<lambda>t d. case entry_of d p of Inl _ \<Rightarrow> d | Inr q \<Rightarrow> partly_removed (survives ex t) q d)
     (\<lambda>d. case entry_of d p of Inl e \<Rightarrow> Inl e
       | Inr q \<Rightarrow> (case d_get d q of None \<Rightarrow> Inl NotFound | Some (File _) \<Rightarrow> Inl (OtherIo ''Not a directory'')
           | Some Dir \<Rightarrow> Inr ((), d_del_tree q d)))"

definition symlink :: "'x layer_ext_scheme \<Rightarrow> string \<Rightarrow> path \<Rightarrow> ('z layer_world_scheme, io_error, unit) comp" where
  "symlink ex link p = syscall ex untouched (\<lambda>d. case entry_of d p of Inl e \<Rightarrow> Inl e
     | Inr q \<Rightarrow> if d_get d q \<noteq> None then Inl AlreadyExists else Inr ((), d_put q (File (Symlink link)) d))"

text \<open>A file is never written once its creation is over, so a hard link is a second entry with the same content.\<close>

definition hard_link :: "'x layer_ext_scheme \<Rightarrow> path \<Rightarrow> path \<Rightarrow> ('z layer_world_scheme, io_error, unit) comp" where
  "hard_link ex original link = syscall ex untouched (\<lambda>d. case entry_of d original of Inl e \<Rightarrow> Inl e
     | Inr q \<Rightarrow> (case d_get d q of None \<Rightarrow> Inl NotFound | Some Dir \<Rightarrow> Inl (OtherIo ''Operation not permitted'')
         | Some (File i) \<Rightarrow> (case entry_of d link of Inl e \<Rightarrow> Inl e
             | Inr r \<Rightarrow> if d_get d r \<noteq> None then Inl AlreadyExists else Inr ((), d_put r (File i) d))))"

text \<open>\<open>create_new\<close> with \<open>O_NOFOLLOW\<close>; the handle is the entry the file has.\<close>

definition open_new :: "'x layer_ext_scheme \<Rightarrow> 32 word \<Rightarrow> path \<Rightarrow> ('z layer_world_scheme, io_error, path) comp" where
  "open_new ex mode p = syscall ex untouched (\<lambda>d. case entry_of d p of Inl e \<Rightarrow> Inl e
     | Inr q \<Rightarrow> if d_get d q \<noteq> None then Inl AlreadyExists
         else Inr (q, d_put q (File (Regular (mode AND NOT (umask ex)) [])) d))"

definition append_bytes :: "string \<Rightarrow> path \<Rightarrow> tree \<Rightarrow> tree" where
  "append_bytes chunk q d = (case d_get d q of Some (File (Regular m s)) \<Rightarrow> d_put q (File (Regular m (s @ chunk))) d | _ \<Rightarrow> d)"

definition write_chunk :: "'x layer_ext_scheme \<Rightarrow> path \<Rightarrow> string \<Rightarrow> ('z layer_world_scheme, io_error, unit) comp" where
  "write_chunk ex handle chunk = syscall ex (\<lambda>t. append_bytes (take (made ex t) chunk) handle)
     (\<lambda>d. Inr ((), append_bytes chunk handle d))"

text \<open>\<open>set_permissions\<close>, by path (links are followed) and on an open file.\<close>

definition chmod :: "32 word \<Rightarrow> path \<Rightarrow> tree \<Rightarrow> tree" where
  "chmod mode q d = (case d_get d q of Some (File (Regular _ s)) \<Rightarrow> d_put q (File (Regular mode s)) d | _ \<Rightarrow> d)"

definition set_permissions :: "'x layer_ext_scheme \<Rightarrow> path \<Rightarrow> 32 word \<Rightarrow> ('z layer_world_scheme, io_error, unit) comp" where
  "set_permissions ex p mode = syscall ex untouched (\<lambda>d. case walk MAX_LINKS d [] p of Inl e \<Rightarrow> Inl e
     | Inr q \<Rightarrow> if is_dir d q \<or> d_get d q \<noteq> None then Inr ((), chmod mode q d) else Inl NotFound)"

definition file_set_permissions ::
  "'x layer_ext_scheme \<Rightarrow> path \<Rightarrow> 32 word \<Rightarrow> ('z layer_world_scheme, io_error, unit) comp" where
  "file_set_permissions ex handle mode = syscall ex untouched (\<lambda>d. Inr ((), chmod mode handle d))"

text \<open>\<open>exists\<close>, \<open>read_dir\<close> and \<open>File::open\<close> follow a link at the end of the path as well; \<open>exists\<close> is false on errors.\<close>

definition l_exists :: "'x layer_ext_scheme \<Rightarrow> path \<Rightarrow> ('z layer_world_scheme, 'e, bool) comp" where
  "l_exists ex p = try_case (syscall ex untouched (\<lambda>d. case walk MAX_LINKS d [] p of Inl e \<Rightarrow> Inl e
     | Inr q \<Rightarrow> Inr (is_dir d q \<or> d_get d q \<noteq> None, d))) (\<lambda>_. ok False) ok"

definition l_read_dir :: "'x layer_ext_scheme \<Rightarrow> path \<Rightarrow> ('z layer_world_scheme, io_error, string list) comp" where
  "l_read_dir ex p = syscall ex untouched (\<lambda>d. case walk MAX_LINKS d [] p of Inl e \<Rightarrow> Inl e
     | Inr q \<Rightarrow> if is_dir d q then Inr (child_names d q, d)
         else if d_get d q = None then Inl NotFound else Inl (OtherIo ''Not a directory''))"

definition l_next_entry :: "'x layer_ext_scheme \<Rightarrow> ('z layer_world_scheme, io_error, unit) comp" where
  "l_next_entry ex = syscall ex untouched (\<lambda>d. Inr ((), d))"

definition l_read :: "'x layer_ext_scheme \<Rightarrow> path \<Rightarrow> ('z layer_world_scheme, io_error, string) comp" where
  "l_read ex p = syscall ex untouched (\<lambda>d. case walk MAX_LINKS d [] p of Inl e \<Rightarrow> Inl e
     | Inr q \<Rightarrow> (case d_get d q of Some (File (Regular _ s)) \<Rightarrow> Inr (s, d) | None \<Rightarrow> Inl NotFound
         | _ \<Rightarrow> Inl (OtherIo ''Is a directory'')))"

section \<open>Paths of an archive\<close>

definition safe_join :: "path \<Rightarrow> path \<Rightarrow> (OciError, path) result" where
  "safe_join rootfs p =
     (if list_ex (\<lambda>c. c = ''..'' \<or> c = root_component) p then Inl (UnsafeArchivePath (display p)) else Inr (rootfs @ p))"

fun no_symlink_below :: "'x layer_ext_scheme \<Rightarrow> path \<Rightarrow> path \<Rightarrow> ('z layer_world_scheme, OciError, unit) comp" where
  "no_symlink_below ex cursor [] = ok ()"
| "no_symlink_below ex cursor (c # cs) =
     (if c = ''..'' \<or> c = root_component then no_symlink_below ex cursor cs
      else try_case (symlink_metadata ex (cursor @ [c]))
        (\<lambda>_. no_symlink_below ex (cursor @ [c]) cs)
        (\<lambda>n. if is_symlink (Some n) then err (UnsafeArchivePath (display (cursor @ [c])))
             else no_symlink_below ex (cursor @ [c]) cs))"

definition ensure_parent_safe :: "'x layer_ext_scheme \<Rightarrow> path \<Rightarrow> path \<Rightarrow> ('z layer_world_scheme, OciError, unit) comp" where
  "ensure_parent_safe ex rootfs target = (let p = (case parent target of None \<Rightarrow> rootfs | Some q \<Rightarrow> q) in
     if prefix rootfs p then no_symlink_below ex rootfs (drop (length rootfs) p)
     else err (UnsafeArchivePath (display target @ '' escapes '' @ display rootfs)))"

definition remove_path_if_exists :: "'x layer_ext_scheme \<Rightarrow> path \<Rightarrow> ('z layer_world_scheme, OciError, unit) comp" where
  "remove_path_if_exists ex p = try_case (symlink_metadata ex p)
     (\<lambda>e. if e = NotFound then ok () else err (oci_io e))
     (\<lambda>n. if n = Dir then map_err oci_io (l_remove_dir_all ex p) else map_err oci_io (l_remove_file ex p))"

text \<open>\<open>to_str\<close> of a name fails when the bytes are not UTF-8.\<close>

fun continuation :: "nat \<Rightarrow> nat \<Rightarrow> nat \<Rightarrow> string \<Rightarrow> string option" where
  "continuation 0 lo hi s = Some s"
| "continuation (Suc n) lo hi [] = None"
| "continuation (Suc n) lo hi (c # s) =
     (if lo \<le> of_char c \<and> of_char c \<le> hi then continuation n 0x80 0xBF s else None)"

lemma continuation_length: "continuation n lo hi s = Some r \<Longrightarrow> length r \<le> length s"
  by (induction n lo hi s rule: continuation.induct) (auto split: if_splits)

function valid_utf8 :: "string \<Rightarrow> bool" where
  "valid_utf8 [] = True"
| "valid_utf8 (c # s) = (let b = (of_char c :: nat) in
     case (if b < 0x80 then Some s
       else if 0xC2 \<le> b \<and> b \<le> 0xDF then continuation 1 0x80 0xBF s
       else if b = 0xE0 then continuation 2 0xA0 0xBF s
       else if b = 0xED then continuation 2 0x80 0x9F s
       else if 0xE1 \<le> b \<and> b \<le> 0xEF then continuation 2 0x80 0xBF s
       else if b = 0xF0 then continuation 3 0x90 0xBF s
       else if b = 0xF4 then continuation 3 0x80 0x8F s
       else if 0xF1 \<le> b \<and> b \<le> 0xF3 then continuation 3 0x80 0xBF s
       else None)
     of None \<Rightarrow> False | Some r \<Rightarrow> valid_utf8 r)"
  by pat_completeness auto

termination
  by (relation "measure length") (auto split: if_splits dest: continuation_length)

declare valid_utf8.simps(2) [simp del]

section \<open>Unpacking\<close>

definition l_create_parent :: "'x layer_ext_scheme \<Rightarrow> path \<Rightarrow> ('z layer_world_scheme, OciError, unit) comp" where
  "l_create_parent ex target = (case parent target of None \<Rightarrow> ok () | Some q \<Rightarrow> map_err oci_io (l_create_dir_all ex q))"

definition whiteout_entry :: "'x layer_ext_scheme \<Rightarrow> path \<Rightarrow> string \<Rightarrow> ('z layer_world_scheme, OciError, unit) comp" where
  "whiteout_entry ex par name = andThen (map_err oci_io (l_next_entry ex)) (\<lambda>_. remove_path_if_exists ex (par @ [name]))"

definition handle_whiteout :: "'x layer_ext_scheme \<Rightarrow> path \<Rightarrow> path \<Rightarrow> ('z layer_world_scheme, OciError, bool) comp" where
  "handle_whiteout ex rootfs p = (case file_name p of
       None \<Rightarrow> ok False
     | Some name \<Rightarrow>
        if \<not> valid_utf8 name then ok False
        else if name = ''.wh..wh..opq'' then
          andThen (lift_result (safe_join rootfs (case parent p of None \<Rightarrow> [] | Some q \<Rightarrow> q))) (\<lambda>par.
          andThen (ensure_parent_safe ex rootfs (par @ [''.opq-check''])) (\<lambda>_.
          andThen (l_exists ex par) (\<lambda>there.
          andThen (if there then andThen (map_err oci_io (l_read_dir ex par)) (\<lambda>names. for_each names (whiteout_entry ex par))
                   else ok ()) (\<lambda>_.
          ok True))))
        else (case strip_prefix ''.wh.'' name of
            None \<Rightarrow> ok False
          | Some stripped \<Rightarrow>
              andThen (lift_result (safe_join rootfs (join (case parent p of None \<Rightarrow> [] | Some q \<Rightarrow> q) stripped))) (\<lambda>target.
              andThen (ensure_parent_safe ex rootfs target) (\<lambda>_.
              andThen (remove_path_if_exists ex target) (\<lambda>_.
              ok True)))))"

definition ensure_directory ::
  "'x layer_ext_scheme \<Rightarrow> path \<Rightarrow> path \<Rightarrow> 32 word option \<Rightarrow> ('z layer_world_scheme, OciError, unit) comp" where
  "ensure_directory ex rootfs target mode =
     andThen (ensure_parent_safe ex rootfs target) (\<lambda>_.
     andThen (try_case (symlink_metadata ex target)
        (\<lambda>e. if e = NotFound then ok () else err (oci_io e))
        (\<lambda>n. if n \<noteq> Dir then remove_path_if_exists ex target else ok ())) (\<lambda>_.
     andThen (map_err oci_io (l_create_dir_all ex target)) (\<lambda>_.
     case mode of None \<Rightarrow> ok () | Some m \<Rightarrow> ignore (set_permissions ex target m))))"

text \<open>The budget of an image: \<open>take\<close> is one atomic \<open>checked_sub\<close>, \<open>copy\<close> takes before it writes.\<close>

definition budget_take :: "nat \<Rightarrow> ('z layer_world_scheme, OciError, unit) comp" where
  "budget_take amount =
     andThen (gets remaining) (\<lambda>r.
     if of_nat amount \<le> r then modify (\<lambda>w. w\<lparr>remaining := r - of_nat amount\<rparr>)
     else err (BodyTooLarge ''unpacked image'' MAX_UNPACKED_IMAGE_BYTES))"

fun budget_copy :: "'x layer_ext_scheme \<Rightarrow> path \<Rightarrow> (io_error, string) result list \<Rightarrow> ('z layer_world_scheme, OciError, unit) comp" where
  "budget_copy ex handle [] = ok ()"
| "budget_copy ex handle (Inl e # cs) = err (oci_io e)"
| "budget_copy ex handle (Inr chunk # cs) =
     (if chunk = [] then ok ()
      else andThen (budget_take (length chunk)) (\<lambda>_.
           andThen (map_err oci_io (write_chunk ex handle chunk)) (\<lambda>_.
           budget_copy ex handle cs)))"

definition write_regular_file ::
  "'x layer_ext_scheme \<Rightarrow> path \<Rightarrow> path \<Rightarrow> 32 word \<Rightarrow> (io_error, string) result list
   \<Rightarrow> ('z layer_world_scheme, OciError, unit) comp" where
  "write_regular_file ex rootfs target mode contents =
     andThen (ensure_parent_safe ex rootfs target) (\<lambda>_.
     andThen (l_create_parent ex target) (\<lambda>_.
     andThen (remove_path_if_exists ex target) (\<lambda>_.
     andThen (map_err oci_io (open_new ex (mode AND 0xFFF) target)) (\<lambda>handle.
     andThen (budget_copy ex handle contents) (\<lambda>_.
     ignore (file_set_permissions ex handle (mode AND 0xFFF)))))))"

text \<open>Here the body is empty, so that the budget of its own that the code makes is not drawn on.\<close>

definition ensure_regular_file_exists ::
  "'x layer_ext_scheme \<Rightarrow> path \<Rightarrow> path \<Rightarrow> 32 word \<Rightarrow> ('z layer_world_scheme, OciError, unit) comp" where
  "ensure_regular_file_exists ex rootfs target mode =
     andThen (ensure_parent_safe ex rootfs target) (\<lambda>_.
     try_case (symlink_metadata ex target)
       (\<lambda>e. if e \<noteq> NotFound then err (oci_io e) else write_regular_file ex rootfs target mode [])
       (\<lambda>n. case n of File (Regular _ _) \<Rightarrow> ok () | _ \<Rightarrow> write_regular_file ex rootfs target mode []))"

definition extract_symlink :: "'x layer_ext_scheme \<Rightarrow> path \<Rightarrow> path \<Rightarrow> tar_entry \<Rightarrow> ('z layer_world_scheme, OciError, unit) comp" where
  "extract_symlink ex p target e =
     andThen (map_err oci_io (lift_result (te_link e))) (\<lambda>name.
     case name of None \<Rightarrow> err (UnsafeArchivePath (display p))
     | Some link_name \<Rightarrow>
        andThen (l_create_parent ex target) (\<lambda>_.
        andThen (remove_path_if_exists ex target) (\<lambda>_.
        map_err oci_io (symlink ex link_name target))))"

definition extract_link ::
  "'x layer_ext_scheme \<Rightarrow> path \<Rightarrow> path \<Rightarrow> path \<Rightarrow> tar_entry \<Rightarrow> ('z layer_world_scheme, OciError, unit) comp" where
  "extract_link ex rootfs p target e =
     andThen (map_err oci_io (lift_result (te_link e))) (\<lambda>name.
     case name of None \<Rightarrow> err (UnsafeArchivePath (display p))
     | Some link_name \<Rightarrow>
        andThen (lift_result (safe_join rootfs (components link_name))) (\<lambda>source.
        andThen (ensure_parent_safe ex rootfs source) (\<lambda>_.
        andThen (map_err oci_io (symlink_metadata ex source)) (\<lambda>n.
        if is_symlink (Some n) then err (UnsafeArchivePath (display source))
        else andThen (l_create_parent ex target) (\<lambda>_.
             andThen (remove_path_if_exists ex target) (\<lambda>_.
             map_err oci_io (hard_link ex source target)))))))"

text \<open>\<open>path == "."\<close>, as Rust compares paths.\<close>

definition is_cur_dir :: "string \<Rightarrow> bool" where
  "is_cur_dir s \<longleftrightarrow> s \<noteq> [] \<and> path_of s = []"

definition extract_target :: "'x layer_ext_scheme \<Rightarrow> path \<Rightarrow> path \<Rightarrow> path \<Rightarrow> tar_entry \<Rightarrow> ('z layer_world_scheme, OciError, unit) comp" where
  "extract_target ex rootfs p target e = (case te_type e of
       EtDirectory \<Rightarrow> andThen (map_err oci_io (lift_result (te_mode e))) (\<lambda>m. ensure_directory ex rootfs target (Some m))
     | EtRegular \<Rightarrow> andThen (map_err oci_io (lift_result (te_mode e))) (\<lambda>m. write_regular_file ex rootfs target m (te_body e))
     | EtSymlink \<Rightarrow> extract_symlink ex p target e
     | EtLink \<Rightarrow> extract_link ex rootfs p target e
     | EtChar \<Rightarrow> ok () | EtBlock \<Rightarrow> ok () | EtFifo \<Rightarrow> ok ()
     | EtOther other \<Rightarrow> err (UnsupportedTarEntry other))"

definition extract_entry ::
  "'x layer_ext_scheme \<Rightarrow> path \<Rightarrow> (io_error, tar_entry) result \<Rightarrow> ('z layer_world_scheme, OciError, unit) comp" where
  "extract_entry ex rootfs item =
     andThen (map_err oci_io (lift_result item)) (\<lambda>e.
     andThen (map_err oci_io (lift_result (te_path e))) (\<lambda>s.
     if is_cur_dir s then ok ()
     else let p = path_of s in
       andThen (handle_whiteout ex rootfs p) (\<lambda>handled.
       if handled then ok ()
       else andThen (lift_result (safe_join rootfs p)) (\<lambda>target.
            andThen (ensure_parent_safe ex rootfs target) (\<lambda>_.
            extract_target ex rootfs p target e)))))"

definition extract_layer_from_reader ::
  "'x layer_ext_scheme \<Rightarrow> path \<Rightarrow> archive \<Rightarrow> ('z layer_world_scheme, OciError, unit) comp" where
  "extract_layer_from_reader ex rootfs arch =
     andThen (map_err oci_io (lift_result arch)) (\<lambda>entries. for_each entries (extract_entry ex rootfs))"

definition is_gzip :: "string \<Rightarrow> string \<Rightarrow> bool" where
  "is_gzip media_type bytes \<longleftrightarrow> list_ex (prefix ''gzip'') (suffixes media_type) \<or> take 2 bytes = [CHR 0x1F, CHR 0x8B]"

definition extract_layer_from_file ::
  "'x layer_ext_scheme \<Rightarrow> path \<Rightarrow> string \<Rightarrow> path \<Rightarrow> ('z layer_world_scheme, OciError, unit) comp" where
  "extract_layer_from_file ex rootfs media_type blob =
     andThen (map_err oci_io (l_read ex blob)) (\<lambda>bytes.
     andThen (gets tick) (\<lambda>t.
     extract_layer_from_reader ex rootfs (untar ex t (is_gzip media_type bytes) bytes)))"

definition ensure_mount_points_sync :: "'x layer_ext_scheme \<Rightarrow> path \<Rightarrow> ('z layer_world_scheme, OciError, unit) comp" where
  "ensure_mount_points_sync ex rootfs =
     andThen (for_each [''dev'', ''proc'', ''sys'', ''etc'', ''tmp''] (\<lambda>dir. ensure_directory ex rootfs (rootfs @ [dir]) None)) (\<lambda>_.
     ensure_regular_file_exists ex rootfs (rootfs @ [''etc'', ''resolv.conf'']) 0x1A4)"

definition oci_remove_dir_if_exists :: "'x layer_ext_scheme \<Rightarrow> path \<Rightarrow> ('z layer_world_scheme, OciError, unit) comp" where
  "oci_remove_dir_if_exists ex p = try_case (l_remove_dir_all ex p) (\<lambda>e. if e = NotFound then ok () else err (oci_io e)) ok"

definition build_erofs :: "'x layer_ext_scheme \<Rightarrow> path \<Rightarrow> path \<Rightarrow> ('z layer_world_scheme, OciError, unit) comp" where
  "build_erofs ex src out_image =
     andThen (l_create_parent ex out_image) (\<lambda>_.
     andThen (map_err MkfsErofsSpawn
       (spawn_cmd ex ''mkfs.erofs'' [''-Enoinline_data'', ''--all-root'', display out_image, display src])) (\<lambda>out.
     if status_success out then ok ()
     else err (MkfsErofsExit (show_status (co_status out)) (utf8_lossy ex (co_stdout out)) (utf8_lossy ex (co_stderr out)))))"

definition build_erofs_from_staging ::
  "'x layer_ext_scheme \<Rightarrow> (path \<times> string) list \<Rightarrow> path \<Rightarrow> path \<Rightarrow> ('z layer_world_scheme, OciError, unit) comp" where
  "build_erofs_from_staging ex blobs staging out_image =
     andThen (oci_remove_dir_if_exists ex staging) (\<lambda>_.
     andThen (map_err oci_io (l_create_dir_all ex staging)) (\<lambda>_.
     andThen (modify (\<lambda>w. w\<lparr>remaining := MAX_UNPACKED_IMAGE_BYTES\<rparr>)) (\<lambda>_.
     andThen (for_each blobs (\<lambda>(blob, media_type). extract_layer_from_file ex staging media_type blob)) (\<lambda>_.
     andThen (ensure_mount_points_sync ex staging) (\<lambda>_.
     andThen (build_erofs ex staging out_image) (\<lambda>_.
     oci_remove_dir_if_exists ex staging))))))"

section \<open>Resolution without links\<close>

definition no_dotdot :: "path \<Rightarrow> bool" where
  "no_dotdot p \<longleftrightarrow> ''..'' \<notin> set p"

lemma walk_direct:
  assumes "\<And>q. strict_prefix cur q \<Longrightarrow> prefix q (cur @ cs) \<Longrightarrow> \<not> is_symlink (d_get d q)" and "no_dotdot cs"
  shows "walk h d cur cs = Inr q \<Longrightarrow> q = cur @ cs"
  using assms
proof (induction cs arbitrary: cur)
  case (Cons c cs)
  have "\<not> is_symlink (d_get d (cur @ [c]))" by (rule Cons.prems) (auto simp: strict_prefix_def prefix_def)
  moreover have "walk h d (cur @ [c]) cs = Inr q \<Longrightarrow> q = (cur @ [c]) @ cs"
    by (rule Cons.IH) (use Cons.prems in \<open>auto simp: no_dotdot_def strict_prefix_def prefix_def\<close>)
  ultimately show ?case
    using Cons.prems by (auto simp: walk.simps no_dotdot_def split: option.splits node.splits inode.splits if_splits)
qed (simp add: walk.simps)

text \<open>
  The state of a staging directory: every entry lies in a directory, the path to \<open>rootfs\<close> goes through
  directories only, and outside \<open>rootfs\<close> everything is as in \<open>d0\<close>.
\<close>

definition closed_tree :: "tree \<Rightarrow> bool" where
  "closed_tree d \<longleftrightarrow> (\<forall>r. d_get d r \<noteq> None \<longrightarrow> r \<noteq> [] \<and> is_dir d (butlast r))"

definition rooted :: "path \<Rightarrow> tree \<Rightarrow> bool" where
  "rooted rootfs d \<longleftrightarrow> parent rootfs \<noteq> None \<and> no_dotdot rootfs \<and> (\<forall>q. prefix q rootfs \<longrightarrow> is_dir d q)"

definition confined :: "path \<Rightarrow> tree \<Rightarrow> tree \<Rightarrow> bool" where
  "confined rootfs d0 d \<longleftrightarrow> closed_tree d \<and> rooted rootfs d \<and> (\<forall>r. \<not> strict_prefix rootfs r \<longrightarrow> d_get d r = d_get d0 r)"

text \<open>No link on the way from \<open>rootfs\<close> down to \<open>p\<close>.\<close>

definition linkless :: "path \<Rightarrow> path \<Rightarrow> tree \<Rightarrow> bool" where
  "linkless rootfs p d \<longleftrightarrow> prefix rootfs p \<and> no_dotdot p \<and> (\<forall>q. strict_prefix rootfs q \<and> prefix q p \<longrightarrow> \<not> is_symlink (d_get d q))"

lemma linkless_any:
  assumes "confined rootfs d0 d" "linkless rootfs p d" "prefix q p" "q \<noteq> []"
  shows "\<not> is_symlink (d_get d q)"
proof (cases "strict_prefix rootfs q")
  case False
  then have "prefix q rootfs" using assms(2,3) by (metis linkless_def prefix_same_cases strict_prefix_def)
  then have "is_dir d q" using assms(1) by (simp add: confined_def rooted_def)
  then show ?thesis using assms(4) by (simp add: is_dir_def)
qed (use assms in \<open>auto simp: linkless_def\<close>)

lemma linkless_walk:
  "confined rootfs d0 d \<Longrightarrow> linkless rootfs p d \<Longrightarrow> walk h d [] p = Inr q \<Longrightarrow> q = p"
  by (drule walk_direct [rotated 2]) (auto dest: linkless_any simp: linkless_def no_dotdot_def)

lemma entry_of_linkless:
  "confined rootfs d0 d \<Longrightarrow> linkless rootfs p d \<Longrightarrow> entry_of d (p @ [c]) = Inr q \<Longrightarrow> q = p @ [c] \<and> is_dir d p"
  by (auto simp: entry_of_def split: sum.splits if_splits dest: linkless_walk)

lemma walk_dirs: "(\<And>q. strict_prefix cur q \<Longrightarrow> prefix q (cur @ cs) \<Longrightarrow> is_dir d q) \<Longrightarrow> no_dotdot cs \<Longrightarrow> walk h d cur cs = Inr (cur @ cs)"
proof (induction cs arbitrary: cur)
  case (Cons c cs)
  have "is_dir d (cur @ [c])" by (rule Cons.prems) (auto simp: strict_prefix_def prefix_def)
  then have "d_get d (cur @ [c]) = Some Dir" by (simp add: is_dir_def)
  moreover have "walk h d (cur @ [c]) cs = Inr ((cur @ [c]) @ cs)"
    by (rule Cons.IH) (use Cons.prems in \<open>auto simp: no_dotdot_def strict_prefix_def prefix_def\<close>)
  ultimately show ?case using Cons.prems by (auto simp: walk.simps no_dotdot_def)
qed (simp add: walk.simps)

lemma closed_dirs: "closed_tree d \<Longrightarrow> is_dir d p \<Longrightarrow> prefix q p \<Longrightarrow> is_dir d q"
proof (induction p rule: rev_induct)
  case (snoc c p)
  show ?case
  proof (cases "q = p @ [c]")
    case False
    then have "prefix q p" using snoc.prems(3) by simp
    moreover have "is_dir d p" using snoc.prems(1,2) by (auto simp: closed_tree_def is_dir_def)
    ultimately show ?thesis using snoc by blast
  qed (use snoc.prems in simp)
qed simp

text \<open>What \<open>lstat\<close> tells when it does not fail.\<close>

lemma lstat_exact:
  assumes "confined rootfs d0 (disk w)" "linkless rootfs p (disk w)" "lstat_fault ex (tick w) = None"
    and "symlink_metadata ex (p @ [c]) w = (r, w')"
  shows "disk w' = disk w \<and> d_get (disk w) (p @ [c]) = (case r of Inl _ \<Rightarrow> None | Inr n \<Rightarrow> Some n)"
proof -
  have "is_dir (disk w) p \<Longrightarrow> entry_of (disk w) (p @ [c]) = Inr (p @ [c])"
    using closed_dirs [of "disk w" p] assms(1,2) walk_dirs [of "[]" p "disk w" MAX_LINKS]
    by (auto simp: entry_of_def confined_def linkless_def no_dotdot_def)
  moreover have "\<not> is_dir (disk w) p \<Longrightarrow> isl (entry_of (disk w) (p @ [c])) \<and> d_get (disk w) (p @ [c]) = None"
    using entry_of_linkless [OF assms(1,2)] assms(1)
    by (cases "entry_of (disk w) (p @ [c])") (auto simp: confined_def closed_tree_def)
  ultimately show ?thesis
    using assms(3,4) by (auto simp: symlink_metadata_def Let_def split: option.splits sum.splits)
qed

section \<open>Operations on an entry below a path without links\<close>

definition at_parent :: "path \<Rightarrow> tree \<Rightarrow> path \<Rightarrow> tree \<Rightarrow> bool" where
  "at_parent rootfs d0 p d \<longleftrightarrow> confined rootfs d0 d \<and> linkless rootfs p d"

text \<open>A change at an entry of \<open>p\<close> and below leaves the state as it is, if the tree stays closed.\<close>

lemma at_parent_change:
  assumes "at_parent rootfs d0 p d" "closed_tree d'" "\<And>r. \<not> prefix (p @ [c]) r \<Longrightarrow> d_get d' r = d_get d r"
  shows "at_parent rootfs d0 p d'"
proof -
  have p: "prefix rootfs p" using assms(1) by (simp add: at_parent_def linkless_def)
  have same: "d_get d' r = d_get d r" if "prefix r p" for r
    using that assms(3) [of r] by (auto simp: prefix_def)
  have root: "is_dir d' q" if "prefix q rootfs" for q
    using that same [of q] p assms(1) by (auto simp: at_parent_def confined_def rooted_def is_dir_def intro: prefix_order.trans)
  have out: "d_get d' r = d_get d0 r" if "\<not> strict_prefix rootfs r" for r
    using assms(1) that assms(3) [of r] p by (auto simp: at_parent_def confined_def strict_prefix_def prefix_def)
  show ?thesis using assms(1,2) root out same by (auto simp: at_parent_def confined_def rooted_def linkless_def)
qed

lemma closed_put: "closed_tree d \<Longrightarrow> d_get d (p @ [c]) \<noteq> Some Dir \<Longrightarrow> is_dir d p \<Longrightarrow> closed_tree (d_put (p @ [c]) n d)"
  by (auto simp: closed_tree_def is_dir_def)

lemma closed_del: "closed_tree d \<Longrightarrow> d_get d q \<noteq> Some Dir \<Longrightarrow> closed_tree (d_del q d)"
  by (auto simp: closed_tree_def is_dir_def)

lemma closed_del_tree: "closed_tree d \<Longrightarrow> q \<noteq> [] \<Longrightarrow> closed_tree (d_del_tree q d)"
  unfolding closed_tree_def is_dir_def d_get_del_tree
  by (auto simp: prefix_def) (metis append_butlast_last_id append_assoc)

lemma d_get_partly_removed:
  "d_get (partly_removed keep q d) r = (if \<forall>s. prefix s r \<and> strict_prefix q s \<longrightarrow> keep s then d_get d r else None)"
  unfolding partly_removed_def
  by (subst map_of_filter_key [where P = "\<lambda>x. list_all (\<lambda>r. strict_prefix q r \<longrightarrow> keep r) (prefixes x)"])
    (auto simp: list_all_iff)

lemma closed_partly_removed: "closed_tree d \<Longrightarrow> closed_tree (partly_removed keep q d)"
  unfolding closed_tree_def is_dir_def d_get_partly_removed
  by (auto split: if_splits) (metis prefixeq_butlast prefix_order.trans)+

text \<open>Making directories along a path without links changes missing entries only.\<close>

lemma make_dirs_direct:
  assumes "make_dirs d cur cs = Inr d'" "\<And>q. strict_prefix cur q \<Longrightarrow> prefix q (cur @ cs) \<Longrightarrow> \<not> is_symlink (d_get d q)"
  shows "d_get d' r = (if d_get d r = None \<and> strict_prefix cur r \<and> prefix r (cur @ cs) then Some Dir else d_get d r)"
  using assms
proof (induction d cur cs arbitrary: r rule: make_dirs.induct)
  case (2 d cur c cs)
  have link: "\<not> is_symlink (d_get d (cur @ [c]))" by (rule 2) (auto simp: strict_prefix_def prefix_def)
  have step: "strict_prefix cur r \<and> prefix r (cur @ c # cs) \<longleftrightarrow>
      r = cur @ [c] \<or> strict_prefix (cur @ [c]) r \<and> prefix r ((cur @ [c]) @ cs)" for r
    by (auto simp: strict_prefix_def prefix_def append_eq_Cons_conv append_eq_append_conv2 Cons_eq_append_conv)
  show ?case
  proof (cases "d_get d (cur @ [c])")
    case None
    let ?d = "d_put (cur @ [c]) Dir d"
    have "make_dirs ?d (cur @ [c]) cs = Inr d'" using 2(4) None by simp
    moreover have "\<not> is_symlink (d_get ?d q)" if "strict_prefix (cur @ [c]) q" "prefix q ((cur @ [c]) @ cs)" for q
      using that 2(5) [of q] step [of q] by auto
    ultimately have "d_get d' r = (if d_get ?d r = None \<and> strict_prefix (cur @ [c]) r \<and> prefix r ((cur @ [c]) @ cs)
        then Some Dir else d_get ?d r)"
      by (rule 2(1) [OF None])
    then show ?thesis using None step [of r] by auto
  next
    case (Some n)
    with link 2(4) have n: "n = Dir" and run: "make_dirs d (cur @ [c]) cs = Inr d'"
      by (auto split: node.splits inode.splits)
    have "\<not> is_symlink (d_get d q)" if "strict_prefix (cur @ [c]) q" "prefix q ((cur @ [c]) @ cs)" for q
      using that 2(5) [of q] step [of q] by auto
    then have "d_get d' r = (if d_get d r = None \<and> strict_prefix (cur @ [c]) r \<and> prefix r ((cur @ [c]) @ cs)
        then Some Dir else d_get d r)"
      using 2(2) [OF _ _ run] Some n by blast
    then show ?thesis using Some step [of r] by auto
  qed
qed (auto simp: strict_prefix_def prefix_def)

lemma make_dirs_is_dir:
  assumes "make_dirs d cur cs = Inr d'" "\<And>q. strict_prefix cur q \<Longrightarrow> prefix q (cur @ cs) \<Longrightarrow> \<not> is_symlink (d_get d q)"
    and "strict_prefix cur r" "prefix r (cur @ cs)"
  shows "d_get d' r = Some Dir"
  using assms
proof (induction cs arbitrary: d cur)
  case (Cons c cs)
  have link: "\<not> is_symlink (d_get d (cur @ [c]))" by (rule Cons) (auto simp: strict_prefix_def prefix_def)
  obtain d1 where run: "make_dirs d1 (cur @ [c]) cs = Inr d'" and here: "d_get d1 (cur @ [c]) = Some Dir"
    and rest: "\<And>q. q \<noteq> cur @ [c] \<Longrightarrow> d_get d1 q = d_get d q"
  proof (cases "d_get d (cur @ [c])")
    case None
    with Cons.prems(1) show ?thesis by (intro that [of "d_put (cur @ [c]) Dir d"]) auto
  next
    case (Some n)
    with Cons.prems(1) link show ?thesis by (intro that [of d]) (auto split: node.splits inode.splits)
  qed
  have links: "\<not> is_symlink (d_get d1 q)" if "strict_prefix (cur @ [c]) q" "prefix q ((cur @ [c]) @ cs)" for q
  proof -
    have "strict_prefix cur q" "prefix q (cur @ c # cs)" using that by (auto simp: strict_prefix_def prefix_def)
    then show ?thesis using Cons.prems(2) [of q] rest [of q] that(1) by (auto simp: strict_prefix_def)
  qed
  show ?case
  proof (cases "r = cur @ [c]")
    case True
    then show ?thesis using make_dirs_direct [OF run links, of r] here by simp
  next
    case False
    then have "strict_prefix (cur @ [c]) r" "prefix r ((cur @ [c]) @ cs)"
      using Cons.prems(3,4) by (auto simp: strict_prefix_def prefix_def append_eq_Cons_conv append_eq_append_conv2 Cons_eq_append_conv)
    then show ?thesis using Cons.IH [OF run links] by blast
  qed
qed (auto simp: strict_prefix_def prefix_def)

lemma closed_make_dirs:
  assumes "closed_tree d" "make_dirs d [] p = Inr d'" "\<And>q. q \<noteq> [] \<Longrightarrow> prefix q p \<Longrightarrow> \<not> is_symlink (d_get d q)"
  shows "closed_tree d'"
proof -
  have get: "d_get d' r = (if d_get d r = None \<and> r \<noteq> [] \<and> prefix r p then Some Dir else d_get d r)" for r
    using make_dirs_direct [OF assms(2), of r] assms(3) by (auto simp: strict_prefix_def)
  have dirs: "is_dir d' r" if "prefix r p" for r
    using make_dirs_is_dir [OF assms(2), of r] assms(3) that by (cases "r = []") (auto simp: is_dir_def strict_prefix_def)
  show ?thesis
    unfolding closed_tree_def
  proof (intro allI impI conjI)
    fix r assume r: "d_get d' r \<noteq> None"
    then show "r \<noteq> []" using get [of r] assms(1) by (auto simp: closed_tree_def split: if_splits)
    show "is_dir d' (butlast r)"
    proof (cases "d_get d r = None")
      case True
      then have "prefix (butlast r) p" using r get [of r] by (metis prefixeq_butlast prefix_order.trans)
      then show ?thesis by (rule dirs)
    next
      case False
      then have "is_dir d (butlast r)" using assms(1) by (simp add: closed_tree_def)
      then show ?thesis using get [of "butlast r"] by (auto simp: is_dir_def)
    qed
  qed
qed

lemma at_parent_make_dirs:
  assumes "at_parent rootfs d0 p d" "make_dirs d [] q = Inr d'" "prefix q p"
  shows "at_parent rootfs d0 p d'"
proof -
  have c: "confined rootfs d0 d" and l: "linkless rootfs p d" using assms(1) by (simp_all add: at_parent_def)
  have links: "\<not> is_symlink (d_get d r)" if "r \<noteq> []" "prefix r q" for r
    using linkless_any [OF c l] that assms(3) by (meson prefix_order.trans)
  have get: "d_get d' r = (if d_get d r = None \<and> r \<noteq> [] \<and> prefix r q then Some Dir else d_get d r)" for r
    using make_dirs_direct [OF assms(2), of r] links by (auto simp: strict_prefix_def)
  have out: "d_get d' r = d_get d r" if "\<not> strict_prefix rootfs r" for r
  proof (cases "prefix r q \<and> r \<noteq> []")
    case True
    then have "prefix r rootfs"
      using that assms(3) l by (metis linkless_def prefix_order.trans prefix_same_cases strict_prefix_def)
    then have "is_dir d r" using c by (simp add: confined_def rooted_def)
    then show ?thesis using get [of r] True by (simp add: is_dir_def)
  qed (use get [of r] in auto)
  have "closed_tree d'" using closed_make_dirs [OF _ assms(2) links] c by (simp add: confined_def)
  moreover have "rooted rootfs d'" using c get by (auto simp: confined_def rooted_def is_dir_def)
  ultimately show ?thesis
    using c l out get by (auto simp: at_parent_def confined_def linkless_def)
qed

subsection \<open>The calls\<close>

abbreviation at :: "path \<Rightarrow> tree \<Rightarrow> path \<Rightarrow> 'z layer_world_scheme \<Rightarrow> bool" where
  "at rootfs d0 p w \<equiv> at_parent rootfs d0 p (disk w)"

lemma at_parentD: "at_parent rootfs d0 p d \<Longrightarrow> closed_tree d"
  and at_parent_confined: "at_parent rootfs d0 p d \<Longrightarrow> confined rootfs d0 d"
  by (auto simp: at_parent_def confined_def)

lemma at_parent_entry: "at_parent rootfs d0 p d \<Longrightarrow> entry_of d (p @ [c]) = Inr q \<Longrightarrow> q = p @ [c] \<and> is_dir d p"
  and at_parent_walk: "at_parent rootfs d0 p d \<Longrightarrow> walk h d [] p = Inr q \<Longrightarrow> q = p"
  by (auto simp: at_parent_def dest: entry_of_linkless linkless_walk)

lemma at_put: "at_parent rootfs d0 p d \<Longrightarrow> is_dir d p \<Longrightarrow> d_get d (p @ [c]) \<noteq> Some Dir \<Longrightarrow> at_parent rootfs d0 p (d_put (p @ [c]) n d)"
  by (rule at_parent_change [where c = c and d = d], assumption, rule closed_put, erule at_parentD) auto

lemma at_del: "at_parent rootfs d0 p d \<Longrightarrow> d_get d (p @ [c]) \<noteq> Some Dir \<Longrightarrow> at_parent rootfs d0 p (d_del (p @ [c]) d)"
  by (rule at_parent_change [where c = c and d = d], assumption, rule closed_del, erule at_parentD) auto

lemma at_del_tree: "at_parent rootfs d0 p d \<Longrightarrow> at_parent rootfs d0 p (d_del_tree (p @ [c]) d)"
  by (rule at_parent_change [where c = c and d = d], assumption, rule closed_del_tree, erule at_parentD) auto

lemma at_partly_removed: "at_parent rootfs d0 p d \<Longrightarrow> at_parent rootfs d0 p (partly_removed keep (p @ [c]) d)"
  by (rule at_parent_change [where c = c and d = d], assumption, rule closed_partly_removed, erule at_parentD)
    (auto simp: d_get_partly_removed strict_prefix_def dest: prefix_order.trans)

lemma file_parent_dir: "at_parent rootfs d0 p d \<Longrightarrow> d_get d (p @ [c]) = Some n \<Longrightarrow> is_dir d p"
  by (drule at_parentD) (metis closed_tree_def butlast_snoc option.distinct(1))

lemma at_append_bytes: "at_parent rootfs d0 p d \<Longrightarrow> at_parent rootfs d0 p (append_bytes s (p @ [c]) d)"
  and at_chmod: "at_parent rootfs d0 p d \<Longrightarrow> at_parent rootfs d0 p (chmod m (p @ [c]) d)"
  by (auto simp: append_bytes_def chmod_def split: option.splits node.splits inode.splits intro!: at_put dest: file_parent_dir [rotated])

lemma at_syscall:
  assumes "\<And>t d. at_parent rootfs d0 p d \<Longrightarrow> at_parent rootfs d0 p (part t d)"
    and "\<And>d x d'. at_parent rootfs d0 p d \<Longrightarrow> f d = Inr (x, d') \<Longrightarrow> at_parent rootfs d0 p d'"
  shows "pres (at rootfs d0 p) (syscall ex part f)"
  using assms by (auto simp: keeps_def syscall_def Let_def split: option.splits sum.splits prod.splits)

lemma at_symlink_metadata [pres_intros]: "pres (at rootfs d0 p) (symlink_metadata ex q)"
  by (auto simp: keeps_def symlink_metadata_def Let_def split: option.splits sum.splits)

lemma at_readonly [pres_intros]:
  "pres (at rootfs d0 p) (l_exists ex q)" "pres (at rootfs d0 p) (l_read_dir ex q)"
  "pres (at rootfs d0 p) (l_read ex q)" "pres (at rootfs d0 p) (l_next_entry ex)"
  unfolding l_exists_def l_read_dir_def l_read_def l_next_entry_def
  by (intro pres_intros at_syscall; auto split: sum.splits option.splits node.splits inode.splits if_splits)+

lemma at_l_remove_file [pres_intros]: "pres (at rootfs d0 p) (l_remove_file ex (p @ [c]))"
  and at_l_remove_dir_all [pres_intros]: "pres (at rootfs d0 p) (l_remove_dir_all ex (p @ [c]))"
  and at_symlink [pres_intros]: "pres (at rootfs d0 p) (symlink ex s (p @ [c]))"
  and at_hard_link [pres_intros]: "pres (at rootfs d0 p) (hard_link ex src (p @ [c]))"
  and at_write_chunk [pres_intros]: "pres (at rootfs d0 p) (write_chunk ex (p @ [c]) s)"
  and at_file_set_permissions [pres_intros]: "pres (at rootfs d0 p) (file_set_permissions ex (p @ [c]) m)"
  unfolding l_remove_file_def l_remove_dir_all_def symlink_def hard_link_def write_chunk_def file_set_permissions_def
  by (intro at_syscall; auto split: sum.splits option.splits node.splits if_splits dest!: at_parent_entry [rotated]
      intro: at_put at_del at_del_tree at_partly_removed at_append_bytes at_chmod)+

lemma at_l_create_dir_all [pres_intros]: "prefix q p \<Longrightarrow> pres (at rootfs d0 p) (l_create_dir_all ex q)"
  unfolding l_create_dir_all_def
  by (intro at_syscall) (auto split: sum.splits intro: at_parent_make_dirs prefix_order.trans take_is_prefix)

lemma at_l_create_parent [pres_intros]: "pres (at rootfs d0 p) (l_create_parent ex (p @ [c]))"
  unfolding l_create_parent_def
  by (auto simp: parent_def intro!: pres_intros)


lemma at_remove_path_if_exists [pres_intros]: "pres (at rootfs d0 p) (remove_path_if_exists ex (p @ [c]))"
  unfolding remove_path_if_exists_def by (intro pres_intros)

lemma at_no_symlink_below [pres_intros]: "pres (at rootfs d0 p) (no_symlink_below ex cursor cs)"
  by (induction ex cursor cs rule: no_symlink_below.induct) (simp_all only: no_symlink_below.simps, (intro pres_intros; assumption)+)

lemma at_ensure_parent_safe [pres_intros]: "pres (at rootfs d0 p) (ensure_parent_safe ex rootfs' q)"
  unfolding ensure_parent_safe_def Let_def by (intro pres_intros)

lemma at_budget_take [pres_intros]: "pres (at rootfs d0 p) (budget_take n)"
  unfolding budget_take_def by (intro pres_intros keeps_modify) simp

lemma at_budget_copy [pres_intros]: "pres (at rootfs d0 p) (budget_copy ex (p @ [c]) cs)"
  by (induction ex "p @ [c]" cs rule: budget_copy.induct) (simp_all only: budget_copy.simps, (intro pres_intros; assumption?)+)

text \<open>The handle of a file that was opened is its path.\<close>

lemma open_new_handle: "triple (at rootfs d0 p) (open_new ex m (p @ [c])) (\<lambda>h w. h = p @ [c] \<and> at rootfs d0 p w) (\<lambda>_. at rootfs d0 p)"
  unfolding open_new_def
  by (rule tripleI; auto simp: syscall_def Let_def split: option.splits sum.splits if_splits prod.splits
      dest!: at_parent_entry [rotated]) (simp add: at_put)

lemma at_triple: "pres (at rootfs d0 p) m \<Longrightarrow> triple (at rootfs d0 p) m (\<lambda>_. at rootfs d0 p) (\<lambda>_. at rootfs d0 p)"
  by (erule triple_keeps) simp

lemma pres_triple: "triple I m (\<lambda>_. I) (\<lambda>_. I) \<Longrightarrow> pres I m"
  unfolding triple_def keeps_def by (intro allI impI) (drule spec, drule (1) mp, simp split: prod.splits sum.splits)

lemma at_write_regular_file [pres_intros]: "pres (at rootfs d0 p) (write_regular_file ex rootfs' (p @ [c]) m contents)"
proof -
  have tail: "triple (\<lambda>w. h = p @ [c] \<and> at rootfs d0 p w)
      (andThen (budget_copy ex h contents) (\<lambda>_. ignore (file_set_permissions ex h m')))
      (\<lambda>_. at rootfs d0 p) (\<lambda>_. at rootfs d0 p)" for h m'
  proof (cases "h = p @ [c]")
    case True
    have "pres (at rootfs d0 p) (andThen (budget_copy ex h contents) (\<lambda>_. ignore (file_set_permissions ex h m')))"
      unfolding True by (intro pres_intros)
    from at_triple [OF this] show ?thesis by (rule triple_conseq) auto
  qed (simp add: triple_def)
  show ?thesis
    unfolding write_regular_file_def
    by (intro pres_triple triple_andThen [OF at_triple] triple_andThen [OF triple_map_err [OF open_new_handle]] tail pres_intros)
qed

subsection \<open>Checks and what they establish\<close>

definition plain_names :: "path \<Rightarrow> bool" where
  "plain_names cs \<longleftrightarrow> ''..'' \<notin> set cs \<and> root_component \<notin> set cs"

lemma plain_names_simps [simp]:
  "plain_names []" "plain_names (c # cs) \<longleftrightarrow> c \<noteq> ''..'' \<and> c \<noteq> root_component \<and> plain_names cs"
  "plain_names (cs @ ds) \<longleftrightarrow> plain_names cs \<and> plain_names ds"
  by (auto simp: plain_names_def)

abbreviation never_faults :: "'x layer_ext_scheme \<Rightarrow> bool" where
  "never_faults ex \<equiv> \<forall>t. lstat_fault ex t = None"

abbreviation inside :: "path \<Rightarrow> tree \<Rightarrow> 'z layer_world_scheme \<Rightarrow> bool" where
  "inside rootfs d0 w \<equiv> confined rootfs d0 (disk w)"

lemma at_inside: "at rootfs d0 p w \<Longrightarrow> inside rootfs d0 w"
  by (rule at_parent_confined)

lemma at_extend:
  "at_parent rootfs d0 p d \<Longrightarrow> \<not> is_symlink (d_get d (p @ [c])) \<Longrightarrow> c \<noteq> ''..'' \<Longrightarrow> at_parent rootfs d0 (p @ [c]) d"
  by (auto simp: at_parent_def linkless_def no_dotdot_def)

lemma at_rootfs: "inside rootfs d0 w \<longleftrightarrow> at rootfs d0 rootfs w"
  by (auto simp: at_parent_def linkless_def confined_def rooted_def)

lemma lstat_triple:
  assumes "never_faults ex"
  shows "triple (at rootfs d0 p) (symlink_metadata ex (p @ [c]))
    (\<lambda>n w. at rootfs d0 p w \<and> d_get (disk w) (p @ [c]) = Some n) (\<lambda>_ w. at rootfs d0 p w \<and> d_get (disk w) (p @ [c]) = None)"
  by (rule tripleI; (drule lstat_exact [of rootfs d0, rotated 3]; simp add: at_parent_def assms))

lemma no_symlink_below_ok:
  assumes "never_faults ex"
  shows "plain_names cs \<Longrightarrow> triple (at rootfs d0 p :: 'z layer_world_scheme \<Rightarrow> bool) (no_symlink_below ex p cs) (\<lambda>_. at rootfs d0 (p @ cs)) (\<lambda>_. inside rootfs d0)"
proof (induction cs arbitrary: p)
  case Nil
  then show ?case by (auto intro!: triple_ok)
next
  case (Cons c cs)
  have rest: "triple (at rootfs d0 (p @ [c]) :: 'z layer_world_scheme \<Rightarrow> bool) (no_symlink_below ex (p @ [c]) cs) (\<lambda>_. at rootfs d0 (p @ c # cs)) (\<lambda>_. inside rootfs d0)"
    using Cons.IH [of "p @ [c]"] Cons.prems by simp
  have "triple (\<lambda>w :: 'z layer_world_scheme. at rootfs d0 p w \<and> d_get (disk w) (p @ [c]) = None) (no_symlink_below ex (p @ [c]) cs)
      (\<lambda>_. at rootfs d0 (p @ c # cs)) (\<lambda>_. inside rootfs d0)"
    by (rule triple_conseq [OF rest]) (use Cons.prems in \<open>auto intro: at_extend\<close>)
  moreover have "triple (\<lambda>w :: 'z layer_world_scheme. at rootfs d0 p w \<and> d_get (disk w) (p @ [c]) = Some n)
      (if is_symlink (Some n) then err (UnsafeArchivePath (display (p @ [c]))) else no_symlink_below ex (p @ [c]) cs)
      (\<lambda>_. at rootfs d0 (p @ c # cs)) (\<lambda>_. inside rootfs d0)" for n
    by (intro triple_if triple_err, blast intro: at_inside, rule triple_conseq [OF rest])
      (use Cons.prems in \<open>auto intro: at_extend\<close>)
  ultimately show ?case
    using Cons.prems by (auto intro!: triple_try_case [OF lstat_triple [OF assms]])
qed

lemma ensure_parent_safe_ok:
  assumes "never_faults ex" and "plain_names cs"
  shows "triple (inside rootfs d0 :: 'z layer_world_scheme \<Rightarrow> bool) (ensure_parent_safe ex rootfs (rootfs @ cs))
    (\<lambda>_ w. cs \<noteq> [] \<and> at rootfs d0 (rootfs @ butlast cs) w) (\<lambda>_. inside rootfs d0)"
proof (cases cs rule: rev_cases)
  case Nil
  then show ?thesis
    by (auto simp: triple_def ensure_parent_safe_def Let_def err_def confined_def rooted_def parent_def
        split: list.splits if_splits option.splits)
next
  case (snoc ds c)
  with assms(2) have "ensure_parent_safe ex rootfs (rootfs @ cs) = (no_symlink_below ex rootfs ds :: ('z layer_world_scheme, _, _) comp)"
    by (simp add: ensure_parent_safe_def parent_def)
  then show ?thesis
    using no_symlink_below_ok [OF assms(1), of ds rootfs d0 rootfs] snoc assms(2)
    by (auto simp: at_rootfs)
qed

lemma triple_pres_and:
  "pres I m \<Longrightarrow> (\<And>w. P w \<Longrightarrow> I w) \<Longrightarrow> triple P m Q (\<lambda>_ _. True) \<Longrightarrow> triple P m (\<lambda>x w. I w \<and> Q x w) (\<lambda>_. I)"
  by (rule tripleI) (auto dest: keepsD' tripleD_ok)

lemma removal_gone:
  assumes "at rootfs d0 p w" "d_get (disk w) (p @ [c]) = Some n"
    and "(if n = Dir then map_err oci_io (l_remove_dir_all ex (p @ [c])) else map_err oci_io (l_remove_file ex (p @ [c]))) w = (Inr u, w')"
  shows "d_get (disk w') (p @ [c]) = None"
  using assms by (auto simp: l_remove_dir_all_def l_remove_file_def syscall_def Let_def map_err_ok_iff
      split: if_splits option.splits sum.splits node.splits dest!: at_parent_entry [rotated])

lemma remove_path_if_exists_gone:
  assumes "never_faults ex"
  shows "triple (at rootfs d0 p) (remove_path_if_exists ex (p @ [c]))
    (\<lambda>_ w. at rootfs d0 p w \<and> d_get (disk w) (p @ [c]) = None) (\<lambda>_. at rootfs d0 p)"
  unfolding remove_path_if_exists_def
proof (rule triple_try_case [OF lstat_triple [OF assms]])
  fix n
  show "triple (\<lambda>w. at rootfs d0 p w \<and> d_get (disk w) (p @ [c]) = Some n)
      (if n = Dir then map_err oci_io (l_remove_dir_all ex (p @ [c])) else map_err oci_io (l_remove_file ex (p @ [c])))
      (\<lambda>_ w. at rootfs d0 p w \<and> d_get (disk w) (p @ [c]) = None) (\<lambda>_. at rootfs d0 p)"
    by (rule triple_pres_and, intro pres_intros, simp, rule tripleI) (auto intro: removal_gone simp del: map_err_ok_iff)
qed (auto intro!: triple_if triple_ok triple_err)

lemma at_self_chmod:
  assumes "at_parent rootfs d0 (p @ [c]) d" "prefix rootfs p"
  shows "at_parent rootfs d0 (p @ [c]) (chmod m (p @ [c]) d)"
proof -
  have "at_parent rootfs d0 p d" using assms by (auto simp: at_parent_def linkless_def no_dotdot_def)
  then have "at_parent rootfs d0 p (chmod m (p @ [c]) d)" by (rule at_chmod)
  moreover have "strict_prefix rootfs (p @ [c])" using assms(2) by (auto simp: strict_prefix_def prefix_def)
  then have "\<not> is_symlink (d_get d (p @ [c]))" using assms by (auto simp: at_parent_def linkless_def)
  then have "\<not> is_symlink (d_get (chmod m (p @ [c]) d) (p @ [c]))"
    by (auto simp: chmod_def split: option.splits node.splits inode.splits)
  moreover have "c \<noteq> ''..''" using assms by (auto simp: at_parent_def linkless_def no_dotdot_def)
  ultimately show ?thesis by (rule at_extend)
qed

lemma at_set_permissions:
  assumes "prefix rootfs p"
  shows "pres (at rootfs d0 (p @ [c])) (set_permissions ex (p @ [c]) m)"
  unfolding set_permissions_def
  by (rule at_syscall) (auto split: sum.splits if_splits dest!: at_parent_walk [rotated] intro: at_self_chmod [OF _ assms])

lemma ensure_directory_at:
  assumes "never_faults ex" "prefix rootfs p" "c \<noteq> ''..''"
  shows "triple (at rootfs d0 p) (ensure_directory ex rootfs' (p @ [c]) m) (\<lambda>_. inside rootfs d0) (\<lambda>_. inside rootfs d0)"
proof -
  have "triple (\<lambda>w. at rootfs d0 p w \<and> d_get (disk w) (p @ [c]) = Some n)
      (if n \<noteq> Dir then remove_path_if_exists ex (p @ [c]) else ok ())
      (\<lambda>_. at rootfs d0 (p @ [c])) (\<lambda>_. inside rootfs d0)" for n
    by (rule triple_if, rule triple_conseq [OF remove_path_if_exists_gone [OF assms(1)]])
      (auto intro!: triple_ok at_extend assms intro: at_inside)
  moreover have "triple (\<lambda>w. at rootfs d0 p w \<and> d_get (disk w) (p @ [c]) = None)
      (if e = NotFound then ok () else err (oci_io e)) (\<lambda>_. at rootfs d0 (p @ [c])) (\<lambda>_. inside rootfs d0)" for e
    by (auto intro!: triple_if triple_ok triple_err at_extend assms intro: at_inside)
  ultimately have check: "triple (at rootfs d0 p)
      (try_case (symlink_metadata ex (p @ [c])) (\<lambda>e. if e = NotFound then ok () else err (oci_io e))
        (\<lambda>n. if n \<noteq> Dir then remove_path_if_exists ex (p @ [c]) else ok ()))
      (\<lambda>_. at rootfs d0 (p @ [c])) (\<lambda>_. inside rootfs d0)"
    by (rule triple_try_case [OF lstat_triple [OF assms(1)], rotated])
  have "pres (at rootfs d0 (p @ [c])) (andThen (map_err oci_io (l_create_dir_all ex (p @ [c])))
      (\<lambda>_. case m of None \<Rightarrow> ok () | Some m \<Rightarrow> ignore (set_permissions ex (p @ [c]) m)))"
    by (intro pres_intros at_set_permissions assms) simp
  from at_triple [OF this] have make: "triple (at rootfs d0 (p @ [c])) (andThen (map_err oci_io (l_create_dir_all ex (p @ [c])))
      (\<lambda>_. case m of None \<Rightarrow> ok () | Some m \<Rightarrow> ignore (set_permissions ex (p @ [c]) m)))
      (\<lambda>_. inside rootfs d0) (\<lambda>_. inside rootfs d0)"
    by (rule triple_conseq) (auto intro: at_inside)
  show ?thesis
    unfolding ensure_directory_def
    by (rule triple_andThen [OF triple_conseq [OF at_triple [OF at_ensure_parent_safe]] triple_andThen [OF check make]])
      (auto intro: at_inside)
qed

lemma at_ensure_regular_file_exists [pres_intros]: "pres (at rootfs d0 p) (ensure_regular_file_exists ex rootfs' (p @ [c]) m)"
  unfolding ensure_regular_file_exists_def
  by (intro pres_intros) (auto split: node.splits inode.splits intro!: pres_intros)

lemma at_extract_symlink [pres_intros]: "pres (at rootfs d0 p) (extract_symlink ex q (p @ [c]) e)"
  unfolding extract_symlink_def by (intro pres_intros)

lemma at_extract_link [pres_intros]: "pres (at rootfs d0 p) (extract_link ex rootfs' q (p @ [c]) e)"
  unfolding extract_link_def by (intro pres_intros)

lemma pres_inside: "pres (at rootfs d0 p) m \<Longrightarrow> triple (at rootfs d0 p) m (\<lambda>_. inside rootfs d0) (\<lambda>_. inside rootfs d0)"
  by (drule at_triple, erule triple_conseq) (auto intro: at_inside)

lemma extract_target_at:
  assumes "never_faults ex" "prefix rootfs p" "c \<noteq> ''..''"
  shows "triple (at rootfs d0 p) (extract_target ex rootfs q (p @ [c]) e) (\<lambda>_. inside rootfs d0) (\<lambda>_. inside rootfs d0)"
proof (cases "te_type e")
  case EtDirectory
  have mode: "triple (at rootfs d0 p) (map_err oci_io (lift_result (te_mode e))) (\<lambda>_. at rootfs d0 p) (\<lambda>_. inside rootfs d0)"
    by (rule triple_conseq [OF at_triple]) (auto intro: pres_intros at_inside)
  show ?thesis
    using triple_andThen [OF mode ensure_directory_at [OF assms]] EtDirectory by (simp add: extract_target_def)
qed (auto simp: extract_target_def intro!: pres_inside pres_intros)

lemma safe_join_ok: "safe_join rootfs p = Inr t \<longleftrightarrow> plain_names p \<and> t = rootfs @ p"
  by (auto simp: safe_join_def plain_names_def list_ex_iff)

lemma triple_lift_result: "triple P (lift_result r) (\<lambda>x w. P w \<and> r = Inr x) (\<lambda>_. P)"
  by (auto simp: triple_def lift_result_def split: sum.splits)

lemma triple_lift_io: "triple P (map_err g (lift_result r)) (\<lambda>_. P) (\<lambda>_. P)"
  by (auto simp: triple_def lift_result_def map_err_def split: sum.splits)

lemma triple_assume: "(b \<Longrightarrow> triple P m Q E) \<Longrightarrow> triple (\<lambda>w. P w \<and> b) m Q E"
  and triple_assume': "(b \<Longrightarrow> triple P m Q E) \<Longrightarrow> triple (\<lambda>w. b \<and> P w) m Q E"
  by (auto simp: triple_def)

text \<open>A checked path: the part of an operation after \<open>ensure_parent_safe\<close> works below a path without links.\<close>

lemma after_check:
  assumes "never_faults ex"
    and "\<And>ds c t. plain_names (ds @ [c]) \<Longrightarrow> t = (rootfs @ ds) @ [c]
      \<Longrightarrow> triple (at rootfs d0 (rootfs @ ds)) (f t) (\<lambda>_. inside rootfs d0) (\<lambda>_. inside rootfs d0)"
  shows "triple (inside rootfs d0) (andThen (lift_result (safe_join rootfs p)) (\<lambda>t. andThen (ensure_parent_safe ex rootfs t) (\<lambda>_. f t)))
    (\<lambda>_. inside rootfs d0) (\<lambda>_. inside rootfs d0)"
proof (rule triple_andThen [OF triple_lift_result], rule triple_assume)
  fix t assume "safe_join rootfs p = Inr t"
  then have p: "plain_names p" and t: "t = rootfs @ p" by (simp_all add: safe_join_ok)
  have "triple (\<lambda>w. p \<noteq> [] \<and> at rootfs d0 (rootfs @ butlast p) w) (f t) (\<lambda>_. inside rootfs d0) (\<lambda>_. inside rootfs d0)"
  proof (rule triple_assume')
    assume ne: "p \<noteq> []"
    show "triple (at rootfs d0 (rootfs @ butlast p)) (f t) (\<lambda>_. inside rootfs d0) (\<lambda>_. inside rootfs d0)"
      by (rule assms(2) [where c = "last p"]) (use p t ne in simp_all)
  qed
  then show "triple (inside rootfs d0) (andThen (ensure_parent_safe ex rootfs t) (\<lambda>_. f t)) (\<lambda>_. inside rootfs d0) (\<lambda>_. inside rootfs d0)"
    unfolding t by (rule triple_andThen [OF ensure_parent_safe_ok [OF assms(1) p]])
qed

lemma whiteout_opaque:
  assumes "never_faults ex" "plain_names q"
  shows "triple (inside rootfs d0) (andThen (ensure_parent_safe ex rootfs ((rootfs @ q) @ [''.opq-check''])) (\<lambda>_.
      andThen (l_exists ex (rootfs @ q)) (\<lambda>there.
      andThen (if there then andThen (map_err oci_io (l_read_dir ex (rootfs @ q))) (\<lambda>names. for_each names (whiteout_entry ex (rootfs @ q)))
               else ok ()) (\<lambda>_. ok True))))
    (\<lambda>_. inside rootfs d0) (\<lambda>_. inside rootfs d0)"
proof (rule triple_andThen)
  show "triple (inside rootfs d0) (ensure_parent_safe ex rootfs ((rootfs @ q) @ [''.opq-check'']))
      (\<lambda>_. at rootfs d0 (rootfs @ q)) (\<lambda>_. inside rootfs d0)"
    using ensure_parent_safe_ok [OF assms(1), of "q @ [''.opq-check'']" rootfs d0] assms(2)
    by (simp add: root_component_def)
qed (unfold whiteout_entry_def, intro pres_inside pres_intros)

lemma handle_whiteout_inside:
  assumes "never_faults ex"
  shows "triple (inside rootfs d0) (handle_whiteout ex rootfs p) (\<lambda>_. inside rootfs d0) (\<lambda>_. inside rootfs d0)"
proof -
  have keep: "triple (inside rootfs d0) (ok b) (\<lambda>_. inside rootfs d0) (\<lambda>_. inside rootfs d0)" for b
    by (rule triple_ok)
  have removal: "triple (inside rootfs d0) (andThen (lift_result (safe_join rootfs q)) (\<lambda>target.
      andThen (ensure_parent_safe ex rootfs target) (\<lambda>_. andThen (remove_path_if_exists ex target) (\<lambda>_. ok True))))
      (\<lambda>_. inside rootfs d0) (\<lambda>_. inside rootfs d0)" for q
    by (rule after_check [OF assms]) (simp only:, intro pres_inside pres_intros)
  have opaque: "triple (inside rootfs d0) (andThen (lift_result (safe_join rootfs q)) (\<lambda>par.
      andThen (ensure_parent_safe ex rootfs (par @ [''.opq-check''])) (\<lambda>_.
      andThen (l_exists ex par) (\<lambda>there.
      andThen (if there then andThen (map_err oci_io (l_read_dir ex par)) (\<lambda>names. for_each names (whiteout_entry ex par))
               else ok ()) (\<lambda>_. ok True)))))
      (\<lambda>_. inside rootfs d0) (\<lambda>_. inside rootfs d0)" for q
    by (rule triple_andThen [OF triple_lift_result], rule triple_assume)
      (use whiteout_opaque [OF assms] in \<open>simp add: safe_join_ok\<close>)
  show ?thesis
    unfolding handle_whiteout_def
    by (intro triple_case_option triple_if keep removal opaque)
qed

lemma extract_entry_inside:
  assumes "never_faults ex"
  shows "triple (inside rootfs d0) (extract_entry ex rootfs item) (\<lambda>_. inside rootfs d0) (\<lambda>_. inside rootfs d0)"
proof -
  have "triple (inside rootfs d0) (andThen (lift_result (safe_join rootfs p)) (\<lambda>target.
      andThen (ensure_parent_safe ex rootfs target) (\<lambda>_. extract_target ex rootfs p target e)))
      (\<lambda>_. inside rootfs d0) (\<lambda>_. inside rootfs d0)" for p e
    by (rule after_check [OF assms]) (simp only:, rule extract_target_at [OF assms], auto)
  then show ?thesis
    unfolding extract_entry_def Let_def
    by (intro triple_andThen [OF triple_lift_io] triple_andThen [OF handle_whiteout_inside [OF assms]] triple_if triple_ok)
qed

lemma triple_for_each: "(\<And>x. triple I (f x) (\<lambda>_. I) (\<lambda>_. I)) \<Longrightarrow> triple I (for_each xs f) (\<lambda>_. I) (\<lambda>_. I)"
  by (induction xs) (auto intro: triple_ok triple_andThen)

lemma extract_layer_inside:
  assumes "never_faults ex"
  shows "triple (inside rootfs d0) (extract_layer_from_file ex rootfs media_type blob) (\<lambda>_. inside rootfs d0) (\<lambda>_. inside rootfs d0)"
proof -
  have read: "triple (inside rootfs d0) (map_err oci_io (l_read ex blob)) (\<lambda>_. inside rootfs d0) (\<lambda>_. inside rootfs d0)"
    unfolding at_rootfs by (intro at_triple pres_intros)
  have clock: "triple (inside rootfs d0) (gets tick) (\<lambda>_. inside rootfs d0) (\<lambda>_. inside rootfs d0)"
    by (simp add: triple_def gets_def)
  show ?thesis
    unfolding extract_layer_from_file_def extract_layer_from_reader_def
    by (intro triple_andThen [OF read] triple_andThen [OF clock] triple_andThen [OF triple_lift_io]
        triple_for_each extract_entry_inside [OF assms])
qed

lemma ensure_mount_points_inside:
  assumes "never_faults ex"
  shows "triple (inside rootfs d0) (ensure_mount_points_sync ex rootfs) (\<lambda>_. inside rootfs d0) (\<lambda>_. inside rootfs d0)"
proof -
  have dir: "triple (inside rootfs d0) (ensure_directory ex rootfs (rootfs @ [c]) None) (\<lambda>_. inside rootfs d0) (\<lambda>_. inside rootfs d0)"
    if "c \<noteq> ''..''" for c
    using ensure_directory_at [OF assms, of rootfs rootfs c d0] that by (simp add: at_rootfs)
  have check: "triple (inside rootfs d0) (ensure_parent_safe ex rootfs (rootfs @ [''etc'', ''resolv.conf'']))
      (\<lambda>_. at rootfs d0 (rootfs @ [''etc''])) (\<lambda>_. inside rootfs d0)"
    using ensure_parent_safe_ok [OF assms, of "[''etc'', ''resolv.conf'']" rootfs d0] by (simp add: root_component_def)
  have resolv: "triple (inside rootfs d0) (ensure_regular_file_exists ex rootfs (rootfs @ [''etc'', ''resolv.conf'']) m)
      (\<lambda>_. inside rootfs d0) (\<lambda>_. inside rootfs d0)" for m
    unfolding ensure_regular_file_exists_def
    using at_write_regular_file [of rootfs d0 "rootfs @ [''etc'']" ex rootfs "''resolv.conf''"]
    by (intro triple_andThen [OF check] pres_inside inv.keeps_try_case at_symlink_metadata keeps_if inv.keeps_err)
      (auto split: node.splits inode.splits intro: inv.keeps_ok)
  show ?thesis
    unfolding ensure_mount_points_sync_def for_each.simps
    by (intro triple_andThen [OF _ resolv] triple_andThen [OF dir] triple_ok) auto
qed

lemma inside_final:
  "triple (inside rootfs d0) m (\<lambda>_. inside rootfs d0) (\<lambda>_. inside rootfs d0) \<Longrightarrow> inside rootfs d0 w
   \<Longrightarrow> \<not> strict_prefix rootfs r \<Longrightarrow> d_get (disk (snd (m w))) r = d_get d0 r"
  using keepsD [OF pres_triple, of "inside rootfs d0" m w] by (simp add: confined_def)

text \<open>
  C7. Unpacking cannot leave the staging directory. For every archive (any paths, links and hard
  links, in any order), every fault of the other system calls and on every outcome, what lies outside
  the staging directory, the directory itself included, is as it was. The state before is the one the
  code makes: the staging directory and its ancestors are directories and no entry lies outside a
  directory. The check of the parents treats a failing \<open>lstat\<close> as no link, so these calls are taken not to fail.
\<close>

theorem extract_confined:
  assumes "closed_tree (disk w)" "rooted rootfs (disk w)" "\<forall>t. lstat_fault ex t = None" "\<not> strict_prefix rootfs r"
  shows "d_get (disk (snd (extract_layer_from_file ex rootfs media_type blob w))) r = d_get (disk w) r
    \<and> d_get (disk (snd (ensure_mount_points_sync ex rootfs w))) r = d_get (disk w) r"
proof -
  have w: "inside rootfs (disk w) w" using assms(1,2) by (simp add: confined_def)
  show ?thesis
    using inside_final [OF extract_layer_inside [OF assms(3)] w assms(4)]
      inside_final [OF ensure_mount_points_inside [OF assms(3)] w assms(4)] by simp
qed

text \<open>Examples: files \<open>/s\<close> (the staging directory), \<open>/etc/passwd\<close> and the layer \<open>/blob\<close>.\<close>

lemma rooted_code [code]: "rooted rootfs d \<longleftrightarrow> parent rootfs \<noteq> None \<and> no_dotdot rootfs \<and> list_all (is_dir d) (prefixes rootfs)"
  by (auto simp: rooted_def list_all_iff)

lemma closed_tree_code [code]: "closed_tree d \<longleftrightarrow> list_all (\<lambda>e. fst e \<noteq> [] \<and> is_dir d (butlast (fst e))) d"
  by (auto simp: closed_tree_def list_all_iff map_of_eq_None_iff)

definition entry_with :: "string \<Rightarrow> EntryType \<Rightarrow> string \<Rightarrow> (io_error, tar_entry) result" where
  "entry_with name ty s = Inr \<lparr>te_path = Inr name, te_type = ty, te_mode = Inr 0x1FF, te_link = Inr (Some s),
     te_body = (if s = [] then [] else [Inr s])\<rparr>"

text \<open>A link \<open>a\<close> to \<open>/etc\<close>, then a file written through it.\<close>

definition hostile_archive :: archive where
  "hostile_archive = Inr [entry_with ''a'' EtSymlink ''/etc'', entry_with ''a/passwd'' EtRegular ''x'']"

text \<open>A file in a directory, which the next entry whites out, and a second file.\<close>

definition small_archive :: archive where
  "small_archive = Inr [entry_with ''d/f'' EtRegular ''abc'', entry_with ''.wh.d'' EtRegular [], entry_with ''./g'' EtRegular ''de'']"

definition layer_sample_ext :: "nat list \<Rightarrow> archive \<Rightarrow> layer_ext" where
  "layer_sample_ext bad arch = \<lparr>now = (\<lambda>t. int t), pid = 7, uuid = (\<lambda>_. ''u''), fault = (\<lambda>_. None),
     empty_body = Regular 0 [], torn = (\<lambda>_. Regular 0 []), survives = (\<lambda>_ _. False), made = (\<lambda>_. 0),
     enc_record = (\<lambda>_. Inl []), dec_record = (\<lambda>_. Inl []), enc_manifest = (\<lambda>_. Inl []),
     dec_manifest = (\<lambda>_. Inl []), rfc3339 = (\<lambda>_. None), run_cmd = (\<lambda>_ _ _. Inl ''ENOENT''),
     cmd_disk = (\<lambda>_ _ _ d. d), temp_log = (\<lambda>_. Inr [''/'', ''tmp'', ''log'']),
     utf8_lossy = (\<lambda>s. s), json_status = (\<lambda>_. None), bytes_of = (\<lambda>b. case b of Regular _ s \<Rightarrow> s | Symlink s \<Rightarrow> s),
     lstat_fault = (\<lambda>t. if List.member bad t then Some ''EIO'' else None), umask = 0x12, untar = (\<lambda>_ _ _. arch)\<rparr>"

definition staging_sample :: layer_world where
  "staging_sample = \<lparr>tick = 0, tmp_counter = 0, disk = [([''/''], Dir), ([''/'', ''s''], Dir), ([''/'', ''etc''], Dir),
      ([''/'', ''etc'', ''passwd''], File (Regular 0x1A4 ''root'')), ([''/'', ''blob''], File (Regular 0x1A4 ''layer''))],
     records = [], locks = [], lock_seq = 0, cmds = [], remaining = 10\<rparr>"

theorem extract_confined_witness:
  "d_get (disk (snd (extract_layer_from_file (layer_sample_ext [] hostile_archive) [''/'', ''s''] [] [''/'', ''blob''] staging_sample)))
     [''/'', ''etc'', ''passwd''] = Some (File (Regular 0x1A4 ''root''))"
  using extract_confined [of staging_sample "[''/'', ''s'']" "layer_sample_ext [] hostile_archive" "[''/'', ''etc'', ''passwd'']"
      "[]" "[''/'', ''blob'']"]
  by (simp add: staging_sample_def rooted_code closed_tree_code is_dir_def no_dotdot_def parent_def root_component_def layer_sample_ext_def strict_prefix_def)


section \<open>The budget\<close>

fun inode_size :: "inode node \<Rightarrow> nat" where
  "inode_size (File (Regular _ s)) = length s"
| "inode_size _ = 0"

definition unpacked_bytes :: "tree \<Rightarrow> nat" where
  "unpacked_bytes d = sum_list (map (\<lambda>e. inode_size (snd e)) d)"

text \<open>Bytes in the tree and bytes still allowed: together they never grow, except by hard links.\<close>

definition within_budget :: "'z layer_world_scheme \<Rightarrow> 'z layer_world_scheme \<Rightarrow> bool" where
  "within_budget w w' \<longleftrightarrow> unpacked_bytes (disk w') + unat (remaining w') \<le> unpacked_bytes (disk w) + unat (remaining w)"

interpretation budget: transition_rel within_budget
  by unfold_locales (auto simp: within_budget_def)

lemma unpacked_filter: "unpacked_bytes (filter P d) \<le> unpacked_bytes d"
  by (induction d) (auto simp: unpacked_bytes_def)

lemma unpacked_del: "unpacked_bytes (filter (\<lambda>e. fst e \<noteq> q) d) + (case d_get d q of None \<Rightarrow> 0 | Some n \<Rightarrow> inode_size n) \<le> unpacked_bytes d"
  using unpacked_filter [of "\<lambda>e. fst e \<noteq> q"] by (induction d) (auto simp: unpacked_bytes_def)

lemma unpacked_put: "unpacked_bytes (d_put q n d) + (case d_get d q of None \<Rightarrow> 0 | Some n \<Rightarrow> inode_size n) \<le> unpacked_bytes d + inode_size n"
  using unpacked_del [of q d] by (simp add: d_put_def unpacked_bytes_def)

lemma unpacked_make_dirs: "make_dirs d cur cs = Inr d' \<Longrightarrow> unpacked_bytes d' \<le> unpacked_bytes d"
proof (induction d cur cs rule: make_dirs.induct)
  case (2 d cur c cs)
  then show ?case using unpacked_put [of "cur @ [c]" Dir d]
    by (fastforce split: option.splits node.splits inode.splits sum.splits if_splits)
qed simp

lemma unpacked_longer:
  "d_get d q = Some (File (Regular m s)) \<Longrightarrow> unpacked_bytes (d_put q (File (Regular m' (s @ t))) d) \<le> unpacked_bytes d + length t"
  using unpacked_put [of q "File (Regular m' (s @ t))" d] by simp

lemma unpacked_append: "unpacked_bytes (append_bytes s q d) \<le> unpacked_bytes d + length s"
  by (auto simp: append_bytes_def split: option.splits node.splits inode.splits intro: unpacked_longer)

lemma unpacked_chmod: "unpacked_bytes (chmod m q d) \<le> unpacked_bytes d"
  using unpacked_longer [of d q _ _ m "[]"] by (auto simp: chmod_def split: option.splits node.splits inode.splits)

lemma unpacked_removals:
  "unpacked_bytes (d_del q d) \<le> unpacked_bytes d" "unpacked_bytes (d_del_tree q d) \<le> unpacked_bytes d"
  "unpacked_bytes (partly_removed keep q d) \<le> unpacked_bytes d"
  by (simp_all add: d_del_def d_del_tree_def partly_removed_def unpacked_filter)

lemma budget_syscall:
  assumes "\<And>t d. unpacked_bytes (part t d) \<le> unpacked_bytes d"
    and "\<And>d x d'. f d = Inr (x, d') \<Longrightarrow> unpacked_bytes d' \<le> unpacked_bytes d"
  shows "keeps within_budget (syscall ex part f)"
  using assms by (auto simp: keeps_def within_budget_def syscall_def Let_def split: option.splits sum.splits prod.splits)

lemma unpacked_new_file: "d_get d q = None \<Longrightarrow> inode_size n = 0 \<Longrightarrow> unpacked_bytes (d_put q n d) \<le> unpacked_bytes d"
  using unpacked_put [of q n d] by simp

lemma budget_calls [pres_intros]:
  "keeps within_budget (l_exists ex p)" "keeps within_budget (l_read_dir ex p)" "keeps within_budget (l_next_entry ex)"
  "keeps within_budget (l_read ex p)" "keeps within_budget (l_create_dir_all ex p)" "keeps within_budget (l_remove_file ex p)"
  "keeps within_budget (l_remove_dir_all ex p)" "keeps within_budget (symlink ex s p)" "keeps within_budget (open_new ex m p)"
  "keeps within_budget (set_permissions ex p m)" "keeps within_budget (file_set_permissions ex p m)"
  unfolding l_exists_def l_read_dir_def l_next_entry_def l_read_def l_create_dir_all_def l_remove_file_def l_remove_dir_all_def
    symlink_def open_new_def set_permissions_def file_set_permissions_def
  by (intro pres_intros budget_syscall;
      auto split: sum.splits option.splits node.splits inode.splits if_splits
        intro: unpacked_removals unpacked_make_dirs unpacked_new_file unpacked_chmod)+

lemma budget_symlink_metadata [pres_intros]: "keeps within_budget (symlink_metadata ex p)"
  by (auto simp: keeps_def within_budget_def symlink_metadata_def Let_def split: option.splits sum.splits)

lemma budget_checks [pres_intros]:
  "keeps within_budget (no_symlink_below ex cursor cs)" "keeps within_budget (ensure_parent_safe ex rootfs p)"
  "keeps within_budget (remove_path_if_exists ex p)" "keeps within_budget (l_create_parent ex p)"
proof -
  show safe: "keeps within_budget (no_symlink_below ex cursor cs)" for cursor cs
    by (induction ex cursor cs rule: no_symlink_below.induct) (simp_all only: no_symlink_below.simps, (intro pres_intros; assumption)+)
  show "keeps within_budget (ensure_parent_safe ex rootfs p)" "keeps within_budget (remove_path_if_exists ex p)"
    "keeps within_budget (l_create_parent ex p)"
    unfolding ensure_parent_safe_def Let_def remove_path_if_exists_def l_create_parent_def by (intro pres_intros safe)+
qed

text \<open>Taking the length of a chunk pays for writing it, in whole or in part.\<close>

lemma budget_chunk:
  assumes "length chunk < 2 ^ 64" "budget_take (length chunk) w = (Inr (), w')"
  shows "within_budget w (snd (write_chunk ex handle chunk w'))"
proof -
  have n: "unat (of_nat (length chunk) :: 64 word) = length chunk" using assms(1) by (simp add: unat_of_nat)
  have "of_nat (length chunk) \<le> remaining w" and w': "w' = w\<lparr>remaining := remaining w - of_nat (length chunk)\<rparr>"
    using assms(2) by (auto simp: budget_take_def res_simps split: if_splits)
  then have "unat (remaining w') + length chunk = unat (remaining w)"
    using n by (simp add: unat_sub word_le_nat_alt)
  moreover have "unpacked_bytes (disk (snd (write_chunk ex handle chunk w'))) \<le> unpacked_bytes (disk w') + length chunk"
    "remaining (snd (write_chunk ex handle chunk w')) = remaining w'"
    using unpacked_append [of chunk handle "disk w'"] unpacked_append [of "take (made ex (tick w')) chunk" handle "disk w'"]
    by (auto simp: write_chunk_def syscall_def Let_def split: option.splits)
  ultimately show ?thesis by (simp add: within_budget_def w')
qed

definition fits_buffer :: "(io_error, string) result \<Rightarrow> bool" where
  "fits_buffer c \<longleftrightarrow> (case c of Inl _ \<Rightarrow> True | Inr s \<Rightarrow> length s \<le> 128 * 1024)"

lemma budget_take_err: "budget_take n w = (Inl e, w') \<Longrightarrow> w' = w"
  by (auto simp: budget_take_def res_simps split: if_splits)

lemma budget_copy_ok: "list_all fits_buffer cs \<Longrightarrow> within_budget w (snd (budget_copy ex handle cs w))"
proof (induction ex handle cs arbitrary: w rule: budget_copy.induct)
  case (3 ex handle chunk cs)
  have rest: "list_all fits_buffer cs" and "fits_buffer (Inr chunk)" using 3(2) by simp_all
  then have size: "length chunk < 2 ^ 64" by (simp add: fits_buffer_def)
  show ?case
  proof (cases "budget_take (length chunk) w")
    case (Pair r w1)
    show ?thesis
    proof (cases r)
      case (Inl e)
      then show ?thesis using Pair budget_take_err [of "length chunk" w e w1]
        by (simp add: andThen_def ok_def budget.refl)
    next
      case (Inr u)
      obtain r2 w2 where run: "write_chunk ex handle chunk w1 = (r2, w2)" by fastforce
      have paid: "within_budget w w2" using budget_chunk [OF size, of w w1 ex handle] Pair Inr run by simp
      have "within_budget w2 (snd (budget_copy ex handle cs w2))" if "chunk \<noteq> []" using 3(1) [OF that rest] by simp
      then have "chunk \<noteq> [] \<Longrightarrow> within_budget w (snd (budget_copy ex handle cs w2))" using paid budget.trans by blast
      then show ?thesis
        using Pair Inr run paid by (cases r2) (auto simp: andThen_def map_err_def ok_def budget.refl)
    qed
  qed
qed (simp_all add: res_simps budget.refl)

lemma budget_empty_copy: "keeps within_budget (budget_copy ex handle [])"
  by (simp add: budget.keeps_ok)

lemma budget_write_regular_file:
  "list_all fits_buffer cs \<Longrightarrow> keeps within_budget (write_regular_file ex rootfs p m cs)"
  unfolding write_regular_file_def
  by (intro pres_intros) (simp add: keeps_def budget_copy_ok)

definition layer_fits :: "archive \<Rightarrow> bool" where
  "layer_fits arch \<longleftrightarrow> (case arch of Inl _ \<Rightarrow> True
     | Inr items \<Rightarrow> list_all (\<lambda>i. case i of Inl _ \<Rightarrow> True | Inr e \<Rightarrow> te_type e \<noteq> EtLink \<and> list_all fits_buffer (te_body e)) items)"

lemma budget_handle_whiteout [pres_intros]: "keeps within_budget (handle_whiteout ex rootfs p)"
  unfolding handle_whiteout_def whiteout_entry_def by (intro pres_intros)

lemma budget_ensure_directory [pres_intros]: "keeps within_budget (ensure_directory ex rootfs p m)"
  unfolding ensure_directory_def by (intro pres_intros)

lemma budget_extract_symlink [pres_intros]: "keeps within_budget (extract_symlink ex p t e)"
  unfolding extract_symlink_def by (intro pres_intros)

lemma budget_extract_entry:
  assumes "case item of Inl _ \<Rightarrow> True | Inr e \<Rightarrow> te_type e \<noteq> EtLink \<and> list_all fits_buffer (te_body e)"
  shows "keeps within_budget (extract_entry ex rootfs item)"
proof (cases item)
  case (Inl e)
  then show ?thesis by (simp add: extract_entry_def keeps_def res_simps budget.refl)
next
  case (Inr e)
  have run: "extract_entry ex rootfs item = andThen (map_err oci_io (lift_result (te_path e))) (\<lambda>s.
     if is_cur_dir s then ok ()
     else let p = path_of s in
       andThen (handle_whiteout ex rootfs p) (\<lambda>handled.
       if handled then ok ()
       else andThen (lift_result (safe_join rootfs p)) (\<lambda>target.
            andThen (ensure_parent_safe ex rootfs target) (\<lambda>_.
            extract_target ex rootfs p target e))))"
    unfolding Inr by (simp add: extract_entry_def fun_eq_iff res_simps)
  have "keeps within_budget (extract_target ex rootfs p target e)" for p target
    using assms Inr budget_write_regular_file
    by (auto simp: extract_target_def split: EntryType.splits intro!: pres_intros)
  then show ?thesis unfolding run Let_def by (intro pres_intros)
qed

lemma budget_extract_reader: "layer_fits arch \<Longrightarrow> keeps within_budget (extract_layer_from_reader ex rootfs arch)"
proof (cases arch)
  case (Inl e)
  then show ?thesis by (simp add: extract_layer_from_reader_def keeps_def res_simps budget.refl)
next
  case (Inr items)
  assume "layer_fits arch"
  then have "keeps within_budget (for_each items (extract_entry ex rootfs))"
    using Inr by (intro budget.keeps_for_each budget_extract_entry) (fastforce simp: layer_fits_def list_all_iff split: sum.splits)
  then show ?thesis by (simp add: extract_layer_from_reader_def keeps_def res_simps Inr)
qed

lemma budget_extract_layer:
  assumes "\<And>t gz bytes. layer_fits (untar ex t gz bytes)"
  shows "keeps within_budget (extract_layer_from_file ex rootfs media_type blob)"
  unfolding extract_layer_from_file_def by (intro pres_intros budget_extract_reader assms)



end
