(* ===== verification/Image_Store.thy ===== *)
theory Image_Store
  imports Layers Envoy
begin

text \<open>
  The registry client and the bundles of the image store (\<open>oad-oci/src/lib.rs\<close>): requests with
  authentication, the caches of manifests and blobs, the download of layers, the build of a root file
  system and the configuration of a container. The HTTP client, the URL library, SHA-256 and JSON are
  parameters. The layers of an image are fetched one after another; in the code up to four downloads
  overlap, each with a temporary file of its own.
\<close>

section \<open>The outside\<close>

text \<open>
  A response: its status, the authentication header (\<open>Some None\<close> is a header that is not text), the
  announced length and the chunks of its body.
\<close>

record http_response =
  hr_status :: nat
  hr_www_authenticate :: "string option option"
  hr_content_length :: "64 word option"
  hr_chunks :: "(string, string) result list"

text \<open>
  \<open>http_get\<close> performs a request with its authorization and accept headers (redirects are followed inside, under
  \<open>registry_redirect_policy\<close>). \<open>append_pair\<close> extends the query of a URL. \<open>modified_at\<close> is the
  modification time of a file, if the system has it.
\<close>

record store_ext = layer_ext +
  http_get :: "nat \<Rightarrow> Url \<Rightarrow> string option \<Rightarrow> string option \<Rightarrow> (string, http_response) result"
  status_text :: "Url \<Rightarrow> nat \<Rightarrow> string"
  url_parse :: "string \<Rightarrow> Url option"
  append_pair :: "string \<Rightarrow> string \<Rightarrow> Url \<Rightarrow> Url"
  sha256 :: "string \<Rightarrow> string"
  dec_image_manifest :: "string \<Rightarrow> (string, ImageManifest) result"
  dec_image_config :: "string \<Rightarrow> (string, ImageConfigBody) result"
  dec_token :: "string \<Rightarrow> (string, TokenResponse) result"
  modified_at :: "nat \<Rightarrow> path \<Rightarrow> int option"
  arch :: string
  json_pretty :: "json \<Rightarrow> (string, string) result"

text \<open>\<open>requested\<close> is the log of the URLs asked for, \<open>oci_counter\<close> the static counter of \<open>temp_name\<close>.\<close>

record store_world = layer_world +
  requested :: "Url list"
  oci_counter :: "64 word"

definition send :: "'x store_ext_scheme \<Rightarrow> Url \<Rightarrow> string option \<Rightarrow> string option \<Rightarrow> ('z store_world_scheme, OciError, http_response) comp" where
  "send ex url auth accept = (\<lambda>w. let t = tick w; w' = w\<lparr>tick := Suc t, requested := requested w @ [url]\<rparr> in
     case http_get ex t url auth accept of Inl e \<Rightarrow> (Inl (Http e), w') | Inr r \<Rightarrow> (Inr r, w'))"

lemma send_run [code]:
  "send ex url auth accept w = (let t = tick w; w' = w\<lparr>tick := Suc t, requested := requested w @ [url]\<rparr> in
     case http_get ex t url auth accept of Inl e \<Rightarrow> (Inl (Http e), w') | Inr r \<Rightarrow> (Inr r, w'))"
  by (simp add: send_def)

text \<open>\<open>Response::error_for_status\<close>.\<close>

definition error_for_status :: "'x store_ext_scheme \<Rightarrow> Url \<Rightarrow> http_response \<Rightarrow> (OciError, http_response) result" where
  "error_for_status ex url r =
     (if 400 \<le> hr_status r \<and> hr_status r < 600 then Inl (Http (status_text ex url (hr_status r))) else Inr r)"

section \<open>Requests\<close>

definition read_response_limited :: "http_response \<Rightarrow> string \<Rightarrow> 64 word \<Rightarrow> (OciError, string) result" where
  "read_response_limited r kind limit =
     (if (case hr_content_length r of None \<Rightarrow> False | Some n \<Rightarrow> limit < n) then Inl (BodyTooLarge kind limit)
      else read_chunks kind limit (map (map_sum Http id) (hr_chunks r)) 0 [])"

definition token_query :: "'x store_ext_scheme \<Rightarrow> BearerChallenge \<Rightarrow> string \<Rightarrow> Url \<Rightarrow> Url" where
  "token_query ex challenge repo url =
     (let url = (case bc_service challenge of None \<Rightarrow> url | Some service \<Rightarrow> append_pair ex ''service'' service url);
          scope = (case bc_scope challenge of None \<Rightarrow> ''repository:'' @ repo @ '':pull'' | Some s \<Rightarrow> s)
      in append_pair ex ''scope'' scope url)"

definition fetch_token :: "'x store_ext_scheme \<Rightarrow> BearerChallenge \<Rightarrow> string \<Rightarrow> ('z store_world_scheme, OciError, string) comp" where
  "fetch_token ex challenge repo =
     (case url_parse ex (bc_realm challenge) of
        None \<Rightarrow> err InvalidAuthChallenge
      | Some realm \<Rightarrow>
         andThen (lift_result (validate_token_realm realm)) (\<lambda>_.
         let url = token_query ex challenge repo realm in
         andThen (send ex url None None) (\<lambda>r.
         andThen (lift_result (error_for_status ex url r)) (\<lambda>r.
         andThen (lift_result (read_response_limited r ''token'' MAX_TOKEN_BYTES)) (\<lambda>bytes.
         andThen (lift_result (parse_json_body (utf8_lossy ex) (dec_token ex) ''token'' (bc_realm challenge) bytes)) (\<lambda>token.
         lift_result (case tr_token token of Some t \<Rightarrow> Inr t
           | None \<Rightarrow> (case tr_access_token token of Some t \<Rightarrow> Inr t | None \<Rightarrow> Inl MissingToken))))))))"

definition get_with_auth ::
  "'x store_ext_scheme \<Rightarrow> Url \<Rightarrow> string \<Rightarrow> string option \<Rightarrow> ('z store_world_scheme, OciError, http_response) comp" where
  "get_with_auth ex url repo accept =
     andThen (send ex url None accept) (\<lambda>r.
     if hr_status r \<noteq> 401 then lift_result (error_for_status ex url r)
     else (case hr_www_authenticate r of
        None \<Rightarrow> err MissingAuthChallenge
      | Some None \<Rightarrow> err InvalidAuthChallenge
      | Some (Some header) \<Rightarrow>
         andThen (lift_result (BearerChallenge_parse header)) (\<lambda>challenge.
         andThen (fetch_token ex challenge repo) (\<lambda>token.
         andThen (send ex url (Some (''Bearer '' @ token)) accept) (\<lambda>r.
         lift_result (error_for_status ex url r))))))"

section \<open>Files of the caches\<close>

text \<open>\<open>try_exists\<close>, \<open>canonicalize\<close> and \<open>File::create\<close> follow links.\<close>

definition l_try_exists :: "'x layer_ext_scheme \<Rightarrow> path \<Rightarrow> ('z layer_world_scheme, io_error, bool) comp" where
  "l_try_exists ex p = syscall ex untouched (\<lambda>d. case walk MAX_LINKS d [] p of
       Inl NotFound \<Rightarrow> Inr (False, d) | Inl e \<Rightarrow> Inl e | Inr q \<Rightarrow> Inr (is_dir d q \<or> d_get d q \<noteq> None, d))"

definition canonicalize :: "'x layer_ext_scheme \<Rightarrow> path \<Rightarrow> ('z layer_world_scheme, io_error, path) comp" where
  "canonicalize ex p = syscall ex untouched (\<lambda>d. case walk MAX_LINKS d [] p of
       Inl e \<Rightarrow> Inl e | Inr q \<Rightarrow> if is_dir d q \<or> d_get d q \<noteq> None then Inr (q, d) else Inl NotFound)"

definition create_file :: "'x layer_ext_scheme \<Rightarrow> path \<Rightarrow> ('z layer_world_scheme, io_error, path) comp" where
  "create_file ex p = syscall ex untouched (\<lambda>d. case walk MAX_LINKS d [] p of Inl e \<Rightarrow> Inl e
     | Inr q \<Rightarrow> if is_dir d q then Inl (OtherIo ''Is a directory'')
         else if \<not> is_dir d (butlast q) then Inl NotFound
         else Inr (q, d_put q (File (Regular (case d_get d q of Some (File (Regular m _)) \<Rightarrow> m
               | _ \<Rightarrow> 0x1B6 AND NOT (umask ex)) [])) d))"

definition metadata_len :: "'x layer_ext_scheme \<Rightarrow> path \<Rightarrow> ('z layer_world_scheme, io_error, nat) comp" where
  "metadata_len ex p = syscall ex untouched (\<lambda>d. case walk MAX_LINKS d [] p of Inl e \<Rightarrow> Inl e
     | Inr q \<Rightarrow> (case d_get d q of Some (File (Regular _ s)) \<Rightarrow> Inr (length s, d)
         | None \<Rightarrow> if q = [] then Inr (0, d) else Inl NotFound | _ \<Rightarrow> Inr (0, d)))"

definition cache_entry :: "'x layer_ext_scheme \<Rightarrow> string \<Rightarrow> inode" where
  "cache_entry ex bytes = Regular (0x1B6 AND NOT (umask ex)) bytes"

text \<open>\<open>temp_name\<close> of this crate.\<close>

definition oci_temp_name :: "'x store_ext_scheme \<Rightarrow> string \<Rightarrow> ('z store_world_scheme, 'e, string) comp" where
  "oci_temp_name ex stem =
     andThen (gets oci_counter) (\<lambda>n.
     andThen (modify (\<lambda>w. w\<lparr>oci_counter := n + 1\<rparr>)) (\<lambda>_.
     ok (''.'' @ stem @ ''.'' @ show_nat (pid ex) @ ''.'' @ show_nat (unat n) @ ''.tmp'')))"

section \<open>Manifests\<close>

record RegistryClient =
  manifest_cache_ttl :: int

definition RegistryClient_new :: RegistryClient where
  "RegistryClient_new = \<lparr>manifest_cache_ttl = 5 * 60 * 1000000000\<rparr>"

definition discard :: "'x store_ext_scheme \<Rightarrow> path \<Rightarrow> ('z store_world_scheme, 'e, 'a option) comp" where
  "discard ex cached = andThen (ignore (l_remove_file ex cached)) (\<lambda>_. ok None)"

definition read_manifest_cache ::
  "'x store_ext_scheme \<Rightarrow> RegistryClient \<Rightarrow> string \<Rightarrow> string option \<Rightarrow> path
   \<Rightarrow> ('z store_world_scheme, OciError, ImageManifest option) comp" where
  "read_manifest_cache ex client manifest_ref expected_digest cached =
     try_case (metadata_len ex cached)
       (\<lambda>e. if e = NotFound then ok None else err (oci_io e))
       (\<lambda>len. andThen (gets tick) (\<lambda>t.
          case modified_at ex t cached of None \<Rightarrow> ok None
          | Some modified \<Rightarrow>
             andThen (read_clock ex) (\<lambda>current.
             if \<not> manifest_cache_entry_is_fresh modified current (manifest_cache_ttl client) then ok None
             else if unat MAX_MANIFEST_BYTES < len then discard ex cached
             else andThen (map_err oci_io (l_read ex cached)) (\<lambda>bytes.
               case (case expected_digest of None \<Rightarrow> Inr () | Some d \<Rightarrow> verify_digest (sha256 ex) bytes d) of
                 Inl (DigestMismatch a b) \<Rightarrow> discard ex cached
               | Inl e \<Rightarrow> err e
               | Inr _ \<Rightarrow> (case parse_json_body (utf8_lossy ex) (dec_image_manifest ex) ''manifest'' manifest_ref bytes of
                     Inr manifest \<Rightarrow> ok (Some manifest)
                   | Inl _ \<Rightarrow> discard ex cached)))))"

definition write_cache :: "'x store_ext_scheme \<Rightarrow> path \<Rightarrow> string \<Rightarrow> ('z store_world_scheme, 'e, unit) comp" where
  "write_cache ex cached bytes = ignore (write_atomic_file ex cached (cache_entry ex bytes))"

definition fetch_manifest ::
  "'x store_ext_scheme \<Rightarrow> RegistryClient \<Rightarrow> ImageReference \<Rightarrow> string \<Rightarrow> string option \<Rightarrow> path
   \<Rightarrow> ('z store_world_scheme, OciError, ImageManifest) comp" where
  "fetch_manifest ex client r manifest_ref expected_digest manifest_cache =
     (let cached = manifest_cache_path (sha256 ex) manifest_cache r manifest_ref in
      andThen (read_manifest_cache ex client manifest_ref expected_digest cached) (\<lambda>hit.
      case hit of Some manifest \<Rightarrow> ok manifest
      | None \<Rightarrow>
         andThen (lift_result (registry_url (url_parse ex) r (''/v2/'' @ repository r @ ''/manifests/'' @ manifest_ref))) (\<lambda>url.
         andThen (get_with_auth ex url (repository r) (Some MANIFEST_ACCEPT)) (\<lambda>response.
         andThen (lift_result (read_response_limited response ''manifest'' MAX_MANIFEST_BYTES)) (\<lambda>bytes.
         andThen (lift_result (case expected_digest of None \<Rightarrow> Inr () | Some d \<Rightarrow> verify_digest (sha256 ex) bytes d)) (\<lambda>_.
         andThen (lift_result (parse_json_body (utf8_lossy ex) (dec_image_manifest ex) ''manifest'' manifest_ref bytes)) (\<lambda>manifest.
         andThen (write_cache ex cached bytes) (\<lambda>_.
         ok manifest))))))))"

section \<open>Blobs\<close>

text \<open>The file is read as one chunk: the result of \<open>read_chunks\<close> does not depend on how it is cut.\<close>

definition read_blob_file_limited ::
  "'x store_ext_scheme \<Rightarrow> path \<Rightarrow> string \<Rightarrow> 64 word \<Rightarrow> string \<Rightarrow> ('z store_world_scheme, OciError, string) comp" where
  "read_blob_file_limited ex p expected_digest max_bytes kind =
     andThen (map_err oci_io (l_read ex p)) (\<lambda>bytes.
     andThen (lift_result (read_chunks kind max_bytes [Inr bytes] 0 [])) (\<lambda>body.
     andThen (lift_result (verify_digest_hex (sha256 ex body) expected_digest)) (\<lambda>_.
     ok body)))"

definition verify_blob_file :: "'x store_ext_scheme \<Rightarrow> path \<Rightarrow> string \<Rightarrow> ('z store_world_scheme, OciError, unit) comp" where
  "verify_blob_file ex p expected_digest =
     andThen (map_err oci_io (l_read ex p)) (\<lambda>bytes. lift_result (verify_digest_hex (sha256 ex bytes) expected_digest))"

definition read_blob_cache ::
  "'x store_ext_scheme \<Rightarrow> path \<Rightarrow> string \<Rightarrow> 64 word \<Rightarrow> string \<Rightarrow> ('z store_world_scheme, OciError, string option) comp" where
  "read_blob_cache ex p expected_digest max_bytes kind =
     andThen (map_err oci_io (l_try_exists ex p)) (\<lambda>there.
     if \<not> there then ok None
     else try_case (read_blob_file_limited ex p expected_digest max_bytes kind)
       (\<lambda>e. case e of DigestMismatch a b \<Rightarrow> discard ex p | BodyTooLarge k l \<Rightarrow> discard ex p | _ \<Rightarrow> err e)
       (\<lambda>bytes. ok (Some bytes)))"

definition blob_url :: "'x store_ext_scheme \<Rightarrow> ImageReference \<Rightarrow> string \<Rightarrow> (OciError, Url) result" where
  "blob_url ex r digest = registry_url (url_parse ex) r (''/v2/'' @ repository r @ ''/blobs/'' @ digest)"

definition fetch_blob ::
  "'x store_ext_scheme \<Rightarrow> ImageReference \<Rightarrow> string \<Rightarrow> 64 word \<Rightarrow> string \<Rightarrow> ('z store_world_scheme, OciError, string) comp" where
  "fetch_blob ex r digest max_bytes kind =
     andThen (lift_result (blob_url ex r digest)) (\<lambda>url.
     andThen (get_with_auth ex url (repository r) None) (\<lambda>response.
     lift_result (read_response_limited response kind max_bytes)))"

definition fetch_blob_cached ::
  "'x store_ext_scheme \<Rightarrow> ImageReference \<Rightarrow> string \<Rightarrow> path \<Rightarrow> 64 word \<Rightarrow> string \<Rightarrow> ('z store_world_scheme, OciError, string) comp" where
  "fetch_blob_cached ex r digest blob_cache max_bytes kind =
     andThen (lift_result (blob_filename digest)) (\<lambda>name.
     let cached = join blob_cache name in
     andThen (read_blob_cache ex cached digest max_bytes kind) (\<lambda>hit.
     case hit of Some bytes \<Rightarrow> ok bytes
     | None \<Rightarrow>
        andThen (fetch_blob ex r digest max_bytes kind) (\<lambda>bytes.
        andThen (lift_result (verify_digest (sha256 ex) bytes digest)) (\<lambda>_.
        andThen (write_cache ex cached bytes) (\<lambda>_.
        ok bytes)))))"

section \<open>Layers\<close>

text \<open>The loop of \<open>download_blob\<close>: it counts, hashes and writes each chunk; the result is what was hashed.\<close>

fun download_chunks ::
  "'x store_ext_scheme \<Rightarrow> string \<Rightarrow> 64 word \<Rightarrow> path \<Rightarrow> (string, string) result list \<Rightarrow> 64 word \<Rightarrow> string
   \<Rightarrow> ('z store_world_scheme, OciError, string) comp" where
  "download_chunks ex kind limit handle [] downloaded hashed = ok hashed"
| "download_chunks ex kind limit handle (Inl e # cs) downloaded hashed = err (Http e)"
| "download_chunks ex kind limit handle (Inr chunk # cs) downloaded hashed =
     (case checked_add downloaded (length chunk) of
        None \<Rightarrow> err (BodyTooLarge kind limit)
      | Some so_far \<Rightarrow>
          if limit < so_far then err (BodyTooLarge kind limit)
          else andThen (map_err oci_io (write_chunk ex handle chunk)) (\<lambda>_.
               download_chunks ex kind limit handle cs so_far (hashed @ chunk)))"

definition download_blob ::
  "'x store_ext_scheme \<Rightarrow> ImageReference \<Rightarrow> string \<Rightarrow> path \<Rightarrow> 64 word \<Rightarrow> string \<Rightarrow> ('z store_world_scheme, OciError, unit) comp" where
  "download_blob ex r digest p max_bytes kind =
     andThen (lift_result (blob_url ex r digest)) (\<lambda>url.
     andThen (get_with_auth ex url (repository r) None) (\<lambda>response.
     andThen (map_err oci_io (create_file ex p)) (\<lambda>handle.
     andThen (download_chunks ex kind max_bytes handle (hr_chunks response) 0 []) (\<lambda>hashed.
     andThen (map_err oci_io (flush ex)) (\<lambda>_.
     lift_result (verify_digest_hex (sha256 ex hashed) digest))))))"

definition download_blob_cached ::
  "'x store_ext_scheme \<Rightarrow> ImageReference \<Rightarrow> string \<Rightarrow> path \<Rightarrow> path \<Rightarrow> 64 word \<Rightarrow> ('z store_world_scheme, OciError, unit) comp" where
  "download_blob_cached ex r digest layer_cache cached max_bytes =
     andThen (lift_result (blob_filename digest)) (\<lambda>stem.
     andThen (oci_temp_name ex stem) (\<lambda>name.
     let tmp = join layer_cache name in
     andThen (on_err (download_blob ex r digest tmp max_bytes ''layer'') (l_remove_file ex tmp)) (\<lambda>_.
     map_err oci_io (rename_path ex tmp cached))))"

definition layer_download :: "path \<Rightarrow> Descriptor \<Rightarrow> (OciError, path \<times> string \<times> string \<times> 64 word) result" where
  "layer_download layer_cache layer = (case blob_filename (d_digest layer) of Inl e \<Rightarrow> Inl e
     | Inr name \<Rightarrow> (case descriptor_body_limit layer MAX_LAYER_BYTES ''layer'' of Inl e \<Rightarrow> Inl e
        | Inr limit \<Rightarrow> Inr (join layer_cache name, d_digest layer,
            (case d_media_type layer of None \<Rightarrow> [] | Some m \<Rightarrow> m), limit)))"

fun collect_results :: "('e, 'a) result list \<Rightarrow> ('e, 'a list) result" where
  "collect_results [] = Inr []"
| "collect_results (Inl e # rs) = Inl e"
| "collect_results (Inr x # rs) = (case collect_results rs of Inl e \<Rightarrow> Inl e | Inr xs \<Rightarrow> Inr (x # xs))"

definition fetch_layer ::
  "'x store_ext_scheme \<Rightarrow> ImageReference \<Rightarrow> path \<Rightarrow> path \<times> string \<times> string \<times> 64 word
   \<Rightarrow> ('z store_world_scheme, OciError, unit) comp" where
  "fetch_layer ex r layer_cache = (\<lambda>(cached, digest, media_type, max_bytes).
     andThen (map_err oci_io (l_try_exists ex cached)) (\<lambda>there.
     if there then try_case (verify_blob_file ex cached digest)
       (\<lambda>e. case e of
          DigestMismatch a b \<Rightarrow>
            andThen (ignore (l_remove_file ex cached)) (\<lambda>_.
            download_blob_cached ex r digest layer_cache cached max_bytes)
        | _ \<Rightarrow> err e)
       ok
     else download_blob_cached ex r digest layer_cache cached max_bytes))"

definition fetch_layers_cached ::
  "'x store_ext_scheme \<Rightarrow> ImageReference \<Rightarrow> Descriptor list \<Rightarrow> path \<Rightarrow> ('z store_world_scheme, OciError, (path \<times> string) list) comp" where
  "fetch_layers_cached ex r layers layer_cache =
     andThen (lift_result (collect_results (map (layer_download layer_cache) layers))) (\<lambda>downloads.
     andThen (for_each downloads (fetch_layer ex r layer_cache)) (\<lambda>_.
     ok (map (\<lambda>(cached, digest, media_type, max_bytes). (cached, media_type)) downloads)))"

section \<open>Images\<close>

record PulledImage =
  pi_config :: ImageConfigBody
  pi_rootfs :: path

definition valid_rootfs_cache_entry :: "'x layer_ext_scheme \<Rightarrow> path \<Rightarrow> ('z layer_world_scheme, OciError, bool) comp" where
  "valid_rootfs_cache_entry ex rootfs = map_err oci_io (l_try_exists ex rootfs)"

definition resolve_manifest ::
  "'x store_ext_scheme \<Rightarrow> RegistryClient \<Rightarrow> ImageReference \<Rightarrow> path \<Rightarrow> ('z store_world_scheme, OciError, ImageManifest) comp" where
  "resolve_manifest ex client r manifest_cache =
     andThen (fetch_manifest ex client r (ref_reference r) (if reference_is_digest r then Some (ref_reference r) else None)
        manifest_cache) (\<lambda>manifest.
     case im_manifests manifest of
       None \<Rightarrow> ok manifest
     | Some manifests \<Rightarrow>
        andThen (lift_result (select_platform_manifest (arch ex) manifests)) (\<lambda>d.
        fetch_manifest ex client r (d_digest d) (Some (d_digest d)) manifest_cache))"

definition fetch_image_config ::
  "'x store_ext_scheme \<Rightarrow> ImageReference \<Rightarrow> ImageManifest \<Rightarrow> path \<Rightarrow> ('z store_world_scheme, OciError, ImageConfigBody) comp" where
  "fetch_image_config ex r manifest layer_cache =
     (if MAX_LAYERS < length (im_layers manifest) then err (InvalidManifest ''image manifest has too many layers'')
      else (case im_config manifest of
        None \<Rightarrow> err (InvalidManifest ''image manifest is missing config descriptor'')
      | Some d \<Rightarrow>
         andThen (lift_result (descriptor_body_limit d MAX_CONFIG_BYTES ''config'')) (\<lambda>limit.
         andThen (fetch_blob_cached ex r (d_digest d) layer_cache limit ''config'') (\<lambda>blob.
         lift_result (parse_json_body (utf8_lossy ex) (dec_image_config ex) ''image config'' (d_digest d) blob)))))"

definition build_rootfs ::
  "'x store_ext_scheme \<Rightarrow> ImageReference \<Rightarrow> ImageManifest \<Rightarrow> path \<Rightarrow> path \<Rightarrow> path \<Rightarrow> path
   \<Rightarrow> ('z store_world_scheme, OciError, unit) comp" where
  "build_rootfs ex r manifest layer_cache rootfs_cache rootfs staging =
     andThen (map_err oci_io (l_create_dir_all ex layer_cache)) (\<lambda>_.
     andThen (fetch_layers_cached ex r (im_layers manifest) layer_cache) (\<lambda>blobs.
     andThen (oci_temp_name ex (rootfs_cache_key (sha256 ex) (im_layers manifest))) (\<lambda>name.
     let tmp_rootfs = join rootfs_cache name in
     try_case (build_erofs_from_staging ex blobs staging tmp_rootfs)
       (\<lambda>e. andThen (ignore (l_remove_file ex tmp_rootfs)) (\<lambda>_.
            andThen (ignore (oci_remove_dir_if_exists ex staging)) (\<lambda>_. err e)))
       (\<lambda>_. map_err oci_io (publish_atomic_file ex tmp_rootfs rootfs)))))"

definition pull_image_rootfs ::
  "'x store_ext_scheme \<Rightarrow> RegistryClient \<Rightarrow> string \<Rightarrow> path \<Rightarrow> path \<Rightarrow> path \<Rightarrow> path
   \<Rightarrow> ('z store_world_scheme, OciError, PulledImage) comp" where
  "pull_image_rootfs ex client image_name layer_cache manifest_cache rootfs_cache staging =
     andThen (lift_result (ImageReference_parse image_name)) (\<lambda>r.
     andThen (resolve_manifest ex client r manifest_cache) (\<lambda>manifest.
     andThen (fetch_image_config ex r manifest layer_cache) (\<lambda>image_config.
     let rootfs_key = rootfs_cache_key (sha256 ex) (im_layers manifest) in
     andThen (map_err oci_io (l_create_dir_all ex rootfs_cache)) (\<lambda>_.
     let rootfs = join rootfs_cache (rootfs_key @ ''.erofs'') in
     andThen (valid_rootfs_cache_entry ex rootfs) (\<lambda>hit.
     if hit then ok \<lparr>pi_config = image_config, pi_rootfs = rootfs\<rparr>
     else andThen (build_rootfs ex r manifest layer_cache rootfs_cache rootfs staging) (\<lambda>_.
          ok \<lparr>pi_config = image_config, pi_rootfs = rootfs\<rparr>))))))"

section \<open>Bundles\<close>

record GvisorConfig =
  gc_container_name :: string
  gc_args :: "string list"
  gc_env :: "string list"
  gc_cwd :: string
  gc_rootfs :: path
  gc_rootfs_overlay :: path
  gc_network_namespace :: "path option"
  gc_resolv_conf :: "path option"
  gc_annotations :: "(string, string) btree_map"

definition GVISOR_ROOTFS_SOURCE_ANNOTATION :: string where
  "GVISOR_ROOTFS_SOURCE_ANNOTATION = ''dev.gvisor.spec.rootfs.source''"

definition GVISOR_ROOTFS_TYPE_ANNOTATION :: string where
  "GVISOR_ROOTFS_TYPE_ANNOTATION = ''dev.gvisor.spec.rootfs.type''"

definition GVISOR_ROOTFS_OVERLAY_ANNOTATION :: string where
  "GVISOR_ROOTFS_OVERLAY_ANNOTATION = ''dev.gvisor.spec.rootfs.overlay''"

definition capabilities :: json where
  "capabilities = JArr (map JStr [''CAP_AUDIT_WRITE'', ''CAP_KILL'', ''CAP_NET_BIND_SERVICE''])"

definition rootfs_annotations :: "GvisorConfig \<Rightarrow> (string, string) btree_map" where
  "rootfs_annotations c =
     bt_insert GVISOR_ROOTFS_OVERLAY_ANNOTATION (''dir='' @ display (gc_rootfs_overlay c))
       (bt_insert GVISOR_ROOTFS_TYPE_ANNOTATION ''erofs''
         (bt_insert GVISOR_ROOTFS_SOURCE_ANNOTATION (display (gc_rootfs c)) (gc_annotations c)))"

definition gvisor_config_json :: "GvisorConfig \<Rightarrow> json" where
  "gvisor_config_json c =
     (let namespaces = [jobj [(''type'', JStr ''pid'')], jobj [(''type'', JStr ''ipc'')], jobj [(''type'', JStr ''uts'')],
            jobj [(''type'', JStr ''mount'')]]
          @ (case gc_network_namespace c of None \<Rightarrow> []
             | Some netns \<Rightarrow> [jobj [(''type'', JStr ''network''), (''path'', JStr (display netns))]]);
        resolv_conf = (case gc_resolv_conf c of None \<Rightarrow> path_of ''/etc/resolv.conf'' | Some p \<Rightarrow> p)
      in jobj
        [(''ociVersion'', JStr ''1.0.2''),
         (''process'', jobj
            [(''terminal'', JBool False),
             (''user'', jobj [(''uid'', JNum 0), (''gid'', JNum 0)]),
             (''args'', JArr (map JStr (gc_args c))),
             (''env'', JArr (map JStr (gc_env c))),
             (''cwd'', JStr (gc_cwd c)),
             (''capabilities'', jobj [(''bounding'', capabilities), (''effective'', capabilities),
                (''inheritable'', capabilities), (''permitted'', capabilities)]),
             (''rlimits'', JArr [jobj [(''type'', JStr ''RLIMIT_NOFILE''), (''hard'', JNum 1024), (''soft'', JNum 1024)]]),
             (''noNewPrivileges'', JBool True)]),
         (''root'', jobj [(''path'', JStr ''rootfs''), (''readonly'', JBool False)]),
         (''hostname'', JStr ''runsc''),
         (''mounts'', JArr
            [jobj [(''destination'', JStr ''/proc''), (''type'', JStr ''proc''), (''source'', JStr ''proc'')],
             jobj [(''destination'', JStr ''/dev''), (''type'', JStr ''tmpfs''), (''source'', JStr ''tmpfs'')],
             jobj [(''destination'', JStr ''/sys''), (''type'', JStr ''sysfs''), (''source'', JStr ''sysfs''),
                (''options'', JArr (map JStr [''nosuid'', ''noexec'', ''nodev'', ''ro'']))],
             jobj [(''destination'', JStr ''/etc/resolv.conf''), (''type'', JStr ''bind''), (''source'', JStr (display resolv_conf)),
                (''options'', JArr [JStr ''ro''])]]),
         (''linux'', jobj [(''namespaces'', JArr namespaces)]),
         (''annotations'', JObj (map (\<lambda>(k, v). (k, JStr v)) (rootfs_annotations c)))])"

definition write_gvisor_config_json ::
  "'x store_ext_scheme \<Rightarrow> path \<Rightarrow> GvisorConfig \<Rightarrow> ('z store_world_scheme, OciError, unit) comp" where
  "write_gvisor_config_json ex p c =
     (if gc_args c = [] then err (NoCommand (gc_container_name c))
      else andThen (l_create_parent ex p) (\<lambda>_.
           andThen (lift_result (map_sum OciJson id (json_pretty ex (gvisor_config_json c)))) (\<lambda>body.
           andThen (map_err oci_io (create_file ex p)) (\<lambda>handle.
           map_err oci_io (write_chunk ex handle body)))))"

definition prepare_rootfs_overlay_dir ::
  "'x store_ext_scheme \<Rightarrow> OadPaths \<Rightarrow> SandboxId \<Rightarrow> string \<Rightarrow> ('z store_world_scheme, OciError, path) comp" where
  "prepare_rootfs_overlay_dir ex ps i container =
     (let overlay = rootfs_overlay_dir ps i container in
      andThen (map_err oci_io (l_create_dir_all ex overlay)) (\<lambda>_.
      map_err oci_io (canonicalize ex overlay)))"

definition pull_for ::
  "'x store_ext_scheme \<Rightarrow> OadPaths \<Rightarrow> SandboxId \<Rightarrow> string \<Rightarrow> string \<Rightarrow> ('z store_world_scheme, OciError, PulledImage) comp" where
  "pull_for ex ps i container image_name = pull_image_rootfs ex RegistryClient_new image_name (layer_cache_dir ps)
     (manifest_cache_dir ps) (rootfs_cache_dir ps) (rootfs_staging_dir ps i container)"

definition prepare_pause_bundle ::
  "'x store_ext_scheme \<Rightarrow> OadPaths \<Rightarrow> SandboxId \<Rightarrow> string \<Rightarrow> path option \<Rightarrow> path option
   \<Rightarrow> ('z store_world_scheme, OciError, unit) comp" where
  "prepare_pause_bundle ex ps i image_name netns resolv =
     andThen (pull_for ex ps i PAUSE_CONTAINER image_name) (\<lambda>pulled.
     andThen (map_err oci_io (l_create_dir_all ex (rootfs_dir ps i PAUSE_CONTAINER))) (\<lambda>_.
     andThen (prepare_rootfs_overlay_dir ex ps i PAUSE_CONTAINER) (\<lambda>overlay.
     andThen (map_err oci_io (canonicalize ex (pi_rootfs pulled))) (\<lambda>rootfs.
     write_gvisor_config_json ex (config_json ps i PAUSE_CONTAINER)
       \<lparr>gc_container_name = PAUSE_CONTAINER, gc_args = [''/pause''], gc_env = merged_env (image_env (pi_config pulled)) [],
        gc_cwd = cwd_or_root (working_dir (pi_config pulled)), gc_rootfs = rootfs, gc_rootfs_overlay = overlay,
        gc_network_namespace = netns, gc_resolv_conf = resolv,
        gc_annotations = bt_insert ''io.kubernetes.cri.container-type'' ''sandbox''
          (bt_insert ''io.kubernetes.cri.container-name'' PAUSE_CONTAINER [])\<rparr>))))"

definition prepare_container_bundle ::
  "'x store_ext_scheme \<Rightarrow> OadPaths \<Rightarrow> SandboxId \<Rightarrow> ContainerSpec \<Rightarrow> path option \<Rightarrow> path option
   \<Rightarrow> ('z store_world_scheme, OciError, unit) comp" where
  "prepare_container_bundle ex ps i container netns resolv =
     andThen (pull_for ex ps i (cs_name container) (cs_image container)) (\<lambda>pulled.
     andThen (map_err oci_io (l_create_dir_all ex (rootfs_dir ps i (cs_name container)))) (\<lambda>_.
     andThen (prepare_rootfs_overlay_dir ex ps i (cs_name container)) (\<lambda>overlay.
     andThen (map_err oci_io (canonicalize ex (pi_rootfs pulled))) (\<lambda>rootfs.
     andThen (lift_result (resolve_args container (pi_config pulled))) (\<lambda>args.
     write_gvisor_config_json ex (config_json ps i (cs_name container))
       \<lparr>gc_container_name = cs_name container, gc_args = args,
        gc_env = merged_env (image_env (pi_config pulled)) (cs_env container),
        gc_cwd = cwd_or_root (working_dir (pi_config pulled)), gc_rootfs = rootfs, gc_rootfs_overlay = overlay,
        gc_network_namespace = netns, gc_resolv_conf = resolv,
        gc_annotations = bt_insert ''io.kubernetes.cri.container-type'' ''container''
          (bt_insert ''io.kubernetes.cri.sandbox-id'' PAUSE_CONTAINER
            (bt_insert ''io.kubernetes.cri.container-name'' (cs_name container) []))\<rparr>)))))"

section \<open>Frames\<close>

context transition_rel
begin

lemma keeps_lift_then: "(\<And>x. r = Inr x \<Longrightarrow> keeps R (f x)) \<Longrightarrow> keeps R (andThen (lift_result r) f)"
  by (auto simp: keeps_def res_simps refl split: sum.splits)

end

text \<open>Operations on files leave the rest of the state alone.\<close>

definition same_rest :: "'z layer_world_scheme \<Rightarrow> 'z layer_world_scheme \<Rightarrow> bool" where
  "same_rest w w' \<longleftrightarrow> layer_world.more w' = layer_world.more w"

interpretation rest: transition_rel same_rest
  by unfold_locales (auto simp: same_rest_def)

lemma rest_syscall [pres_intros]: "keeps same_rest (syscall ex part f)"
  by (auto simp: keeps_def same_rest_def syscall_def Let_def split: option.splits sum.splits)

lemma rest_symlink_metadata [pres_intros]: "keeps same_rest (symlink_metadata ex p)"
  by (auto simp: keeps_def same_rest_def symlink_metadata_def Let_def split: option.splits sum.splits)

lemma rest_spawn_cmd [pres_intros]: "keeps same_rest (spawn_cmd ex prog args)"
  by (auto simp: keeps_def same_rest_def spawn_cmd_def Let_def split: sum.splits)

lemma rest_clock [pres_intros]: "keeps same_rest (read_clock ex)"
  by (auto simp: keeps_def same_rest_def read_clock_def)

lemma rest_calls [pres_intros]:
  "keeps same_rest (l_exists ex p)" "keeps same_rest (l_read_dir ex p)" "keeps same_rest (l_next_entry ex)"
  "keeps same_rest (l_read ex p)" "keeps same_rest (l_create_dir_all ex p)" "keeps same_rest (l_remove_file ex p)"
  "keeps same_rest (l_remove_dir_all ex p)" "keeps same_rest (symlink ex s p)" "keeps same_rest (hard_link ex q p)"
  "keeps same_rest (open_new ex m p)" "keeps same_rest (write_chunk ex p s)"
  "keeps same_rest (set_permissions ex p m)" "keeps same_rest (file_set_permissions ex p m)"
  "keeps same_rest (l_try_exists ex p)" "keeps same_rest (canonicalize ex p)" "keeps same_rest (create_file ex p)"
  "keeps same_rest (metadata_len ex p)"
  unfolding l_exists_def l_read_dir_def l_next_entry_def l_read_def l_create_dir_all_def l_remove_file_def l_remove_dir_all_def
    symlink_def hard_link_def open_new_def write_chunk_def set_permissions_def file_set_permissions_def l_try_exists_def
    canonicalize_def create_file_def metadata_len_def
  by (intro pres_intros)+

lemma rest_disk [pres_intros]:
  "keeps same_rest (flush ex)" "keeps same_rest (rename_path ex p q)" "keeps same_rest (publish_atomic_file ex p q)"
  "keeps same_rest (write_atomic_file ex p b)"
  unfolding publish_atomic_file_def write_atomic_file_def sync_parent_def sync_file_def sync_dir_def create_parent_def
    temp_path_def Let_def on_err_def syscall_defs
  by (intro pres_intros keeps_modify; simp add: same_rest_def)+

lemma rest_no_symlink_below [pres_intros]: "keeps same_rest (no_symlink_below ex cursor cs)"
  by (induction ex cursor cs rule: no_symlink_below.induct) (simp_all only: no_symlink_below.simps, (intro pres_intros; assumption)+)

lemma rest_budget [pres_intros]: "keeps same_rest (budget_take n)" "keeps same_rest (budget_copy ex h cs)"
proof -
  show budget: "keeps same_rest (budget_take n)" for n
    unfolding budget_take_def by (intro pres_intros keeps_modify) (simp add: same_rest_def)
  show "keeps same_rest (budget_copy ex h cs)"
    by (induction ex h cs rule: budget_copy.induct) (simp_all only: budget_copy.simps, (intro pres_intros budget; assumption?)+)
qed

lemma rest_steps [pres_intros]:
  "keeps same_rest (ensure_parent_safe ex rootfs p)" "keeps same_rest (remove_path_if_exists ex p)"
  "keeps same_rest (l_create_parent ex p)" "keeps same_rest (oci_remove_dir_if_exists ex p)" "keeps same_rest (build_erofs ex p q)"
  unfolding ensure_parent_safe_def Let_def remove_path_if_exists_def l_create_parent_def oci_remove_dir_if_exists_def build_erofs_def
  by (intro pres_intros)+

lemma rest_files [pres_intros]:
  "keeps same_rest (handle_whiteout ex rootfs p)" "keeps same_rest (ensure_directory ex rootfs p m)"
  "keeps same_rest (write_regular_file ex rootfs p m' cs)" "keeps same_rest (extract_symlink ex p t e)"
  "keeps same_rest (extract_link ex rootfs p t e)"
  unfolding handle_whiteout_def whiteout_entry_def ensure_directory_def write_regular_file_def extract_symlink_def extract_link_def
  by (intro pres_intros)+

lemma rest_regular_file [pres_intros]: "keeps same_rest (ensure_regular_file_exists ex rootfs p m)"
  unfolding ensure_regular_file_exists_def
  by (intro pres_intros) (auto split: node.splits inode.splits intro!: pres_intros)

lemma rest_extract [pres_intros]: "keeps same_rest (extract_layer_from_file ex rootfs m p)"
proof -
  have "keeps same_rest (extract_target ex rootfs p t e)" for p t e
    unfolding extract_target_def by (cases "te_type e") (auto intro!: pres_intros)
  then show ?thesis
    unfolding extract_layer_from_file_def extract_layer_from_reader_def extract_entry_def Let_def by (intro pres_intros)
qed

lemma rest_build [pres_intros]: "keeps same_rest (build_erofs_from_staging ex blobs staging out_image)"
  unfolding build_erofs_from_staging_def ensure_mount_points_sync_def
  by (intro pres_intros keeps_modify) (simp add: same_rest_def)

section \<open>Where requests go\<close>

definition safe_asks :: "'z store_world_scheme \<Rightarrow> bool" where
  "safe_asks w \<longleftrightarrow> list_all validate_remote_https_url (requested w)"

lemma asks_rest: "keeps same_rest m \<Longrightarrow> pres safe_asks m"
  unfolding keeps_def same_rest_def safe_asks_def
proof (intro allI impI)
  fix w :: "'a store_world_scheme"
  assume same: "\<forall>w. layer_world.more (snd (m w)) = layer_world.more w" and "list_all validate_remote_https_url (requested w)"
  moreover have "requested (snd (m w)) = requested w"
    using same [rule_format, of w] by (cases w; cases "snd (m w)") simp
  ultimately show "list_all validate_remote_https_url (requested (snd (m w)))" by simp
qed

lemma asks_calls [pres_intros]:
  "pres safe_asks (l_remove_file ex p)" "pres safe_asks (l_read ex p)" "pres safe_asks (read_clock ex)"
  "pres safe_asks (metadata_len ex p)" "pres safe_asks (write_atomic_file ex p b)" "pres safe_asks (l_try_exists ex p)"
  "pres safe_asks (create_file ex p)" "pres safe_asks (write_chunk ex p s)" "pres safe_asks (flush ex)"
  "pres safe_asks (rename_path ex p q)" "pres safe_asks (l_create_dir_all ex p)" "pres safe_asks (oci_remove_dir_if_exists ex p)"
  "pres safe_asks (build_erofs_from_staging ex blobs staging out_image)" "pres safe_asks (publish_atomic_file ex p q)"
  "pres safe_asks (canonicalize ex p)" "pres safe_asks (l_create_parent ex p)"
  by (intro asks_rest pres_intros)+

lemma asks_send: "validate_remote_https_url url \<Longrightarrow> pres safe_asks (send ex url auth accept)"
  by (auto simp: keeps_def send_def safe_asks_def Let_def split: sum.splits)

definition query_only :: "'x store_ext_scheme \<Rightarrow> bool" where
  "query_only ex \<longleftrightarrow> (\<forall>k v url. url_scheme (append_pair ex k v url) = url_scheme url \<and> url_host (append_pair ex k v url) = url_host url)"

lemma token_query_valid:
  "query_only ex \<Longrightarrow> validate_remote_https_url (token_query ex challenge repo url) = validate_remote_https_url url"
  by (simp add: token_query_def query_only_def validate_remote_https_url_def Let_def split: option.splits)

lemma registry_url_valid: "registry_url parse r p = Inr url \<Longrightarrow> validate_remote_https_url url"
  by (auto simp: registry_url_def validate_registry_url_def split: option.splits if_splits)

lemma asks_fetch_token [pres_intros]: "query_only ex \<Longrightarrow> pres safe_asks (fetch_token ex challenge repo)"
  unfolding fetch_token_def Let_def
  by (intro pres_intros inv.keeps_lift_then asks_send)
    (auto simp: token_query_valid validate_token_realm_def split: if_splits)

lemma asks_get_with_auth:
  "query_only ex \<Longrightarrow> validate_remote_https_url url \<Longrightarrow> pres safe_asks (get_with_auth ex url repo accept)"
  unfolding get_with_auth_def by (intro pres_intros asks_send) auto

lemma asks_caches [pres_intros]:
  "pres safe_asks (discard ex p)" "pres safe_asks (write_cache ex p bytes)" "pres safe_asks (oci_temp_name ex stem)"
  "pres safe_asks (read_blob_file_limited ex p d m k)" "pres safe_asks (verify_blob_file ex p d)"
  unfolding discard_def write_cache_def oci_temp_name_def read_blob_file_limited_def verify_blob_file_def
  by (intro pres_intros keeps_modify; simp add: safe_asks_def)+

lemma asks_read_blob_cache [pres_intros]: "pres safe_asks (read_blob_cache ex p d m k)"
  unfolding read_blob_cache_def by (intro pres_intros) (auto split: OciError.splits intro!: pres_intros)

lemma asks_read_manifest_cache [pres_intros]: "pres safe_asks (read_manifest_cache ex client manifest_ref d p)"
  unfolding read_manifest_cache_def
  by (intro pres_intros) (auto split: OciError.splits sum.splits intro!: pres_intros)

lemma asks_fetches [pres_intros]:
  assumes "query_only ex"
  shows "pres safe_asks (fetch_manifest ex client r manifest_ref d p)" "pres safe_asks (fetch_blob ex r d' m k)"
  unfolding fetch_manifest_def fetch_blob_def Let_def blob_url_def
  by (intro pres_intros inv.keeps_lift_then asks_get_with_auth assms; erule registry_url_valid)+

lemma asks_download_chunks [pres_intros]: "pres safe_asks (download_chunks ex kind limit h cs n hashed)"
proof (induction cs arbitrary: n hashed)
  case (Cons c cs)
  then show ?case by (cases c) (simp_all only: download_chunks.simps, (intro pres_intros Cons.IH)+)
qed (simp add: inv.keeps_ok)

lemma asks_layers [pres_intros]:
  assumes "query_only ex"
  shows "pres safe_asks (download_blob_cached ex r d' p q m)" "pres safe_asks (fetch_blob_cached ex r d' p m k)"
proof -
  show "pres safe_asks (download_blob_cached ex r d' p q m)"
    unfolding download_blob_cached_def download_blob_def Let_def blob_url_def on_err_def
    by (intro pres_intros inv.keeps_lift_then asks_get_with_auth assms; erule registry_url_valid)
  show "pres safe_asks (fetch_blob_cached ex r d' p m k)"
    unfolding fetch_blob_cached_def Let_def by (intro pres_intros assms)
qed

lemma asks_fetch_layer [pres_intros]: "query_only ex \<Longrightarrow> pres safe_asks (fetch_layer ex r p x)"
  unfolding fetch_layer_def
  by (cases x) (auto split: OciError.splits intro!: pres_intros)

lemma asks_pull [pres_intros]: "query_only ex \<Longrightarrow> pres safe_asks (pull_image_rootfs ex client image_name lc mc rc staging)"
  unfolding pull_image_rootfs_def resolve_manifest_def fetch_image_config_def build_rootfs_def fetch_layers_cached_def
    valid_rootfs_cache_entry_def Let_def
  by (intro pres_intros)


section \<open>What is fetched\<close>

lemma read_chunks_concat:
  assumes "unat n = length body" "length body \<le> unat limit"
  shows "read_chunks kind limit (map Inr cs) n body =
    (if length body + length (concat cs) \<le> unat limit then Inr (body @ concat cs) else Inl (BodyTooLarge kind limit))"
  using assms
proof (induction cs arbitrary: n body)
  case (Cons c cs)
  show ?case
  proof (cases "unat n + length c < 2 ^ 64")
    case True
    have size: "unat (n + of_nat (length c)) = unat n + length c"
      using True by (simp add: unat_add_lem [THEN iffD1] unat_of_nat)
    have "limit < n + of_nat (length c) \<longleftrightarrow> unat limit < length body + length c"
      using size Cons.prems(1) by (simp add: word_less_nat_alt)
    then show ?thesis
      using Cons.IH [of "n + of_nat (length c)" "body @ c"] Cons.prems size True by (auto simp: checked_add_def)
  next
    case False
    have "unat limit < 2 ^ 64" using unsigned_less [of limit] by simp
    then show ?thesis using False Cons.prems by (auto simp: checked_add_def)
  qed
qed simp

lemma read_chunks_bound: "read_chunks kind limit cs 0 [] = Inr body \<Longrightarrow> length body \<le> unat limit"
  by (drule read_chunks_ok) auto

lemma verify_digest_ok: "verify_digest sha bytes d = Inr () \<longleftrightarrow> d = ''sha256:'' @ sha bytes"
  by (auto simp: verify_digest_def verify_digest_hex_def strip_prefix_def prefix_def split: if_splits)

lemma discard_no_hit:
  "(case e of DigestMismatch a b \<Rightarrow> discard ex p | BodyTooLarge k l \<Rightarrow> discard ex p | _ \<Rightarrow> err e) w \<noteq> (Inr (Some x), w')"
  by (cases e) (auto simp: discard_def ok_iffs)

lemma read_blob_cache_hit:
  "read_blob_cache ex p digest limit kind w = (Inr (Some b), w') \<Longrightarrow> digest = ''sha256:'' @ sha256 ex b \<and> length b \<le> unat limit"
  by (auto simp: read_blob_cache_def read_blob_file_limited_def discard_no_hit ok_iffs verify_digest_ok [unfolded verify_digest_def]
      simp del: read_chunks.simps split: if_splits dest!: read_chunks_bound)

lemma fetch_blob_bound: "fetch_blob ex r digest limit kind w = (Inr b, w') \<Longrightarrow> length b \<le> unat limit"
  by (auto simp: fetch_blob_def read_response_limited_def ok_iffs split: if_splits dest!: read_chunks_bound)

lemma manifest_discard_no_hit:
  "(case v of Inl (DigestMismatch a b) \<Rightarrow> discard ex p | Inl e \<Rightarrow> err e
     | Inr y \<Rightarrow> (case j of Inr m \<Rightarrow> ok (Some m) | Inl e' \<Rightarrow> discard ex p)) w = (Inr (Some x), w') \<longleftrightarrow> v = Inr () \<and> j = Inr x \<and> w' = w"
  by (cases v; cases j; cases "projl v") (auto simp: discard_def ok_iffs)

lemma parse_json_body_ok: "parse_json_body lossy dec kind src b = Inr v \<longleftrightarrow> dec b = Inr v"
  by (cases "dec b") (auto simp: parse_json_body_def)

lemma discard_none: "discard ex p w \<noteq> (Inr (Some x), w')"
  by (simp add: discard_def ok_iffs)

lemma read_manifest_cache_hit:
  "read_manifest_cache ex client manifest_ref (Some digest) p w = (Inr (Some manifest), w')
   \<Longrightarrow> \<exists>bs. verify_digest (sha256 ex) bs digest = Inr () \<and> dec_image_manifest ex bs = Inr manifest"
  unfolding read_manifest_cache_def option.case(2)
  by (auto simp: ok_iffs manifest_discard_no_hit discard_none parse_json_body_ok split: option.splits if_splits)

text \<open>
  C9. Content is what its digest says: whatever the caches on disk hold, whatever the registry sends and
  whatever fails, a blob is returned only if its SHA-256 is the digest asked for and its size is within the
  limit, and a manifest asked for by digest is the decoding of bytes with that digest.
\<close>

theorem fetched_content_verified:
  fixes w :: "'z store_world_scheme"
  shows "(fetch_blob_cached ex r digest blob_cache limit kind w = (Inr bytes, w') \<longrightarrow>
      digest = ''sha256:'' @ sha256 ex bytes \<and> length bytes \<le> unat limit)
   \<and> (fetch_manifest ex client r manifest_ref (Some digest) cache w = (Inr manifest, w') \<longrightarrow>
      (\<exists>bs. digest = ''sha256:'' @ sha256 ex bs \<and> dec_image_manifest ex bs = Inr manifest))"
proof (intro conjI impI)
  assume run: "fetch_blob_cached ex r digest blob_cache limit kind w = (Inr bytes, w')"
  then consider p and w1 :: "'z store_world_scheme" where "read_blob_cache ex p digest limit kind w1 = (Inr (Some bytes), w')"
    | w1 w2 :: "'z store_world_scheme" where "fetch_blob ex r digest limit kind w1 = (Inr bytes, w2)" "verify_digest (sha256 ex) bytes digest = Inr ()"
    by (auto simp: fetch_blob_cached_def ok_iffs Let_def split: option.splits)
  then have "digest = ''sha256:'' @ sha256 ex bytes \<and> length bytes \<le> unat limit"
  proof cases
    case 1
    then show ?thesis by (rule read_blob_cache_hit)
  next
    case 2
    then show ?thesis using fetch_blob_bound [OF 2(1)] by (simp add: verify_digest_ok)
  qed
  then show "digest = ''sha256:'' @ sha256 ex bytes" "length bytes \<le> unat limit" by blast+
next
  assume "fetch_manifest ex client r manifest_ref (Some digest) cache w = (Inr manifest, w')"
  then consider p where "read_manifest_cache ex client manifest_ref (Some digest) p w = (Inr (Some manifest), w')"
    | bs where "verify_digest (sha256 ex) bs digest = Inr ()" "parse_json_body (utf8_lossy ex) (dec_image_manifest ex) ''manifest'' manifest_ref bs = Inr manifest"
    unfolding fetch_manifest_def Let_def by (auto simp: ok_iffs split: option.splits)
  then show "\<exists>bs. digest = ''sha256:'' @ sha256 ex bs \<and> dec_image_manifest ex bs = Inr manifest"
    by cases (auto simp: verify_digest_ok parse_json_body_ok dest!: read_manifest_cache_hit)
qed

subsection \<open>Layers\<close>

definition same_disk :: "('b, 'z) world_scheme \<Rightarrow> ('b, 'z) world_scheme \<Rightarrow> bool" where
  "same_disk w w' \<longleftrightarrow> disk w' = disk w"

interpretation still: transition_rel same_disk
  by unfold_locales (auto simp: same_disk_def)

lemma still_send [pres_intros]: "keeps same_disk (send ex url auth accept)"
  by (auto simp: keeps_def same_disk_def send_def Let_def split: sum.splits)

lemma still_get_with_auth [pres_intros]: "keeps same_disk (get_with_auth ex url repo accept)"
  unfolding get_with_auth_def fetch_token_def Let_def by (intro pres_intros)

lemma still_calls [pres_intros]: "keeps same_disk (l_try_exists ex p)" "keeps same_disk (l_read ex p)" "keeps same_disk (flush ex)"
  by (auto simp: keeps_def same_disk_def l_try_exists_def l_read_def flush_def syscall_def Let_def
      split: option.splits sum.splits node.splits inode.splits io_error.splits if_splits)

text \<open>A cache directory: real directories down to it, no links in it.\<close>

definition cache_ok :: "path \<Rightarrow> tree \<Rightarrow> bool" where
  "cache_ok L d \<longleftrightarrow> rooted L d \<and> (\<forall>n. \<not> is_symlink (d_get d (L @ [n])))"

text \<open>\<open>near L f d d'\<close>: only the entry \<open>f\<close> and hidden (temporary) entries of \<open>L\<close> differ.\<close>

definition near :: "path \<Rightarrow> string \<Rightarrow> tree \<Rightarrow> tree \<Rightarrow> bool" where
  "near L f d d' \<longleftrightarrow> cache_ok L d' \<and> (\<forall>n. n \<noteq> f \<and> \<not> prefix ''.'' n \<longrightarrow> d_get d' (L @ [n]) = d_get d (L @ [n]))"

definition holds_blob :: "'x store_ext_scheme \<Rightarrow> path \<Rightarrow> string \<Rightarrow> tree \<Rightarrow> bool" where
  "holds_blob ex p digest d \<longleftrightarrow> (\<exists>m s. d_get d p = Some (File (Regular m s)) \<and> digest = ''sha256:'' @ sha256 ex s)"

lemma cache_walk:
  assumes "cache_ok L d" "n \<noteq> ''..''" "walk h d [] (L @ [n]) = Inr q"
  shows "q = L @ [n]"
proof -
  have "\<not> is_symlink (d_get d r)" if "strict_prefix [] r" "prefix r ([] @ L @ [n])" for r
    using that assms(1) by (auto simp: cache_ok_def rooted_def is_dir_def strict_prefix_def)
  moreover have "no_dotdot (L @ [n])" using assms(1,2) by (auto simp: cache_ok_def rooted_def no_dotdot_def)
  ultimately show ?thesis using walk_direct [of "[]" "L @ [n]" d h q] assms(3) by simp
qed

lemma cache_entry_of: "cache_ok L d \<Longrightarrow> entry_of d (L @ [n]) = Inr (L @ [n])"
  using walk_dirs [of "[]" L d MAX_LINKS] by (auto simp: entry_of_def cache_ok_def rooted_def)

lemma cache_put: "cache_ok L d \<Longrightarrow> \<not> is_symlink (Some x) \<Longrightarrow> cache_ok L (d_put (L @ [n]) x d)"
  and cache_del: "cache_ok L d \<Longrightarrow> cache_ok L (d_del (L @ [n]) d)"
  by (auto simp: cache_ok_def rooted_def is_dir_def)

lemma near_put: "near L f d0 d \<Longrightarrow> n = f \<or> prefix ''.'' n \<Longrightarrow> \<not> is_symlink (Some x) \<Longrightarrow> near L f d0 (d_put (L @ [n]) x d)"
  and near_del: "near L f d0 d \<Longrightarrow> n = f \<or> prefix ''.'' n \<Longrightarrow> near L f d0 (d_del (L @ [n]) d)"
  by (auto simp: near_def cache_put cache_del)

lemma near_remove_file: "n = f \<or> prefix ''.'' n \<Longrightarrow> pres (\<lambda>w. near L f d0 (disk w)) (l_remove_file ex (L @ [n]))"
  by (auto simp: keeps_def l_remove_file_def syscall_def Let_def near_del
      split: option.splits sum.splits node.splits if_splits dest: cache_entry_of)
    (auto simp: near_def cache_entry_of cache_del)

lemma l_read_blob:
  assumes "cache_ok L (disk w)" "n \<noteq> ''..''" "l_read ex (L @ [n]) w = (Inr s, w')"
  shows "disk w' = disk w \<and> (\<exists>m. d_get (disk w) (L @ [n]) = Some (File (Regular m s)))"
proof -
  obtain q where "walk MAX_LINKS (disk w) [] (L @ [n]) = Inr q" "\<exists>m. d_get (disk w) q = Some (File (Regular m s))" "disk w' = disk w"
    using assms(3) by (auto simp: l_read_def syscall_def Let_def split: option.splits sum.splits node.splits inode.splits)
  with cache_walk [OF assms(1,2)] show ?thesis by blast
qed

lemma create_file_blob:
  assumes "near L f d0 (disk w)" "n \<noteq> ''..''" "prefix ''.'' n" "create_file ex (L @ [n]) w = (r, w')"
  shows "near L f d0 (disk w') \<and> (\<forall>h. r = Inr h \<longrightarrow> h = L @ [n] \<and> (\<exists>m. d_get (disk w') h = Some (File (Regular m []))))"
proof -
  have ok: "cache_ok L (disk w)" using assms(1) by (simp add: near_def)
  show ?thesis
    using assms cache_walk [OF ok assms(2), of MAX_LINKS]
    by (auto simp: create_file_def syscall_def Let_def near_put split: option.splits sum.splits if_splits prod.splits)
qed

lemma write_chunk_blob:
  assumes "near L f d0 (disk w)" "prefix ''.'' n" "d_get (disk w) (L @ [n]) = Some (File (Regular m s))"
    and "write_chunk ex (L @ [n]) chunk w = (r, w')"
  shows "near L f d0 (disk w') \<and> (r = Inr () \<longrightarrow> d_get (disk w') (L @ [n]) = Some (File (Regular m (s @ chunk))))"
  using assms by (auto simp: write_chunk_def syscall_def Let_def append_bytes_def near_put split: option.splits)

lemma download_chunks_blob:
  assumes "near L f d0 (disk w)" "prefix ''.'' n" "d_get (disk w) (L @ [n]) = Some (File (Regular m s))"
    and "download_chunks ex kind limit (L @ [n]) cs k s w = (r, w')"
  shows "near L f d0 (disk w') \<and> (\<forall>s'. r = Inr s' \<longrightarrow> d_get (disk w') (L @ [n]) = Some (File (Regular m s')))"
  using assms
proof (induction cs arbitrary: k s w)
  case Nil
  then show ?case by (auto simp: ok_def)
next
  case (Cons c cs)
  show ?case
  proof (cases c)
    case (Inl e)
    then show ?thesis using Cons.prems by (auto simp: err_def)
  next
    case (Inr chunk)
    obtain r1 w1 where w1: "write_chunk ex (L @ [n]) chunk w = (r1, w1)" by fastforce
    note step = write_chunk_blob [OF Cons.prems(1-3) w1]
    have rest: "near L f d0 (disk w') \<and> (\<forall>s'. r = Inr s' \<longrightarrow> d_get (disk w') (L @ [n]) = Some (File (Regular m s')))"
      if "r1 = Inr ()" "download_chunks ex kind limit (L @ [n]) cs k' (s @ chunk) w1 = (r, w')" for k'
      using Cons.IH [of w1 "s @ chunk" k'] step that Cons.prems(2) by simp
    show ?thesis
      using Cons.prems step rest Inr w1
      by (cases r1) (auto simp: andThen_def map_err_def err_def split: option.splits if_splits)
  qed
qed

lemma same_diskD: "keeps same_disk m \<Longrightarrow> m w = (r, w') \<Longrightarrow> disk w' = disk w"
  by (drule (1) keepsD') (simp add: same_disk_def)

lemma download_blob_near:
  assumes "near L f d0 (disk w)" "n \<noteq> ''..''" "prefix ''.'' n" "download_blob ex r digest (L @ [n]) limit kind w = (Inr (), w')"
  shows "near L f d0 (disk w') \<and> holds_blob ex (L @ [n]) digest (disk w')"
proof -
  obtain url response h s w1 w2 w3 where get: "get_with_auth ex url (repository r) None w = (Inr response, w1)"
    and create: "create_file ex (L @ [n]) w1 = (Inr h, w2)"
    and loop: "download_chunks ex kind limit h (hr_chunks response) 0 [] w2 = (Inr s, w3)"
    and fl: "flush ex w3 = (Inr (), w')" and dig: "verify_digest_hex (sha256 ex s) digest = Inr ()"
    using assms(4) by (auto simp: download_blob_def ok_iffs)
  have d1: "disk w1 = disk w" by (rule same_diskD [OF still_get_with_auth get])
  have n1: "near L f d0 (disk w1)" using assms(1) d1 by simp
  from create_file_blob [OF n1 assms(2,3) create] obtain m where n2: "near L f d0 (disk w2)"
    and h: "h = L @ [n]" and here: "d_get (disk w2) (L @ [n]) = Some (File (Regular m []))" by auto
  have "near L f d0 (disk w3)" "d_get (disk w3) (L @ [n]) = Some (File (Regular m s))"
    using download_chunks_blob [OF n2 assms(3) here loop [unfolded h]] by auto
  moreover have "disk w' = disk w3" by (rule same_diskD [OF still_calls(3) fl])
  ultimately show ?thesis using dig by (auto simp: holds_blob_def verify_digest_ok [unfolded verify_digest_def])
qed

lemma rename_blob:
  assumes "near L f d0 (disk w)" "prefix ''.'' n" "\<not> prefix ''.'' f" "holds_blob ex (L @ [n]) digest (disk w)"
    and "rename_path ex (L @ [n]) (L @ [f]) w = (Inr (), w')"
  shows "near L f d0 (disk w') \<and> holds_blob ex (L @ [f]) digest (disk w')"
proof -
  have "n \<noteq> f" using assms(2,3) by auto
  then have get: "d_get (d_move_tree (L @ [n]) (L @ [f]) (disk w)) r = (if prefix (L @ [f]) r then d_get (disk w) ((L @ [n]) @ drop (length (L @ [f])) r)
      else if prefix (L @ [n]) r then None else d_get (disk w) r)" for r
    by (intro d_get_move_tree) auto
  have up: "prefix q L \<Longrightarrow> \<not> prefix (L @ [a]) q" for q a by (auto simp: prefix_def)
  have "disk w' = d_move_tree (L @ [n]) (L @ [f]) (disk w)"
    using assms(4,5) \<open>n \<noteq> f\<close>
    by (auto simp: rename_path_def syscall_def Let_def holds_blob_def split: option.splits if_splits node.splits)
  then show ?thesis
    using assms(1-4) \<open>n \<noteq> f\<close> by (auto simp: near_def cache_ok_def rooted_def is_dir_def holds_blob_def get up)
qed

lemma blob_filename_name:
  "blob_filename digest = Inr f \<Longrightarrow> \<not> prefix ''.'' f \<and> f \<noteq> ''..'' \<and> plain_segment f"
  by (auto simp: blob_filename_def plain_segment_def split: option.splits if_splits dest: hexdigit_plain)

lemma blob_filename_inj: "blob_filename d = Inr f \<Longrightarrow> blob_filename d' = Inr f \<Longrightarrow> d = d'"
  by (auto simp: blob_filename_def strip_prefix_def prefix_def split: option.splits if_splits)

lemma temp_segment:
  assumes "plain_segment f"
  shows "plain_segment (''.'' @ f @ ''.'' @ show_nat p @ ''.'' @ show_nat n @ ''.tmp'')"
  using assms show_nat_no_slash by (auto simp: plain_segment_def)

lemma download_blob_cached_near:
  assumes near: "near L f d0 (disk w)" and f: "blob_filename digest = Inr f"
    and run: "download_blob_cached ex r digest L (L @ [f]) limit w = (Inr (), w')"
  shows "near L f d0 (disk w') \<and> holds_blob ex (L @ [f]) digest (disk w')"
proof -
  note name = blob_filename_name [OF f]
  define n where "n = ''.'' @ f @ ''.'' @ show_nat (pid ex) @ ''.'' @ show_nat (unat (oci_counter w)) @ ''.tmp''"
  have n: "plain_segment n" "prefix ''.'' n" using name temp_segment by (simp_all add: n_def)
  let ?w = "w\<lparr>oci_counter := oci_counter w + 1\<rparr>"
  have "(oci_temp_name ex f w :: (OciError, string) result \<times> _) = (Inr n, ?w)" by (simp add: oci_temp_name_def res_simps n_def)
  then obtain w2 where dl: "download_blob ex r digest (L @ [n]) limit ''layer'' ?w = (Inr (), w2)"
    and mv: "rename_path ex (L @ [n]) (L @ [f]) w2 = (Inr (), w')"
    using run f n(1) by (auto simp: download_blob_cached_def on_err_def ok_iffs Let_def)
  have "n \<noteq> ''..''" using n(1) by (simp add: plain_segment_def)
  then have "near L f d0 (disk w2) \<and> holds_blob ex (L @ [n]) digest (disk w2)"
    using download_blob_near [OF _ _ n(2) dl] near by simp
  then show ?thesis using rename_blob [OF _ n(2) _ _ mv] name by blast
qed

lemma fetch_layer_near:
  assumes near: "near L f d0 (disk w)" and f: "blob_filename digest = Inr f"
    and run: "fetch_layer ex r L (L @ [f], digest, media_type, limit) w = (Inr (), w')"
  shows "near L f d0 (disk w') \<and> holds_blob ex (L @ [f]) digest (disk w')"
proof -
  note name = blob_filename_name [OF f]
  obtain there w1 where there: "l_try_exists ex (L @ [f]) w = (Inr there, w1)" using run by (auto simp: fetch_layer_def ok_iffs)
  have w1: "disk w1 = disk w" by (rule same_diskD [OF still_calls(1) there])
  obtain v w2 where check: "verify_blob_file ex (L @ [f]) digest w1 = (v, w2)" by fastforce
  have w2: "disk w2 = disk w"
    using check w1 same_diskD [of "verify_blob_file ex (L @ [f]) digest"] unfolding verify_blob_file_def by (metis still.keeps_andThen still.keeps_lift_result still.keeps_map_err still_calls(2))
  have blob: "holds_blob ex (L @ [f]) digest (disk w2)" if "v = Inr ()"
    using that check near w1 w2 name l_read_blob [of L w1 f ex]
    by (fastforce simp: verify_blob_file_def ok_iffs holds_blob_def near_def verify_digest_ok [unfolded verify_digest_def])
  have removed: "near L f d0 (disk (snd (l_remove_file ex (L @ [f]) w2)))"
    using keepsD [OF near_remove_file [of f f L d0 ex], of w2] near w2 by simp
  show ?thesis
  proof (cases "there \<and> v = Inr ()")
    case True
    then have "w' = w2" using run there check by (auto simp: fetch_layer_def andThen_def map_err_def try_case_def ok_def)
    then show ?thesis using blob True near w2 by simp
  next
    case False
    then obtain w3 where "near L f d0 (disk w3)" "download_blob_cached ex r digest L (L @ [f]) limit w3 = (Inr (), w')"
      using run there check removed near [folded w1]
      by (cases v) (auto simp: fetch_layer_def andThen_def map_err_def try_case_def ignore_def err_def split: if_splits OciError.splits)
    then show ?thesis using download_blob_cached_near [OF _ f] by blast
  qed
qed

lemma fetch_all_near:
  assumes "for_each downloads (fetch_layer ex r L) w = (Inr (), w')" "cache_ok L (disk w)"
    and "\<And>p digest mt limit. (p, digest, mt, limit) \<in> set downloads \<Longrightarrow> \<exists>f. p = L @ [f] \<and> blob_filename digest = Inr f"
  shows "cache_ok L (disk w')
    \<and> (\<forall>f digest. blob_filename digest = Inr f \<and> holds_blob ex (L @ [f]) digest (disk w) \<longrightarrow> holds_blob ex (L @ [f]) digest (disk w'))
    \<and> (\<forall>p digest mt limit. (p, digest, mt, limit) \<in> set downloads \<longrightarrow> holds_blob ex p digest (disk w'))"
  using assms
proof (induction downloads arbitrary: w)
  case Nil
  then show ?case by (simp add: ok_def)
next
  case (Cons x downloads)
  obtain p digest mt limit where x: "x = (p, digest, mt, limit)" by (cases x) auto
  obtain f where p: "p = L @ [f]" and f: "blob_filename digest = Inr f" using Cons.prems(3) [of p digest mt limit] x by auto
  obtain w1 where first: "fetch_layer ex r L (L @ [f], digest, mt, limit) w = (Inr (), w1)"
    and others: "for_each downloads (fetch_layer ex r L) w1 = (Inr (), w')"
    using Cons.prems(1) x p by (auto simp: andThen_ok_iff)
  have "near L f (disk w) (disk w)" using Cons.prems(2) by (simp add: near_def)
  from fetch_layer_near [OF this f first] have near: "near L f (disk w) (disk w1)" and blob: "holds_blob ex (L @ [f]) digest (disk w1)"
    by auto
  have ih: "cache_ok L (disk w')
    \<and> (\<forall>f digest. blob_filename digest = Inr f \<and> holds_blob ex (L @ [f]) digest (disk w1) \<longrightarrow> holds_blob ex (L @ [f]) digest (disk w'))
    \<and> (\<forall>p digest mt limit. (p, digest, mt, limit) \<in> set downloads \<longrightarrow> holds_blob ex p digest (disk w'))"
  proof (rule Cons.IH [OF others])
    show "cache_ok L (disk w1)" using near by (simp add: near_def)
    show "\<exists>f. p = L @ [f] \<and> blob_filename digest = Inr f" if "(p, digest, mt, limit) \<in> set downloads" for p digest mt limit
      using Cons.prems(3) [of p digest mt limit] that by simp
  qed
  have kept: "holds_blob ex (L @ [f']) digest' (disk w1)"
    if "blob_filename digest' = Inr f'" "holds_blob ex (L @ [f']) digest' (disk w)" for f' digest'
  proof (cases "f' = f")
    case True
    then show ?thesis using blob blob_filename_inj [OF f] that(1) by metis
  next
    case False
    then have "d_get (disk w1) (L @ [f']) = d_get (disk w) (L @ [f'])"
      using near blob_filename_name [OF that(1)] by (simp add: near_def)
    then show ?thesis using that(2) by (simp add: holds_blob_def)
  qed
  show ?case using ih kept blob x p f by auto
qed

lemma collect_results_map: "collect_results (map g xs) = Inr ys \<Longrightarrow> list_all2 (\<lambda>x y. g x = Inr y) xs ys"
proof (induction xs arbitrary: ys)
  case (Cons x xs)
  then show ?case by (cases "g x") (auto split: sum.splits)
qed simp


section \<open>Examples\<close>

lemma char_between_code [code]:
  "char_between lo hi c \<longleftrightarrow> (of_char lo :: int) \<le> of_char c \<and> (of_char c :: int) \<le> of_char hi"
proof -
  have "(of_char x :: int) = int (of_char x)" for x by (simp add: of_char_def horner_sum_eq_sum)
  then show ?thesis by (simp add: char_between_def)
qed

lemma checked_add_code [code]:
  "checked_add a n = (if uint a + int n < 18446744073709551616 then Some (a + word_of_int (int n)) else None)"
proof -
  have "unat a + n < 2 ^ 64 \<longleftrightarrow> int (unat a + n) < int (2 ^ 64)" by (simp only: of_nat_less_iff)
  moreover have "int (unat a + n) = uint a + int n" "int (2 ^ 64) = 18446744073709551616" by simp_all
  ultimately show ?thesis by (simp add: checked_add_def)
qed

text \<open>
  A registry that first asks for a token and then serves the blob \<open>ab\<close>; the cache holds a copy
  of it, damaged or not. The digest of \<open>ab\<close> is sixty-four \<open>a\<close>, that of everything else sixty-four \<open>b\<close>.
\<close>

definition sample_sha256 :: "string \<Rightarrow> string" where
  "sample_sha256 s = replicate 64 (if s = ''ab'' then CHR ''a'' else CHR ''b'')"

definition sample_digest :: string where
  "sample_digest = ''sha256:'' @ replicate 64 (CHR ''a'')"

definition sample_url :: "string \<Rightarrow> Url" where
  "sample_url s = \<lparr>url_scheme = ''https'', url_host = Some (Domain ''r.io''), url_text = s\<rparr>"

definition sample_get :: "nat \<Rightarrow> Url \<Rightarrow> string option \<Rightarrow> string option \<Rightarrow> (string, http_response) result" where
  "sample_get t url auth accept = Inr (if url_text url = ''https://auth'' then
       \<lparr>hr_status = 200, hr_www_authenticate = None, hr_content_length = None, hr_chunks = [Inr ''tok'']\<rparr>
     else if auth = None then
       \<lparr>hr_status = 401, hr_www_authenticate = Some (Some (''Bearer realm='' @ [CHR 0x22] @ ''https://auth'' @ [CHR 0x22])),
        hr_content_length = None, hr_chunks = []\<rparr>
     else \<lparr>hr_status = 200, hr_www_authenticate = None, hr_content_length = None, hr_chunks = [Inr ''a'', Inr ''b'']\<rparr>)"

definition store_sample_ext :: store_ext where
  "store_sample_ext = layer_ext.extend (layer_sample_ext [] (Inr []))
     \<lparr>http_get = sample_get, status_text = (\<lambda>_ _. []), url_parse = (\<lambda>s. Some (sample_url s)), append_pair = (\<lambda>_ _ url. url),
      sha256 = sample_sha256, dec_image_manifest = (\<lambda>s. if s = ''ab'' then Inr \<lparr>im_manifests = None, im_config = None, im_layers = []\<rparr> else Inl ''EOF''),
      dec_image_config = (\<lambda>_. Inl ''EOF''), dec_token = (\<lambda>s. Inr \<lparr>tr_token = Some s, tr_access_token = None\<rparr>),
      modified_at = (\<lambda>_ _. None), arch = ''x86_64'', json_pretty = (\<lambda>_. Inr ''{}'')\<rparr>"

definition sample_ref :: ImageReference where
  "sample_ref = \<lparr>registry = ''r.io'', repository = ''a'', ref_reference = sample_digest, reference_is_digest = True\<rparr>"

definition store_sample :: "string \<Rightarrow> store_world" where
  "store_sample copy = layer_world.extend
     \<lparr>tick = 0, tmp_counter = 0, disk = [([''/''], Dir), ([''/'', ''c''], Dir),
        ([''/'', ''c'', ''sha256-'' @ replicate 64 (CHR ''a'') @ ''.blob''], File (Regular 0x1A4 copy))],
      records = [], locks = [], lock_seq = 0, cmds = [], remaining = 10\<rparr>
     \<lparr>requested = [], oci_counter = 0\<rparr>"

definition sample_layer :: Descriptor where
  "sample_layer = \<lparr>d_media_type = None, d_digest = sample_digest, d_size = Some 2, d_platform = None\<rparr>"

definition sample_image :: ContainerSpec where
  "sample_image = \<lparr>cs_name = ''c'', cs_image = ''r.io/a@'' @ sample_digest, cs_command = [], cs_args = [], cs_env = []\<rparr>"


theorem fetched_content_verified_witness:
  "fst (fetch_blob_cached store_sample_ext sample_ref sample_digest [''/'', ''c''] 10 ''config'' (store_sample ''damaged'')) = Inr ''ab''
   \<and> sample_digest = ''sha256:'' @ sha256 store_sample_ext ''ab''"
proof -
  have run: "fst (fetch_blob_cached store_sample_ext sample_ref sample_digest [''/'', ''c''] 10 ''config'' (store_sample ''damaged'')) = Inr ''ab''"
    by code_simp
  then obtain w' where "fetch_blob_cached store_sample_ext sample_ref sample_digest [''/'', ''c''] 10 ''config'' (store_sample ''damaged'') = (Inr ''ab'', w')"
    by (metis prod.collapse)
  with run show ?thesis using fetched_content_verified [of store_sample_ext sample_ref sample_digest "[''/'', ''c'']" 10 "''config''" "store_sample ''damaged''" "''ab''" w'] by blast
qed

lemma store_sample_cache: "cache_ok [''/'', ''c''] (disk (store_sample copy))"
  by (simp add: cache_ok_def rooted_code store_sample_def layer_world.extend_def parent_def root_component_def no_dotdot_def is_dir_def)


end
