(* ===== verification/Config.thy ===== *)
theory Config
  imports Images
begin

text \<open>
  Loading the configuration of the daemon (\<open>oad/src/config.rs\<close>): the command line, the TOML file, the
  environment overrides and the defaults. The environment, the files and the TOML parser are arguments;
  an error is the list of its messages, the outermost context first.
\<close>

section \<open>The file\<close>

definition DEFAULT_BIND :: string where
  "DEFAULT_BIND = ''127.0.0.1:8080''"

definition DEFAULT_BASE_DIR :: string where
  "DEFAULT_BASE_DIR = ''/run/omniagent''"

definition DEFAULT_PAUSE_IMAGE :: string where
  "DEFAULT_PAUSE_IMAGE = ''registry.k8s.io/pause:3.10''"

record FileHttpConfig =
  fh_bind :: "string option"
  fh_bearer_token :: "string option"

record FileNetworkRuntimeConfig =
  fn_enabled :: "bool option"
  fn_backend :: "ManagedNetworkBackend option"
  fn_sandbox_cidr :: "string option"
  fn_envoy_listener :: "string option"
  fn_dns_listener :: "string option"
  fn_dns_upstream :: "string option"

record FileObservabilityConfig =
  fo_enabled :: "bool option"

record FileRuntimeConfig =
  fr_base_dir :: "path option"
  fr_pause_image :: "string option"
  fr_network_namespace :: "path option"
  fr_network :: FileNetworkRuntimeConfig
  fr_observability :: FileObservabilityConfig

record FileConfig =
  fc_http :: FileHttpConfig
  fc_runtime :: FileRuntimeConfig

definition FileConfig_default :: FileConfig where
  "FileConfig_default =
     \<lparr>fc_http = \<lparr>fh_bind = None, fh_bearer_token = None\<rparr>,
      fc_runtime = \<lparr>fr_base_dir = None, fr_pause_image = None, fr_network_namespace = None,
        fr_network = \<lparr>fn_enabled = None, fn_backend = None, fn_sandbox_cidr = None, fn_envoy_listener = None,
          fn_dns_listener = None, fn_dns_upstream = None\<rparr>,
        fr_observability = \<lparr>fo_enabled = None\<rparr>\<rparr>\<rparr>"

section \<open>Environment\<close>

type_synonym environment = "string \<Rightarrow> string option"

type_synonym config_error = "string list"

definition parse_bool_env :: "string \<Rightarrow> string \<Rightarrow> (config_error, bool) result" where
  "parse_bool_env name value = (let v = to_ascii_lowercase value in
     if v \<in> {''1'', ''true'', ''yes'', ''on''} then Inr True
     else if v \<in> {''0'', ''false'', ''no'', ''off''} then Inr False
     else Inl [name @ '' must be a boolean, got '' @ show_debug value])"

definition parse_backend_env :: "string \<Rightarrow> (config_error, ManagedNetworkBackend) result" where
  "parse_backend_env value = (let v = to_ascii_lowercase value in
     if v = ''hostinet'' then Inr Hostinet
     else if v = ''netstack'' then Inr Netstack
     else Inl [''OAD_NETWORK_BACKEND must be hostinet or netstack, got '' @ show_debug value])"

text \<open>\<open>override env name old\<close>: the variable when it is set, the value of the file otherwise.\<close>

definition override :: "environment \<Rightarrow> string \<Rightarrow> string option \<Rightarrow> string option" where
  "override env name old = (case env name of Some v \<Rightarrow> Some v | None \<Rightarrow> old)"

definition override_path :: "environment \<Rightarrow> string \<Rightarrow> path option \<Rightarrow> path option" where
  "override_path env name old = (case env name of Some v \<Rightarrow> Some (path_of v) | None \<Rightarrow> old)"

definition override_with ::
  "environment \<Rightarrow> string \<Rightarrow> (string \<Rightarrow> (config_error, 'a) result) \<Rightarrow> 'a option \<Rightarrow> (config_error, 'a option) result" where
  "override_with env name parse old = (case env name of None \<Rightarrow> Inr old
     | Some v \<Rightarrow> (case parse v of Inl e \<Rightarrow> Inl e | Inr x \<Rightarrow> Inr (Some x)))"

definition apply_env_overrides :: "environment \<Rightarrow> FileConfig \<Rightarrow> (config_error, FileConfig) result" where
  "apply_env_overrides env c =
     (let h = fc_http c; r = fc_runtime c; n = fr_network r in
      case override_with env ''OAD_NETWORK_ENABLED'' (parse_bool_env ''OAD_NETWORK_ENABLED'') (fn_enabled n) of Inl e \<Rightarrow> Inl e
      | Inr enabled \<Rightarrow>
     (case override_with env ''OAD_NETWORK_BACKEND'' parse_backend_env (fn_backend n) of Inl e \<Rightarrow> Inl e
      | Inr backend \<Rightarrow>
     (case override_with env ''OAD_OBSERVABILITY_ENABLED'' (parse_bool_env ''OAD_OBSERVABILITY_ENABLED'')
         (fo_enabled (fr_observability r)) of Inl e \<Rightarrow> Inl e
      | Inr observed \<Rightarrow> Inr
        \<lparr>fc_http = \<lparr>fh_bind = override env ''OAD_HTTP_BIND'' (fh_bind h),
           fh_bearer_token = override env ''OAD_BEARER_TOKEN'' (fh_bearer_token h)\<rparr>,
         fc_runtime = \<lparr>fr_base_dir = override_path env ''OAD_BASE_DIR'' (fr_base_dir r),
           fr_pause_image = override env ''OAD_PAUSE_IMAGE'' (fr_pause_image r),
           fr_network_namespace = override_path env ''OAD_NETWORK_NAMESPACE'' (fr_network_namespace r),
           fr_network = \<lparr>fn_enabled = enabled, fn_backend = backend,
             fn_sandbox_cidr = override env ''OAD_NETWORK_SANDBOX_CIDR'' (fn_sandbox_cidr n),
             fn_envoy_listener = override env ''OAD_ENVOY_LISTENER'' (fn_envoy_listener n),
             fn_dns_listener = override env ''OAD_DNS_LISTENER'' (fn_dns_listener n),
             fn_dns_upstream = override env ''OAD_DNS_UPSTREAM'' (fn_dns_upstream n)\<rparr>,
           fr_observability = \<lparr>fo_enabled = observed\<rparr>\<rparr>\<rparr>)))"

section \<open>Resolution\<close>

definition unwrap_or :: "'a option \<Rightarrow> 'a \<Rightarrow> 'a" where
  "unwrap_or x d = (case x of Some v \<Rightarrow> v | None \<Rightarrow> d)"

definition resolve_observability_config :: "FileConfig \<Rightarrow> ObservabilityConfig" where
  "resolve_observability_config c =
     \<lparr>obs_enabled = unwrap_or (fo_enabled (fr_observability (fc_runtime c))) (obs_enabled ObservabilityConfig_default)\<rparr>"

text \<open>The name server of one line of \<open>resolv.conf\<close>.\<close>

definition nameserver_line :: "string \<Rightarrow> string option" where
  "nameserver_line raw = (case strip_prefix ''nameserver'' (trim_by is_space raw) of
       None \<Rightarrow> None
     | Some r \<Rightarrow> (let rest = trim_by is_space r; server = takeWhile (\<lambda>c. \<not> is_space c) rest in
         if server = [] then None
         else if CHR '':'' \<in> set server then Some (''['' @ server @ '']:53'')
         else Some (server @ '':53'')))"

fun find_map :: "('a \<Rightarrow> 'b option) \<Rightarrow> 'a list \<Rightarrow> 'b option" where
  "find_map f [] = None"
| "find_map f (x # xs) = (case f x of Some y \<Rightarrow> Some y | None \<Rightarrow> find_map f xs)"

text \<open>\<open>lines\<close> also drops a final empty piece and carriage returns; neither can be a name server line.\<close>

definition host_dns_upstream :: "(path \<Rightarrow> (io_error, string) result) \<Rightarrow> string option" where
  "host_dns_upstream read = (case read (path_of ''/etc/resolv.conf'') of Inl _ \<Rightarrow> None
     | Inr body \<Rightarrow> find_map nameserver_line (split_on (CHR 0x0A) body))"

definition default_base_dir :: path where
  "default_base_dir = path_of DEFAULT_BASE_DIR"

definition resolve_network_config ::
  "(path \<Rightarrow> (io_error, string) result) \<Rightarrow> FileConfig \<Rightarrow> (config_error, NetworkRuntimeConfig) result" where
  "resolve_network_config read c =
     (let defaults = NetworkRuntimeConfig_default; r = fc_runtime c; n = fr_network r;
          legacy_netns = (fr_network_namespace r \<noteq> None);
          enabled = unwrap_or (fn_enabled n) (\<not> legacy_netns)
      in if enabled \<and> legacy_netns
         then Inl [''runtime.network.enabled cannot be true when runtime.network_namespace is set'']
         else Inr \<lparr>nc_enabled = enabled,
           nc_backend = unwrap_or (fn_backend n) (nc_backend defaults),
           sandbox_cidr = unwrap_or (fn_sandbox_cidr n) (sandbox_cidr defaults),
           envoy_listener = unwrap_or (fn_envoy_listener n) (envoy_listener defaults),
           dns_listener = unwrap_or (fn_dns_listener n) (dns_listener defaults),
           dns_upstream = unwrap_or (case fn_dns_upstream n of Some v \<Rightarrow> Some v | None \<Rightarrow> host_dns_upstream read)
             (dns_upstream defaults)\<rparr>)"

text \<open>\<open>toml::from_str\<close> is the argument \<open>toml\<close>; its error is a message.\<close>

definition read_file_config ::
  "(path \<Rightarrow> (io_error, string) result) \<Rightarrow> (string \<Rightarrow> (string, FileConfig) result) \<Rightarrow> path option
   \<Rightarrow> (config_error, FileConfig) result" where
  "read_file_config read toml p = (case p of
       Some file \<Rightarrow> (case read file of
          Inl e \<Rightarrow> Inl [''failed to read '' @ display file, show_io_error e]
        | Inr body \<Rightarrow> (case toml body of Inl e \<Rightarrow> Inl [''failed to parse '' @ display file, e] | Inr c \<Rightarrow> Inr c))
     | None \<Rightarrow> (case read (path_of ''oad.toml'') of
          Inr body \<Rightarrow> (case toml body of Inl e \<Rightarrow> Inl [''failed to parse oad.toml'', e] | Inr c \<Rightarrow> Inr c)
        | Inl NotFound \<Rightarrow> Inr FileConfig_default
        | Inl e \<Rightarrow> Inl [''failed to read oad.toml'', show_io_error e]))"

definition load_config ::
  "environment \<Rightarrow> (path \<Rightarrow> (io_error, string) result) \<Rightarrow> (string \<Rightarrow> (string, FileConfig) result) \<Rightarrow> path option
   \<Rightarrow> (config_error, DaemonConfig) result" where
  "load_config env read toml p =
     (case read_file_config read toml p of Inl e \<Rightarrow> Inl e | Inr from_file \<Rightarrow>
     (case apply_env_overrides env from_file of Inl e \<Rightarrow> Inl e | Inr c \<Rightarrow>
     (case resolve_network_config read c of Inl e \<Rightarrow> Inl e | Inr network \<Rightarrow>
      let token = unwrap_or (fh_bearer_token (fc_http c)) []; r = fc_runtime c in
      if token = [] then Inl [''missing bearer token; set http.bearer_token or OAD_BEARER_TOKEN'']
      else Inr \<lparr>http = \<lparr>bind_addr = unwrap_or (fh_bind (fc_http c)) DEFAULT_BIND, bearer_token = token\<rparr>,
        runtime = \<lparr>rc_base_dir = unwrap_or (fr_base_dir r) default_base_dir,
          rc_pause_image = unwrap_or (fr_pause_image r) DEFAULT_PAUSE_IMAGE,
          rc_network_namespace = fr_network_namespace r, rc_network = network,
          rc_observability = resolve_observability_config c\<rparr>\<rparr>)))"

section \<open>Command line\<close>

datatype cli_outcome = ConfigPath "path option" | ShowHelp

fun config_path_loop :: "path option \<Rightarrow> string list \<Rightarrow> (config_error, cli_outcome) result" where
  "config_path_loop found [] = Inr (ConfigPath found)"
| "config_path_loop found (arg # args) =
     (if arg = ''--config'' then
        (case args of [] \<Rightarrow> Inl [''--config requires a path''] | p # rest \<Rightarrow> config_path_loop (Some (path_of p)) rest)
      else if arg = ''--help'' \<or> arg = ''-h'' then Inr ShowHelp
      else Inl [''unknown argument '' @ show_debug arg])"

definition config_path_from_args :: "string list \<Rightarrow> (config_error, cli_outcome) result" where
  "config_path_from_args command_line = config_path_loop None (drop 1 command_line)"

section \<open>Properties\<close>

lemma parse_bool_env_iff:
  "parse_bool_env name v = Inr b \<longleftrightarrow>
     to_ascii_lowercase v \<in> (if b then {''1'', ''true'', ''yes'', ''on''} else {''0'', ''false'', ''no'', ''off''})"
  by (auto simp: parse_bool_env_def Let_def split: if_splits)

lemma override_with_ok:
  "override_with env name parse old = Inr x \<longleftrightarrow> (case env name of None \<Rightarrow> x = old | Some v \<Rightarrow> (\<exists>y. parse v = Inr y \<and> x = Some y))"
  by (auto simp: override_with_def split: option.splits sum.splits)

lemma apply_env_overrides_fields:
  assumes "apply_env_overrides env c = Inr c'"
  shows "fh_bind (fc_http c') = override env ''OAD_HTTP_BIND'' (fh_bind (fc_http c))"
    "fh_bearer_token (fc_http c') = override env ''OAD_BEARER_TOKEN'' (fh_bearer_token (fc_http c))"
    "fr_base_dir (fc_runtime c') = override_path env ''OAD_BASE_DIR'' (fr_base_dir (fc_runtime c))"
    "fr_pause_image (fc_runtime c') = override env ''OAD_PAUSE_IMAGE'' (fr_pause_image (fc_runtime c))"
    "fr_network_namespace (fc_runtime c') = override_path env ''OAD_NETWORK_NAMESPACE'' (fr_network_namespace (fc_runtime c))"
    "fn_sandbox_cidr (fr_network (fc_runtime c')) = override env ''OAD_NETWORK_SANDBOX_CIDR'' (fn_sandbox_cidr (fr_network (fc_runtime c)))"
    "fn_dns_upstream (fr_network (fc_runtime c')) = override env ''OAD_DNS_UPSTREAM'' (fn_dns_upstream (fr_network (fc_runtime c)))"
    "case env ''OAD_NETWORK_ENABLED'' of None \<Rightarrow> fn_enabled (fr_network (fc_runtime c')) = fn_enabled (fr_network (fc_runtime c))
     | Some v \<Rightarrow> (\<exists>b. parse_bool_env ''OAD_NETWORK_ENABLED'' v = Inr b \<and> fn_enabled (fr_network (fc_runtime c')) = Some b)"
proof -
  obtain e b obs where e: "override_with env ''OAD_NETWORK_ENABLED'' (parse_bool_env ''OAD_NETWORK_ENABLED'') (fn_enabled (fr_network (fc_runtime c))) = Inr e"
    and c': "c' = \<lparr>fc_http = \<lparr>fh_bind = override env ''OAD_HTTP_BIND'' (fh_bind (fc_http c)),
           fh_bearer_token = override env ''OAD_BEARER_TOKEN'' (fh_bearer_token (fc_http c))\<rparr>,
         fc_runtime = \<lparr>fr_base_dir = override_path env ''OAD_BASE_DIR'' (fr_base_dir (fc_runtime c)),
           fr_pause_image = override env ''OAD_PAUSE_IMAGE'' (fr_pause_image (fc_runtime c)),
           fr_network_namespace = override_path env ''OAD_NETWORK_NAMESPACE'' (fr_network_namespace (fc_runtime c)),
           fr_network = \<lparr>fn_enabled = e, fn_backend = b,
             fn_sandbox_cidr = override env ''OAD_NETWORK_SANDBOX_CIDR'' (fn_sandbox_cidr (fr_network (fc_runtime c))),
             fn_envoy_listener = override env ''OAD_ENVOY_LISTENER'' (fn_envoy_listener (fr_network (fc_runtime c))),
             fn_dns_listener = override env ''OAD_DNS_LISTENER'' (fn_dns_listener (fr_network (fc_runtime c))),
             fn_dns_upstream = override env ''OAD_DNS_UPSTREAM'' (fn_dns_upstream (fr_network (fc_runtime c)))\<rparr>,
           fr_observability = \<lparr>fo_enabled = obs\<rparr>\<rparr>\<rparr>"
    using assms unfolding apply_env_overrides_def Let_def by (auto split: sum.splits intro: that)
  show "fh_bind (fc_http c') = override env ''OAD_HTTP_BIND'' (fh_bind (fc_http c))"
    "fh_bearer_token (fc_http c') = override env ''OAD_BEARER_TOKEN'' (fh_bearer_token (fc_http c))"
    "fr_base_dir (fc_runtime c') = override_path env ''OAD_BASE_DIR'' (fr_base_dir (fc_runtime c))"
    "fr_pause_image (fc_runtime c') = override env ''OAD_PAUSE_IMAGE'' (fr_pause_image (fc_runtime c))"
    "fr_network_namespace (fc_runtime c') = override_path env ''OAD_NETWORK_NAMESPACE'' (fr_network_namespace (fc_runtime c))"
    "fn_sandbox_cidr (fr_network (fc_runtime c')) = override env ''OAD_NETWORK_SANDBOX_CIDR'' (fn_sandbox_cidr (fr_network (fc_runtime c)))"
    "fn_dns_upstream (fr_network (fc_runtime c')) = override env ''OAD_DNS_UPSTREAM'' (fn_dns_upstream (fr_network (fc_runtime c)))"
    by (simp_all add: c')
  show "case env ''OAD_NETWORK_ENABLED'' of None \<Rightarrow> fn_enabled (fr_network (fc_runtime c')) = fn_enabled (fr_network (fc_runtime c))
     | Some v \<Rightarrow> (\<exists>b. parse_bool_env ''OAD_NETWORK_ENABLED'' v = Inr b \<and> fn_enabled (fr_network (fc_runtime c')) = Some b)"
    using e unfolding override_with_ok by (simp add: c' split: option.splits)
qed

lemma resolve_network_fields:
  assumes "resolve_network_config read c = Inr network"
  shows "sandbox_cidr network = unwrap_or (fn_sandbox_cidr (fr_network (fc_runtime c))) (sandbox_cidr NetworkRuntimeConfig_default)"
    "dns_upstream network = unwrap_or (case fn_dns_upstream (fr_network (fc_runtime c)) of Some v \<Rightarrow> Some v | None \<Rightarrow> host_dns_upstream read)
       (dns_upstream NetworkRuntimeConfig_default)"
    "nc_enabled network = unwrap_or (fn_enabled (fr_network (fc_runtime c))) (fr_network_namespace (fc_runtime c) = None)"
  using assms by (auto simp: resolve_network_config_def Let_def split: if_splits)

text \<open>
  C32. What a loaded configuration guarantees the daemon: the bearer token is not empty, so no request can
  pass with an empty token, and the managed network and an operator-made network namespace exclude
  each other.
\<close>

theorem load_config_well_formed:
  assumes "load_config env read toml p = Inr cfg"
  shows "bearer_token (http cfg) \<noteq> [] \<and> \<not> (nc_enabled (rc_network (runtime cfg)) \<and> rc_network_namespace (runtime cfg) \<noteq> None)"
  using assms
  by (auto simp: load_config_def resolve_network_config_def Let_def split: sum.splits if_splits)

text \<open>
  Precedence: each setting is the environment variable when it is set, else the value of the file,
  else the default; the upstream of the DNS proxy falls back on the host's resolver before the default.
  Without a namespace, the managed network is on unless it is switched off.
\<close>

theorem load_config_precedence:
  assumes "read_file_config read toml p = Inr c" "load_config env read toml p = Inr cfg"
  shows "bind_addr (http cfg) = unwrap_or (override env ''OAD_HTTP_BIND'' (fh_bind (fc_http c))) ''127.0.0.1:8080''
    \<and> Some (bearer_token (http cfg)) = override env ''OAD_BEARER_TOKEN'' (fh_bearer_token (fc_http c))
    \<and> rc_base_dir (runtime cfg) = unwrap_or (override_path env ''OAD_BASE_DIR'' (fr_base_dir (fc_runtime c))) (path_of ''/run/omniagent'')
    \<and> rc_pause_image (runtime cfg) = unwrap_or (override env ''OAD_PAUSE_IMAGE'' (fr_pause_image (fc_runtime c))) ''registry.k8s.io/pause:3.10''
    \<and> rc_network_namespace (runtime cfg) = override_path env ''OAD_NETWORK_NAMESPACE'' (fr_network_namespace (fc_runtime c))
    \<and> sandbox_cidr (rc_network (runtime cfg)) = unwrap_or (override env ''OAD_NETWORK_SANDBOX_CIDR'' (fn_sandbox_cidr (fr_network (fc_runtime c)))) ''10.90.0.0/16''
    \<and> dns_upstream (rc_network (runtime cfg)) = unwrap_or (case override env ''OAD_DNS_UPSTREAM'' (fn_dns_upstream (fr_network (fc_runtime c))) of
         Some v \<Rightarrow> Some v | None \<Rightarrow> host_dns_upstream read) ''1.1.1.1:53''
    \<and> (\<forall>v. env ''OAD_NETWORK_ENABLED'' = Some v \<longrightarrow> parse_bool_env ''OAD_NETWORK_ENABLED'' v = Inr (nc_enabled (rc_network (runtime cfg))))
    \<and> (env ''OAD_NETWORK_ENABLED'' = None \<longrightarrow> nc_enabled (rc_network (runtime cfg)) =
         unwrap_or (fn_enabled (fr_network (fc_runtime c))) (rc_network_namespace (runtime cfg) = None))"
proof -
  obtain c' network where ov: "apply_env_overrides env c = Inr c'" and net: "resolve_network_config read c' = Inr network"
    and token: "unwrap_or (fh_bearer_token (fc_http c')) [] \<noteq> []"
    and cfg: "cfg = \<lparr>http = \<lparr>bind_addr = unwrap_or (fh_bind (fc_http c')) DEFAULT_BIND, bearer_token = unwrap_or (fh_bearer_token (fc_http c')) []\<rparr>,
        runtime = \<lparr>rc_base_dir = unwrap_or (fr_base_dir (fc_runtime c')) default_base_dir,
          rc_pause_image = unwrap_or (fr_pause_image (fc_runtime c')) DEFAULT_PAUSE_IMAGE,
          rc_network_namespace = fr_network_namespace (fc_runtime c'), rc_network = network,
          rc_observability = resolve_observability_config c'\<rparr>\<rparr>"
    using assms by (auto simp: load_config_def Let_def split: sum.splits if_splits)
  note fields = apply_env_overrides_fields [OF ov] resolve_network_fields [OF net]
  have "Some (unwrap_or (fh_bearer_token (fc_http c')) []) = fh_bearer_token (fc_http c')"
    using token by (cases "fh_bearer_token (fc_http c')") (auto simp: unwrap_or_def)
  moreover have "env ''OAD_NETWORK_ENABLED'' = Some v \<Longrightarrow> parse_bool_env ''OAD_NETWORK_ENABLED'' v = Inr (nc_enabled network)" for v
    using fields(8,11) by (auto simp: unwrap_or_def)
  moreover have "env ''OAD_NETWORK_ENABLED'' = None \<Longrightarrow> nc_enabled network =
      unwrap_or (fn_enabled (fr_network (fc_runtime c))) (fr_network_namespace (fc_runtime c') = None)"
    using fields(8,11) by simp
  ultimately show ?thesis
    unfolding cfg using fields(1-7,9,10)
    by (simp add: DEFAULT_BIND_def default_base_dir_def DEFAULT_BASE_DIR_def DEFAULT_PAUSE_IMAGE_def NetworkRuntimeConfig_default_def)
qed

text \<open>A file with a token and an address; the environment overrides the address.\<close>

definition sample_file :: FileConfig where
  "sample_file = FileConfig_default\<lparr>fc_http := \<lparr>fh_bind = Some ''a'', fh_bearer_token = Some ''t''\<rparr>\<rparr>"

definition sample_env :: environment where
  "sample_env name = (if name = ''OAD_HTTP_BIND'' then Some ''b'' else None)"

definition sample_read :: "path \<Rightarrow> (io_error, string) result" where
  "sample_read p = (if p = [''oad.toml''] then Inr [] else Inl NotFound)"

lemma sample_load:
  "\<exists>cfg. load_config sample_env sample_read (\<lambda>_. Inr sample_file) None = Inr cfg"
  "read_file_config sample_read (\<lambda>_. Inr sample_file) None = Inr sample_file"
proof -
  show from_file: "read_file_config sample_read (\<lambda>_. Inr sample_file) None = Inr sample_file"
    by (simp add: read_file_config_def sample_read_def path_of_def is_absolute_def components_plain plain_segment_def)
  show "\<exists>cfg. load_config sample_env sample_read (\<lambda>_. Inr sample_file) None = Inr cfg"
    unfolding load_config_def from_file
    by (simp add: apply_env_overrides_def override_with_def override_def override_path_def sample_env_def
        sample_file_def FileConfig_default_def resolve_network_config_def unwrap_or_def Let_def)
qed

theorem load_config_well_formed_witness:
  "\<exists>cfg. load_config sample_env sample_read (\<lambda>_. Inr sample_file) None = Inr cfg \<and> bearer_token (http cfg) \<noteq> []"
proof -
  obtain cfg where cfg: "load_config sample_env sample_read (\<lambda>_. Inr sample_file) None = Inr cfg" using sample_load(1) by blast
  then show ?thesis using load_config_well_formed [OF cfg] by blast
qed

theorem load_config_precedence_witness:
  "\<exists>cfg. load_config sample_env sample_read (\<lambda>_. Inr sample_file) None = Inr cfg \<and> bind_addr (http cfg) = ''b''"
proof -
  obtain cfg where cfg: "load_config sample_env sample_read (\<lambda>_. Inr sample_file) None = Inr cfg" using sample_load(1) by blast
  then show ?thesis using load_config_precedence [OF sample_load(2) cfg] by (simp add: override_def sample_env_def unwrap_or_def)
qed

end
