(* ===== verification/Json_Values.thy ===== *)
theory Json_Values
  imports Images "HOL-Library.Monad_Syntax"
begin

text \<open>
  JSON values as \<open>serde_json::Value\<close> has them (an object is a map with sorted keys), the accessors the
  recorder uses, and Rust's text operations on UTF-8 strings. An operation that panics has the value
  \<open>None\<close>, so that the code is written in the option monad and freedom from panics is a theorem.
\<close>

section \<open>Values\<close>

datatype number = PosInt "64 word" | NegInt int | Float string

datatype jvalue =
    VNull
  | VBool bool
  | VNum number
  | VStr string
  | VArr "jvalue list"
  | VObj "(string \<times> jvalue) list"

fun vget :: "string \<Rightarrow> jvalue \<Rightarrow> jvalue option" where
  "vget k (VObj m) = bt_get m k"
| "vget k _ = None"

fun as_str :: "jvalue \<Rightarrow> string option" where
  "as_str (VStr s) = Some s"
| "as_str _ = None"

fun as_u64 :: "jvalue \<Rightarrow> 64 word option" where
  "as_u64 (VNum (PosInt n)) = Some n"
| "as_u64 _ = None"

fun as_array :: "jvalue \<Rightarrow> jvalue list option" where
  "as_array (VArr xs) = Some xs"
| "as_array _ = None"

fun as_object :: "jvalue \<Rightarrow> (string \<times> jvalue) list option" where
  "as_object (VObj m) = Some m"
| "as_object _ = None"

abbreviation is_object :: "jvalue \<Rightarrow> bool" where
  "is_object v \<equiv> as_object v \<noteq> None"

definition get_str :: "string \<Rightarrow> jvalue \<Rightarrow> string option" where
  "get_str k v = Option.bind (vget k v) as_str"

definition get_array :: "string \<Rightarrow> jvalue \<Rightarrow> jvalue list option" where
  "get_array k v = Option.bind (vget k v) as_array"

definition vobj :: "(string \<times> jvalue) list \<Rightarrow> jvalue" where
  "vobj kvs = VObj (foldl (\<lambda>m (k, v). bt_insert k v m) [] kvs)"

text \<open>\<open>value[key] = v\<close>: null becomes an object, anything else that is not an object panics.\<close>

fun index_set :: "string \<Rightarrow> jvalue \<Rightarrow> jvalue \<Rightarrow> jvalue option" where
  "index_set k v (VObj m) = Some (VObj (bt_insert k v m))"
| "index_set k v VNull = Some (VObj [(k, v)])"
| "index_set k v _ = None"

text \<open>\<open>xs[i]\<close> and \<open>xs[i] = v\<close>: out of range panics.\<close>

definition at_index :: "nat \<Rightarrow> 'a list \<Rightarrow> 'a option" where
  "at_index i xs = (if i < length xs then Some (xs ! i) else None)"

definition set_index :: "nat \<Rightarrow> 'a \<Rightarrow> 'a list \<Rightarrow> 'a list option" where
  "set_index i v xs = (if i < length xs then Some (xs[i := v]) else None)"

text \<open>\<open>Value::pointer\<close> for the paths the code uses: keys, and positions of an array.\<close>

datatype step = Key string | Pos nat

fun pointer :: "step list \<Rightarrow> jvalue \<Rightarrow> jvalue option" where
  "pointer [] v = Some v"
| "pointer (Key k # ps) v = (case vget k v of None \<Rightarrow> None | Some x \<Rightarrow> pointer ps x)"
| "pointer (Pos i # ps) v = (case as_array v of Some xs \<Rightarrow> if i < length xs then pointer ps (xs ! i) else None
     | None \<Rightarrow> (case vget (show_nat i) v of None \<Rightarrow> None | Some x \<Rightarrow> pointer ps x))"

section \<open>Text\<close>

text \<open>The white space of Unicode, each character as its UTF-8 bytes.\<close>

definition is_whitespace :: "string \<Rightarrow> bool" where
  "is_whitespace c \<longleftrightarrow>
     (case c of [b] \<Rightarrow> is_space b | _ \<Rightarrow> False)
     \<or> c \<in> {[CHR 0xC2, CHR 0x85], [CHR 0xC2, CHR 0xA0], [CHR 0xE1, CHR 0x9A, CHR 0x80],
            [CHR 0xE2, CHR 0x80, CHR 0xA8], [CHR 0xE2, CHR 0x80, CHR 0xA9], [CHR 0xE2, CHR 0x80, CHR 0xAF],
            [CHR 0xE2, CHR 0x81, CHR 0x9F], [CHR 0xE3, CHR 0x80, CHR 0x80]}
     \<or> (case c of [a, b, x] \<Rightarrow> a = CHR 0xE2 \<and> b = CHR 0x80 \<and> char_between (CHR 0x80) (CHR 0x8A) x | _ \<Rightarrow> False)"

definition str_trim :: "string \<Rightarrow> string" where
  "str_trim s = concat (rev (dropWhile is_whitespace (rev (dropWhile is_whitespace (chars s)))))"

definition strip_suffix :: "string \<Rightarrow> string \<Rightarrow> string option" where
  "strip_suffix suf s = (if suffix suf s then Some (take (length s - length suf) s) else None)"

text \<open>\<open>str::lines\<close>: a final empty piece is no line, and a carriage return before the end of a line is dropped.\<close>

definition drop_cr :: "string \<Rightarrow> string" where
  "drop_cr s = (case strip_suffix [CHR 0x0D] s of Some t \<Rightarrow> t | None \<Rightarrow> s)"

definition str_lines :: "string \<Rightarrow> string list" where
  "str_lines s = (let parts = split_on (CHR 0x0A) s in
     map drop_cr (butlast parts) @ (if last parts = [] then [] else [last parts]))"

definition str_contains :: "string \<Rightarrow> string \<Rightarrow> bool" where
  "str_contains needle s = list_ex (prefix needle) (suffixes s)"

section \<open>Lemmas\<close>

lemma index_set_object [simp]: "is_object v \<Longrightarrow> \<exists>m. index_set k x v = Some (VObj m)"
  by (cases v) auto

lemma at_index_some [simp]: "i < length xs \<Longrightarrow> at_index i xs = Some (xs ! i)"
  and set_index_some [simp]: "i < length xs \<Longrightarrow> set_index i v xs = Some (xs[i := v])"
  by (simp_all add: at_index_def set_index_def)

lemma vget_object: "vget k v = Some x \<Longrightarrow> is_object v"
  by (cases v) auto

end
