(* ===== verification/Traces.thy ===== *)
theory Traces
  imports Json_Values "HOL-Library.Multiset"
begin

text \<open>
  The recorded traffic of an agent (\<open>omniagent-cli/src/record.rs\<close>): token usage and how readings are
  merged, the classification of a response, and the store of spans. Recording is called from several
  tasks: its steps interleave.
\<close>

section \<open>Usage\<close>

datatype Provider = Anthropic | OpenAI | Gemini

record Usage =
  input_tokens :: "64 word option"
  output_tokens :: "64 word option"
  total_tokens :: "64 word option"
  reasoning_tokens :: "64 word option"
  cache_read_tokens :: "64 word option"
  cache_creation_tokens :: "64 word option"

definition Usage_default :: Usage where
  "Usage_default = \<lparr>input_tokens = None, output_tokens = None, total_tokens = None, reasoning_tokens = None,
     cache_read_tokens = None, cache_creation_tokens = None\<rparr>"

definition usage_is_empty :: "Usage \<Rightarrow> bool" where
  "usage_is_empty u \<longleftrightarrow> input_tokens u = None \<and> output_tokens u = None \<and> total_tokens u = None
     \<and> reasoning_tokens u = None \<and> cache_read_tokens u = None \<and> cache_creation_tokens u = None"

fun max_opt :: "64 word option \<Rightarrow> 64 word option \<Rightarrow> 64 word option" where
  "max_opt (Some x) (Some y) = Some (if x < y then y else x)"
| "max_opt (Some x) None = Some x"
| "max_opt None b = b"

definition get_u64 :: "string \<Rightarrow> jvalue \<Rightarrow> 64 word option" where
  "get_u64 k v = Option.bind (vget k v) as_u64"

fun first_u64 :: "jvalue \<Rightarrow> string list \<Rightarrow> 64 word option" where
  "first_u64 v [] = None"
| "first_u64 v (k # ks) = (case get_u64 k v of Some n \<Rightarrow> Some n | None \<Rightarrow> first_u64 v ks)"

fun nested_u64 :: "jvalue \<Rightarrow> string list \<Rightarrow> string \<Rightarrow> 64 word option" where
  "nested_u64 v [] k = None"
| "nested_u64 v (d # ds) k = (case Option.bind (vget d v) (get_u64 k) of Some n \<Rightarrow> Some n | None \<Rightarrow> nested_u64 v ds k)"

definition nested_cached_tokens :: "jvalue \<Rightarrow> 64 word option" where
  "nested_cached_tokens v = nested_u64 v [''input_tokens_details'', ''prompt_tokens_details''] ''cached_tokens''"

definition nested_reasoning_tokens :: "jvalue \<Rightarrow> 64 word option" where
  "nested_reasoning_tokens v = nested_u64 v [''output_tokens_details'', ''completion_tokens_details''] ''reasoning_tokens''"

definition or_else :: "'a option \<Rightarrow> 'a option \<Rightarrow> 'a option" where
  "or_else a b = (case a of Some x \<Rightarrow> Some x | None \<Rightarrow> b)"

definition Usage_from_value :: "jvalue \<Rightarrow> Usage" where
  "Usage_from_value v =
     \<lparr>input_tokens = first_u64 v [''input_tokens'', ''prompt_tokens'', ''promptTokenCount'', ''inputTokens''],
      output_tokens = first_u64 v [''output_tokens'', ''completion_tokens'', ''candidatesTokenCount'', ''outputTokens''],
      total_tokens = first_u64 v [''total_tokens'', ''totalTokenCount'', ''totalTokens'', ''total_tokens_count''],
      reasoning_tokens = or_else (first_u64 v [''reasoning_tokens'', ''reasoningTokens'']) (nested_reasoning_tokens v),
      cache_read_tokens = or_else (first_u64 v [''cache_read_input_tokens'', ''cached_tokens'', ''cachedContentTokenCount'',
        ''cacheReadInputTokens'']) (nested_cached_tokens v),
      cache_creation_tokens = first_u64 v [''cache_creation_input_tokens'', ''cacheWriteInputTokens'']\<rparr>"

definition merge_from :: "Usage \<Rightarrow> Usage \<Rightarrow> Usage" where
  "merge_from u v =
     \<lparr>input_tokens = max_opt (input_tokens u) (input_tokens v),
      output_tokens = max_opt (output_tokens u) (output_tokens v),
      total_tokens = max_opt (total_tokens u) (total_tokens v),
      reasoning_tokens = max_opt (reasoning_tokens u) (reasoning_tokens v),
      cache_read_tokens = max_opt (cache_read_tokens u) (cache_read_tokens v),
      cache_creation_tokens = max_opt (cache_creation_tokens u) (cache_creation_tokens v)\<rparr>"

section \<open>Labels\<close>

record StreamEvent =
  se_event :: string
  se_data :: jvalue

record Label =
  lb_kind :: string
  lb_text :: string
  lb_cls :: string

definition result_label :: "string \<Rightarrow> string \<Rightarrow> Label" where
  "result_label text cls = \<lparr>lb_kind = ''result_type'', lb_text = text, lb_cls = cls\<rparr>"

definition tool_label :: "string list \<Rightarrow> Label" where
  "tool_label names = result_label (if names = [] then ''tool'' else ''tool: '' @ intersperse_str '', '' names) ''tool''"

definition has_type :: "string \<Rightarrow> jvalue list \<Rightarrow> bool" where
  "has_type ty blocks = list_ex (\<lambda>b. get_str ''type'' b = Some ty) blocks"

definition non_empty :: "string option \<Rightarrow> string option" where
  "non_empty s = (case s of Some (c # cs) \<Rightarrow> Some (c # cs) | _ \<Rightarrow> None)"

definition classify_anthropic_blocks :: "jvalue list \<Rightarrow> Label option" where
  "classify_anthropic_blocks blocks =
     (let tool_names = List.map_filter (\<lambda>b. non_empty (get_str ''name'' b)) (filter (\<lambda>b. get_str ''type'' b = Some ''tool_use'') blocks)
      in if has_type ''tool_use'' blocks then Some (tool_label tool_names)
         else if has_type ''text'' blocks then Some (result_label ''assistant'' ''assistant'')
         else if has_type ''thinking'' blocks then Some (result_label ''thinking'' ''thinking'')
         else if has_type ''tool_result'' blocks then Some (result_label ''tool result'' ''result'')
         else None)"

definition item_type :: "jvalue \<Rightarrow> string" where
  "item_type it = (case get_str ''type'' it of Some t \<Rightarrow> t | None \<Rightarrow> [])"

definition call_name :: "jvalue \<Rightarrow> string option" where
  "call_name it = (case Option.bind (or_else (vget ''name'' it) (vget ''type'' it)) as_str of None \<Rightarrow> None
     | Some s \<Rightarrow> non_empty (Some (case strip_suffix ''_call'' s of Some t \<Rightarrow> t | None \<Rightarrow> s)))"

definition classify_openai_output :: "jvalue list \<Rightarrow> Label option" where
  "classify_openai_output out =
     (let calls = filter (\<lambda>it. suffix ''_call'' (item_type it)) out
      in if calls \<noteq> [] then Some (tool_label (List.map_filter call_name calls))
         else if list_ex (\<lambda>it. item_type it = ''message'') out then Some (result_label ''assistant'' ''assistant'')
         else if list_ex (\<lambda>it. item_type it = ''reasoning'') out then Some (result_label ''thinking'' ''thinking'')
         else None)"

definition collect_strings :: "jvalue option \<Rightarrow> step list \<Rightarrow> string list" where
  "collect_strings v ptr = (case Option.bind v as_array of None \<Rightarrow> []
     | Some items \<Rightarrow> List.map_filter (\<lambda>it. non_empty (Option.bind (pointer ptr it) as_str)) items)"

definition non_empty_str :: "jvalue option \<Rightarrow> bool" where
  "non_empty_str v \<longleftrightarrow> non_empty (Option.bind v as_str) \<noteq> None"

definition classify_chat :: "jvalue \<Rightarrow> Label option" where
  "classify_chat body = (case pointer [Key ''choices'', Pos 0, Key ''message''] body of None \<Rightarrow> None
     | Some msg \<Rightarrow>
        (let tools = collect_strings (vget ''tool_calls'' msg) [Key ''function'', Key ''name'']
         in if tools \<noteq> [] then Some (tool_label tools)
            else if non_empty_str (vget ''content'' msg) then Some (result_label ''assistant'' ''assistant'')
            else if vget ''reasoning_content'' msg \<noteq> None then Some (result_label ''thinking'' ''thinking'')
            else None))"

definition classify_gemini :: "jvalue \<Rightarrow> Label option" where
  "classify_gemini body =
     (case Option.bind (pointer [Key ''candidates'', Pos 0, Key ''content'', Key ''parts''] body) as_array of None \<Rightarrow> None
      | Some parts \<Rightarrow> if list_ex (\<lambda>p. vget ''text'' p \<noteq> None) parts then Some (result_label ''assistant'' ''assistant'') else None)"

definition classify_result_type :: "jvalue \<Rightarrow> Label option" where
  "classify_result_type body =
     (if \<not> is_object body then None
      else or_else (Option.bind (get_array ''content'' body) classify_anthropic_blocks)
          (or_else (Option.bind (get_array ''output'' body) classify_openai_output)
          (or_else (classify_chat body) (classify_gemini body))))"

section \<open>Spans and the store\<close>

type_synonym HeaderSnapshot = "(string, string list) btree_map"

record SpanDraft =
  sd_provider :: Provider
  sd_model :: "string option"
  sd_method :: string
  sd_request_base_url :: string
  sd_upstream_base_url :: string
  sd_path :: string
  sd_streaming :: bool
  sd_request_headers :: HeaderSnapshot
  sd_request :: jvalue
  sd_response_headers :: HeaderSnapshot
  sd_response :: jvalue
  sd_stream_events :: "StreamEvent list"
  sd_usage :: Usage
  sd_status :: "16 word"
  sd_started_at :: int
  sd_latency_ms :: "64 word"
  sd_error :: "string option"

definition SpanDraft_new :: "int \<Rightarrow> Provider \<Rightarrow> string \<Rightarrow> SpanDraft" where
  "SpanDraft_new now_utc provider p =
     \<lparr>sd_provider = provider, sd_model = None, sd_method = [], sd_request_base_url = [], sd_upstream_base_url = [],
      sd_path = p, sd_streaming = False, sd_request_headers = [], sd_request = VNull, sd_response_headers = [],
      sd_response = VNull, sd_stream_events = [], sd_usage = Usage_default, sd_status = 0, sd_started_at = now_utc,
      sd_latency_ms = 0, sd_error = None\<rparr>"

text \<open>A recorded span: the draft with what recording adds to it; \<open>sp_started_at_text\<close> is its \<open>started_at\<close>.\<close>

record LlmSpan = SpanDraft +
  sp_id :: string
  sp_sequence :: "64 word"
  sp_labels :: "Label list"
  sp_started_at_text :: string

definition build_labels :: "SpanDraft \<Rightarrow> Label list" where
  "build_labels draft = (case classify_result_type (sd_response draft) of Some l \<Rightarrow> [l] | None \<Rightarrow> [])"

text \<open>
  The store: the spans, the counter, and what has gone to the file and to the forwarder, each \<open>None\<close> when
  the store has none. Serialisation and writing may fail; \<open>record\<close> ignores it. \<open>poisoned\<close>: a task panicked
  while it held the lock.
\<close>

record TraceStore =
  ts_spans :: "LlmSpan list"
  ts_sequence :: "64 word"
  ts_sink :: "LlmSpan list option"
  ts_forwarded :: "LlmSpan list option"
  ts_poisoned :: bool

definition TraceStore_new :: TraceStore where
  "TraceStore_new = \<lparr>ts_spans = [], ts_sequence = 0, ts_sink = None, ts_forwarded = None, ts_poisoned = False\<rparr>"

definition with_forwarder :: "TraceStore \<Rightarrow> TraceStore" where
  "with_forwarder st = st\<lparr>ts_forwarded := Some []\<rparr>"

text \<open>The answers of \<open>create_dir_all\<close> (called when the path has a parent) and of opening the file.\<close>

definition with_sink :: "'e option \<Rightarrow> 'e option \<Rightarrow> 'e + TraceStore" where
  "with_sink mkdir_answer open_answer = (case mkdir_answer of Some e \<Rightarrow> Inl e
     | None \<Rightarrow> (case open_answer of Some e \<Rightarrow> Inl e | None \<Rightarrow> Inr (TraceStore_new\<lparr>ts_sink := Some []\<rparr>)))"

definition make_span :: "(int \<Rightarrow> string option) \<Rightarrow> string \<Rightarrow> 64 word \<Rightarrow> SpanDraft \<Rightarrow> LlmSpan" where
  "make_span fmt uuid_text n draft = SpanDraft.extend draft
     \<lparr>sp_id = uuid_text, sp_sequence = n, sp_labels = build_labels draft,
      sp_started_at_text = (case fmt (sd_started_at draft) of Some t \<Rightarrow> t | None \<Rightarrow> [])\<rparr>"

definition push_span :: "LlmSpan \<Rightarrow> TraceStore \<Rightarrow> TraceStore" where
  "push_span sp st = (if ts_poisoned st then st else st\<lparr>ts_spans := ts_spans st @ [sp]\<rparr>)"

text \<open>\<open>persist\<close>: one line in the file, unless serialising or writing fails.\<close>

definition persist :: "bool \<Rightarrow> LlmSpan \<Rightarrow> TraceStore \<Rightarrow> TraceStore" where
  "persist fails sp st = (case ts_sink st of None \<Rightarrow> st
     | Some written \<Rightarrow> if fails then st else st\<lparr>ts_sink := Some (written @ [sp])\<rparr>)"

definition forward :: "LlmSpan \<Rightarrow> TraceStore \<Rightarrow> TraceStore" where
  "forward sp st = st\<lparr>ts_forwarded := map_option (\<lambda>sps. sps @ [sp]) (ts_forwarded st)\<rparr>"

text \<open>\<open>fetch_add(1) + 1\<close>.\<close>

definition next_sequence :: "TraceStore \<Rightarrow> 64 word \<times> TraceStore" where
  "next_sequence st = (ts_sequence st + 1, st\<lparr>ts_sequence := ts_sequence st + 1\<rparr>)"

definition trace_record ::
  "(int \<Rightarrow> string option) \<Rightarrow> string \<Rightarrow> bool \<Rightarrow> SpanDraft \<Rightarrow> TraceStore \<Rightarrow> string \<times> TraceStore" where
  "trace_record fmt uuid_text write_fails draft st =
     (let (n, st1) = next_sequence st; sp = make_span fmt uuid_text n draft in
      (uuid_text, forward sp (persist write_fails sp (push_span sp st1))))"

definition trace_snapshot :: "TraceStore \<Rightarrow> LlmSpan list" where
  "trace_snapshot st = (if ts_poisoned st then [] else ts_spans st)"

text \<open>
  Tasks that record at the same time: each takes its number, then pushes its span under the lock, then
  writes and forwards it. A task is a draft waiting for its number, or a span on its way.
\<close>

datatype recording = Waiting SpanDraft | Numbered LlmSpan | Pushed LlmSpan

record recorders =
  rc_store :: TraceStore
  rc_tasks :: "recording list"

inductive record_step :: "recorders \<Rightarrow> recorders \<Rightarrow> bool" where
  call: "record_step r (r\<lparr>rc_tasks := rc_tasks r @ [Waiting draft]\<rparr>)"
| number: "i < length (rc_tasks r) \<Longrightarrow> rc_tasks r ! i = Waiting draft \<Longrightarrow> next_sequence (rc_store r) = (n, st) \<Longrightarrow>
    record_step r \<lparr>rc_store = st, rc_tasks = (rc_tasks r)[i := Numbered (make_span fmt uuid_text n draft)]\<rparr>"
| push: "i < length (rc_tasks r) \<Longrightarrow> rc_tasks r ! i = Numbered sp \<Longrightarrow>
    record_step r \<lparr>rc_store = push_span sp (rc_store r), rc_tasks = (rc_tasks r)[i := Pushed sp]\<rparr>"
| finish: "rc_tasks r = before @ Pushed sp # rest \<Longrightarrow>
    record_step r \<lparr>rc_store = forward sp (persist fails sp (rc_store r)), rc_tasks = before @ rest\<rparr>"

inductive_cases record_stepE: "record_step r r'"

section \<open>Merging readings\<close>

lemma max_opt_laws: "max_opt a b = max_opt b a" "max_opt (max_opt a b) c = max_opt a (max_opt b c)" "max_opt a a = a" "max_opt None a = a"
  by (cases a; cases b; cases c; auto)+

lemma merge_from_commute: "merge_from u v = merge_from v u"
  by (simp add: merge_from_def max_opt_laws(1))

lemma merge_from_assoc: "merge_from (merge_from u v) w = merge_from u (merge_from v w)"
  by (simp add: merge_from_def max_opt_laws(2))

lemma merge_from_idem: "merge_from u u = u"
  by (simp add: merge_from_def max_opt_laws(3))

lemma merge_from_default [simp]: "merge_from Usage_default u = u"
  by (simp add: merge_from_def Usage_default_def max_opt_laws(4))

lemma merge_from_right: "merge_from (merge_from w u) v = merge_from (merge_from w v) u"
  by (metis merge_from_assoc merge_from_commute)

lemma merge_from_absorb: "merge_from (merge_from w u) u = merge_from w u"
  by (metis merge_from_assoc merge_from_idem)

interpretation merging: comp_fun_idem "\<lambda>v u. merge_from u v"
  by unfold_locales (auto simp: fun_eq_iff merge_from_right merge_from_absorb)

text \<open>A fold of readings depends on the set of the readings only: neither order nor repetition matters.\<close>

lemma merge_fold_set: "set us = set vs \<Longrightarrow> foldl merge_from u us = foldl merge_from u vs"
  unfolding foldl_conv_fold using merging.fold_set_fold [of u us] merging.fold_set_fold [of u vs] by simp

section \<open>Tasks that record at the same time\<close>

definition idle_recorders :: recorders where
  "idle_recorders = \<lparr>rc_store = TraceStore_new, rc_tasks = []\<rparr>"

fun task_span :: "recording \<Rightarrow> LlmSpan option" where
  "task_span (Numbered sp) = Some sp"
| "task_span _ = None"

text \<open>The numbers given out: those of the stored spans and of the spans a task has not pushed yet.\<close>

definition given_numbers :: "recorders \<Rightarrow> 64 word multiset" where
  "given_numbers r = image_mset sp_sequence
     (mset (ts_spans (rc_store r)) + mset (List.map_filter task_span (rc_tasks r)))"

definition numbers_ok :: "nat \<Rightarrow> recorders \<Rightarrow> bool" where
  "numbers_ok k r \<longleftrightarrow> (\<forall>n. count (given_numbers r) n \<le> 1) \<and> unat (ts_sequence (rc_store r)) \<le> k
     \<and> (\<forall>n\<in>#given_numbers r. 0 < n \<and> n \<le> ts_sequence (rc_store r))"

lemma map_filter_append [simp]: "List.map_filter f (xs @ ys) = List.map_filter f xs @ List.map_filter f ys"
  by (simp add: List.map_filter_def)

lemma map_filter_update:
  assumes "i < length xs"
  shows "mset (List.map_filter f (xs[i := y])) + mset (List.map_filter f [xs ! i])
     = mset (List.map_filter f xs) + mset (List.map_filter f [y])"
proof -
  have "List.map_filter f xs = List.map_filter f (take i xs @ [xs ! i] @ drop (Suc i) xs)" using assms by (simp add: id_take_nth_drop [symmetric])
  moreover have "List.map_filter f (xs[i := y]) = List.map_filter f (take i xs @ [y] @ drop (Suc i) xs)" using assms by (simp add: upd_conv_take_nth_drop)
  ultimately show ?thesis by (simp only: map_filter_append mset_append) (simp add: ac_simps)
qed

lemma given_call: "given_numbers (r\<lparr>rc_tasks := rc_tasks r @ [Waiting draft]\<rparr>) = given_numbers r"
  by (simp add: given_numbers_def)

lemma given_number:
  assumes "i < length (rc_tasks r)" "rc_tasks r ! i = Waiting draft" "next_sequence (rc_store r) = (n, st)"
  shows "given_numbers \<lparr>rc_store = st, rc_tasks = (rc_tasks r)[i := Numbered (make_span fmt uuid_text n draft)]\<rparr>
      = add_mset (ts_sequence (rc_store r) + 1) (given_numbers r)"
  using assms map_filter_update [OF assms(1), of task_span "Numbered (make_span fmt uuid_text n draft)"]
  by (auto simp: given_numbers_def next_sequence_def make_span_def SpanDraft.defs)

lemma given_push:
  assumes "i < length (rc_tasks r)" "rc_tasks r ! i = Numbered sp"
  shows "given_numbers \<lparr>rc_store = push_span sp (rc_store r), rc_tasks = (rc_tasks r)[i := Pushed sp]\<rparr> \<subseteq># given_numbers r"
proof -
  have "mset (List.map_filter task_span (rc_tasks r)) = add_mset sp (mset (List.map_filter task_span ((rc_tasks r)[i := Pushed sp])))"
    using assms(2) map_filter_update [OF assms(1), of task_span "Pushed sp"] by simp
  then show ?thesis by (simp add: given_numbers_def push_span_def)
qed

lemma given_finish:
  assumes "rc_tasks r = before @ Pushed sp # rest"
  shows "given_numbers \<lparr>rc_store = forward sp (persist fails sp (rc_store r)), rc_tasks = before @ rest\<rparr> = given_numbers r"
  using assms by (simp add: given_numbers_def forward_def persist_def split: option.split)

lemma numbers_ok_shrink:
  assumes "numbers_ok k r" "given_numbers r' \<subseteq># given_numbers r" "ts_sequence (rc_store r') = ts_sequence (rc_store r)"
  shows "numbers_ok (Suc k) r'"
proof -
  have "count (given_numbers r') n \<le> 1" for n
    using assms(1) order.trans [OF mset_subset_eq_count [OF assms(2), of n]] unfolding numbers_ok_def by blast
  moreover have "0 < n \<and> n \<le> ts_sequence (rc_store r)" if "n \<in># given_numbers r'" for n
    using assms(1) mset_subset_eqD [OF assms(2) that] unfolding numbers_ok_def by blast
  moreover have "unat (ts_sequence (rc_store r)) \<le> Suc k" using assms(1) unfolding numbers_ok_def by simp
  ultimately show ?thesis unfolding numbers_ok_def assms(3) by blast
qed

lemma numbers_ok_next:
  assumes "numbers_ok k r" "given_numbers r' = add_mset (ts_sequence (rc_store r) + 1) (given_numbers r)"
    "ts_sequence (rc_store r') = ts_sequence (rc_store r) + 1" "Suc k < 2 ^ 64"
  shows "numbers_ok (Suc k) r'"
proof -
  have ok: "unat (ts_sequence (rc_store r)) \<le> k" "\<forall>n\<in>#given_numbers r. 0 < n \<and> n \<le> ts_sequence (rc_store r)"
    using assms(1) by (simp_all add: numbers_ok_def)
  then have up: "unat (ts_sequence (rc_store r) + 1) = Suc (unat (ts_sequence (rc_store r)))"
    using assms(4) by (simp add: unat_word_ariths)
  then have grow: "ts_sequence (rc_store r) < ts_sequence (rc_store r) + 1" by (simp add: word_less_nat_alt)
  then have "ts_sequence (rc_store r) + 1 \<notin># given_numbers r" using ok(2) by (auto dest: bspec)
  then show ?thesis
    using assms(1,2,3) up grow unfolding numbers_ok_def
    by (auto simp: count_eq_zero_iff intro: order.trans [OF _ order.strict_implies_order] word_gt_0 elim!: order.strict_trans1 [OF word_zero_le])
qed

lemma numbers_ok_step: "record_step r r' \<Longrightarrow> numbers_ok k r \<Longrightarrow> Suc k < 2 ^ 64 \<Longrightarrow> numbers_ok (Suc k) r'"
proof (erule record_stepE, goal_cases)
  case (1 draft)
  then show ?case using numbers_ok_shrink [of k r r'] by (simp add: given_call)
next
  case (2 i draft n st fmt uuid_text)
  then show ?case
    using numbers_ok_next [of k r r'] given_number [of i r draft n st fmt uuid_text] by (auto simp: next_sequence_def)
next
  case (3 i sp)
  then show ?case using numbers_ok_shrink [of k r r'] given_push [of i r sp] by (simp add: push_span_def)
next
  case (4 before sp rest fails)
  then show ?case using numbers_ok_shrink [of k r r'] given_finish [of r before sp rest fails]
    by (simp add: forward_def persist_def split: option.splits)
qed

lemma numbers_ok_run: "(record_step ^^ k) idle_recorders r \<Longrightarrow> k < 2 ^ 64 \<Longrightarrow> numbers_ok k r"
proof (induction k arbitrary: r)
  case 0
  then show ?case by (auto simp: numbers_ok_def given_numbers_def idle_recorders_def TraceStore_new_def)
next
  case (Suc k)
  then show ?case using numbers_ok_step by (metis Suc_lessD relpowp_Suc_E)
qed

lemma distinct_count_le: "(\<forall>a. count (mset xs) a \<le> 1) \<Longrightarrow> distinct xs"
proof (induction xs)
  case (Cons x xs)
  then have "count (mset xs) x = 0" by (metis One_nat_def Suc_le_mono count_add_mset le_zero_eq mset.simps(2))
  moreover have "count (mset xs) a \<le> 1" for a
    using order.trans [OF _ Cons.prems [rule_format, of a], of "count (mset xs) a"] by simp
  ultimately show ?case using Cons.IH by (simp add: count_eq_zero_iff)
qed simp

text \<open>
  C33. However the tasks that record spans interleave, the spans of the store carry distinct sequence
  numbers, all between 1 and the counter (for fewer than \<open>2 ^ 64\<close> steps, so that the counter does not wrap).
\<close>

theorem recorded_sequences_distinct:
  assumes "(record_step ^^ k) idle_recorders r" "k < 2 ^ 64"
  shows "distinct (map sp_sequence (trace_snapshot (rc_store r))) \<and>
    (\<forall>n\<in>set (map sp_sequence (trace_snapshot (rc_store r))). 0 < n \<and> n \<le> ts_sequence (rc_store r))"
proof (intro conjI ballI)
  let ?ns = "map sp_sequence (trace_snapshot (rc_store r))"
  have sub: "mset ?ns \<subseteq># given_numbers r" by (simp add: given_numbers_def trace_snapshot_def)
  have ok: "numbers_ok k r" using numbers_ok_run [OF assms] .
  have atmost: "count (mset ?ns) a \<le> 1" for a
    using ok mset_subset_eq_count [OF sub, of a] order.trans unfolding numbers_ok_def by blast
  then show "distinct ?ns" by (intro distinct_count_le) blast
  show "0 < n" "n \<le> ts_sequence (rc_store r)" if "n \<in> set ?ns" for n
    using ok mset_subset_eqD [OF sub, of n] that unfolding numbers_ok_def by simp_all
qed

text \<open>Two tasks: the second pushes its span first.\<close>

definition overtaken_span :: "64 word \<Rightarrow> LlmSpan" where
  "overtaken_span n = make_span (\<lambda>_. None) ''id'' n (SpanDraft_new 0 OpenAI ''/v1'')"

definition overtaken :: recorders where
  "overtaken = \<lparr>rc_store = TraceStore_new\<lparr>ts_sequence := 2, ts_spans := [overtaken_span 2, overtaken_span 1]\<rparr>,
     rc_tasks = [Pushed (overtaken_span 1), Pushed (overtaken_span 2)]\<rparr>"

lemma overtaken_reached: "(record_step ^^ 6) idle_recorders overtaken"
proof -
  let ?d = "SpanDraft_new 0 OpenAI ''/v1''" and ?s = TraceStore_new
  let ?r1 = "\<lparr>rc_store = ?s, rc_tasks = [Waiting ?d]\<rparr>"
  let ?r2 = "\<lparr>rc_store = ?s, rc_tasks = [Waiting ?d, Waiting ?d]\<rparr>"
  let ?r3 = "\<lparr>rc_store = ?s\<lparr>ts_sequence := 1\<rparr>, rc_tasks = [Numbered (overtaken_span 1), Waiting ?d]\<rparr>"
  let ?r4 = "\<lparr>rc_store = ?s\<lparr>ts_sequence := 2\<rparr>, rc_tasks = [Numbered (overtaken_span 1), Numbered (overtaken_span 2)]\<rparr>"
  let ?r5 = "\<lparr>rc_store = ?s\<lparr>ts_sequence := 2, ts_spans := [overtaken_span 2]\<rparr>, rc_tasks = [Numbered (overtaken_span 1), Pushed (overtaken_span 2)]\<rparr>"
  have "record_step idle_recorders ?r1" using record_step.call [of idle_recorders ?d] by (simp add: idle_recorders_def)
  moreover have "record_step ?r1 ?r2" using record_step.call [of ?r1 ?d] by simp
  moreover have "record_step ?r2 ?r3"
    using record_step.number [of 0 ?r2 ?d 1 "?s\<lparr>ts_sequence := 1\<rparr>" "\<lambda>_. None" "''id''"] by (simp add: next_sequence_def overtaken_span_def TraceStore_new_def)
  moreover have "record_step ?r3 ?r4"
    using record_step.number [of 1 ?r3 ?d 2 "?s\<lparr>ts_sequence := 2\<rparr>" "\<lambda>_. None" "''id''"] by (simp add: next_sequence_def overtaken_span_def)
  moreover have "record_step ?r4 ?r5"
    using record_step.push [of 1 ?r4 "overtaken_span 2"] by (simp add: push_span_def TraceStore_new_def)
  moreover have "record_step ?r5 overtaken"
    using record_step.push [of 0 ?r5 "overtaken_span 1"] by (simp add: push_span_def TraceStore_new_def overtaken_def)
  ultimately show ?thesis by (simp only: numeral_eq_Suc pred_numeral_simps BitM.simps relpowp.simps) blast
qed

theorem recorded_sequences_distinct_witness:
  "(record_step ^^ 6) idle_recorders overtaken \<and> distinct (map sp_sequence (trace_snapshot (rc_store overtaken)))
     \<and> 0 < sp_sequence (overtaken_span 2) \<and> sp_sequence (overtaken_span 2) \<le> ts_sequence (rc_store overtaken)"
proof -
  have "sp_sequence (overtaken_span 2) \<in> set (map sp_sequence (trace_snapshot (rc_store overtaken)))"
    by (simp add: overtaken_def trace_snapshot_def TraceStore_new_def)
  moreover have "6 < (2::nat) ^ 64" by simp
  ultimately show ?thesis using recorded_sequences_distinct [OF overtaken_reached] overtaken_reached by blast
qed

text \<open>
  The snapshot is in the order of the pushes, which need not be the order of the sequence numbers: a task
  takes its number before it takes the lock.
\<close>

theorem snapshot_out_of_order:
  "\<exists>r. record_step\<^sup>*\<^sup>* idle_recorders r \<and> map sp_sequence (trace_snapshot (rc_store r)) = [2, 1]"
proof (intro exI conjI)
  show "record_step\<^sup>*\<^sup>* idle_recorders overtaken" using overtaken_reached by (rule relpowp_imp_rtranclp)
  show "map sp_sequence (trace_snapshot (rc_store overtaken)) = [2, 1]"
    by (simp add: overtaken_def overtaken_span_def make_span_def SpanDraft.defs trace_snapshot_def TraceStore_new_def)
qed

end
