(* ===== verification/Sse.thy ===== *)
theory Sse
  imports Traces
begin

text \<open>
  Reassembly of a streamed response (\<open>omniagent-cli/src/sse.rs\<close>): the event parser and the fold of the
  events into one response object with its usage, for the four wire formats. \<open>None\<close> is a panic. The
  JSON parser and the lossy UTF-8 decoding are arguments.
\<close>

section \<open>Events\<close>

record ParsedEvent =
  pe_event :: "string option"
  pe_data :: jvalue

type_synonym json_parser = "string \<Rightarrow> jvalue option"

text \<open>The state of the parser: the events so far, the event name and the data lines of the block at hand.\<close>

type_synonym parser_state = "ParsedEvent list \<times> string option \<times> string list"

definition flush_event :: "json_parser \<Rightarrow> parser_state \<Rightarrow> parser_state" where
  "flush_event from_str = (\<lambda>(events, event, data_lines).
     if event = None \<and> data_lines = [] then (events, event, data_lines)
     else let payload = intersperse_str nl data_lines in
       if payload = [] \<or> payload = ''[DONE]'' then (events, None, [])
       else (events @ [\<lparr>pe_event = event, pe_data = (case from_str payload of Some v \<Rightarrow> v | None \<Rightarrow> VStr payload)\<rparr>], None, []))"

definition parse_line :: "json_parser \<Rightarrow> parser_state \<Rightarrow> string \<Rightarrow> parser_state" where
  "parse_line from_str st raw = (let (events, event, data_lines) = st; line = drop_cr raw in
     case strip_prefix ''event:'' line of Some rest \<Rightarrow> (events, Some (str_trim rest), data_lines)
     | None \<Rightarrow> (case strip_prefix ''data:'' line of Some rest \<Rightarrow> (events, event, data_lines @ [str_trim rest])
     | None \<Rightarrow> if line = [] then flush_event from_str st else st))"

definition parse_events :: "(string \<Rightarrow> string) \<Rightarrow> json_parser \<Rightarrow> string \<Rightarrow> ParsedEvent list" where
  "parse_events lossy from_str body =
     fst (flush_event from_str (foldl (parse_line from_str) ([], None, []) (str_lines (lossy body))))"

section \<open>Blocks\<close>

definition index_of :: "jvalue \<Rightarrow> nat" where
  "index_of data = (case get_u64 ''index'' data of Some n \<Rightarrow> unat n | None \<Rightarrow> 0)"

definition str_field :: "jvalue \<Rightarrow> string \<Rightarrow> string" where
  "str_field v k = (case get_str k v of Some s \<Rightarrow> s | None \<Rightarrow> [])"

definition block_type :: "jvalue \<Rightarrow> string" where
  "block_type b = (case get_str ''type'' b of Some s \<Rightarrow> s | None \<Rightarrow> [])"

definition grow_to :: "jvalue list \<Rightarrow> nat \<Rightarrow> jvalue list" where
  "grow_to content i = content @ replicate (Suc i - length content) (VObj [])"

text \<open>\<open>array_entry\<close>: the array under a key, empty when there is none; the object with the new array.\<close>

definition array_at :: "string \<Rightarrow> (string \<times> jvalue) list \<Rightarrow> jvalue list" where
  "array_at k m = (case Option.bind (bt_get m k) as_array of Some xs \<Rightarrow> xs | None \<Rightarrow> [])"

definition array_entry ::
  "string \<Rightarrow> (jvalue list \<Rightarrow> jvalue list option) \<Rightarrow> (string \<times> jvalue) list \<Rightarrow> (string \<times> jvalue) list option" where
  "array_entry k f m = do { xs \<leftarrow> f (array_at k m); Some (bt_insert k (VArr xs) m) }"

definition append_str :: "string \<Rightarrow> string \<Rightarrow> jvalue \<Rightarrow> jvalue" where
  "append_str k text block = (let m = (case as_object block of Some m \<Rightarrow> m | None \<Rightarrow> []) in
     VObj (bt_insert k (VStr ((case Option.bind (bt_get m k) as_str of Some s \<Rightarrow> s | None \<Rightarrow> []) @ text)) m))"

definition empty_text :: jvalue where
  "empty_text = vobj [(''type'', VStr ''text''), (''text'', VStr [])]"

definition empty_thinking :: jvalue where
  "empty_thinking = vobj [(''type'', VStr ''thinking''), (''thinking'', VStr [])]"

definition empty_tool_use :: jvalue where
  "empty_tool_use = vobj [(''type'', VStr ''tool_use''), (''id'', VStr []), (''name'', VStr []), (''input'', VObj [])]"

definition empty_block_for_delta :: "jvalue \<Rightarrow> jvalue" where
  "empty_block_for_delta delta =
     (if get_str ''type'' delta = Some ''thinking_delta'' then empty_thinking
      else if get_str ''type'' delta = Some ''input_json_delta'' then empty_tool_use
      else empty_text)"

definition finalize_partial_json :: "json_parser \<Rightarrow> jvalue \<Rightarrow> jvalue" where
  "finalize_partial_json from_str block = (case get_str ''_partial_json'' block of None \<Rightarrow> block
     | Some partial \<Rightarrow> (case (from_str partial, as_object block) of
         (Some parsed, Some m) \<Rightarrow> VObj (bt_remove ''_partial_json'' (bt_insert ''input'' parsed m))
       | _ \<Rightarrow> block))"

definition response_tool_name :: "jvalue \<Rightarrow> string" where
  "response_tool_name item =
     (if get_str ''type'' item = Some ''tool_search_call'' then ''tool_search''
      else case non_empty (get_str ''name'' item) of Some n \<Rightarrow> n
      | None \<Rightarrow> (case Option.bind (get_str ''type'' item) (strip_suffix ''_call'') of Some k \<Rightarrow> k | None \<Rightarrow> []))"

definition response_tool_input :: "json_parser \<Rightarrow> jvalue \<Rightarrow> jvalue" where
  "response_tool_input from_str item = (case vget ''arguments'' item of
       Some arguments \<Rightarrow> (case as_str arguments of
          Some text \<Rightarrow> (case from_str text of Some v \<Rightarrow> v | None \<Rightarrow> VStr text)
        | None \<Rightarrow> arguments)
     | None \<Rightarrow> (case as_object item of None \<Rightarrow> VObj []
        | Some m \<Rightarrow> VObj (filter (\<lambda>(k, v). k \<notin> {''id'', ''type'', ''status'', ''call_id'', ''name'', ''execution''}) m)))"

section \<open>The reassembler\<close>

record Reassembler =
  snapshot :: "jvalue option"
  ra_usage :: Usage

definition Reassembler_new :: Reassembler where
  "Reassembler_new = \<lparr>snapshot = None, ra_usage = Usage_default\<rparr>"

text \<open>The object of the snapshot, a fresh one when it is missing or no object.\<close>

definition snapshot_object :: "Reassembler \<Rightarrow> (string \<times> jvalue) list" where
  "snapshot_object s = (case Option.bind (snapshot s) as_object of Some m \<Rightarrow> m | None \<Rightarrow> [])"

definition content_mut :: "(jvalue list \<Rightarrow> jvalue list option) \<Rightarrow> Reassembler \<Rightarrow> Reassembler option" where
  "content_mut f s = do { m \<leftarrow> array_entry ''content'' f (snapshot_object s); Some (s\<lparr>snapshot := Some (VObj m)\<rparr>) }"

definition or_insert :: "string \<Rightarrow> jvalue \<Rightarrow> (string \<times> jvalue) list \<Rightarrow> (string \<times> jvalue) list" where
  "or_insert k v m = (case bt_get m k of None \<Rightarrow> bt_insert k v m | Some _ \<Rightarrow> m)"

definition response_output_mut :: "(jvalue list \<Rightarrow> jvalue list option) \<Rightarrow> Reassembler \<Rightarrow> Reassembler option" where
  "response_output_mut f s = do {
     m \<leftarrow> array_entry ''output'' f (or_insert ''object'' (VStr ''response'') (snapshot_object s));
     Some (s\<lparr>snapshot := Some (VObj m)\<rparr>) }"

definition modify_at :: "nat \<Rightarrow> (jvalue \<Rightarrow> jvalue option) \<Rightarrow> jvalue list \<Rightarrow> jvalue list option" where
  "modify_at i f xs = do { x \<leftarrow> at_index i xs; y \<leftarrow> f x; set_index i y xs }"

definition merge_usage_at :: "jvalue \<Rightarrow> Usage \<Rightarrow> Usage" where
  "merge_usage_at data u = foldl (\<lambda>u k. case vget k data of Some v \<Rightarrow> merge_from u (Usage_from_value v) | None \<Rightarrow> u)
     u [''usage'', ''usageMetadata'']"

definition merge_event_usage :: "jvalue \<Rightarrow> Reassembler \<Rightarrow> Reassembler" where
  "merge_event_usage data s = s\<lparr>ra_usage := merge_usage_at data (ra_usage s)\<rparr>"

subsection \<open>Anthropic\<close>

definition content_block_start :: "jvalue \<Rightarrow> Reassembler \<Rightarrow> Reassembler option" where
  "content_block_start data s = (case vget ''content_block'' data of None \<Rightarrow> Some s
     | Some block \<Rightarrow> content_mut (\<lambda>content. set_index (index_of data) block (grow_to content (index_of data))) s)"

definition apply_delta :: "jvalue \<Rightarrow> jvalue \<Rightarrow> jvalue option" where
  "apply_delta delta block =
     (if get_str ''type'' delta = Some ''text_delta'' then Some (append_str ''text'' (str_field delta ''text'') block)
      else if get_str ''type'' delta = Some ''thinking_delta'' then
        (let block = append_str ''thinking'' (str_field delta ''thinking'') block in
         case get_str ''signature'' delta of Some sig \<Rightarrow> index_set ''signature'' (VStr sig) block | None \<Rightarrow> Some block)
      else if get_str ''type'' delta = Some ''input_json_delta'' then
        Some (append_str ''_partial_json'' (str_field delta ''partial_json'') block)
      else Some block)"

definition content_block_delta :: "jvalue \<Rightarrow> Reassembler \<Rightarrow> Reassembler option" where
  "content_block_delta data s =
     (let idx = index_of data; delta = (case vget ''delta'' data of Some d \<Rightarrow> d | None \<Rightarrow> VNull) in
      content_mut (\<lambda>content. modify_at idx (\<lambda>block.
        apply_delta delta (if vget ''type'' block = None then empty_block_for_delta delta else block)) (grow_to content idx)) s)"

definition content_block_stop :: "json_parser \<Rightarrow> jvalue \<Rightarrow> Reassembler \<Rightarrow> Reassembler option" where
  "content_block_stop from_str data s =
     (let idx = index_of data in
      content_mut (\<lambda>content. if idx < length content then modify_at idx (\<lambda>b. Some (finalize_partial_json from_str b)) content
        else Some content) s)"

definition message_delta :: "jvalue \<Rightarrow> Reassembler \<Rightarrow> Reassembler" where
  "message_delta data s = (case Option.bind (snapshot s) as_object of None \<Rightarrow> s
     | Some m \<Rightarrow> (case Option.bind (vget ''delta'' data) as_object of None \<Rightarrow> s
        | Some delta \<Rightarrow> s\<lparr>snapshot := Some (VObj (foldl (\<lambda>m (k, v). bt_insert k v m) m delta))\<rparr>))"

subsection \<open>OpenAI Responses\<close>

definition existing_array :: "string \<Rightarrow> Reassembler \<Rightarrow> jvalue list option" where
  "existing_array k s = (case array_at k (snapshot_object s) of [] \<Rightarrow> None | x # xs \<Rightarrow> Some (x # xs))"

definition set_response_snapshot :: "jvalue \<Rightarrow> Reassembler \<Rightarrow> Reassembler" where
  "set_response_snapshot response s = s\<lparr>snapshot := Some (case as_object response of None \<Rightarrow> response
     | Some m \<Rightarrow>
        (let m1 = (if array_at ''output'' m = [] then
                (case existing_array ''output'' s of Some out \<Rightarrow> bt_insert ''output'' (VArr out) m | None \<Rightarrow> m) else m);
             m2 = (if bt_get m1 ''content'' = None then
                (case existing_array ''content'' s of Some c \<Rightarrow> bt_insert ''content'' (VArr c) m1 | None \<Rightarrow> m1) else m1)
         in VObj m2))\<rparr>"

definition index_field :: "string \<Rightarrow> jvalue \<Rightarrow> nat option" where
  "index_field k data = map_option unat (get_u64 k data)"

definition response_output_item :: "jvalue \<Rightarrow> Reassembler \<Rightarrow> Reassembler option" where
  "response_output_item data s = (case vget ''item'' data of None \<Rightarrow> Some s
     | Some item \<Rightarrow> response_output_mut (\<lambda>out.
         let idx = (case index_field ''output_index'' data of Some i \<Rightarrow> i | None \<Rightarrow> length out) in
         set_index idx item (grow_to out idx)) s)"

definition reasoning_delta :: "jvalue \<Rightarrow> string \<Rightarrow> jvalue \<Rightarrow> jvalue option" where
  "reasoning_delta data text item = do {
     m \<leftarrow> as_object (if is_object item then item else vobj [(''type'', VStr ''reasoning''), (''summary'', VArr [])]);
     let si = (case index_field ''summary_index'' data of Some i \<Rightarrow> i | None \<Rightarrow> 0);
     m \<leftarrow> array_entry ''summary'' (\<lambda>summary. modify_at si (\<lambda>part.
       Some (append_str ''text'' text (if is_object part then part else vobj [(''type'', VStr ''summary_text''), (''text'', VStr [])])))
       (grow_to summary si)) (or_insert ''type'' (VStr ''reasoning'') m);
     Some (VObj m) }"

definition message_text_delta :: "string \<Rightarrow> jvalue \<Rightarrow> string \<Rightarrow> jvalue \<Rightarrow> jvalue option" where
  "message_text_delta event data text item =
     (let refusal = str_contains ''refusal'' event;
          kind = (if refusal then ''refusal'' else ''output_text''); field = (if refusal then ''refusal'' else ''text'');
          ci = (case index_field ''content_index'' data of Some i \<Rightarrow> i | None \<Rightarrow> 0) in
      do {
        m \<leftarrow> as_object (if is_object item then item
          else vobj [(''type'', VStr ''message''), (''role'', VStr ''assistant''), (''content'', VArr [])]);
        m \<leftarrow> array_entry ''content'' (\<lambda>content. modify_at ci (\<lambda>block. do {
            let block = (if is_object block then block else vobj [(''type'', VStr kind), (field, VStr [])]);
            block \<leftarrow> (if vget ''type'' block = None then index_set ''type'' (VStr kind) block else Some block);
            Some (append_str field text block) }) (grow_to content ci))
          (or_insert ''role'' (VStr ''assistant'') (or_insert ''type'' (VStr ''message'') m));
        Some (VObj m) })"

definition delta_text :: "jvalue \<Rightarrow> string" where
  "delta_text data = (case or_else (get_str ''delta'' data) (or_else (get_str ''text'' data) (get_str ''summary_text'' data)) of
       Some t \<Rightarrow> t | None \<Rightarrow> [])"

definition response_delta :: "string \<Rightarrow> jvalue \<Rightarrow> Reassembler \<Rightarrow> Reassembler option" where
  "response_delta event data s =
     (let text = delta_text data; oi = (case index_field ''output_index'' data of Some i \<Rightarrow> i | None \<Rightarrow> 0) in
      if text = [] then Some s
      else if str_contains ''reasoning'' event \<or> str_contains ''summary'' event
      then response_output_mut (\<lambda>out. modify_at oi (reasoning_delta data text) (grow_to out oi)) s
      else response_output_mut (\<lambda>out. modify_at oi (message_text_delta event data text) (grow_to out oi)) s)"

definition response_event :: "string \<Rightarrow> jvalue \<Rightarrow> Reassembler \<Rightarrow> Reassembler option" where
  "response_event event data s = (case vget ''response'' data of
       Some response \<Rightarrow> Some (set_response_snapshot response s)
     | None \<Rightarrow>
         if event = ''response.completed'' \<or> event = ''response.done'' then Some (set_response_snapshot data s)
         else if event = ''response.output_item.added'' \<or> event = ''response.output_item.done'' then response_output_item data s
         else if (case rsplit_once (CHR ''.'') event of Some (_, suf) \<Rightarrow> suf = ''delta'' | None \<Rightarrow> False)
         then response_delta event data s else Some s)"

subsection \<open>Chat Completions and Gemini\<close>

text \<open>The first block of a type; \<open>.expect\<close> panics if there is none.\<close>

fun on_first :: "string \<Rightarrow> (jvalue \<Rightarrow> jvalue) \<Rightarrow> jvalue list \<Rightarrow> jvalue list option" where
  "on_first ty f [] = None"
| "on_first ty f (b # bs) = (if block_type b = ty then Some (f b # bs) else map_option (\<lambda>bs. b # bs) (on_first ty f bs))"

definition has_block :: "string \<Rightarrow> jvalue list \<Rightarrow> bool" where
  "has_block ty content = list_ex (\<lambda>b. block_type b = ty) content"

definition text_block :: "(jvalue \<Rightarrow> jvalue) \<Rightarrow> Reassembler \<Rightarrow> Reassembler option" where
  "text_block f = content_mut (\<lambda>content.
     on_first ''text'' f (if has_block ''text'' content then content else content @ [empty_text]))"

definition thinking_block :: "(jvalue \<Rightarrow> jvalue) \<Rightarrow> Reassembler \<Rightarrow> Reassembler option" where
  "thinking_block f = content_mut (\<lambda>content.
     on_first ''thinking'' f (if has_block ''thinking'' content then content else empty_thinking # content))"

definition tool_positions :: "jvalue list \<Rightarrow> nat list" where
  "tool_positions content = filter (\<lambda>i. block_type (content ! i) = ''tool_use'') [0..<length content]"

definition tool_use_block :: "nat \<Rightarrow> (jvalue \<Rightarrow> jvalue option) \<Rightarrow> Reassembler \<Rightarrow> Reassembler option" where
  "tool_use_block idx f = content_mut (\<lambda>content.
     let tools = tool_positions content in
     if idx < length tools then modify_at (tools ! idx) f content
     else (let content = content @ replicate (Suc idx - length tools) empty_tool_use in modify_at (length content - 1) f content))"

definition apply_call :: "jvalue \<Rightarrow> jvalue \<Rightarrow> jvalue option" where
  "apply_call call block = do {
     block \<leftarrow> (case non_empty (get_str ''id'' call) of Some i \<Rightarrow> index_set ''id'' (VStr i) block | None \<Rightarrow> Some block);
     case vget ''function'' call of None \<Rightarrow> Some block
     | Some func \<Rightarrow> do {
         block \<leftarrow> (case non_empty (get_str ''name'' func) of Some n \<Rightarrow> index_set ''name'' (VStr n) block | None \<Rightarrow> Some block);
         Some (case get_str ''arguments'' func of Some args \<Rightarrow> append_str ''_partial_json'' args block | None \<Rightarrow> block) } }"

definition chat_tool_call_delta :: "jvalue \<Rightarrow> Reassembler \<Rightarrow> Reassembler option" where
  "chat_tool_call_delta call s = tool_use_block (index_of call) (apply_call call) s"

fun fold_calls :: "(jvalue \<Rightarrow> Reassembler \<Rightarrow> Reassembler option) \<Rightarrow> jvalue list \<Rightarrow> Reassembler \<Rightarrow> Reassembler option" where
  "fold_calls f [] s = Some s"
| "fold_calls f (v # vs) s = do { s \<leftarrow> f v s; fold_calls f vs s }"

definition first_of :: "string \<Rightarrow> jvalue \<Rightarrow> jvalue option" where
  "first_of k data = (case get_array k data of Some (c # cs) \<Rightarrow> Some c | _ \<Rightarrow> None)"

definition chat_snapshot :: "jvalue \<Rightarrow> Reassembler \<Rightarrow> Reassembler" where
  "chat_snapshot data s = (if snapshot s \<noteq> None then s else s\<lparr>snapshot := Some (vobj
     [(''id'', case vget ''id'' data of Some v \<Rightarrow> v | None \<Rightarrow> VStr []), (''object'', VStr ''chat.completion''),
      (''model'', case vget ''model'' data of Some v \<Rightarrow> v | None \<Rightarrow> VStr []), (''content'', VArr [])])\<rparr>)"

definition chat_completion_chunk :: "jvalue \<Rightarrow> Reassembler \<Rightarrow> Reassembler option" where
  "chat_completion_chunk data s =
     (let choice = (case first_of ''choices'' data of Some c \<Rightarrow> c | None \<Rightarrow> VNull);
          delta = (case vget ''delta'' choice of Some d \<Rightarrow> d | None \<Rightarrow> VNull) in
      do {
        let s = chat_snapshot data s;
        s \<leftarrow> (case non_empty (get_str ''content'' delta) of Some t \<Rightarrow> text_block (append_str ''text'' t) s | None \<Rightarrow> Some s);
        s \<leftarrow> (case non_empty (get_str ''reasoning_content'' delta) of
            Some t \<Rightarrow> thinking_block (append_str ''thinking'' t) s | None \<Rightarrow> Some s);
        s \<leftarrow> (case get_array ''tool_calls'' delta of Some calls \<Rightarrow> fold_calls chat_tool_call_delta calls s | None \<Rightarrow> Some s);
        Some (case (get_str ''finish_reason'' choice, Option.bind (snapshot s) as_object) of
            (Some reason, Some m) \<Rightarrow> s\<lparr>snapshot := Some (VObj (bt_insert ''stop_reason'' (VStr reason) m))\<rparr>
          | _ \<Rightarrow> s) })"

definition gemini_parts :: "jvalue \<Rightarrow> jvalue list" where
  "gemini_parts data = (case do { c \<leftarrow> first_of ''candidates'' data; content \<leftarrow> vget ''content'' c; get_array ''parts'' content } of
       Some ps \<Rightarrow> ps | None \<Rightarrow> [])"

definition gemini_part :: "jvalue \<Rightarrow> Reassembler \<Rightarrow> Reassembler option" where
  "gemini_part part s = (case get_str ''text'' part of Some t \<Rightarrow> text_block (append_str ''text'' t) s | None \<Rightarrow> Some s)"

definition gemini_chunk :: "jvalue \<Rightarrow> Reassembler \<Rightarrow> Reassembler option" where
  "gemini_chunk data s = do {
     let s = (if snapshot s = None then s\<lparr>snapshot := Some (vobj [(''candidates'', VArr []), (''content'', VArr [])])\<rparr> else s);
     s \<leftarrow> fold_calls gemini_part (gemini_parts data) s;
     Some (case (Option.bind (snapshot s) as_object, vget ''candidates'' data) of
         (Some m, Some candidates) \<Rightarrow> s\<lparr>snapshot := Some (VObj (bt_insert ''candidates'' candidates m))\<rparr>
       | _ \<Rightarrow> s) }"

subsection \<open>The fold\<close>

definition dispatch :: "json_parser \<Rightarrow> string option \<Rightarrow> jvalue \<Rightarrow> Reassembler \<Rightarrow> Reassembler option" where
  "dispatch from_str event data s =
     (let bare = (if vget ''choices'' data \<noteq> None then chat_completion_chunk data s
            else if vget ''candidates'' data \<noteq> None then gemini_chunk data s else Some s) in
      case event of None \<Rightarrow> bare
      | Some e \<Rightarrow>
          if e = ''message_start'' then Some (s\<lparr>snapshot := vget ''message'' data\<rparr>)
          else if e = ''content_block_start'' then content_block_start data s
          else if e = ''content_block_delta'' then content_block_delta data s
          else if e = ''content_block_stop'' then content_block_stop from_str data s
          else if e = ''message_delta'' then Some (message_delta data s)
          else if prefix ''response.'' e then response_event e data s
          else bare)"

definition feed :: "json_parser \<Rightarrow> Reassembler \<Rightarrow> ParsedEvent \<Rightarrow> Reassembler option" where
  "feed from_str s ev = do {
     s \<leftarrow> dispatch from_str (or_else (pe_event ev) (get_str ''type'' (pe_data ev))) (pe_data ev) s;
     Some (merge_event_usage (pe_data ev) s) }"

fun feed_all :: "json_parser \<Rightarrow> Reassembler \<Rightarrow> ParsedEvent list \<Rightarrow> Reassembler option" where
  "feed_all from_str s [] = Some s"
| "feed_all from_str s (ev # evs) = do { s \<leftarrow> feed from_str s ev; feed_all from_str s evs }"

definition text_mirror :: "string \<Rightarrow> jvalue \<Rightarrow> jvalue" where
  "text_mirror field block = vobj [(''type'', VStr ''text''), (''text'', VStr (str_field block field))]"

definition mirror_block :: "jvalue \<Rightarrow> jvalue list" where
  "mirror_block block =
     (if get_str ''type'' block \<in> {Some ''output_text'', Some ''input_text''} then [text_mirror ''text'' block]
      else if get_str ''type'' block = Some ''refusal'' then [text_mirror ''refusal'' block]
      else [])"

definition summary_text :: "jvalue \<Rightarrow> string" where
  "summary_text item = (case get_array ''summary'' item of None \<Rightarrow> []
     | Some parts \<Rightarrow> concat (List.map_filter (\<lambda>part. Option.bind (or_else (vget ''text'' part) (vget ''summary_text'' part)) as_str) parts))"

definition mirror_item :: "json_parser \<Rightarrow> jvalue \<Rightarrow> jvalue list" where
  "mirror_item from_str item = (case get_str ''type'' item of None \<Rightarrow> []
     | Some kind \<Rightarrow>
        if kind = ''message'' then (case get_array ''content'' item of None \<Rightarrow> [] | Some blocks \<Rightarrow> concat (map mirror_block blocks))
        else if suffix ''_call'' kind then [vobj [(''type'', VStr ''tool_use''),
            (''id'', case or_else (vget ''call_id'' item) (vget ''id'' item) of Some v \<Rightarrow> v | None \<Rightarrow> VStr []),
            (''name'', VStr (response_tool_name item)), (''input'', response_tool_input from_str item)]]
        else if kind = ''reasoning'' then
          (let t = summary_text item in if t = [] then [] else [vobj [(''type'', VStr ''thinking''), (''thinking'', VStr t)]])
        else [])"

definition refresh_responses_content_mirror :: "json_parser \<Rightarrow> Reassembler \<Rightarrow> Reassembler" where
  "refresh_responses_content_mirror from_str s =
     (case Option.bind (snapshot s) as_object of None \<Rightarrow> s
      | Some m \<Rightarrow> (case Option.bind (bt_get m ''output'') as_array of None \<Rightarrow> s
         | Some out \<Rightarrow> s\<lparr>snapshot := Some (VObj (bt_insert ''content'' (VArr (concat (map (mirror_item from_str) out))) m))\<rparr>))"

definition finalize_content :: "json_parser \<Rightarrow> Reassembler \<Rightarrow> Reassembler" where
  "finalize_content from_str s =
     (case Option.bind (snapshot s) as_object of None \<Rightarrow> s
      | Some m \<Rightarrow> (case Option.bind (bt_get m ''content'') as_array of None \<Rightarrow> s
         | Some content \<Rightarrow> s\<lparr>snapshot := Some (VObj (bt_insert ''content'' (VArr (map (finalize_partial_json from_str) content)) m))\<rparr>))"

definition reassembler_finish :: "json_parser \<Rightarrow> Reassembler \<Rightarrow> jvalue option \<times> Usage" where
  "reassembler_finish from_str s =
     (let seed = (case snapshot s of None \<Rightarrow> Usage_default | Some v \<Rightarrow> merge_usage_at v Usage_default) in
      (snapshot (finalize_content from_str (refresh_responses_content_mirror from_str s)), merge_from seed (ra_usage s)))"

definition stream_event :: "ParsedEvent \<Rightarrow> StreamEvent" where
  "stream_event ev = \<lparr>se_event = (case pe_event ev of Some e \<Rightarrow> e
     | None \<Rightarrow> (case get_str ''type'' (pe_data ev) of Some t \<Rightarrow> t | None \<Rightarrow> ''message'')), se_data = pe_data ev\<rparr>"

definition reconstruct ::
  "(string \<Rightarrow> string) \<Rightarrow> json_parser \<Rightarrow> string \<Rightarrow> (jvalue option \<times> Usage \<times> StreamEvent list) option" where
  "reconstruct lossy from_str body = do {
     let events = parse_events lossy from_str body;
     s \<leftarrow> feed_all from_str Reassembler_new events;
     let (snap, usage) = reassembler_finish from_str s;
     Some (snap, usage, map stream_event events) }"

section \<open>No panics\<close>

named_theorems no_panic \<open>operations that return\<close>

lemma grow_to_length [simp]: "i < length (grow_to xs i)"
  by (simp add: grow_to_def)

lemma append_str_object [simp]: "is_object (append_str k t b)"
  by (simp add: append_str_def Let_def)

lemma bind_some: "m \<noteq> None \<Longrightarrow> (\<And>x. m = Some x \<Longrightarrow> f x \<noteq> None) \<Longrightarrow> Option.bind m f \<noteq> None"
  by (cases m) auto

lemma coerced_object: "as_object (if is_object v then v else vobj kvs) \<noteq> None"
  by (cases "as_object v") (auto simp: vobj_def)

lemma some_some: "Some x \<noteq> None"
  by simp

lemma array_entry_some: "(\<And>xs. f xs \<noteq> None) \<Longrightarrow> array_entry k f m \<noteq> None"
  by (simp add: array_entry_def bind_eq_None_conv)

lemma content_mut_some [no_panic]: "(\<And>xs. f xs \<noteq> None) \<Longrightarrow> content_mut f s \<noteq> None"
  and response_output_mut_some [no_panic]: "(\<And>xs. f xs \<noteq> None) \<Longrightarrow> response_output_mut f s \<noteq> None"
  using array_entry_some [of f] by (simp_all add: content_mut_def response_output_mut_def bind_eq_None_conv)

lemma modify_at_some: "i < length xs \<Longrightarrow> f (xs ! i) \<noteq> None \<Longrightarrow> modify_at i f xs \<noteq> None"
  by (auto simp: modify_at_def)

lemma on_first_some: "has_block ty xs \<Longrightarrow> on_first ty f xs \<noteq> None"
  by (induction xs) (auto simp: has_block_def)

lemma block_type_object: "block_type b \<noteq> [] \<Longrightarrow> is_object b"
  by (cases b) (auto simp: block_type_def get_str_def)

lemma index_set_some: "is_object b \<Longrightarrow> index_set k v b \<noteq> None"
  by (cases b) auto

lemma block_types: "block_type empty_text = ''text''" "block_type empty_thinking = ''thinking''" "block_type empty_tool_use = ''tool_use''"
  by (code_simp+)

lemma apply_delta_some: "apply_delta delta b \<noteq> None"
  using index_set_some [OF append_str_object] by (auto simp: apply_delta_def Let_def split: option.splits)

lemma anthropic_no_panic [no_panic]:
  "content_block_start data s \<noteq> None" "content_block_delta data s \<noteq> None" "content_block_stop p data s \<noteq> None"
proof -
  show "content_block_start data s \<noteq> None"
    unfolding content_block_start_def by (cases "vget ''content_block'' data") (simp_all add: content_mut_some)
  show "content_block_delta data s \<noteq> None"
    unfolding content_block_delta_def Let_def by (intro content_mut_some modify_at_some grow_to_length apply_delta_some)
  show "content_block_stop p data s \<noteq> None"
    unfolding content_block_stop_def Let_def by (rule content_mut_some) (simp add: modify_at_def)
qed

lemma reasoning_delta_some: "reasoning_delta data text item \<noteq> None"
  unfolding reasoning_delta_def Let_def
  by (intro bind_some coerced_object array_entry_some modify_at_some grow_to_length some_some)

lemma typed_block_some:
  "is_object b \<Longrightarrow> (if vget ''type'' b = None then index_set ''type'' v b else Some b) \<noteq> None"
  using index_set_some [of b] by simp

lemma message_text_delta_some: "message_text_delta event data text item \<noteq> None"
  unfolding message_text_delta_def Let_def
  by (intro bind_some coerced_object array_entry_some modify_at_some grow_to_length some_some typed_block_some)

lemma responses_no_panic [no_panic]: "response_event event data s \<noteq> None"
proof -
  have "response_delta event data s \<noteq> None"
    unfolding response_delta_def Let_def
    using response_output_mut_some [OF modify_at_some [OF grow_to_length reasoning_delta_some]]
      response_output_mut_some [OF modify_at_some [OF grow_to_length message_text_delta_some]] by simp
  moreover have "response_output_item data s \<noteq> None"
    unfolding response_output_item_def Let_def
    by (cases "vget ''item'' data") (simp_all add: response_output_mut_some)
  ultimately show ?thesis unfolding response_event_def by (cases "vget ''response'' data") simp_all
qed

lemma text_block_some [no_panic]: "text_block f s \<noteq> None"
  and thinking_block_some [no_panic]: "thinking_block f s \<noteq> None"
  unfolding text_block_def thinking_block_def
  by (rule content_mut_some, rule on_first_some, simp add: has_block_def block_types)+

lemma apply_call_some: "is_object b \<Longrightarrow> apply_call call b \<noteq> None"
proof -
  assume b: "is_object b"
  have id_set: "\<exists>b'. (case x of Some i \<Rightarrow> index_set k (VStr i) c | None \<Rightarrow> Some c) = Some b' \<and> is_object b'" if "is_object c" for k x c
    using that by (cases c; cases x) auto
  obtain b1 where b1: "(case non_empty (get_str ''id'' call) of Some i \<Rightarrow> index_set ''id'' (VStr i) b | None \<Rightarrow> Some b) = Some b1" "is_object b1"
    using id_set [OF b] by blast
  show ?thesis
  proof (cases "vget ''function'' call")
    case (Some func)
    obtain b2 where "(case non_empty (get_str ''name'' func) of Some n \<Rightarrow> index_set ''name'' (VStr n) b1 | None \<Rightarrow> Some b1) = Some b2"
      using id_set [OF b1(2)] by blast
    then show ?thesis using b1(1) Some by (simp add: apply_call_def)
  qed (use b1 in \<open>simp add: apply_call_def\<close>)
qed

lemma tool_positions_object: "i < length (tool_positions xs) \<Longrightarrow> tool_positions xs ! i < length xs \<and> is_object (xs ! (tool_positions xs ! i))"
  using nth_mem [of i "tool_positions xs"] block_type_object [of "xs ! (tool_positions xs ! i)"]
  by (auto simp: tool_positions_def)

lemma tool_use_block_some:
  assumes "\<And>b. is_object b \<Longrightarrow> f b \<noteq> None"
  shows "tool_use_block idx f s \<noteq> None"
  unfolding tool_use_block_def Let_def
proof (rule content_mut_some)
  fix xs
  let ?ys = "xs @ replicate (Suc idx - length (tool_positions xs)) empty_tool_use"
  show "(if idx < length (tool_positions xs) then modify_at (tool_positions xs ! idx) f xs
      else modify_at (length ?ys - 1) f ?ys) \<noteq> None"
  proof (cases "idx < length (tool_positions xs)")
    case True
    then show ?thesis using tool_positions_object [OF True] assms modify_at_some by simp
  next
    case False
    then have "?ys \<noteq> []" "last ?ys = empty_tool_use" by (simp_all add: last_append)
    then have "?ys ! (length ?ys - 1) = empty_tool_use" using last_conv_nth [of ?ys] by metis
    moreover have "length ?ys - 1 < length ?ys" using \<open>?ys \<noteq> []\<close> length_greater_0_conv [of ?ys] by linarith
    moreover have "is_object empty_tool_use" by (simp add: empty_tool_use_def vobj_def)
    ultimately show ?thesis using False modify_at_some [of "length ?ys - 1" ?ys f] assms by simp
  qed
qed

lemma fold_calls_some [no_panic]: "(\<And>v s. f v s \<noteq> None) \<Longrightarrow> fold_calls f vs s \<noteq> None"
proof (induction vs arbitrary: s)
  case (Cons v vs)
  then show ?case unfolding fold_calls.simps by (intro bind_some) blast+
qed simp

lemma chat_no_panic [no_panic]: "chat_completion_chunk data s \<noteq> None"
proof -
  have call: "chat_tool_call_delta call s \<noteq> None" for call s
    unfolding chat_tool_call_delta_def by (rule tool_use_block_some) (rule apply_call_some)
  show ?thesis
    unfolding chat_completion_chunk_def Let_def
    by (intro bind_some some_some) (auto split: option.splits simp: no_panic call simp del: not_None_eq)
qed

lemma gemini_no_panic [no_panic]: "gemini_chunk data s \<noteq> None"
proof -
  have part: "gemini_part v s \<noteq> None" for v s
    by (auto simp: gemini_part_def no_panic split: option.splits simp del: not_None_eq)
  show ?thesis unfolding gemini_chunk_def Let_def by (intro bind_some some_some fold_calls_some part)
qed

lemma feed_all_some: "feed_all p s evs \<noteq> None"
proof (induction evs arbitrary: s)
  case (Cons ev evs)
  have "dispatch p e data s \<noteq> None" for e data
    unfolding dispatch_def Let_def by (auto simp: no_panic split: option.splits simp del: not_None_eq)
  then have "feed p s ev \<noteq> None" unfolding feed_def by (intro bind_some some_some)
  then show ?case using Cons.IH by (auto intro!: bind_some)
qed simp

text \<open>
  C12. The reassembly of a streamed response returns for every body: no index is out of range, no
  \<open>expect\<close> fails and no value is indexed that is not an object, whatever JSON the provider sends and in
  whatever order its events come.
\<close>

theorem reconstruct_never_panics: "\<exists>snap usage events. reconstruct lossy from_str body = Some (snap, usage, events)"
proof -
  obtain s where "feed_all from_str Reassembler_new (parse_events lossy from_str body) = Some s"
    using feed_all_some by blast
  then show ?thesis by (simp add: reconstruct_def split: prod.splits)
qed

section \<open>Usage\<close>

definition readings :: "jvalue \<Rightarrow> Usage list" where
  "readings data = List.map_filter (\<lambda>k. map_option Usage_from_value (vget k data)) [''usage'', ''usageMetadata'']"

lemma merge_usage_at_readings: "merge_usage_at data u = foldl merge_from u (readings data)"
  by (simp add: merge_usage_at_def readings_def split: option.split)

text \<open>A result, if there is one, has the usage \<open>u\<close>.\<close>

definition keeps_usage :: "Usage \<Rightarrow> Reassembler option \<Rightarrow> bool" where
  "keeps_usage u m \<longleftrightarrow> (\<forall>s. m = Some s \<longrightarrow> ra_usage s = u)"

named_theorems usage_kept \<open>operations that leave the usage alone\<close>

lemma keeps_usage_some [usage_kept]: "ra_usage s = u \<Longrightarrow> keeps_usage u (Some s)"
  by (simp add: keeps_usage_def)

lemma keeps_usage_bind [usage_kept]:
  "keeps_usage u m \<Longrightarrow> (\<And>s. ra_usage s = u \<Longrightarrow> keeps_usage u (g s)) \<Longrightarrow> keeps_usage u (Option.bind m g)"
  unfolding keeps_usage_def bind_eq_Some_conv by blast

lemma keeps_usage_if [usage_kept]: "keeps_usage u m \<Longrightarrow> keeps_usage u m' \<Longrightarrow> keeps_usage u (if b then m else m')"
  by simp

lemma keeps_usage_case [usage_kept]:
  "keeps_usage u m \<Longrightarrow> (\<And>x. keeps_usage u (h x)) \<Longrightarrow> keeps_usage u (case z of None \<Rightarrow> m | Some x \<Rightarrow> h x)"
  by (cases z) simp_all

lemma keeps_usage_arrays [usage_kept]:
  "ra_usage s = u \<Longrightarrow> keeps_usage u (content_mut f s)" "ra_usage s = u \<Longrightarrow> keeps_usage u (response_output_mut f s)"
  by (auto simp: keeps_usage_def content_mut_def response_output_mut_def bind_eq_Some_conv)

lemma keeps_usage_blocks [usage_kept]:
  "ra_usage s = u \<Longrightarrow> keeps_usage u (text_block f s)" "ra_usage s = u \<Longrightarrow> keeps_usage u (thinking_block f s)"
  "ra_usage s = u \<Longrightarrow> keeps_usage u (chat_tool_call_delta v s)"
  unfolding text_block_def thinking_block_def chat_tool_call_delta_def tool_use_block_def by (intro usage_kept; assumption)+

lemma snapshot_updates_keep_usage [simp]:
  "ra_usage (message_delta data s) = ra_usage s" "ra_usage (set_response_snapshot r s) = ra_usage s"
  "ra_usage (chat_snapshot data s) = ra_usage s"
  by (simp_all add: message_delta_def set_response_snapshot_def chat_snapshot_def split: option.split)

lemma keeps_usage_fold [usage_kept]:
  "ra_usage s = u \<Longrightarrow> (\<And>v s. ra_usage s = u \<Longrightarrow> keeps_usage u (f v s)) \<Longrightarrow> keeps_usage u (fold_calls f vs s)"
proof (induction vs arbitrary: s)
  case (Cons v vs)
  then show ?case unfolding fold_calls.simps by (intro usage_kept) auto
qed (simp add: usage_kept)

lemma dispatch_keeps_usage [usage_kept]: "keeps_usage (ra_usage s) (dispatch p e data s)"
proof -
  have "keeps_usage (ra_usage s) (chat_completion_chunk data s)"
    unfolding chat_completion_chunk_def Let_def by (intro usage_kept) (auto split: option.splits)
  moreover have "keeps_usage (ra_usage s) (gemini_chunk data s)"
    unfolding gemini_chunk_def Let_def gemini_part_def by (intro usage_kept) (auto split: option.splits)
  moreover have "keeps_usage (ra_usage s) (response_event e data s)" for e
    unfolding response_event_def response_delta_def response_output_item_def Let_def by (intro usage_kept) simp_all
  moreover have "keeps_usage (ra_usage s) (content_block_start data s)" "keeps_usage (ra_usage s) (content_block_delta data s)"
    "keeps_usage (ra_usage s) (content_block_stop p data s)"
    unfolding content_block_start_def content_block_delta_def content_block_stop_def Let_def by (intro usage_kept; simp)+
  ultimately show ?thesis unfolding dispatch_def Let_def by (intro usage_kept) simp_all
qed

lemma feed_usage: "feed p s ev = Some s' \<Longrightarrow> ra_usage s' = foldl merge_from (ra_usage s) (readings (pe_data ev))"
  using dispatch_keeps_usage [of s p "or_else (pe_event ev) (get_str ''type'' (pe_data ev))" "pe_data ev"]
  by (auto simp: feed_def bind_eq_Some_conv merge_event_usage_def merge_usage_at_readings keeps_usage_def)

lemma feed_all_usage:
  "feed_all p s evs = Some s' \<Longrightarrow> ra_usage s' = foldl merge_from (ra_usage s) (concat (map (\<lambda>ev. readings (pe_data ev)) evs))"
  by (induction evs arbitrary: s) (auto simp: bind_eq_Some_conv dest!: feed_usage)

text \<open>
  The usage taken from the events of a stream depends on which events came, not on their order or on
  repetitions: zero-filled readings after the real one do not undo it.
\<close>

theorem usage_order_independent:
  assumes "set evs = set evs'" "feed_all p Reassembler_new evs = Some s" "feed_all p Reassembler_new evs' = Some s'"
  shows "ra_usage s = ra_usage s'"
proof -
  have "set (concat (map (\<lambda>ev. readings (pe_data ev)) evs)) = set (concat (map (\<lambda>ev. readings (pe_data ev)) evs'))"
    using assms(1) by simp
  from merge_fold_set [OF this] show ?thesis using assms(2,3) by (simp add: feed_all_usage)
qed

definition counting_event :: "64 word \<Rightarrow> ParsedEvent" where
  "counting_event n = \<lparr>pe_event = Some ''ping'', pe_data = vobj [(''usage'', vobj [(''output_tokens'', VNum (PosInt n))])]\<rparr>"

theorem usage_order_independent_witness:
  "set [counting_event 7, counting_event 0] = set [counting_event 0, counting_event 7] \<and>
   (\<exists>s s'. feed_all (\<lambda>_. None) Reassembler_new [counting_event 7, counting_event 0] = Some s \<and>
      feed_all (\<lambda>_. None) Reassembler_new [counting_event 0, counting_event 7] = Some s' \<and>
      ra_usage s = ra_usage s' \<and> output_tokens (ra_usage s') = Some 7)"
proof -
  obtain s where s: "feed_all (\<lambda>_. None) Reassembler_new [counting_event 7, counting_event 0] = Some s"
    using feed_all_some by blast
  have "map_option (\<lambda>s. output_tokens (ra_usage s)) (feed_all (\<lambda>_. None) Reassembler_new [counting_event 0, counting_event 7]) = Some (Some 7)"
    by code_simp
  then obtain s' where s': "feed_all (\<lambda>_. None) Reassembler_new [counting_event 0, counting_event 7] = Some s'"
    "output_tokens (ra_usage s') = Some 7" by (auto simp del: feed_all.simps)
  have same: "set [counting_event 7, counting_event 0] = set [counting_event 0, counting_event 7]" by (simp add: insert_commute)
  show ?thesis using s s' same usage_order_independent [OF same s s'(1)] by blast
qed

section \<open>Text blocks\<close>

text \<open>
  The content array as a list of texts: \<open>None\<close> is an empty block that no delta has reached. \<open>put_text\<close> is
  what a text delta means.
\<close>

definition put_text :: "nat \<Rightarrow> string \<Rightarrow> string option list \<Rightarrow> string option list" where
  "put_text i t bs = (let bs' = bs @ replicate (Suc i - length bs) None in
     bs'[i := Some ((case bs' ! i of Some u \<Rightarrow> u | None \<Rightarrow> []) @ t)])"

definition text_at :: "string option list \<Rightarrow> nat \<Rightarrow> string" where
  "text_at bs i = (if i < length bs then (case bs ! i of Some u \<Rightarrow> u | None \<Rightarrow> []) else [])"

fun block_value :: "string option \<Rightarrow> jvalue" where
  "block_value None = VObj []"
| "block_value (Some t) = vobj [(''type'', VStr ''text''), (''text'', VStr t)]"

definition text_delta_event :: "64 word \<Rightarrow> string \<Rightarrow> ParsedEvent" where
  "text_delta_event i t = \<lparr>pe_event = Some ''content_block_delta'',
     pe_data = vobj [(''index'', VNum (PosInt i)), (''delta'', vobj [(''type'', VStr ''text_delta''), (''text'', VStr t)])]\<rparr>"

definition reassembled_content :: "Reassembler \<Rightarrow> jvalue list" where
  "reassembled_content s = array_at ''content'' (snapshot_object s)"

lemma text_at_put: "text_at (put_text i t bs) j = (if j = i then text_at bs i @ t else text_at bs j)"
  by (auto simp: text_at_def put_text_def Let_def nth_append nth_list_update)

lemma length_put_text: "length (put_text i t bs) = max (length bs) (Suc i)"
  by (simp add: put_text_def Let_def)

lemma text_delta_block:
  "apply_delta (vobj [(''type'', VStr ''text_delta''), (''text'', VStr t)])
     (if vget ''type'' (block_value b) = None then empty_block_for_delta (vobj [(''type'', VStr ''text_delta''), (''text'', VStr t)])
      else block_value b) = Some (block_value (Some ((case b of Some u \<Rightarrow> u | None \<Rightarrow> []) @ t)))"
  by (cases b) (simp_all add: apply_delta_def append_str_def vobj_def get_str_def str_field_def empty_block_for_delta_def empty_text_def)

lemma text_delta_content:
  assumes "xs = map block_value bs"
  shows "modify_at i (\<lambda>block. apply_delta (vobj [(''type'', VStr ''text_delta''), (''text'', VStr t)])
     (if vget ''type'' block = None then empty_block_for_delta (vobj [(''type'', VStr ''text_delta''), (''text'', VStr t)])
      else block)) (grow_to xs i) = Some (map block_value (put_text i t bs))"
proof -
  have grown: "grow_to xs i = map block_value (bs @ replicate (Suc i - length bs) None)"
    using assms by (simp add: grow_to_def)
  show ?thesis
    unfolding grown by (simp add: modify_at_def text_delta_block put_text_def Let_def map_update del: map_append map_replicate)
qed

lemma content_mut_content:
  "f (reassembled_content s) = Some xs \<Longrightarrow> \<exists>s'. content_mut f s = Some s' \<and> reassembled_content s' = xs"
  by (auto simp: content_mut_def array_entry_def reassembled_content_def array_at_def snapshot_object_def bt_get_insert)

lemma text_delta_fields:
  "index_of (pe_data (text_delta_event i t)) = unat i"
  "vget ''delta'' (pe_data (text_delta_event i t)) = Some (vobj [(''type'', VStr ''text_delta''), (''text'', VStr t)])"
  by (simp_all add: text_delta_event_def index_of_def get_u64_def vobj_def)

lemma merge_event_usage_content [simp]: "reassembled_content (merge_event_usage data s) = reassembled_content s"
  by (simp add: merge_event_usage_def reassembled_content_def snapshot_object_def)

lemma feed_text_delta:
  assumes "reassembled_content s = map block_value bs"
  shows "\<exists>s'. feed p s (text_delta_event i t) = Some s' \<and> reassembled_content s' = map block_value (put_text (unat i) t bs)"
proof -
  obtain s' where "content_block_delta (pe_data (text_delta_event i t)) s = Some s'"
    "reassembled_content s' = map block_value (put_text (unat i) t bs)"
    unfolding content_block_delta_def Let_def text_delta_fields option.case
    using content_mut_content text_delta_content [OF assms, of "unat i" t] by meson
  moreover have "or_else (pe_event (text_delta_event i t)) x = Some ''content_block_delta''" for x
    by (simp add: text_delta_event_def or_else_def)
  ultimately show ?thesis by (simp add: feed_def dispatch_def Let_def)
qed

lemma feed_all_text_deltas:
  assumes "reassembled_content s = map block_value bs"
  shows "\<exists>s'. feed_all p s (map (\<lambda>(i, t). text_delta_event i t) ds) = Some s' \<and>
    reassembled_content s' = map block_value (foldl (\<lambda>bs (i, t). put_text (unat i) t bs) bs ds)"
  using assms
proof (induction ds arbitrary: s bs)
  case (Cons d ds)
  obtain i t where d: "d = (i, t)" by (cases d)
  from feed_text_delta [OF Cons.prems] obtain s1 where s1: "feed p s (text_delta_event i t) = Some s1"
    "reassembled_content s1 = map block_value (put_text (unat i) t bs)" by blast
  show ?case using Cons.IH [OF s1(2)] s1(1) d by auto
qed auto

lemma text_at_foldl:
  "text_at (foldl (\<lambda>bs (i, t). put_text (unat i) t bs) bs ds) (unat n) =
     text_at bs (unat n) @ concat (map snd (filter (\<lambda>(i, t). i = n) ds))"
  for ds :: "(64 word \<times> string) list"
  by (induction ds arbitrary: bs) (auto simp: text_at_put dest: unsigned_word_eqI)

text \<open>
  C13. Text deltas of a stream, interleaved over the blocks of a message in any way, are reassembled block
  by block: every block of the content is a text block (or still empty) and the text of block \<open>n\<close> is the
  concatenation, in order, of the deltas addressed to it.
\<close>

theorem text_deltas_reassembled:
  assumes "reassembled_content s = []"
  shows "\<exists>s' bs. feed_all p s (map (\<lambda>(i, t). text_delta_event i t) ds) = Some s' \<and>
    reassembled_content s' = map block_value bs \<and>
    (\<forall>n. text_at bs (unat n) = concat (map snd (filter (\<lambda>(i, t). i = n) ds)))"
proof -
  have "reassembled_content s = map block_value []" using assms by simp
  from feed_all_text_deltas [OF this] show ?thesis using text_at_foldl [of "[]"] by (fastforce simp: text_at_def)
qed

theorem text_deltas_reassembled_witness:
  "reassembled_content Reassembler_new = [] \<and>
   (\<exists>s' bs. feed_all (\<lambda>_. None) Reassembler_new [text_delta_event 0 ''ab'', text_delta_event 1 ''x'', text_delta_event 0 ''c''] = Some s' \<and>
     reassembled_content s' = map block_value bs \<and> text_at bs 0 = ''abc'')"
proof -
  have new: "reassembled_content Reassembler_new = []" by code_simp
  obtain s' bs where r: "feed_all (\<lambda>_. None) Reassembler_new (map (\<lambda>(i, t). text_delta_event i t) [(0, ''ab''), (1, ''x''), (0, ''c'')]) = Some s'"
    "reassembled_content s' = map block_value bs"
    "\<And>n :: 64 word. text_at bs (unat n) = concat (map snd (filter (\<lambda>(i, t). i = n) [(0, ''ab''), (1, ''x''), (0, ''c'')]))"
    using text_deltas_reassembled [OF new, of "\<lambda>_. None" "[(0, ''ab''), (1, ''x''), (0, ''c'')]"] by (auto simp del: feed_all.simps)
  show ?thesis using new r(1,2) r(3) [of 0] by (auto simp del: feed_all.simps)
qed

text \<open>
  The index of a delta is not bounded: one event of a few bytes makes the content as long as the index
  asks for, up to \<open>2 ^ 64\<close> blocks.
\<close>

theorem index_grows_content:
  "\<exists>s. feed_all p Reassembler_new [text_delta_event i t] = Some s \<and> length (reassembled_content s) = Suc (unat i)"
proof -
  have "reassembled_content Reassembler_new = map block_value []" by code_simp
  from feed_all_text_deltas [OF this, of p "[(i, t)]"] obtain s where
    "feed_all p Reassembler_new [text_delta_event i t] = Some s" "reassembled_content s = map block_value (put_text (unat i) t [])"
    by (auto simp del: feed_all.simps)
  then show ?thesis by (intro exI [of _ s]) (simp add: length_put_text)
qed

end
