(* ===== verification/Atif.thy ===== *)
theory Atif
  imports Sse
begin

text \<open>
  The trajectory built from the recorded spans of a session (\<open>omniagent-cli/src/atif.rs\<close>): the steps of
  the conversation in the request of the last span, then its response. The JSON parser and the printer of
  values are arguments.
\<close>

section \<open>The document\<close>

record AgentInfo =
  ai_name :: string
  supports_atif :: bool

record ToolCall =
  tool_call_id :: string
  function_name :: string
  arguments :: jvalue

record ObservationResult =
  source_call_id :: "string option"
  or_content :: "string option"

record Observation =
  results :: "ObservationResult list"

record Metrics =
  prompt_tokens :: "64 word option"
  completion_tokens :: "64 word option"
  cached_tokens :: "64 word option"

record FinalMetrics =
  total_prompt_tokens :: "64 word option"
  total_completion_tokens :: "64 word option"
  total_cached_tokens :: "64 word option"
  total_steps :: "32 word"

record Step =
  step_id :: "32 word"
  timestamp :: "string option"
  step_source :: string
  step_model :: "string option"
  message :: string
  reasoning_content :: "string option"
  tool_calls :: "ToolCall list option"
  observation :: "Observation option"
  metrics :: "Metrics option"
  step_extra :: "jvalue option"

record Agent =
  agent_name :: string
  version :: string
  model_name :: "string option"

record Trajectory =
  schema_version :: string
  session_id :: "string option"
  agent :: Agent
  steps :: "Step list"
  final_metrics :: "FinalMetrics option"

definition SCHEMA_VERSION :: string where
  "SCHEMA_VERSION = ''ATIF-v1.7''"

section \<open>Metrics\<close>

definition metrics_is_empty :: "Metrics \<Rightarrow> bool" where
  "metrics_is_empty m \<longleftrightarrow> prompt_tokens m = None \<and> completion_tokens m = None \<and> cached_tokens m = None"

definition metrics_from_usage :: "Usage \<Rightarrow> Metrics option" where
  "metrics_from_usage u =
     (let m = \<lparr>prompt_tokens = input_tokens u, completion_tokens = output_tokens u, cached_tokens = cache_read_tokens u\<rparr> in
      if metrics_is_empty m then None else Some m)"

definition saturating_add :: "'a::len word \<Rightarrow> 'a word \<Rightarrow> 'a word" where
  "saturating_add a b = (if unat a + unat b < 2 ^ LENGTH('a) then a + b else - 1)"

text \<open>One of the three running totals: the sum and whether a count was present.\<close>

definition add_count :: "64 word \<times> bool \<Rightarrow> 64 word option \<Rightarrow> 64 word \<times> bool" where
  "add_count = (\<lambda>(total, has) v. case v of Some n \<Rightarrow> (saturating_add total n, True) | None \<Rightarrow> (total, has))"

definition then_some :: "64 word \<times> bool \<Rightarrow> 64 word option" where
  "then_some = (\<lambda>(total, has). if has then Some total else None)"

definition u32_or_max :: "nat \<Rightarrow> 32 word" where
  "u32_or_max n = (if n < 2 ^ 32 then of_nat n else - 1)"

type_synonym token_triple = "64 word option \<times> 64 word option \<times> 64 word option"

definition sum_token_metrics :: "token_triple list \<Rightarrow> nat \<Rightarrow> FinalMetrics" where
  "sum_token_metrics items n =
     (let (prompt, completion, cached) = foldl (\<lambda>(prompt, completion, cached) (p, c, ca).
            (add_count prompt p, add_count completion c, add_count cached ca)) ((0, False), (0, False), (0, False)) items in
      \<lparr>total_prompt_tokens = then_some prompt, total_completion_tokens = then_some completion,
       total_cached_tokens = then_some cached, total_steps = u32_or_max n\<rparr>)"

definition aggregate_metrics :: "LlmSpan list \<Rightarrow> nat \<Rightarrow> FinalMetrics" where
  "aggregate_metrics spans n =
     sum_token_metrics (map (\<lambda>sp. (input_tokens (sd_usage sp), output_tokens (sd_usage sp), cache_read_tokens (sd_usage sp))) spans) n"

section \<open>Links to raw requests\<close>

definition response_id :: "jvalue \<Rightarrow> string option" where
  "response_id response = non_empty (get_str ''id'' response)"

definition set_extra_key :: "string \<Rightarrow> jvalue \<Rightarrow> Step \<Rightarrow> Step" where
  "set_extra_key k v st = st\<lparr>step_extra := Some (case step_extra st of
       None \<Rightarrow> VObj [(k, v)]
     | Some e \<Rightarrow> (case as_object e of Some m \<Rightarrow> VObj (bt_insert k v m) | None \<Rightarrow> e))\<rparr>"

definition set_response_id :: "string \<Rightarrow> Step \<Rightarrow> Step" where
  "set_response_id i = set_extra_key ''response_id'' (VStr i)"

text \<open>A later span with the same response id replaces an earlier one.\<close>

definition by_response :: "LlmSpan list \<Rightarrow> (string \<times> string) list" where
  "by_response spans = rev (List.map_filter (\<lambda>sp. map_option (\<lambda>rid. (rid, sp_id sp)) (response_id (sd_response sp))) spans)"

definition step_response_id :: "Step \<Rightarrow> string option" where
  "step_response_id st = Option.bind (step_extra st) (get_str ''response_id'')"

definition link_step :: "(string \<times> string) list \<Rightarrow> Step \<Rightarrow> Step" where
  "link_step tbl st = (case Option.bind (step_response_id st) (map_of tbl) of None \<Rightarrow> st
     | Some span_id \<Rightarrow> set_extra_key ''raw_request_id'' (VStr span_id) st)"

definition link_raw_requests :: "Trajectory \<Rightarrow> LlmSpan list \<Rightarrow> Trajectory" where
  "link_raw_requests t spans = (if by_response spans = [] then t else t\<lparr>steps := map (link_step (by_response spans)) (steps t)\<rparr>)"

section \<open>The step builder\<close>

text \<open>Unchecked addition of a release build: it wraps.\<close>

definition next_id :: "Step list \<Rightarrow> 32 word" where
  "next_id sts = u32_or_max (length sts) + 1"

definition push_user :: "string \<Rightarrow> string \<Rightarrow> Step list \<Rightarrow> Step list" where
  "push_user source msg sts = sts @ [\<lparr>step_id = next_id sts, timestamp = None, step_source = source, step_model = None,
     message = msg, reasoning_content = None, tool_calls = None, observation = None, metrics = None, step_extra = None\<rparr>]"

definition push_agent ::
  "string option \<Rightarrow> string \<Rightarrow> ToolCall list option \<Rightarrow> string option \<Rightarrow> Metrics option \<Rightarrow> Step list \<Rightarrow> Step list" where
  "push_agent model msg calls time ms sts = sts @ [\<lparr>step_id = next_id sts, timestamp = time, step_source = ''agent'',
     step_model = model, message = msg, reasoning_content = None, tool_calls = calls, observation = None, metrics = ms,
     step_extra = None\<rparr>]"

fun on_first_step :: "(Step \<Rightarrow> bool) \<Rightarrow> (Step \<Rightarrow> Step) \<Rightarrow> Step list \<Rightarrow> Step list" where
  "on_first_step P f [] = []"
| "on_first_step P f (st # sts) = (if P st then f st # sts else st # on_first_step P f sts)"

definition add_results :: "ObservationResult list \<Rightarrow> Step \<Rightarrow> Step" where
  "add_results rs st = st\<lparr>observation := Some (case observation st of
       Some obs \<Rightarrow> obs\<lparr>results := results obs @ rs\<rparr> | None \<Rightarrow> \<lparr>results = rs\<rparr>)\<rparr>"

definition attach_observation :: "ObservationResult list \<Rightarrow> Step list \<Rightarrow> Step list" where
  "attach_observation rs sts = (if rs = [] then sts
     else rev (on_first_step (\<lambda>st. step_source st = ''agent'') (add_results rs) (rev sts)))"

section \<open>Provider extraction helpers\<close>

definition joined_texts :: "jvalue list \<Rightarrow> string" where
  "joined_texts blocks = intersperse_str nl (List.map_filter (get_str ''text'') blocks)"

definition anthropic_text :: "jvalue \<Rightarrow> string" where
  "anthropic_text v = (case as_str v of Some t \<Rightarrow> t
     | None \<Rightarrow> (case as_array v of None \<Rightarrow> [] | Some blocks \<Rightarrow> joined_texts blocks))"

definition typed_text :: "jvalue \<Rightarrow> string option" where
  "typed_text block = (if get_str ''type'' block = Some ''text'' then get_str ''text'' block else None)"

definition str_or_empty :: "string option \<Rightarrow> string" where
  "str_or_empty s = (case s of Some t \<Rightarrow> t | None \<Rightarrow> [])"

definition value_or_null :: "jvalue option \<Rightarrow> jvalue" where
  "value_or_null v = (case v of Some x \<Rightarrow> x | None \<Rightarrow> VNull)"

definition anthropic_call :: "jvalue \<Rightarrow> ToolCall option" where
  "anthropic_call block = (if get_str ''type'' block = Some ''tool_use'' then
     Some \<lparr>tool_call_id = str_or_empty (get_str ''id'' block), function_name = str_or_empty (get_str ''name'' block),
       arguments = value_or_null (vget ''input'' block)\<rparr> else None)"

definition some_calls :: "ToolCall list \<Rightarrow> ToolCall list option" where
  "some_calls calls = (if calls = [] then None else Some calls)"

definition anthropic_content :: "jvalue \<Rightarrow> string \<times> ToolCall list option" where
  "anthropic_content v = (case as_str v of Some t \<Rightarrow> (t, None)
     | None \<Rightarrow> (case as_array v of None \<Rightarrow> ([], None)
        | Some blocks \<Rightarrow> (intersperse_str nl (List.map_filter typed_text blocks), some_calls (List.map_filter anthropic_call blocks))))"

definition anthropic_result :: "jvalue \<Rightarrow> ObservationResult option" where
  "anthropic_result block = (if get_str ''type'' block = Some ''tool_result'' then
     Some \<lparr>source_call_id = get_str ''tool_use_id'' block, or_content = Some (anthropic_text (value_or_null (vget ''content'' block)))\<rparr>
     else None)"

definition anthropic_user_content :: "jvalue \<Rightarrow> string \<times> ObservationResult list" where
  "anthropic_user_content v = (case as_str v of Some t \<Rightarrow> (t, [])
     | None \<Rightarrow> (case as_array v of None \<Rightarrow> ([], [])
        | Some blocks \<Rightarrow> (intersperse_str nl (List.map_filter typed_text blocks), List.map_filter anthropic_result blocks)))"

definition anthropic_response :: "jvalue \<Rightarrow> string \<times> ToolCall list option" where
  "anthropic_response response = anthropic_content (value_or_null (vget ''content'' response))"

definition openai_text :: "jvalue option \<Rightarrow> string" where
  "openai_text v = (case v of None \<Rightarrow> [] | Some x \<Rightarrow> anthropic_text x)"

definition openai_arguments :: "json_parser \<Rightarrow> jvalue option \<Rightarrow> jvalue" where
  "openai_arguments from_str func = (case Option.bind func (vget ''arguments'') of None \<Rightarrow> VNull
     | Some a \<Rightarrow> (case Option.bind (as_str a) from_str of Some v \<Rightarrow> v | None \<Rightarrow> a))"

definition openai_call :: "json_parser \<Rightarrow> jvalue \<Rightarrow> ToolCall" where
  "openai_call from_str call = (let func = vget ''function'' call in
     \<lparr>tool_call_id = str_or_empty (get_str ''id'' call), function_name = str_or_empty (Option.bind func (get_str ''name'')),
      arguments = openai_arguments from_str func\<rparr>)"

definition openai_tool_calls :: "json_parser \<Rightarrow> jvalue option \<Rightarrow> ToolCall list option" where
  "openai_tool_calls from_str v = (case Option.bind v as_array of None \<Rightarrow> None
     | Some calls \<Rightarrow> some_calls (map (openai_call from_str) calls))"

definition openai_response :: "json_parser \<Rightarrow> jvalue \<Rightarrow> string \<times> ToolCall list option" where
  "openai_response from_str response = (case Option.bind (first_of ''choices'' response) (vget ''message'') of None \<Rightarrow> ([], None)
     | Some msg \<Rightarrow> (openai_text (vget ''content'' msg), openai_tool_calls from_str (vget ''tool_calls'' msg)))"

definition gemini_parts_text :: "jvalue option \<Rightarrow> string" where
  "gemini_parts_text parts = (case Option.bind parts as_array of None \<Rightarrow> [] | Some ps \<Rightarrow> joined_texts ps)"

definition gemini_call :: "jvalue \<Rightarrow> ToolCall" where
  "gemini_call call = (let fname = str_or_empty (get_str ''name'' call) in
     \<lparr>tool_call_id = (case non_empty (get_str ''id'' call) of Some i \<Rightarrow> i | None \<Rightarrow> fname), function_name = fname,
      arguments = value_or_null (vget ''args'' call)\<rparr>)"

definition gemini_tool_calls :: "jvalue option \<Rightarrow> ToolCall list option" where
  "gemini_tool_calls parts = (case Option.bind parts as_array of None \<Rightarrow> None
     | Some ps \<Rightarrow> some_calls (map gemini_call (List.map_filter (vget ''functionCall'') ps)))"

definition gemini_result :: "(jvalue \<Rightarrow> string) \<Rightarrow> jvalue \<Rightarrow> ObservationResult" where
  "gemini_result to_string resp = \<lparr>source_call_id = get_str ''name'' resp,
     or_content = Some (case vget ''response'' resp of Some v \<Rightarrow> to_string v | None \<Rightarrow> [])\<rparr>"

definition gemini_tool_results :: "(jvalue \<Rightarrow> string) \<Rightarrow> jvalue option \<Rightarrow> ObservationResult list" where
  "gemini_tool_results to_string parts = (case Option.bind parts as_array of None \<Rightarrow> []
     | Some ps \<Rightarrow> map (gemini_result to_string) (List.map_filter (vget ''functionResponse'') ps))"

definition gemini_response :: "jvalue \<Rightarrow> string \<times> ToolCall list option" where
  "gemini_response response =
     (let parts = Option.bind (Option.bind (first_of ''candidates'' response) (vget ''content'')) (vget ''parts'') in
      (gemini_parts_text parts, gemini_tool_calls parts))"

section \<open>The conversation of a request\<close>

definition anthropic_message :: "string option \<Rightarrow> Step list \<Rightarrow> jvalue \<Rightarrow> Step list" where
  "anthropic_message model sts msg =
     (let role = str_or_empty (get_str ''role'' msg); content = value_or_null (vget ''content'' msg) in
      if role = ''assistant'' then (let (text, calls) = anthropic_content content in push_agent model text calls None None sts)
      else if role = ''user'' \<or> role = ''tool'' then
        (let (text, observations) = anthropic_user_content content; sts = attach_observation observations sts in
         if text = [] then sts else push_user ''user'' text sts)
      else sts)"

definition extend_anthropic :: "LlmSpan \<Rightarrow> Step list \<Rightarrow> Step list" where
  "extend_anthropic span sts =
     (let req = sd_request span;
          sts = (case vget ''system'' req of None \<Rightarrow> sts
            | Some system \<Rightarrow> (let text = anthropic_text system in if text = [] then sts else push_user ''system'' text sts)) in
      case get_array ''messages'' req of None \<Rightarrow> sts | Some msgs \<Rightarrow> foldl (anthropic_message (sd_model span)) sts msgs)"

definition openai_message :: "json_parser \<Rightarrow> string option \<Rightarrow> Step list \<Rightarrow> jvalue \<Rightarrow> Step list" where
  "openai_message from_str model sts msg =
     (let role = str_or_empty (get_str ''role'' msg); text = openai_text (vget ''content'' msg) in
      if role = ''system'' \<or> role = ''developer'' then push_user ''system'' text sts
      else if role = ''user'' then push_user ''user'' text sts
      else if role = ''assistant'' then push_agent model text (openai_tool_calls from_str (vget ''tool_calls'' msg)) None None sts
      else if role = ''tool'' then attach_observation [\<lparr>source_call_id = get_str ''tool_call_id'' msg, or_content = Some text\<rparr>] sts
      else sts)"

definition extend_openai_chat :: "json_parser \<Rightarrow> LlmSpan \<Rightarrow> Step list \<Rightarrow> Step list" where
  "extend_openai_chat from_str span sts = (case get_array ''messages'' (sd_request span) of None \<Rightarrow> sts
     | Some msgs \<Rightarrow> foldl (openai_message from_str (sd_model span)) sts msgs)"

definition gemini_message :: "(jvalue \<Rightarrow> string) \<Rightarrow> string option \<Rightarrow> Step list \<Rightarrow> jvalue \<Rightarrow> Step list" where
  "gemini_message to_string model sts content =
     (let role = (case get_str ''role'' content of Some r \<Rightarrow> r | None \<Rightarrow> ''user''); parts = vget ''parts'' content in
      if role = ''model'' then push_agent model (gemini_parts_text parts) (gemini_tool_calls parts) None None sts
      else (let sts = attach_observation (gemini_tool_results to_string parts) sts; text = gemini_parts_text parts in
            if text = [] then sts else push_user ''user'' text sts))"

definition extend_gemini :: "(jvalue \<Rightarrow> string) \<Rightarrow> LlmSpan \<Rightarrow> Step list \<Rightarrow> Step list" where
  "extend_gemini to_string span sts =
     (let req = sd_request span;
          sts = (case or_else (vget ''system_instruction'' req) (vget ''systemInstruction'' req) of None \<Rightarrow> sts
            | Some system \<Rightarrow> (let text = gemini_parts_text (vget ''parts'' system) in if text = [] then sts else push_user ''system'' text sts)) in
      case get_array ''contents'' req of None \<Rightarrow> sts | Some contents \<Rightarrow> foldl (gemini_message to_string (sd_model span)) sts contents)"

definition extend_from_request :: "json_parser \<Rightarrow> (jvalue \<Rightarrow> string) \<Rightarrow> LlmSpan \<Rightarrow> Step list \<Rightarrow> Step list" where
  "extend_from_request from_str to_string span = (case sd_provider span of
       Anthropic \<Rightarrow> extend_anthropic span | OpenAI \<Rightarrow> extend_openai_chat from_str span | Gemini \<Rightarrow> extend_gemini to_string span)"

definition span_response :: "json_parser \<Rightarrow> LlmSpan \<Rightarrow> string \<times> ToolCall list option" where
  "span_response from_str span = (case sd_provider span of
       Anthropic \<Rightarrow> anthropic_response (sd_response span) | OpenAI \<Rightarrow> openai_response from_str (sd_response span)
     | Gemini \<Rightarrow> gemini_response (sd_response span))"

definition push_response :: "json_parser \<Rightarrow> LlmSpan \<Rightarrow> Step list \<Rightarrow> Step list" where
  "push_response from_str span sts =
     (let time = (if sp_started_at_text span = [] then None else Some (sp_started_at_text span));
          ms = metrics_from_usage (sd_usage span); (msg, calls) = span_response from_str span in
      if msg = [] \<and> calls = None \<and> ms = None then sts
      else (let sts = push_agent (sd_model span) msg calls time ms sts in
            case response_id (sd_response span) of None \<Rightarrow> sts
            | Some i \<Rightarrow> butlast sts @ [set_response_id i (last sts)]))"

definition build_trajectory ::
  "json_parser \<Rightarrow> (jvalue \<Rightarrow> string) \<Rightarrow> AgentInfo \<Rightarrow> string \<Rightarrow> LlmSpan list \<Rightarrow> Trajectory option" where
  "build_trajectory from_str to_string info sid spans = (if spans = [] then None
     else (let span = last spans; sts = push_response from_str span (extend_from_request from_str to_string span []) in
       if sts = [] then None
       else Some \<lparr>schema_version = SCHEMA_VERSION, session_id = (if sid = [] then None else Some sid),
         agent = \<lparr>agent_name = ai_name info, version = ''unknown'', model_name = sd_model span\<rparr>, steps = sts,
         final_metrics = Some (aggregate_metrics spans (length sts))\<rparr>))"

section \<open>Well-formed steps\<close>

text \<open>What the validator of the format asks of a step: only agent steps carry the agent's fields.\<close>

definition step_ok :: "Step \<Rightarrow> bool" where
  "step_ok st \<longleftrightarrow> step_source st \<in> {''user'', ''system'', ''agent''} \<and>
     (step_source st \<noteq> ''agent'' \<longrightarrow> step_model st = None \<and> reasoning_content st = None \<and> tool_calls st = None
        \<and> observation st = None \<and> metrics st = None)"

definition steps_ok :: "Step list \<Rightarrow> bool" where
  "steps_ok sts \<longleftrightarrow> map step_id sts = map (\<lambda>i. u32_or_max i + 1) [0..<length sts] \<and> (\<forall>st\<in>set sts. step_ok st)"

lemma steps_ok_nil [simp]: "steps_ok []"
  by (simp add: steps_ok_def)

lemma steps_ok_append: "steps_ok sts \<Longrightarrow> step_id st = next_id sts \<Longrightarrow> step_ok st \<Longrightarrow> steps_ok (sts @ [st])"
  by (simp add: steps_ok_def next_id_def)

text \<open>A change of steps in place that keeps their numbers and their form.\<close>

lemma steps_ok_changed:
  assumes "steps_ok sts" "map step_id sts' = map step_id sts" "\<And>st. st \<in> set sts' \<Longrightarrow> step_ok st"
  shows "steps_ok sts'"
proof -
  have "length sts' = length sts" using assms(2) by (metis length_map)
  then show ?thesis using assms unfolding steps_ok_def by simp
qed

lemma steps_ok_push:
  "steps_ok sts \<Longrightarrow> source \<in> {''user'', ''system''} \<Longrightarrow> steps_ok (push_user source msg sts)"
  "steps_ok sts \<Longrightarrow> steps_ok (push_agent model msg calls time ms sts)"
  unfolding push_user_def push_agent_def by (rule steps_ok_append; simp add: step_ok_def; blast)+

lemma on_first_step_ok:
  assumes "\<And>st. P st \<Longrightarrow> step_ok st \<Longrightarrow> step_ok (f st)" "\<And>st. step_id (f st) = step_id st"
  shows "map step_id (on_first_step P f sts) = map step_id sts"
    and "\<forall>st\<in>set sts. step_ok st \<Longrightarrow> st \<in> set (on_first_step P f sts) \<Longrightarrow> step_ok st"
  using assms by (induction sts) (auto split: if_splits)

lemma steps_ok_attach: "steps_ok sts \<Longrightarrow> steps_ok (attach_observation rs sts)"
proof -
  assume ok: "steps_ok sts"
  have add: "\<And>st. step_source st = ''agent'' \<Longrightarrow> step_ok st \<Longrightarrow> step_ok (add_results rs st)" "\<And>st. step_id (add_results rs st) = step_id st"
    by (simp_all add: step_ok_def add_results_def)
  let ?new = "on_first_step (\<lambda>st. step_source st = ''agent'') (add_results rs) (rev sts)"
  have ids: "map step_id ?new = map step_id (rev sts)" by (rule on_first_step_ok(1)) (auto intro: add)
  have "step_ok st" if "st \<in> set ?new" for st
    by (rule on_first_step_ok(2) [OF _ _ _ that]) (use add ok in \<open>auto simp: steps_ok_def\<close>)
  then have "steps_ok (rev ?new)" using ids steps_ok_changed [OF ok, of "rev ?new"] by (simp add: rev_map [symmetric])
  then show ?thesis by (simp add: attach_observation_def ok)
qed

lemma steps_ok_foldl: "(\<And>sts m. steps_ok sts \<Longrightarrow> steps_ok (f sts m)) \<Longrightarrow> steps_ok sts \<Longrightarrow> steps_ok (foldl f sts ms)"
  by (induction ms arbitrary: sts) auto

lemmas steps_ok_intros = steps_ok_push steps_ok_attach steps_ok_foldl

lemma steps_ok_messages:
  "steps_ok sts \<Longrightarrow> steps_ok (anthropic_message model sts m)" "steps_ok sts \<Longrightarrow> steps_ok (openai_message p model sts m)"
  "steps_ok sts \<Longrightarrow> steps_ok (gemini_message q model sts m)"
  unfolding anthropic_message_def openai_message_def gemini_message_def Let_def
  by (auto intro!: steps_ok_intros split: prod.split)

lemma steps_ok_request: "steps_ok (extend_from_request p q span [])"
  unfolding extend_from_request_def extend_anthropic_def extend_openai_chat_def extend_gemini_def Let_def
  by (auto intro!: steps_ok_intros steps_ok_messages split: Provider.split option.split)

lemma steps_ok_response: "steps_ok sts \<Longrightarrow> steps_ok (push_response p span sts)"
proof -
  assume ok: "steps_ok sts"
  let ?push = "\<lambda>msg calls time ms. push_agent (sd_model span) msg calls time ms sts"
  have tagged: "steps_ok (butlast (?push msg calls time ms) @ [set_response_id i (last (?push msg calls time ms))])" for msg calls time ms i
    unfolding push_agent_def by simp (rule steps_ok_append [OF ok]; simp add: set_response_id_def set_extra_key_def step_ok_def)
  show ?thesis
    unfolding push_response_def Let_def using ok tagged steps_ok_push(2) [OF ok] by (simp split: prod.split option.split)
qed

lemma build_trajectory_steps:
  "build_trajectory p q info sid spans = Some t \<Longrightarrow> steps t \<noteq> [] \<and> steps_ok (steps t)"
  using steps_ok_response [OF steps_ok_request] by (auto simp: build_trajectory_def Let_def split: if_splits)

lemma u32_succ: "i < 2 ^ 32 - 1 \<Longrightarrow> unat (u32_or_max i + 1) = Suc i"
  by (simp add: u32_or_max_def unat_word_ariths take_bit_nat_eq_self unat_of_nat)

lemma steps_ok_numbered:
  assumes "steps_ok sts" "length sts < 2 ^ 32"
  shows "map (\<lambda>st. unat (step_id st)) sts = [1..<Suc (length sts)]"
proof -
  have "map (\<lambda>st. unat (step_id st)) sts = map unat (map step_id sts)" by simp
  also have "\<dots> = map (\<lambda>i. unat (u32_or_max i + 1)) [0..<length sts]"
    using assms(1) unfolding steps_ok_def by (simp only: map_map comp_def)
  also have "\<dots> = map Suc [0..<length sts]" using assms(2) by (intro map_cong refl) (simp add: u32_succ)
  finally show ?thesis by (simp add: map_Suc_upt)
qed

text \<open>
  A trajectory built from spans is a valid document: it has steps, their numbers count from 1, and only
  steps of the agent carry a model name, reasoning, tool calls, observations or metrics.
\<close>

theorem trajectory_well_formed:
  assumes "build_trajectory p q info sid spans = Some t" "length (steps t) < 2 ^ 32"
  shows "steps t \<noteq> [] \<and> map (\<lambda>st. unat (step_id st)) (steps t) = [1..<Suc (length (steps t))] \<and> (\<forall>st\<in>set (steps t). step_ok st)"
  using build_trajectory_steps [OF assms(1)] steps_ok_numbered [OF _ assms(2)] by (simp add: steps_ok_def)

definition sample_span :: LlmSpan where
  "sample_span = make_span (\<lambda>_. None) ''s1'' 1 ((SpanDraft_new 0 Anthropic ''/v1/messages'')
     \<lparr>sd_request := vobj [(''system'', VStr ''be brief''), (''messages'', VArr [vobj [(''role'', VStr ''user''), (''content'', VStr ''hi'')]])],
      sd_response := vobj [(''id'', VStr ''r1''), (''content'', VStr ''hello'')]\<rparr>)"

lemma sample_steps:
  "push_response (\<lambda>_. None) sample_span (extend_from_request (\<lambda>_. None) (\<lambda>_. []) sample_span []) =
     (push_agent None ''hello'' None None None (push_user ''user'' ''hi'' (push_user ''system'' ''be brief'' [])))
       [2 := set_response_id ''r1'' (push_agent None ''hello'' None None None (push_user ''user'' ''hi'' (push_user ''system'' ''be brief'' [])) ! 2)]"
  by (simp add: extend_from_request_def extend_anthropic_def anthropic_message_def anthropic_user_content_def anthropic_text_def
      sample_span_def make_span_def SpanDraft.defs SpanDraft_new_def vobj_def get_str_def get_array_def attach_observation_def
      str_or_empty_def value_or_null_def push_response_def metrics_from_usage_def metrics_is_empty_def Usage_default_def span_response_def
      anthropic_response_def anthropic_content_def response_id_def non_empty_def push_user_def push_agent_def Let_def)

definition sample_trajectory :: Trajectory where
  "sample_trajectory = the (build_trajectory (\<lambda>_. None) (\<lambda>_. []) \<lparr>ai_name = ''claude-code'', supports_atif = True\<rparr> ''x'' [sample_span])"

lemma sample_trajectory_built:
  "build_trajectory (\<lambda>_. None) (\<lambda>_. []) \<lparr>ai_name = ''claude-code'', supports_atif = True\<rparr> ''x'' [sample_span] = Some sample_trajectory"
  "length (steps sample_trajectory) = 3"
  by (simp_all add: sample_trajectory_def build_trajectory_def sample_steps push_user_def push_agent_def Let_def)

theorem trajectory_well_formed_witness:
  "build_trajectory (\<lambda>_. None) (\<lambda>_. []) \<lparr>ai_name = ''claude-code'', supports_atif = True\<rparr> ''x'' [sample_span] = Some sample_trajectory \<and>
   map (\<lambda>st. unat (step_id st)) (steps sample_trajectory) = [1, 2, 3]"
  using trajectory_well_formed [OF sample_trajectory_built(1)] sample_trajectory_built by (simp add: upt_rec)

section \<open>Totals\<close>

lemma unat_saturating_add: "unat (saturating_add a b) = min (2 ^ LENGTH('a) - 1) (unat a + unat b)" for a b :: "'a::len word"
proof (cases "unat a + unat b < 2 ^ LENGTH('a)")
  case True
  then show ?thesis by (simp add: saturating_add_def unat_word_ariths)
next
  case False
  then show ?thesis by (simp add: saturating_add_def unsigned_minus_1_eq_mask mask_eq_exp_minus_1)
qed

definition saturated :: "nat \<Rightarrow> 64 word" where
  "saturated n = (if n < 2 ^ 64 then of_nat n else - 1)"

lemma unat_saturated: "unat (saturated n) = min (2 ^ 64 - 1) n"
  by (simp add: saturated_def unat_of_nat take_bit_nat_eq_self unsigned_minus_1_eq_mask mask_eq_exp_minus_1)

lemma saturating_add_saturated: "saturating_add (saturated n) m = saturated (n + unat m)"
  by (simp add: word_unat_eq_iff unat_saturating_add unat_saturated)

text \<open>The total of the counts that are present, or none if none is.\<close>

definition total :: "64 word option list \<Rightarrow> 64 word option" where
  "total vs = (if \<forall>v\<in>set vs. v = None then None else Some (saturated (sum_list (map unat (List.map_filter (\<lambda>v. v) vs)))))"

lemma add_counts:
  "foldl add_count (saturated n, has) vs =
     (saturated (n + sum_list (map unat (List.map_filter (\<lambda>v. v) vs))), has \<or> (\<exists>v\<in>set vs. v \<noteq> None))"
  by (induction vs arbitrary: n has) (auto simp: add_count_def saturating_add_saturated add.assoc split: option.split)

lemma then_some_total: "then_some (foldl add_count (0, False) vs) = total vs"
proof -
  have "(0 :: 64 word) = saturated 0" by (simp add: saturated_def)
  then show ?thesis using add_counts [of 0 False vs] by (simp add: then_some_def total_def del: add_count_def)
qed

lemma foldl_three:
  "foldl (\<lambda>(a, b, c) (p, q, r). (f a p, f b q, f c r)) (x, y, z) items =
     (foldl f x (map fst items), foldl f y (map (fst \<circ> snd) items), foldl f z (map (snd \<circ> snd) items))"
  by (induction items arbitrary: x y z) auto


section \<open>Links\<close>

lemma set_extra_key_get: "step_response_id st = Some rid \<Longrightarrow> k \<noteq> ''response_id'' \<Longrightarrow>
    Option.bind (step_extra (set_extra_key k (VStr v) st)) (get_str k) = Some v \<and> step_response_id (set_extra_key k (VStr v) st) = Some rid"
  by (cases "step_extra st"; cases "the (step_extra st)") (auto simp: step_response_id_def set_extra_key_def get_str_def bt_get_insert)

lemma by_response_lookup:
  "map_of (by_response spans) rid = Some i \<Longrightarrow> \<exists>sp\<in>set spans. response_id (sd_response sp) = Some rid \<and> sp_id sp = i"
  by (drule map_of_SomeD) (auto simp: by_response_def List.map_filter_def)

lemma by_response_None: "map_of (by_response spans) rid = None \<longleftrightarrow> (\<forall>sp\<in>set spans. response_id (sd_response sp) \<noteq> Some rid)"
  by (auto simp: map_of_eq_None_iff by_response_def List.map_filter_def image_iff)

text \<open>
  Linking stamps a step with the identifier of a span exactly when the step carries the response id of
  a recorded response, and the span it names is one with that response id; no other step changes.
\<close>

theorem link_raw_requests_sound:
  assumes "i < length (steps t)"
  shows "length (steps (link_raw_requests t spans)) = length (steps t) \<and>
    (case step_response_id (steps t ! i) of
       None \<Rightarrow> steps (link_raw_requests t spans) ! i = steps t ! i
     | Some rid \<Rightarrow>
         if \<exists>sp\<in>set spans. response_id (sd_response sp) = Some rid
         then \<exists>sp\<in>set spans. response_id (sd_response sp) = Some rid \<and>
           Option.bind (step_extra (steps (link_raw_requests t spans) ! i)) (get_str ''raw_request_id'') = Some (sp_id sp)
         else steps (link_raw_requests t spans) ! i = steps t ! i)"
proof (cases "step_response_id (steps t ! i)")
  case None
  then show ?thesis using assms by (simp add: link_raw_requests_def link_step_def)
next
  case (Some rid)
  show ?thesis
  proof (cases "map_of (by_response spans) rid")
    case None
    moreover have "\<forall>sp\<in>set spans. response_id (sd_response sp) \<noteq> Some rid" using None by_response_None by blast
    ultimately show ?thesis using assms Some by (simp add: link_raw_requests_def link_step_def)
  next
    case found: (Some span_id)
    then have "by_response spans \<noteq> []" by auto
    moreover have "\<exists>sp\<in>set spans. response_id (sd_response sp) = Some rid \<and> sp_id sp = span_id" using by_response_lookup [OF found] .
    ultimately show ?thesis
      using assms Some found set_extra_key_get [OF Some, of "''raw_request_id''" span_id] by (auto simp: link_raw_requests_def link_step_def)
  qed
qed

theorem link_raw_requests_sound_witness:
  "2 < length (steps sample_trajectory) \<and> step_response_id (steps sample_trajectory ! 2) = Some ''r1'' \<and>
   Option.bind (step_extra (steps (link_raw_requests sample_trajectory [sample_span]) ! 2)) (get_str ''raw_request_id'') = Some ''s1''"
proof -
  have len: "2 < length (steps sample_trajectory)" by (simp add: sample_trajectory_built)
  have rid: "step_response_id (steps sample_trajectory ! 2) = Some ''r1''"
    by (simp add: sample_trajectory_def build_trajectory_def sample_steps push_user_def push_agent_def Let_def step_response_id_def set_response_id_def
        set_extra_key_def get_str_def)
  have span: "response_id (sd_response sample_span) = Some ''r1''" "sp_id sample_span = ''s1''"
    by (simp_all add: sample_span_def make_span_def SpanDraft.defs response_id_def get_str_def vobj_def non_empty_def)
  show ?thesis using link_raw_requests_sound [OF len, of "[sample_span]"] len rid span by simp
qed

section \<open>Streamed answers\<close>

text \<open>A chunk of a streamed chat completion with text, and the response a stream of them is folded into.\<close>

definition chat_event :: "string \<Rightarrow> ParsedEvent" where
  "chat_event t = \<lparr>pe_event = None, pe_data = vobj [(''choices'', VArr [vobj [(''delta'', vobj [(''content'', VStr t)])]])]\<rparr>"

definition chat_object :: "string \<Rightarrow> jvalue" where
  "chat_object acc = vobj [(''id'', VStr []), (''object'', VStr ''chat.completion''), (''model'', VStr []),
     (''content'', VArr (if acc = [] then [] else [block_value (Some acc)]))]"

lemma chat_object_fields:
  "as_object (chat_object acc) = Some [(''content'', VArr (if acc = [] then [] else [block_value (Some acc)])), (''id'', VStr []),
     (''model'', VStr []), (''object'', VStr ''chat.completion'')]"
  by (simp add: chat_object_def vobj_def)

lemma chat_event_chunk:
  "chat_completion_chunk (pe_data (chat_event t)) \<lparr>snapshot = Some (chat_object acc), ra_usage = u\<rparr> =
     Some \<lparr>snapshot = Some (chat_object (acc @ t)), ra_usage = u\<rparr>"
  by (simp add: chat_completion_chunk_def chat_event_def first_of_def get_array_def get_str_def vobj_def chat_snapshot_def non_empty_def
      text_block_def content_mut_def array_entry_def array_at_def snapshot_object_def has_block_def block_type_def empty_text_def
      append_str_def chat_object_def Let_def split: list.split)

lemma chat_event_first:
  "chat_completion_chunk (pe_data (chat_event t)) Reassembler_new =
     chat_completion_chunk (pe_data (chat_event t)) \<lparr>snapshot = Some (chat_object []), ra_usage = Usage_default\<rparr>"
  by (simp add: chat_completion_chunk_def chat_event_def chat_snapshot_def Reassembler_new_def chat_object_def vobj_def Let_def)

lemma feed_chat_event: "feed p s (chat_event t) =
    map_option (merge_event_usage (pe_data (chat_event t))) (chat_completion_chunk (pe_data (chat_event t)) s)"
  by (simp add: feed_def dispatch_def or_else_def chat_event_def get_str_def vobj_def Let_def map_conv_bind_option comp_def)

lemma chat_event_no_usage: "merge_event_usage (pe_data (chat_event t)) s = s"
  by (simp add: merge_event_usage_def merge_usage_at_def chat_event_def vobj_def)

lemma feed_all_chat:
  "feed_all p \<lparr>snapshot = Some (chat_object acc), ra_usage = u\<rparr> (map chat_event ts) = Some \<lparr>snapshot = Some (chat_object (acc @ concat ts)), ra_usage = u\<rparr>"
  by (induction ts arbitrary: acc) (simp_all add: feed_chat_event chat_event_chunk chat_event_no_usage)

lemma chat_object_responses:
  "fst (reassembler_finish p \<lparr>snapshot = Some (chat_object acc), ra_usage = u\<rparr>) = Some (chat_object acc)"
  "anthropic_response (chat_object acc) = (acc, None)" "openai_response q (chat_object acc) = ([], None)"
  by (simp_all add: reassembler_finish_def refresh_responses_content_mirror_def finalize_content_def chat_object_def vobj_def Let_def
      finalize_partial_json_def get_str_def anthropic_response_def anthropic_content_def value_or_null_def typed_text_def some_calls_def
      anthropic_call_def openai_response_def first_of_def get_array_def)

text \<open>
  C38. The text of a streamed chat completion is recorded in full, but in the shape of the other provider: the
  trajectory, which looks for \<open>choices\<close>, gives the span the empty message and no tool calls.
\<close>

theorem streamed_chat_answer_lost:
  "\<exists>s v. feed_all p Reassembler_new (map chat_event (t # ts)) = Some s \<and> fst (reassembler_finish p s) = Some v \<and>
     anthropic_response v = (concat (t # ts), None) \<and>
     (\<forall>span. span_response q (span\<lparr>sd_provider := OpenAI, sd_response := v\<rparr>) = ([], None))"
proof (intro exI conjI allI)
  let ?s = "\<lparr>snapshot = Some (chat_object (t @ concat ts)), ra_usage = Usage_default\<rparr>"
  show "feed_all p Reassembler_new (map chat_event (t # ts)) = Some ?s"
    by (simp add: feed_chat_event chat_event_first chat_event_chunk chat_event_no_usage feed_all_chat)
  show "fst (reassembler_finish p ?s) = Some (chat_object (t @ concat ts))" by (rule chat_object_responses)
  show "anthropic_response (chat_object (t @ concat ts)) = (concat (t # ts), None)" by (simp add: chat_object_responses)
  show "span_response q (span\<lparr>sd_provider := OpenAI, sd_response := chat_object (t @ concat ts)\<rparr>) = ([], None)" for span
    by (simp add: span_response_def chat_object_responses)
qed

end
