(* ===== verification/Agent_Log.thy ===== *)
theory Agent_Log
  imports Atif "HOL-Library.Option_ord"
begin

text \<open>
  Trajectories from an agent's own session log (\<open>omniagent-cli/src/agent_log.rs\<close>): finding the log, and
  reading the logs of Claude Code and Codex. \<open>None\<close> around a result is a panic (an index out of range). The
  JSON parser and printer, the environment and the directories are arguments.
\<close>

section \<open>Finding the log\<close>

text \<open>
  What a listing shows of an entry (links are not followed): a file with its modification time, a directory
  with its listing (\<open>None\<close> if it cannot be read), or an entry without metadata.
\<close>

datatype log_entry = LogFile path "int option" | LogDir path "log_entry list option" | NoMeta path

definition MTIME_SKEW :: int where
  "MTIME_SKEW = 5000000000"

fun weight :: "log_entry \<Rightarrow> nat" where
  "weight (LogDir p (Some es)) = Suc (sum_list (map weight es))"
| "weight _ = 1"

type_synonym best_log = "(int \<times> path) option"

definition better :: "int \<Rightarrow> int \<Rightarrow> path \<Rightarrow> best_log \<Rightarrow> best_log" where
  "better cutoff modified p best = (if modified < cutoff then best
     else case best of None \<Rightarrow> Some (modified, p) | Some (t, q) \<Rightarrow> if t < modified then Some (modified, p) else best)"

text \<open>One entry: the directories still to visit, the last one on top, and the best file so far.\<close>

definition scan_entry :: "bool \<Rightarrow> (path \<Rightarrow> bool) \<Rightarrow> int \<Rightarrow> log_entry list \<times> best_log \<Rightarrow> log_entry \<Rightarrow> log_entry list \<times> best_log" where
  "scan_entry recurse pred cutoff = (\<lambda>(stack, best) e. case e of
       NoMeta p \<Rightarrow> (stack, best)
     | LogDir p es \<Rightarrow> (if recurse then (e # stack, best) else (stack, best))
     | LogFile p modified \<Rightarrow> if \<not> pred p then (stack, best)
         else (case modified of None \<Rightarrow> (stack, best) | Some m \<Rightarrow> (stack, better cutoff m p best)))"

lemma scan_weight: "sum_list (map weight (fst (foldl (scan_entry recurse pred cutoff) (stack, best) es))) \<le>
    sum_list (map weight stack) + sum_list (map weight es)"
proof (induction es arbitrary: stack best)
  case (Cons e es)
  obtain stack' best' where step: "scan_entry recurse pred cutoff (stack, best) e = (stack', best')" by fastforce
  then have "sum_list (map weight stack') \<le> sum_list (map weight stack) + weight e"
    by (auto simp: scan_entry_def split: log_entry.splits if_splits option.splits)
  then show ?case using Cons.IH [of stack' best'] step by simp
qed simp

text \<open>\<open>read_dir\<close>: a directory that cannot be read is skipped.\<close>

fun listing :: "log_entry \<Rightarrow> log_entry list" where
  "listing (LogDir p (Some es)) = es"
| "listing _ = []"

lemma listing_weight: "sum_list (map weight (listing d)) < weight d"
  by (cases d rule: listing.cases) simp_all

function newest_loop :: "bool \<Rightarrow> (path \<Rightarrow> bool) \<Rightarrow> int \<Rightarrow> log_entry list \<Rightarrow> best_log \<Rightarrow> best_log" where
  "newest_loop recurse pred cutoff [] best = best"
| "newest_loop recurse pred cutoff (d # stack) best =
     (case foldl (scan_entry recurse pred cutoff) (stack, best) (listing d) of
        (stack', best') \<Rightarrow> newest_loop recurse pred cutoff stack' best')"
  by pat_completeness auto

termination
proof (relation "measure (\<lambda>(r, p, c, stack, best). sum_list (map weight stack))", goal_cases)
  case (2 recurse pred cutoff d stack best stack' best')
  then show ?case using scan_weight [of recurse pred cutoff stack best "listing d"] listing_weight [of d] by (simp add: case_prod_unfold)
qed simp

text \<open>\<open>since.checked_sub(MTIME_SKEW).unwrap_or(since)\<close>, with the subtraction of the platform.\<close>

definition newest_file :: "(int \<Rightarrow> int \<Rightarrow> int option) \<Rightarrow> log_entry \<Rightarrow> int \<Rightarrow> bool \<Rightarrow> (path \<Rightarrow> bool) \<Rightarrow> path option" where
  "newest_file checked_sub root since recurse pred =
     (let cutoff = (case checked_sub since MTIME_SKEW of Some c \<Rightarrow> c | None \<Rightarrow> since) in
      map_option snd (newest_loop recurse pred cutoff [root] None))"

definition encode_project_dir :: "string \<Rightarrow> string" where
  "encode_project_dir cwd = map (\<lambda>c. if c = CHR ''/'' \<or> c = CHR ''.'' then CHR ''-'' else c) cwd"

definition home_base :: "(string \<rightharpoonup> path) \<Rightarrow> string \<Rightarrow> string \<Rightarrow> path option" where
  "home_base var_os key sub = (case var_os key of Some dir \<Rightarrow> Some dir
     | None \<Rightarrow> map_option (\<lambda>home. join home sub) (var_os ''HOME''))"

definition claude_base :: "(string \<rightharpoonup> path) \<Rightarrow> path option" where
  "claude_base var_os = home_base var_os ''CLAUDE_CONFIG_DIR'' ''.claude''"

definition codex_base :: "(string \<rightharpoonup> path) \<Rightarrow> path option" where
  "codex_base var_os = home_base var_os ''CODEX_HOME'' ''.codex''"

text \<open>\<open>Path::extension\<close>: what follows the last dot of the file name, unless the name starts there.\<close>

definition extension_is :: "string \<Rightarrow> path \<Rightarrow> bool" where
  "extension_is ext p = (case file_name p of None \<Rightarrow> False
     | Some n \<Rightarrow> n \<noteq> ''..'' \<and> (case rsplit_once (CHR ''.'') n of Some (stem, e) \<Rightarrow> stem \<noteq> [] \<and> e = ext | None \<Rightarrow> False))"

record log_env =
  le_var_os :: "string \<rightharpoonup> path"
  le_is_file :: "path \<Rightarrow> bool"
  le_listing :: "path \<Rightarrow> log_entry list option"
  le_checked_sub :: "int \<Rightarrow> int \<Rightarrow> int option"

definition locate_claude_log :: "log_env \<Rightarrow> string \<Rightarrow> string option \<Rightarrow> int \<Rightarrow> path option" where
  "locate_claude_log env cwd native since = (case claude_base (le_var_os env) of None \<Rightarrow> None
     | Some base \<Rightarrow>
        (let dir = join (join base ''projects'') (encode_project_dir cwd);
             newest = newest_file (le_checked_sub env) (LogDir dir (le_listing env dir)) since False (extension_is ''jsonl'') in
         case native of None \<Rightarrow> newest
         | Some i \<Rightarrow> (let p = join dir (i @ ''.jsonl'') in if le_is_file env p then Some p else newest)))"

definition locate_codex_log :: "log_env \<Rightarrow> int \<Rightarrow> path option" where
  "locate_codex_log env since = (case codex_base (le_var_os env) of None \<Rightarrow> None
     | Some base \<Rightarrow> (let sessions = join base ''sessions'' in
         newest_file (le_checked_sub env) (LogDir sessions (le_listing env sessions)) since True
           (\<lambda>p. extension_is ''jsonl'' p \<and> (case file_name p of Some n \<Rightarrow> prefix ''rollout-'' n | None \<Rightarrow> False))))"

definition locate_native_log :: "log_env \<Rightarrow> AgentInfo \<Rightarrow> string \<Rightarrow> string option \<Rightarrow> int \<Rightarrow> path option" where
  "locate_native_log env info cwd native since =
     (if ai_name info = ''claude-code'' then locate_claude_log env cwd native since
      else if ai_name info = ''codex'' then locate_codex_log env since else None)"

section \<open>The builder\<close>

definition read_jsonl :: "json_parser \<Rightarrow> string option \<Rightarrow> jvalue list option" where
  "read_jsonl from_str text = map_option (\<lambda>t. List.map_filter from_str (filter (\<lambda>l. str_trim l \<noteq> []) (str_lines t))) text"

definition unquote :: "string \<Rightarrow> string" where
  "unquote s = (case strip_prefix [CHR 0x22] s of None \<Rightarrow> s
     | Some inner \<Rightarrow> (case strip_suffix [CHR 0x22] inner of None \<Rightarrow> s | Some x \<Rightarrow> x))"

record Builder =
  b_steps :: "Step list"
  call_to_step :: "string \<rightharpoonup> nat"

definition Builder_default :: Builder where
  "Builder_default = \<lparr>b_steps = [], call_to_step = Map.empty\<rparr>"

definition push_plain :: "string \<Rightarrow> string \<Rightarrow> Builder \<Rightarrow> Builder" where
  "push_plain source msg b = b\<lparr>b_steps := b_steps b @ [\<lparr>step_id = next_id (b_steps b), timestamp = None, step_source = source,
     step_model = None, message = msg, reasoning_content = None, tool_calls = None, observation = None, metrics = None,
     step_extra = None\<rparr>]\<rparr>"

definition index_calls :: "ToolCall list \<Rightarrow> nat \<Rightarrow> (string \<rightharpoonup> nat) \<Rightarrow> (string \<rightharpoonup> nat)" where
  "index_calls calls i m = foldl (\<lambda>m call. m(tool_call_id call \<mapsto> i)) m calls"

definition log_push_agent :: "string option \<Rightarrow> string \<Rightarrow> string option \<Rightarrow> ToolCall list option \<Rightarrow> string option \<Rightarrow>
    Metrics option \<Rightarrow> Builder \<Rightarrow> nat \<times> Builder" where
  "log_push_agent model msg reasoning calls time ms b =
     (let i = length (b_steps b) in
      (i, \<lparr>b_steps = b_steps b @ [\<lparr>step_id = next_id (b_steps b), timestamp = time, step_source = ''agent'', step_model = model,
             message = msg, reasoning_content = reasoning, tool_calls = calls, observation = None, metrics = ms, step_extra = None\<rparr>],
           call_to_step = index_calls (case calls of Some cs \<Rightarrow> cs | None \<Rightarrow> []) i (call_to_step b)\<rparr>))"

text \<open>\<open>self.steps[index]\<close>: a panic if there is no such step.\<close>

definition on_step :: "nat \<Rightarrow> (Step \<Rightarrow> Step) \<Rightarrow> Builder \<Rightarrow> Builder option" where
  "on_step i f b = map_option (\<lambda>st. b\<lparr>b_steps := (b_steps b)[i := f st]\<rparr>) (at_index i (b_steps b))"

definition tag_response_id :: "nat \<Rightarrow> string option \<Rightarrow> Builder \<Rightarrow> Builder option" where
  "tag_response_id i rid b = (case non_empty rid of None \<Rightarrow> Some b
     | Some r \<Rightarrow> on_step i (\<lambda>st. st\<lparr>step_extra := Some (vobj [(''response_id'', VStr r)])\<rparr>) b)"

definition attach_result :: "string \<Rightarrow> ObservationResult \<Rightarrow> Builder \<Rightarrow> Builder option" where
  "attach_result call_id r b = (case call_to_step b call_id of None \<Rightarrow> Some b | Some i \<Rightarrow> on_step i (add_results [r]) b)"

definition sum_metrics :: "Step list \<Rightarrow> FinalMetrics" where
  "sum_metrics sts = sum_token_metrics
     (map (\<lambda>m. (prompt_tokens m, completion_tokens m, cached_tokens m)) (List.map_filter metrics sts)) (length sts)"

definition log_finalize :: "Builder \<Rightarrow> string \<Rightarrow> string option \<Rightarrow> string option \<Rightarrow> Trajectory option" where
  "log_finalize b name sid model = (if b_steps b = [] then None
     else Some \<lparr>schema_version = SCHEMA_VERSION, session_id = sid,
       agent = \<lparr>agent_name = name, version = ''unknown'', model_name = model\<rparr>, steps = b_steps b,
       final_metrics = Some (sum_metrics (b_steps b))\<rparr>)"

fun try_fold :: "('s \<Rightarrow> 'a \<Rightarrow> 's option) \<Rightarrow> 's \<Rightarrow> 'a list \<Rightarrow> 's option" where
  "try_fold f s [] = Some s"
| "try_fold f s (x # xs) = Option.bind (f s x) (\<lambda>s'. try_fold f s' xs)"

section \<open>Claude Code\<close>

definition claude_value_text :: "jvalue \<Rightarrow> string" where
  "claude_value_text v = (case as_str v of Some t \<Rightarrow> t
     | None \<Rightarrow> (case as_array v of None \<Rightarrow> [] | Some blocks \<Rightarrow> joined_texts blocks))"

definition claude_text :: "jvalue option \<Rightarrow> string" where
  "claude_text v = (case v of Some x \<Rightarrow> claude_value_text x | None \<Rightarrow> [])"

text \<open>The sum of the prompt tokens is unchecked: it wraps in a release build.\<close>

definition claude_metrics :: "jvalue \<Rightarrow> Metrics option" where
  "claude_metrics usage =
     (let input = get_u64 ''input_tokens'' usage; output = get_u64 ''output_tokens'' usage;
          cache_read = get_u64 ''cache_read_input_tokens'' usage; cache_creation = get_u64 ''cache_creation_input_tokens'' usage;
          or0 = (\<lambda>v. case v of Some n \<Rightarrow> n | None \<Rightarrow> 0) in
      if input = None \<and> output = None \<and> cache_read = None \<and> cache_creation = None then None
      else Some \<lparr>prompt_tokens = Some (or0 input + or0 cache_read + or0 cache_creation), completion_tokens = output,
        cached_tokens = cache_read\<rparr>)"

definition typed_field :: "string \<Rightarrow> jvalue \<Rightarrow> string option" where
  "typed_field ty block = (if get_str ''type'' block = Some ty then get_str ty block else None)"

definition claude_assistant_content :: "jvalue option \<Rightarrow> string \<times> string option \<times> ToolCall list" where
  "claude_assistant_content content = (case Option.bind content as_array of
       None \<Rightarrow> (claude_text content, None, [])
     | Some blocks \<Rightarrow>
        (let reasoning = List.map_filter (typed_field ''thinking'') blocks in
         (intersperse_str nl (List.map_filter (typed_field ''text'') blocks),
          (if reasoning = [] then None else Some (intersperse_str nl reasoning)),
          List.map_filter anthropic_call blocks)))"

definition merge_step :: "string \<Rightarrow> string option \<Rightarrow> ToolCall list \<Rightarrow> Metrics option \<Rightarrow> Step \<Rightarrow> Step" where
  "merge_step text reasoning calls ms st =
     (let st1 = (if text = [] then st
            else st\<lparr>message := (if message st = [] then text else message st @ nl @ text)\<rparr>);
          st2 = (case reasoning of None \<Rightarrow> st1
            | Some r \<Rightarrow> st1\<lparr>reasoning_content := Some (case reasoning_content st1 of Some x \<Rightarrow> x @ nl @ r | None \<Rightarrow> r)\<rparr>);
          st3 = (if calls = [] then st2
            else st2\<lparr>tool_calls := Some ((case tool_calls st2 of Some cs \<Rightarrow> cs | None \<Rightarrow> []) @ calls)\<rparr>) in
      if ms = None then st3 else st3\<lparr>metrics := ms\<rparr>)"

definition merge_into_agent_step ::
  "nat \<Rightarrow> string \<Rightarrow> string option \<Rightarrow> ToolCall list \<Rightarrow> Metrics option \<Rightarrow> Builder \<Rightarrow> Builder option" where
  "merge_into_agent_step i text reasoning calls ms b =
     on_step i (merge_step text reasoning calls ms) (b\<lparr>call_to_step := index_calls calls i (call_to_step b)\<rparr>)"

record claude_state =
  cs_builder :: Builder
  msgid_to_step :: "string \<rightharpoonup> nat"
  cs_session_id :: "string option"
  cs_model :: "string option"

definition claude_assistant :: "jvalue \<Rightarrow> jvalue \<Rightarrow> claude_state \<Rightarrow> claude_state option" where
  "claude_assistant event msg s =
     (let (text, reasoning, calls) = claude_assistant_content (vget ''content'' msg);
          ms = Option.bind (vget ''usage'' msg) claude_metrics; msg_id = get_str ''id'' msg in
      case Option.bind msg_id (msgid_to_step s) of
        Some i \<Rightarrow> map_option (\<lambda>b. s\<lparr>cs_builder := b\<rparr>) (merge_into_agent_step i text reasoning calls ms (cs_builder s))
      | None \<Rightarrow>
         (let (i, b) = log_push_agent (get_str ''model'' msg) text reasoning (some_calls calls) (get_str ''timestamp'' event) ms (cs_builder s) in
          map_option (\<lambda>b. s\<lparr>cs_builder := b, msgid_to_step := (case msg_id of Some m \<Rightarrow> (msgid_to_step s)(m \<mapsto> i) | None \<Rightarrow> msgid_to_step s)\<rparr>)
            (tag_response_id i msg_id b)))"

definition claude_result :: "Builder \<Rightarrow> jvalue \<Rightarrow> Builder option" where
  "claude_result b block = (case (get_str ''type'' block = Some ''tool_result'', get_str ''tool_use_id'' block) of
       (True, Some call_id) \<Rightarrow>
         attach_result call_id \<lparr>source_call_id = Some call_id, or_content = Some (claude_text (vget ''content'' block))\<rparr> b
     | _ \<Rightarrow> Some b)"

definition claude_user :: "jvalue \<Rightarrow> Builder \<Rightarrow> Builder option" where
  "claude_user msg b =
     (let content = vget ''content'' msg; text = claude_text content in
      map_option (\<lambda>b. if text = [] then b else push_plain ''user'' text b)
        (case Option.bind content as_array of None \<Rightarrow> Some b | Some blocks \<Rightarrow> try_fold claude_result b blocks))"

definition claude_event :: "claude_state \<Rightarrow> jvalue \<Rightarrow> claude_state option" where
  "claude_event s event =
     (let s = (if cs_session_id s = None then s\<lparr>cs_session_id := get_str ''sessionId'' event\<rparr> else s) in
      case vget ''message'' event of None \<Rightarrow> Some s
      | Some msg \<Rightarrow>
          if get_str ''type'' event = Some ''assistant'' then
            claude_assistant event msg (if cs_model s = None then s\<lparr>cs_model := get_str ''model'' msg\<rparr> else s)
          else if get_str ''type'' event = Some ''user'' then map_option (\<lambda>b. s\<lparr>cs_builder := b\<rparr>) (claude_user msg (cs_builder s))
          else Some s)"

text \<open>\<open>retain\<close> with a set of the identifiers seen.\<close>

fun dedup :: "string list \<Rightarrow> jvalue list \<Rightarrow> jvalue list" where
  "dedup seen [] = []"
| "dedup seen (e # es) = (case get_str ''uuid'' e of None \<Rightarrow> e # dedup seen es
     | Some u \<Rightarrow> if u \<in> set seen then dedup seen es else e # dedup (u # seen) es)"

definition claude_events :: "jvalue list \<Rightarrow> jvalue list" where
  "claude_events events = sort_key (get_str ''timestamp'')
     (dedup [] (filter (\<lambda>e. get_str ''type'' e = Some ''user'' \<or> get_str ''type'' e = Some ''assistant'') events))"

definition parse_claude :: "json_parser \<Rightarrow> string option \<Rightarrow> Trajectory option option" where
  "parse_claude from_str text = (case read_jsonl from_str text of None \<Rightarrow> Some None
     | Some events \<Rightarrow>
        map_option (\<lambda>s. log_finalize (cs_builder s) ''claude-code'' (cs_session_id s) (cs_model s))
          (try_fold claude_event \<lparr>cs_builder = Builder_default, msgid_to_step = Map.empty, cs_session_id = None, cs_model = None\<rparr>
             (claude_events events)))"

section \<open>Codex\<close>

definition codex_arguments :: "json_parser \<Rightarrow> jvalue \<Rightarrow> jvalue" where
  "codex_arguments from_str payload = (case or_else (vget ''arguments'' payload) (vget ''input'' payload) of
       None \<Rightarrow> VNull
     | Some v \<Rightarrow> (case as_str v of None \<Rightarrow> v | Some t \<Rightarrow> (case from_str t of Some x \<Rightarrow> x | None \<Rightarrow> VStr t)))"

definition codex_message_text :: "jvalue option \<Rightarrow> string" where
  "codex_message_text content = (case Option.bind content as_array of None \<Rightarrow> [] | Some blocks \<Rightarrow> joined_texts blocks)"

definition codex_reasoning :: "jvalue option \<Rightarrow> string" where
  "codex_reasoning summary = (case Option.bind summary as_array of None \<Rightarrow> []
     | Some items \<Rightarrow> intersperse_str nl (List.map_filter
         (\<lambda>item. or_else (as_str item) (or_else (get_str ''text'' item) (get_str ''summary'' item))) items))"

definition codex_usage :: "jvalue \<Rightarrow> Metrics option" where
  "codex_usage usage =
     (let input = get_u64 ''input_tokens'' usage; output = get_u64 ''output_tokens'' usage; cached = get_u64 ''cached_input_tokens'' usage in
      if input = None \<and> output = None \<and> cached = None then None
      else Some \<lparr>prompt_tokens = input, completion_tokens = output, cached_tokens = cached\<rparr>)"

definition codex_output :: "(jvalue \<Rightarrow> string) \<Rightarrow> jvalue \<Rightarrow> string option" where
  "codex_output to_string payload =
     map_option (\<lambda>out. case as_str out of Some s \<Rightarrow> unquote s | None \<Rightarrow> to_string out) (vget ''output'' payload)"

definition codex_response_item :: "json_parser \<Rightarrow> (jvalue \<Rightarrow> string) \<Rightarrow> jvalue \<Rightarrow> string option \<Rightarrow> Builder \<Rightarrow> Builder option" where
  "codex_response_item from_str to_string payload model b =
     (let ty = get_str ''type'' payload; call_id = unquote (str_or_empty (get_str ''call_id'' payload)) in
      if ty = Some ''message'' then
        (let text = codex_message_text (vget ''content'' payload) in
         Some (if text = [] then b
           else if get_str ''role'' payload = Some ''assistant'' then snd (log_push_agent model text None None None None b)
           else if get_str ''role'' payload = Some ''user'' then push_plain ''user'' text b
           else push_plain ''system'' text b))
      else if ty = Some ''reasoning'' then
        (let summary = codex_reasoning (vget ''summary'' payload) in
         Some (if summary = [] then b else snd (log_push_agent model [] (Some summary) None None None b)))
      else if ty = Some ''function_call'' \<or> ty = Some ''custom_tool_call'' then
        Some (snd (log_push_agent model [] None (Some [\<lparr>tool_call_id = call_id, function_name = str_or_empty (get_str ''name'' payload),
          arguments = codex_arguments from_str payload\<rparr>]) None None b))
      else if ty = Some ''function_call_output'' \<or> ty = Some ''custom_tool_call_output'' then
        attach_result call_id \<lparr>source_call_id = (if call_id = [] then None else Some call_id), or_content = codex_output to_string payload\<rparr> b
      else Some b)"

record codex_state =
  xs_builder :: Builder
  xs_session_id :: "string option"
  xs_model :: "string option"
  xs_totals :: "Metrics option"

definition codex_event :: "json_parser \<Rightarrow> (jvalue \<Rightarrow> string) \<Rightarrow> codex_state \<Rightarrow> jvalue \<Rightarrow> codex_state option" where
  "codex_event from_str to_string s event =
     (let payload = value_or_null (vget ''payload'' event); ty = get_str ''type'' event in
      if ty = Some ''session_meta'' then Some (s\<lparr>xs_session_id := get_str ''id'' payload\<rparr>)
      else if ty = Some ''turn_context'' then Some (s\<lparr>xs_model := or_else (xs_model s) (get_str ''model'' payload)\<rparr>)
      else if ty = Some ''response_item'' then
        map_option (\<lambda>b. s\<lparr>xs_builder := b\<rparr>) (codex_response_item from_str to_string payload (xs_model s) (xs_builder s))
      else if ty = Some ''event_msg'' then
        Some (case (get_str ''type'' payload = Some ''token_count'', Option.bind (vget ''info'' payload) (vget ''total_token_usage'')) of
            (True, Some usage) \<Rightarrow> s\<lparr>xs_totals := or_else (codex_usage usage) (xs_totals s)\<rparr>
          | _ \<Rightarrow> s)
      else Some s)"

definition codex_totals :: "Metrics option \<Rightarrow> Trajectory \<Rightarrow> Trajectory" where
  "codex_totals totals t = (case totals of None \<Rightarrow> t
     | Some m \<Rightarrow> t\<lparr>final_metrics := Some \<lparr>total_prompt_tokens = prompt_tokens m, total_completion_tokens = completion_tokens m,
         total_cached_tokens = cached_tokens m, total_steps = u32_or_max (length (steps t))\<rparr>\<rparr>)"

definition parse_codex :: "json_parser \<Rightarrow> (jvalue \<Rightarrow> string) \<Rightarrow> string option \<Rightarrow> Trajectory option option" where
  "parse_codex from_str to_string text = (case read_jsonl from_str text of None \<Rightarrow> Some None
     | Some events \<Rightarrow>
        map_option (\<lambda>s. map_option (codex_totals (xs_totals s)) (log_finalize (xs_builder s) ''codex'' (xs_session_id s) (xs_model s)))
          (try_fold (codex_event from_str to_string)
             \<lparr>xs_builder = Builder_default, xs_session_id = None, xs_model = None, xs_totals = None\<rparr> events))"

definition parse_native_log :: "json_parser \<Rightarrow> (jvalue \<Rightarrow> string) \<Rightarrow> AgentInfo \<Rightarrow> string option \<Rightarrow> Trajectory option option" where
  "parse_native_log from_str to_string info text =
     (if ai_name info = ''claude-code'' then parse_claude from_str text
      else if ai_name info = ''codex'' then parse_codex from_str to_string text else Some None)"

section \<open>Valid documents\<close>

definition call_ids :: "Step \<Rightarrow> string set" where
  "call_ids st = (case tool_calls st of None \<Rightarrow> {} | Some cs \<Rightarrow> tool_call_id ` set cs)"

text \<open>The results a step observed belong to calls the step made.\<close>

definition linked :: "Step \<Rightarrow> bool" where
  "linked st \<longleftrightarrow> (\<forall>obs r c. observation st = Some obs \<and> r \<in> set (results obs) \<and> source_call_id r = Some c \<longrightarrow> c \<in> call_ids st)"

definition builder_ok :: "Builder \<Rightarrow> bool" where
  "builder_ok b \<longleftrightarrow> steps_ok (b_steps b) \<and> (\<forall>st\<in>set (b_steps b). linked st) \<and>
     (\<forall>c i. call_to_step b c = Some i \<longrightarrow> i < length (b_steps b) \<and> c \<in> call_ids (b_steps b ! i))"

lemma builder_ok_default [simp]: "builder_ok Builder_default"
  by (simp add: builder_ok_def Builder_default_def)

lemma index_calls_lookup: "index_calls calls i m c = Some j \<Longrightarrow> m c = Some j \<or> j = i \<and> c \<in> tool_call_id ` set calls"
  unfolding index_calls_def by (induction calls arbitrary: m) (fastforce split: if_splits)+

lemma steps_ok_update:
  assumes "steps_ok sts" "i < length sts" "step_id st = step_id (sts ! i)" "step_ok st"
  shows "steps_ok (sts[i := st])"
proof (rule steps_ok_changed [OF assms(1)])
  show "map step_id (sts[i := st]) = map step_id sts" using assms(2,3) by (simp add: map_update list_update_same_conv)
  show "step_ok x" if "x \<in> set (sts[i := st])" for x
    using that assms(1,4) set_update_subset_insert [of sts i st] unfolding steps_ok_def by blast
qed

lemma with_steps: "b\<lparr>b_steps := sts\<rparr> = \<lparr>b_steps = sts, call_to_step = call_to_step b\<rparr>" for b :: Builder
  by (cases b) simp

lemma builder_ok_update:
  assumes b: "builder_ok b" "i < length (b_steps b)"
    and st: "step_id st = step_id (b_steps b ! i)" "step_ok st" "linked st" "call_ids (b_steps b ! i) \<subseteq> call_ids st"
    and m: "\<And>c j. m c = Some j \<Longrightarrow> call_to_step b c = Some j \<or> j = i \<and> c \<in> call_ids st"
  shows "builder_ok \<lparr>b_steps = (b_steps b)[i := st], call_to_step = m\<rparr>"
proof -
  have "\<forall>x\<in>set ((b_steps b)[i := st]). linked x"
    using b(1) st(3) set_update_subset_insert [of "b_steps b" i st] unfolding builder_ok_def by blast
  moreover have "j < length (b_steps b) \<and> c \<in> call_ids ((b_steps b)[i := st] ! j)" if "m c = Some j" for c j
    using m [OF that] b st(4) unfolding builder_ok_def by (auto simp: nth_list_update)
  ultimately show ?thesis using b st(1,2) steps_ok_update [of "b_steps b" i st] by (auto simp: builder_ok_def)
qed

lemma builder_ok_append:
  assumes b: "builder_ok b" and st: "step_id st = next_id (b_steps b)" "step_ok st" "observation st = None"
    and m: "\<And>c j. m c = Some j \<Longrightarrow> call_to_step b c = Some j \<or> j = length (b_steps b) \<and> c \<in> call_ids st"
  shows "builder_ok \<lparr>b_steps = b_steps b @ [st], call_to_step = m\<rparr>"
proof -
  have "j < Suc (length (b_steps b)) \<and> c \<in> call_ids ((b_steps b @ [st]) ! j)" if "m c = Some j" for c j
    using m [OF that] b unfolding builder_ok_def by (auto simp: nth_append less_Suc_eq)
  then show ?thesis using b st steps_ok_append [OF _ st(1,2)] by (auto simp: builder_ok_def linked_def)
qed

lemma push_plain_ok: "builder_ok b \<Longrightarrow> source \<in> {''user'', ''system''} \<Longrightarrow> builder_ok (push_plain source msg b)"
  unfolding push_plain_def with_steps by (rule builder_ok_append) (auto simp: step_ok_def)

lemma log_push_agent_ok:
  "builder_ok b \<Longrightarrow> log_push_agent model msg reasoning calls time ms b = (i, b') \<Longrightarrow>
     builder_ok b' \<and> i = length (b_steps b) \<and> length (b_steps b') = Suc i \<and> step_source (b_steps b' ! i) = ''agent'' \<and> take i (b_steps b') = b_steps b"
  unfolding log_push_agent_def Let_def
  by (auto intro!: builder_ok_append dest!: index_calls_lookup simp: step_ok_def call_ids_def split: option.splits)

lemma tag_ok:
  assumes "builder_ok b" "i < length (b_steps b)"
  shows "\<exists>b'. tag_response_id i rid b = Some b' \<and> builder_ok b' \<and> map step_source (b_steps b') = map step_source (b_steps b)"
proof (cases "non_empty rid")
  case (Some r)
  let ?st = "(b_steps b ! i)\<lparr>step_extra := Some (vobj [(''response_id'', VStr r)])\<rparr>"
  have "step_ok (b_steps b ! i)" "linked (b_steps b ! i)" using assms unfolding builder_ok_def steps_ok_def by auto
  then have "builder_ok \<lparr>b_steps = (b_steps b)[i := ?st], call_to_step = call_to_step b\<rparr>"
    by (intro builder_ok_update [OF assms]) (auto simp: step_ok_def linked_def call_ids_def)
  then show ?thesis using assms(2) Some by (auto simp: tag_response_id_def on_step_def with_steps map_update list_update_same_conv)
qed (use assms in \<open>simp add: tag_response_id_def\<close>)

lemma attach_result_ok:
  assumes "builder_ok b" "source_call_id r \<in> {None, Some call_id}"
  shows "\<exists>b'. attach_result call_id r b = Some b' \<and> builder_ok b' \<and> map step_source (b_steps b') = map step_source (b_steps b)"
proof (cases "call_to_step b call_id")
  case (Some i)
  let ?st = "add_results [r] (b_steps b ! i)"
  have i: "i < length (b_steps b)" "call_id \<in> call_ids (b_steps b ! i)" using assms(1) Some unfolding builder_ok_def by auto
  then have ok: "step_ok (b_steps b ! i)" "linked (b_steps b ! i)" using assms(1) unfolding builder_ok_def steps_ok_def by auto
  have "step_source (b_steps b ! i) = ''agent''" using i(2) ok(1) by (auto simp: step_ok_def call_ids_def split: option.splits)
  then have "step_ok ?st" using ok(1) by (simp add: step_ok_def add_results_def)
  moreover have "linked ?st" using ok(2) i(2) assms(2) by (auto simp: linked_def add_results_def call_ids_def split: option.splits)
  ultimately have "builder_ok \<lparr>b_steps = (b_steps b)[i := ?st], call_to_step = call_to_step b\<rparr>"
    by (intro builder_ok_update [OF assms(1) i(1)]) (auto simp: add_results_def call_ids_def)
  then show ?thesis using i(1) Some by (auto simp: attach_result_def on_step_def with_steps map_update list_update_same_conv add_results_def)
qed (use assms in \<open>simp add: attach_result_def\<close>)

lemma merge_step_keeps:
  "step_id (merge_step text reasoning calls ms st) = step_id st" "step_source (merge_step text reasoning calls ms st) = step_source st"
  "observation (merge_step text reasoning calls ms st) = observation st"
  "call_ids (merge_step text reasoning calls ms st) = call_ids st \<union> tool_call_id ` set calls"
  by (auto simp: merge_step_def Let_def call_ids_def split: option.split)

lemma merge_ok:
  assumes "builder_ok b" "i < length (b_steps b)" "step_source (b_steps b ! i) = ''agent''"
  shows "\<exists>b'. merge_into_agent_step i text reasoning calls ms b = Some b' \<and> builder_ok b' \<and> map step_source (b_steps b') = map step_source (b_steps b)"
proof -
  let ?st = "merge_step text reasoning calls ms (b_steps b ! i)"
  have ok: "step_ok (b_steps b ! i)" "linked (b_steps b ! i)" using assms(1,2) unfolding builder_ok_def steps_ok_def by auto
  have "step_ok ?st" using assms(3) by (simp add: step_ok_def merge_step_keeps)
  moreover have "linked ?st" using ok(2) by (auto simp: linked_def merge_step_keeps)
  ultimately have "builder_ok \<lparr>b_steps = (b_steps b)[i := ?st], call_to_step = index_calls calls i (call_to_step b)\<rparr>"
    by (intro builder_ok_update [OF assms(1,2)]) (auto simp: merge_step_keeps dest!: index_calls_lookup)
  then show ?thesis
    using assms(2) by (auto simp: merge_into_agent_step_def on_step_def with_steps map_update list_update_same_conv merge_step_keeps)
qed

text \<open>
  The interface both logs implement: an event moves the state to a state, and every state has a valid
  builder.
\<close>

locale log_reader =
  fixes event :: "'s \<Rightarrow> jvalue \<Rightarrow> 's option" and builder_of :: "'s \<Rightarrow> Builder" and inv :: "'s \<Rightarrow> bool"
  assumes event_inv: "inv s \<Longrightarrow> \<exists>s'. event s e = Some s' \<and> inv s'"
    and inv_ok: "inv s \<Longrightarrow> builder_ok (builder_of s)"
begin

lemma fold_inv: "inv s \<Longrightarrow> \<exists>s'. try_fold event s es = Some s' \<and> inv s'"
proof (induction es arbitrary: s)
  case (Cons e es)
  then show ?case using event_inv [OF Cons.prems, of e] by auto
qed simp

lemma fold_builder_ok: "inv s \<Longrightarrow> \<exists>s'. try_fold event s es = Some s' \<and> builder_ok (builder_of s')"
  using fold_inv inv_ok by blast

end

definition claude_inv :: "claude_state \<Rightarrow> bool" where
  "claude_inv s \<longleftrightarrow> builder_ok (cs_builder s) \<and>
     (\<forall>m i. msgid_to_step s m = Some i \<longrightarrow> i < length (b_steps (cs_builder s)) \<and> step_source (b_steps (cs_builder s) ! i) = ''agent'')"

lemma same_sources_inv:
  assumes "claude_inv s" "builder_ok b" "map step_source (b_steps b) = map step_source (b_steps (cs_builder s))"
  shows "claude_inv (s\<lparr>cs_builder := b\<rparr>)"
proof -
  have len: "length (b_steps b) = length (b_steps (cs_builder s))" using assms(3) by (metis length_map)
  have "step_source (b_steps b ! i) = step_source (b_steps (cs_builder s) ! i)" if "i < length (b_steps b)" for i
    using assms(3) that len by (metis nth_map)
  then show ?thesis using assms(1,2) len by (simp add: claude_inv_def)
qed

lemma claude_assistant_inv: "claude_inv s \<Longrightarrow> \<exists>s'. claude_assistant event msg s = Some s' \<and> claude_inv s'"
proof -
  assume inv: "claude_inv s"
  obtain body reasoning calls where parts: "claude_assistant_content (vget ''content'' msg) = (body, reasoning, calls)" by (metis prod_cases3)
  let ?ms = "Option.bind (vget ''usage'' msg) claude_metrics" and ?id = "get_str ''id'' msg"
  show ?thesis
  proof (cases "Option.bind ?id (msgid_to_step s)")
    case (Some i)
    then have "i < length (b_steps (cs_builder s))" "step_source (b_steps (cs_builder s) ! i) = ''agent''"
      using inv by (auto simp: claude_inv_def bind_eq_Some_conv)
    with merge_ok [of "cs_builder s" i body reasoning calls ?ms] obtain b where
      b: "merge_into_agent_step i body reasoning calls ?ms (cs_builder s) = Some b" "builder_ok b"
        "map step_source (b_steps b) = map step_source (b_steps (cs_builder s))"
      using inv by (auto simp: claude_inv_def)
    then show ?thesis using same_sources_inv [OF inv b(2,3)] Some parts by (simp add: claude_assistant_def)
  next
    case None
    obtain i b where push: "log_push_agent (get_str ''model'' msg) body reasoning (some_calls calls) (get_str ''timestamp'' event) ?ms (cs_builder s) = (i, b)"
      by fastforce
    have b: "builder_ok b" "i = length (b_steps (cs_builder s))" "length (b_steps b) = Suc i" "step_source (b_steps b ! i) = ''agent''"
      "take i (b_steps b) = b_steps (cs_builder s)"
      using log_push_agent_ok [OF _ push] inv by (auto simp: claude_inv_def)
    from tag_ok [OF b(1), of i ?id] b(3) obtain b' where
      b': "tag_response_id i ?id b = Some b'" "builder_ok b'" "map step_source (b_steps b') = map step_source (b_steps b)" by auto
    let ?s = "s\<lparr>cs_builder := b, msgid_to_step := (case ?id of Some m \<Rightarrow> (msgid_to_step s)(m \<mapsto> i) | None \<Rightarrow> msgid_to_step s)\<rparr>"
    have old: "step_source (b_steps b ! j) = step_source (b_steps (cs_builder s) ! j)" if "j < i" for j
      using that b(5) by (metis nth_take)
    have "j < length (b_steps b) \<and> step_source (b_steps b ! j) = ''agent''" if "msgid_to_step ?s m = Some j" for m j
    proof -
      have "j = i \<or> msgid_to_step s m = Some j" using that by (cases ?id) (simp_all split: if_splits)
      then consider "j = i" | "msgid_to_step s m = Some j" by blast
      then show ?thesis
      proof cases
        case 2
        then have "j < i" "step_source (b_steps (cs_builder s) ! j) = ''agent''" using inv b(2) unfolding claude_inv_def by blast+
        then show ?thesis using old b(3) by simp
      qed (simp add: b(3,4))
    qed
    then have "claude_inv ?s" unfolding claude_inv_def using b(1) by simp
    from same_sources_inv [OF this b'(2)] b'(3)
    have "claude_inv (s\<lparr>cs_builder := b', msgid_to_step := msgid_to_step ?s\<rparr>)" by (simp add: claude_inv_def)
    then show ?thesis using None parts push b'(1) by (simp add: claude_assistant_def)
  qed
qed

lemma try_fold_results:
  "builder_ok b \<Longrightarrow> \<exists>b'. try_fold claude_result b blocks = Some b' \<and> builder_ok b' \<and> map step_source (b_steps b') = map step_source (b_steps b)"
proof (induction blocks arbitrary: b)
  case (Cons block blocks)
  have "\<exists>b'. claude_result b block = Some b' \<and> builder_ok b' \<and> map step_source (b_steps b') = map step_source (b_steps b)"
    using attach_result_ok [OF Cons.prems] Cons.prems by (simp add: claude_result_def split: option.split bool.split)
  then show ?case using Cons.IH by fastforce
qed simp

lemma claude_user_inv:
  assumes inv: "claude_inv s"
  shows "\<exists>b. claude_user msg (cs_builder s) = Some b \<and> claude_inv (s\<lparr>cs_builder := b\<rparr>)"
proof -
  have ok: "builder_ok (cs_builder s)" using inv by (simp add: claude_inv_def)
  obtain b where b: "(case Option.bind (vget ''content'' msg) as_array of None \<Rightarrow> Some (cs_builder s)
      | Some blocks \<Rightarrow> try_fold claude_result (cs_builder s) blocks) = Some b" "claude_inv (s\<lparr>cs_builder := b\<rparr>)"
  proof (cases "Option.bind (vget ''content'' msg) as_array")
    case None
    then show ?thesis using that [of "cs_builder s"] inv by simp
  next
    case (Some blocks)
    then show ?thesis using that try_fold_results [OF ok, of blocks] same_sources_inv [OF inv] by auto
  qed
  have "claude_inv (s\<lparr>cs_builder := push_plain ''user'' m b\<rparr>)" for m
    using b(2) push_plain_ok [of b "''user''" m] by (auto simp: claude_inv_def push_plain_def nth_append less_Suc_eq)
  then show ?thesis using b by (auto simp: claude_user_def Let_def)
qed

interpretation claude: log_reader claude_event cs_builder claude_inv
proof
  fix s e
  assume inv: "claude_inv s"
  let ?s = "if cs_session_id s = None then s\<lparr>cs_session_id := get_str ''sessionId'' e\<rparr> else s"
  have "claude_inv ?s" using inv by (simp add: claude_inv_def)
  moreover from this have "claude_inv (?s\<lparr>cs_model := m\<rparr>)" for m by (simp add: claude_inv_def)
  ultimately show "\<exists>s'. claude_event s e = Some s' \<and> claude_inv s'"
    unfolding claude_event_def Let_def
    using claude_assistant_inv claude_user_inv [of ?s] by (fastforce split: option.split)
qed (simp add: claude_inv_def)

definition codex_inv :: "codex_state \<Rightarrow> bool" where
  "codex_inv s \<longleftrightarrow> builder_ok (xs_builder s)"

lemma some_if: "\<exists>y. m = Some y \<and> P y \<Longrightarrow> \<exists>y. m' = Some y \<and> P y \<Longrightarrow> \<exists>y. (if c then m else m') = Some y \<and> P y"
  by simp

lemma codex_item_ok: "builder_ok b \<Longrightarrow> \<exists>b'. codex_response_item p q payload model b = Some b' \<and> builder_ok b'"
proof -
  assume ok: "builder_ok b"
  have agent: "builder_ok (snd (log_push_agent m txt_of r calls None None b))" for m txt_of r calls
    using log_push_agent_ok [OF ok] by (metis prod.collapse)
  have attach: "\<exists>b'. attach_result c \<lparr>source_call_id = (if c = [] then None else Some c), or_content = x\<rparr> b = Some b' \<and> builder_ok b'" for c x
    using attach_result_ok [OF ok, of "\<lparr>source_call_id = (if c = [] then None else Some c), or_content = x\<rparr>" c] by auto
  show ?thesis
    unfolding codex_response_item_def Let_def by (intro some_if attach) (simp_all add: ok agent push_plain_ok)
qed

interpretation codex: log_reader "codex_event p q" xs_builder codex_inv
proof
  fix s e
  assume "codex_inv s"
  then show "\<exists>s'. codex_event p q s e = Some s' \<and> codex_inv s'"
    using codex_item_ok [of "xs_builder s" p q "value_or_null (vget ''payload'' e)" "xs_model s"]
    by (auto simp: codex_event_def codex_inv_def Let_def split: option.split bool.split)
qed (simp add: codex_inv_def)

definition log_document_ok :: "Trajectory \<Rightarrow> bool" where
  "log_document_ok t \<longleftrightarrow> steps t \<noteq> [] \<and> steps_ok (steps t) \<and> (\<forall>st\<in>set (steps t). linked st)"

lemma log_finalize_ok: "builder_ok b \<Longrightarrow> log_finalize b name sid model = Some t \<Longrightarrow> log_document_ok t"
  by (auto simp: log_finalize_def builder_ok_def log_document_ok_def split: if_splits)

lemma parse_claude_ok: "\<exists>r. parse_claude p txt_of = Some r \<and> (\<forall>t. r = Some t \<longrightarrow> log_document_ok t)"
proof (cases "read_jsonl p txt_of")
  case (Some events)
  have "claude_inv \<lparr>cs_builder = Builder_default, msgid_to_step = Map.empty, cs_session_id = None, cs_model = None\<rparr>"
    by (simp add: claude_inv_def)
  from claude.fold_builder_ok [OF this, of "claude_events events"] show ?thesis
    using Some log_finalize_ok by (auto simp: parse_claude_def)
qed (simp add: parse_claude_def)

lemma parse_codex_ok: "\<exists>r. parse_codex p q txt_of = Some r \<and> (\<forall>t. r = Some t \<longrightarrow> log_document_ok t)"
proof (cases "read_jsonl p txt_of")
  case (Some events)
  have "codex_inv \<lparr>xs_builder = Builder_default, xs_session_id = None, xs_model = None, xs_totals = None\<rparr>"
    by (simp add: codex_inv_def)
  from codex.fold_builder_ok [OF this, of p q events] obtain s where
    s: "try_fold (codex_event p q) \<lparr>xs_builder = Builder_default, xs_session_id = None, xs_model = None, xs_totals = None\<rparr> events = Some s"
      "builder_ok (xs_builder s)" by blast
  have "log_document_ok (codex_totals m t)" if "log_document_ok t" for m t
    using that by (simp add: log_document_ok_def codex_totals_def split: option.split)
  then show ?thesis using Some s log_finalize_ok [OF s(2)] by (auto simp: parse_codex_def)
qed (simp add: parse_codex_def)

text \<open>
  C20. Reading an agent's log never panics, whatever the log holds, and the trajectory it gives is a valid
  document: it has steps, numbered from 1, agent fields only on agent steps, and every observed result that
  names a call stands on the step that made the call.
\<close>

theorem native_log_valid:
  "\<exists>r. parse_native_log p q info contents = Some r \<and>
     (\<forall>t. r = Some t \<longrightarrow> steps t \<noteq> [] \<and> (\<forall>st\<in>set (steps t). step_ok st \<and> linked st) \<and>
        (length (steps t) < 2 ^ 32 \<longrightarrow> map (\<lambda>st. unat (step_id st)) (steps t) = [1..<Suc (length (steps t))]))"
proof -
  obtain r where r: "parse_native_log p q info contents = Some r" "\<And>t. r = Some t \<Longrightarrow> log_document_ok t"
  proof -
    have "\<exists>r. parse_native_log p q info contents = Some r \<and> (\<forall>t. r = Some t \<longrightarrow> log_document_ok t)"
      using parse_claude_ok [of p contents] parse_codex_ok [of p q contents] by (simp add: parse_native_log_def)
    then show ?thesis using that by blast
  qed
  then show ?thesis using steps_ok_numbered by (auto simp: log_document_ok_def steps_ok_def simp del: upt_Suc)
qed

definition sample_lines :: json_parser where
  "sample_lines l = (if l = ''a'' then Some (vobj [(''type'', VStr ''response_item''),
       (''payload'', vobj [(''type'', VStr ''function_call''), (''call_id'', VStr ''c1''), (''name'', VStr ''ls'')])])
     else if l = ''b'' then Some (vobj [(''type'', VStr ''response_item''),
       (''payload'', vobj [(''type'', VStr ''function_call_output''), (''call_id'', VStr ''c1''), (''output'', VStr ''ok'')])])
     else None)"

lemma plain_letters:
  "\<not> is_whitespace ''a''" "\<not> is_whitespace ''b''" "\<not> suffix [CHR 0x0D] ''a''"
  by (code_simp, code_simp, code_simp)

lemma sample_log_steps:
  "map_option (map_option (\<lambda>t. (length (steps t), map_option results (observation (hd (steps t))))))
     (parse_native_log sample_lines (\<lambda>_. []) \<lparr>ai_name = ''codex'', supports_atif = True\<rparr> (Some [CHR ''a'', CHR 0x0A, CHR ''b'']))
     = Some (Some (1, Some [\<lparr>source_call_id = Some ''c1'', or_content = Some ''ok''\<rparr>]))"
  by (simp add: parse_native_log_def parse_codex_def read_jsonl_def str_lines_def drop_cr_def strip_suffix_def sample_lines_def vobj_def
      codex_event_def codex_response_item_def Let_def get_str_def value_or_null_def str_or_empty_def unquote_def strip_prefix_def
      log_push_agent_def index_calls_def Builder_default_def attach_result_def on_step_def at_index_def add_results_def codex_output_def
      log_finalize_def codex_totals_def str_trim_def plain_letters)

theorem native_log_valid_witness:
  "\<exists>t. parse_native_log sample_lines (\<lambda>_. []) \<lparr>ai_name = ''codex'', supports_atif = True\<rparr> (Some [CHR ''a'', CHR 0x0A, CHR ''b'']) = Some (Some t)
     \<and> linked (hd (steps t)) \<and> map (\<lambda>st. unat (step_id st)) (steps t) = [1]"
proof -
  obtain t where t: "parse_native_log sample_lines (\<lambda>_. []) \<lparr>ai_name = ''codex'', supports_atif = True\<rparr> (Some [CHR ''a'', CHR 0x0A, CHR ''b'']) = Some (Some t)"
    "length (steps t) = 1" using sample_log_steps by auto
  from native_log_valid [of sample_lines "\<lambda>_. []" "\<lparr>ai_name = ''codex'', supports_atif = True\<rparr>" "Some [CHR ''a'', CHR 0x0A, CHR ''b'']"]
  have ok: "steps t \<noteq> []" "\<forall>st\<in>set (steps t). step_ok st \<and> linked st"
    "length (steps t) < 2 ^ 32 \<longrightarrow> map (\<lambda>st. unat (step_id st)) (steps t) = [1..<Suc (length (steps t))]"
    unfolding t(1) option.inject by blast+
  show ?thesis using t ok(1,2) ok(3) by (intro exI [of _ t]) (simp add: upt_rec)
qed

section \<open>The newest log\<close>

text \<open>The files of a directory that qualify, with their times; below it too when the search recurses.\<close>

fun candidates :: "bool \<Rightarrow> (path \<Rightarrow> bool) \<Rightarrow> int \<Rightarrow> log_entry \<Rightarrow> (int \<times> path) set"
  and entry_candidates :: "bool \<Rightarrow> (path \<Rightarrow> bool) \<Rightarrow> int \<Rightarrow> log_entry \<Rightarrow> (int \<times> path) set" where
  "candidates r pred cutoff (LogDir p (Some es)) = (\<Union>e\<in>set es. entry_candidates r pred cutoff e)"
| "candidates r pred cutoff _ = {}"
| "entry_candidates r pred cutoff (LogFile p m) = (case m of None \<Rightarrow> {} | Some t \<Rightarrow> if pred p \<and> cutoff \<le> t then {(t, p)} else {})"
| "entry_candidates r pred cutoff (LogDir p es) = (if r then candidates r pred cutoff (LogDir p es) else {})"
| "entry_candidates r pred cutoff (NoMeta p) = {}"

definition newest_of :: "(int \<times> path) set \<Rightarrow> best_log \<Rightarrow> bool" where
  "newest_of S best \<longleftrightarrow> (case best of None \<Rightarrow> S = {} | Some (t, p) \<Rightarrow> (t, p) \<in> S \<and> (\<forall>(t', p')\<in>S. t' \<le> t))"

lemma candidates_listing: "candidates r pred cutoff d = (\<Union>e\<in>set (listing d). entry_candidates r pred cutoff e)"
  by (cases d rule: listing.cases) simp_all

lemma newest_of_better: "newest_of S best \<Longrightarrow> newest_of (S \<union> (if cutoff \<le> m then {(m, p)} else {})) (better cutoff m p best)"
  by (auto simp: newest_of_def better_def split: option.splits)

lemma scan_entry_newest:
  assumes "scan_entry r pred cutoff (stack, best) e = (stack', best')"
    and "newest_of S best"
  shows "\<exists>S'. newest_of S' best' \<and> S' \<union> (\<Union>d\<in>set stack'. candidates r pred cutoff d) =
    S \<union> (\<Union>d\<in>set stack. candidates r pred cutoff d) \<union> entry_candidates r pred cutoff e"
proof (cases "(\<exists>p m. e = LogFile p (Some m) \<and> pred p)")
  case True
  then obtain p m where e: "e = LogFile p (Some m)" "pred p" by blast
  then have "stack' = stack" "best' = better cutoff m p best" using assms(1) by (simp_all add: scan_entry_def)
  then show ?thesis using newest_of_better [OF assms(2), of cutoff m p] e by (intro exI conjI) auto
next
  case False
  then have "best' = best" "(\<Union>d\<in>set stack'. candidates r pred cutoff d) = (\<Union>d\<in>set stack. candidates r pred cutoff d) \<union> entry_candidates r pred cutoff e"
    using assms(1) by (auto simp: scan_entry_def split: log_entry.splits if_splits option.splits)
  then show ?thesis using assms(2) by blast
qed

lemma scan_newest:
  assumes "foldl (scan_entry r pred cutoff) (stack, best) es = (stack', best')" "newest_of S best"
  shows "\<exists>S'. newest_of S' best' \<and> S' \<union> (\<Union>d\<in>set stack'. candidates r pred cutoff d) =
    S \<union> (\<Union>d\<in>set stack. candidates r pred cutoff d) \<union> (\<Union>e\<in>set es. entry_candidates r pred cutoff e)"
  using assms
proof (induction es arbitrary: stack best S)
  case (Cons e es)
  obtain stack1 best1 where step: "scan_entry r pred cutoff (stack, best) e = (stack1, best1)" by fastforce
  from scan_entry_newest [OF step Cons.prems(2)] obtain S1 where
    S1: "newest_of S1 best1" "S1 \<union> (\<Union>d\<in>set stack1. candidates r pred cutoff d) =
      S \<union> (\<Union>d\<in>set stack. candidates r pred cutoff d) \<union> entry_candidates r pred cutoff e" by blast
  from Cons.IH [OF _ S1(1), of stack1] Cons.prems(1) step show ?case unfolding S1(2) by (auto simp: Un_assoc)
qed auto

lemma newest_loop_exact:
  "newest_of S best \<Longrightarrow> newest_of (S \<union> (\<Union>d\<in>set stack. candidates r pred cutoff d)) (newest_loop r pred cutoff stack best)"
proof (induction r pred cutoff stack best arbitrary: S rule: newest_loop.induct)
  case (2 r pred cutoff d stack best)
  obtain stack' best' where scan: "foldl (scan_entry r pred cutoff) (stack, best) (listing d) = (stack', best')" by fastforce
  from scan_newest [OF scan 2(2)] obtain S' where
    S': "newest_of S' best'" "S' \<union> (\<Union>d\<in>set stack'. candidates r pred cutoff d) =
      S \<union> (\<Union>d\<in>set stack. candidates r pred cutoff d) \<union> candidates r pred cutoff d" unfolding candidates_listing [of r pred cutoff d] by blast
  have "newest_of (S' \<union> (\<Union>d\<in>set stack'. candidates r pred cutoff d)) (newest_loop r pred cutoff stack' best')"
    using 2(1) [OF scan [symmetric] S'(1)] .
  then show ?case unfolding S'(2) by (simp add: scan Un_ac)
qed simp

text \<open>
  The search for a log ends on every directory tree and is exact: it returns nothing exactly when no
  file qualifies, and otherwise a qualifying file that no other is newer than.
\<close>

theorem newest_file_exact:
  assumes "checked_sub since MTIME_SKEW = Some cutoff"
  shows "case newest_file checked_sub root since recurse pred of
      None \<Rightarrow> candidates recurse pred cutoff root = {}
    | Some p \<Rightarrow> \<exists>t. (t, p) \<in> candidates recurse pred cutoff root \<and> (\<forall>(t', p')\<in>candidates recurse pred cutoff root. t' \<le> t)"
proof -
  have "newest_of (candidates recurse pred cutoff root) (newest_loop recurse pred cutoff [root] None)"
    using newest_loop_exact [where S = "{}" and best = None and stack = "[root]"] by (simp add: newest_of_def)
  then show ?thesis using assms by (auto simp: newest_file_def newest_of_def split: option.splits)
qed

text \<open>The unchecked sum of the prompt tokens wraps, although the totals over the steps saturate.\<close>

theorem claude_metrics_wrap:
  "claude_metrics (vobj [(''input_tokens'', VNum (PosInt (- 1))), (''cache_read_input_tokens'', VNum (PosInt 1))])
     = Some \<lparr>prompt_tokens = Some 0, completion_tokens = None, cached_tokens = Some 1\<rparr>"
  by (simp add: claude_metrics_def get_u64_def vobj_def Let_def)

definition sample_logs :: log_entry where
  "sample_logs = LogDir [''d''] (Some [LogFile [''d'', ''a''] (Some 20), LogDir [''d'', ''s''] (Some [LogFile [''d'', ''s'', ''b''] (Some 30)]),
     LogDir [''d'', ''x''] None, LogFile [''d'', ''c''] (Some 10)])"

theorem newest_file_exact_witness:
  "(\<lambda>t d. Some (t - d)) 0 MTIME_SKEW = Some (- MTIME_SKEW) \<and>
   newest_file (\<lambda>t d. Some (t - d)) sample_logs 0 True (\<lambda>_. True) = Some [''d'', ''s'', ''b''] \<and>
   (\<exists>t. (t, [''d'', ''s'', ''b'']) \<in> candidates True (\<lambda>_. True) (- MTIME_SKEW) sample_logs \<and>
      (\<forall>(t', p')\<in>candidates True (\<lambda>_. True) (- MTIME_SKEW) sample_logs. t' \<le> t))"
proof -
  have sub: "(\<lambda>t d. Some (t - d)) 0 MTIME_SKEW = Some (- MTIME_SKEW)" by simp
  have "newest_file (\<lambda>t d. Some (t - d)) sample_logs 0 True (\<lambda>_. True) = Some [''d'', ''s'', ''b'']"
    by (simp add: newest_file_def sample_logs_def scan_entry_def better_def MTIME_SKEW_def)
  then show ?thesis using newest_file_exact [where checked_sub = "\<lambda>t d. Some (t - d)" and since = 0 and cutoff = "- MTIME_SKEW"
        and root = sample_logs and recurse = True and pred = "\<lambda>_. True"] sub by simp
qed

end
