(* ===== verification/Reviews.thy ===== *)
theory Reviews
  imports Traces
begin

text \<open>
  The review gate of the recording proxy (\<open>omniagent-cli/src/review.rs\<close>): a response waits here for the
  decision of an operator. Prompts, decisions and timeouts come from different tasks: the store is a
  protocol of steps that interleave.
\<close>

section \<open>Items and decisions\<close>

datatype ReviewPhase = RequestPhase | ResponsePhase

record ReviewItem =
  ri_id :: string
  ri_sequence :: "64 word"
  ri_phase :: ReviewPhase
  ri_attempt :: "32 word"
  ri_provider :: Provider
  ri_model :: "string option"
  ri_method :: string
  ri_path :: string
  ri_streaming :: bool
  ri_request_base_url :: string
  ri_upstream_base_url :: string
  ri_request_headers :: HeaderSnapshot
  ri_request :: jvalue
  ri_response_headers :: HeaderSnapshot
  ri_response :: jvalue
  ri_usage :: Usage
  ri_status :: "16 word option"
  ri_latency_ms :: "64 word option"
  ri_started_at :: string
  ri_error :: "string option"

datatype ReviewDecision = Approve "string option" | Reject "string option" | Retry "string option"

definition approve :: ReviewDecision where
  "approve = Approve None"

definition from_server_value :: "jvalue \<Rightarrow> ReviewDecision" where
  "from_server_value v =
     (let action = (case get_str ''action'' v of Some a \<Rightarrow> a | None \<Rightarrow> ''approve'') in
      if action = ''reject'' then Reject (get_str ''message'' v)
      else if action = ''retry'' then Retry (get_str ''model'' v)
      else Approve (get_str ''model'' v))"

datatype ReviewEvent = Upsert ReviewItem | Remove string

section \<open>The store\<close>

text \<open>
  \<open>rs_waiters\<close> holds the senders; the prompt at the other end is in \<open>rs_prompts\<close>: it has its number
  (\<open>Numbering\<close>), its sender is registered (\<open>Registered\<close>), its item is stored and announced (\<open>Awaiting\<close>), each
  with the value in its channel, or it has returned. \<open>rs_answers\<close> logs the calls of \<open>decide\<close> that found a sender,
  with their results. No task panics while it holds a lock, so no lock is poisoned.
\<close>

datatype prompt =
    Numbering ReviewItem
  | Registered ReviewItem "ReviewDecision option"
  | Awaiting string "ReviewDecision option"
  | Returned string ReviewDecision

record ReviewStore =
  rs_enabled :: bool
  rs_timeout :: bool
  rs_items :: "string \<rightharpoonup> ReviewItem"
  rs_sequence :: "64 word"
  rs_waiters :: "string set"
  rs_events :: "ReviewEvent list"
  rs_prompts :: "prompt list"
  rs_answers :: "(string \<times> ReviewDecision \<times> bool) list"

definition ReviewStore_new :: "bool \<Rightarrow> bool \<Rightarrow> ReviewStore" where
  "ReviewStore_new on timed = \<lparr>rs_enabled = on, rs_timeout = timed, rs_items = Map.empty, rs_sequence = 0, rs_waiters = {},
     rs_events = [], rs_prompts = [], rs_answers = []\<rparr>"

definition review_forward :: "ReviewEvent \<Rightarrow> ReviewStore \<Rightarrow> ReviewStore" where
  "review_forward e rs = rs\<lparr>rs_events := rs_events rs @ [e]\<rparr>"

definition review_remove :: "string \<Rightarrow> ReviewStore \<Rightarrow> ReviewStore" where
  "review_remove i rs = review_forward (Remove i) (rs\<lparr>rs_items := (rs_items rs)(i := None)\<rparr>)"

definition review_discard :: "string \<Rightarrow> ReviewStore \<Rightarrow> ReviewStore" where
  "review_discard i rs = review_remove i (rs\<lparr>rs_waiters := rs_waiters rs - {i}\<rparr>)"

text \<open>\<open>prompt\<close>, step by step; the first step is the call.\<close>

definition prompt_call :: "ReviewItem \<Rightarrow> ReviewStore \<Rightarrow> prompt \<times> ReviewStore" where
  "prompt_call item rs = (if \<not> rs_enabled rs then (Returned (ri_id item) approve, rs)
     else (Numbering (item\<lparr>ri_sequence := rs_sequence rs + 1\<rparr>), rs\<lparr>rs_sequence := rs_sequence rs + 1\<rparr>))"

definition prompt_register :: "ReviewItem \<Rightarrow> ReviewStore \<Rightarrow> prompt \<times> ReviewStore" where
  "prompt_register item rs = (Registered item None, rs\<lparr>rs_waiters := insert (ri_id item) (rs_waiters rs)\<rparr>)"

definition prompt_publish :: "ReviewItem \<Rightarrow> ReviewDecision option \<Rightarrow> ReviewStore \<Rightarrow> prompt \<times> ReviewStore" where
  "prompt_publish item v rs = (Awaiting (ri_id item) v,
     review_forward (Upsert item) (rs\<lparr>rs_items := (rs_items rs)(ri_id item \<mapsto> item)\<rparr>))"

text \<open>A value that was sent is received, also when the time is up: the receiver is polled first.\<close>

definition prompt_receive :: "string \<Rightarrow> ReviewDecision \<Rightarrow> prompt" where
  "prompt_receive i d = Returned i d"

definition prompt_elapsed :: "string \<Rightarrow> ReviewStore \<Rightarrow> prompt \<times> ReviewStore" where
  "prompt_elapsed i rs = (Returned i approve, review_discard i rs)"

text \<open>\<open>decide\<close>: the sender is taken, the item removed, and the value sent if the prompt still waits for it.\<close>

fun send_to :: "string \<Rightarrow> ReviewDecision \<Rightarrow> prompt \<Rightarrow> prompt option" where
  "send_to i d (Registered item None) = (if ri_id item = i then Some (Registered item (Some d)) else None)"
| "send_to i d (Awaiting j None) = (if j = i then Some (Awaiting j (Some d)) else None)"
| "send_to i d _ = None"

fun deliver_decision :: "string \<Rightarrow> ReviewDecision \<Rightarrow> prompt list \<Rightarrow> (prompt list \<times> bool)" where
  "deliver_decision i d [] = ([], False)"
| "deliver_decision i d (p # ps) = (case send_to i d p of Some p' \<Rightarrow> (p' # ps, True)
     | None \<Rightarrow> (let (ps', sent) = deliver_decision i d ps in (p # ps', sent)))"

definition decide :: "string \<Rightarrow> ReviewDecision \<Rightarrow> ReviewStore \<Rightarrow> bool \<times> ReviewStore" where
  "decide i d rs = (if i \<notin> rs_waiters rs then (False, rs)
     else (let rs1 = review_remove i (rs\<lparr>rs_waiters := rs_waiters rs - {i}\<rparr>); (ps, sent) = deliver_decision i d (rs_prompts rs1) in
           (sent, rs1\<lparr>rs_prompts := ps, rs_answers := rs_answers rs1 @ [(i, d, sent)]\<rparr>)))"

fun prompt_id :: "prompt \<Rightarrow> string" where
  "prompt_id (Numbering item) = ri_id item"
| "prompt_id (Registered item v) = ri_id item"
| "prompt_id (Awaiting i v) = i"
| "prompt_id (Returned i d) = i"

text \<open>A new prompt has a new identifier (a random UUID).\<close>

inductive review_step :: "ReviewStore \<Rightarrow> ReviewStore \<Rightarrow> bool" where
  call: "ri_id item \<notin> prompt_id ` set (rs_prompts rs) \<Longrightarrow> prompt_call item rs = (p, rs') \<Longrightarrow>
    review_step rs (rs'\<lparr>rs_prompts := rs_prompts rs' @ [p]\<rparr>)"
| register: "k < length (rs_prompts rs) \<Longrightarrow> rs_prompts rs ! k = Numbering item \<Longrightarrow> prompt_register item rs = (p, rs') \<Longrightarrow>
    review_step rs (rs'\<lparr>rs_prompts := (rs_prompts rs')[k := p]\<rparr>)"
| publish: "k < length (rs_prompts rs) \<Longrightarrow> rs_prompts rs ! k = Registered item v \<Longrightarrow> prompt_publish item v rs = (p, rs') \<Longrightarrow>
    review_step rs (rs'\<lparr>rs_prompts := (rs_prompts rs')[k := p]\<rparr>)"
| receive: "k < length (rs_prompts rs) \<Longrightarrow> rs_prompts rs ! k = Awaiting i (Some d) \<Longrightarrow>
    review_step rs (rs\<lparr>rs_prompts := (rs_prompts rs)[k := prompt_receive i d]\<rparr>)"
| elapsed: "k < length (rs_prompts rs) \<Longrightarrow> rs_prompts rs ! k = Awaiting i None \<Longrightarrow> rs_timeout rs \<Longrightarrow> prompt_elapsed i rs = (p, rs') \<Longrightarrow>
    review_step rs (rs'\<lparr>rs_prompts := (rs_prompts rs')[k := p]\<rparr>)"
| decision: "decide i d rs = (sent, rs') \<Longrightarrow> review_step rs rs'"

inductive_cases review_stepE: "review_step rs rs'"

section \<open>Decisions are honoured\<close>

fun carries :: "ReviewDecision \<Rightarrow> prompt \<Rightarrow> bool" where
  "carries d (Numbering item) = False"
| "carries d (Registered item v) = (v = Some d)"
| "carries d (Awaiting i v) = (v = Some d)"
| "carries d (Returned i e) = (e = d)"

fun open_channel :: "prompt \<Rightarrow> bool" where
  "open_channel (Registered item v) = (v = None)"
| "open_channel (Awaiting i v) = (v = None)"
| "open_channel _ = False"

text \<open>
  Prompts have distinct identifiers; what a prompt carries is the automatic approval or an accepted
  decision; a prompt whose decision was accepted carries it.
\<close>

definition review_inv :: "ReviewStore \<Rightarrow> bool" where
  "review_inv rs \<longleftrightarrow> distinct (map prompt_id (rs_prompts rs)) \<and>
     (\<forall>p\<in>set (rs_prompts rs). \<forall>d. carries d p \<longrightarrow> (case p of Returned i e \<Rightarrow> d = approve | _ \<Rightarrow> False) \<or> (prompt_id p, d, True) \<in> set (rs_answers rs)) \<and>
     (\<forall>i d. (i, d, True) \<in> set (rs_answers rs) \<longrightarrow> (\<exists>p\<in>set (rs_prompts rs). prompt_id p = i \<and> carries d p))"

lemma review_inv_change:
  assumes inv: "review_inv rs" and k: "k < length (rs_prompts rs)"
    and p: "prompt_id p = prompt_id (rs_prompts rs ! k)"
      "\<And>d. carries d p \<Longrightarrow> carries d (rs_prompts rs ! k) \<and> \<not> open_channel p \<or> (\<exists>i. p = Returned i approve) \<and> d = approve"
      "\<And>d. carries d (rs_prompts rs ! k) \<Longrightarrow> carries d p"
    and not_ret: "\<And>i d. rs_prompts rs ! k \<noteq> Returned i d"
    and rs': "rs_prompts rs' = (rs_prompts rs)[k := p]" "rs_answers rs' = rs_answers rs"
  shows "review_inv rs'"
proof -
  have ids: "map prompt_id (rs_prompts rs') = map prompt_id (rs_prompts rs)"
    using k p(1) rs'(1) by (simp add: map_update list_update_same_conv)
  have sub: "set (rs_prompts rs') \<subseteq> insert p (set (rs_prompts rs))" unfolding rs'(1) by (rule set_update_subset_insert)
  have mem: "p \<in> set (rs_prompts rs')" "q \<in> set (rs_prompts rs') \<or> q = rs_prompts rs ! k" if "q \<in> set (rs_prompts rs)" for q
    using that k unfolding rs'(1) by (auto simp: set_update_memI in_set_conv_nth) (metis length_list_update nth_list_update_neq)
  show ?thesis
    unfolding review_inv_def ids rs'(2)
  proof (intro conjI ballI allI impI)
    show "distinct (map prompt_id (rs_prompts rs))" using inv by (simp add: review_inv_def)
  next
    fix q d
    assume q: "q \<in> set (rs_prompts rs')" "carries d q"
    have old: "(prompt_id x, d, True) \<in> set (rs_answers rs)" if "x \<in> set (rs_prompts rs)" "carries d x" "\<And>i e. x \<noteq> Returned i e" for x
      using inv that unfolding review_inv_def by (cases x) fastforce+
    show "(case q of Returned i e \<Rightarrow> d = approve | _ \<Rightarrow> False) \<or> (prompt_id q, d, True) \<in> set (rs_answers rs)"
    proof (cases "q = p")
      case True
      then show ?thesis using p(1) p(2) [of d] q(2) old [OF nth_mem [OF k]] not_ret by auto
    next
      case False
      then have "q \<in> set (rs_prompts rs)" using sub q(1) by blast
      then show ?thesis using inv q(2) unfolding review_inv_def by blast
    qed
  next
    fix i d
    assume "(i, d, True) \<in> set (rs_answers rs)"
    then obtain q where q: "q \<in> set (rs_prompts rs)" "prompt_id q = i" "carries d q" using inv unfolding review_inv_def by blast
    show "\<exists>p\<in>set (rs_prompts rs'). prompt_id p = i \<and> carries d p"
      using mem [OF q(1)] q p(1) p(3) [of d] by metis
  qed
qed

lemma send_to_some:
  "send_to i d p = Some p' \<Longrightarrow> prompt_id p = i \<and> prompt_id p' = i \<and> (\<forall>e. \<not> carries e p) \<and> (\<forall>e. carries e p' \<longleftrightarrow> e = d)"
  by (cases "(i, d, p)" rule: send_to.cases) (auto split: if_splits)

lemma deliver_decision_cases:
  assumes "deliver_decision i d ps = (ps', sent)"
  obtains "\<not> sent" "ps' = ps" | k p where "sent" "k < length ps" "send_to i d (ps ! k) = Some p" "ps' = ps[k := p]"
  using assms
proof (induction ps arbitrary: ps' thesis)
  case (Cons q ps)
  show ?case
  proof (cases "send_to i d q")
    case (Some q')
    then show ?thesis using Cons.prems(2) [of 0 q'] Cons.prems(3) by simp
  next
    case None
    obtain ps1 sent1 where rest: "deliver_decision i d ps = (ps1, sent1)" by fastforce
    then have eq: "ps' = q # ps1" "sent = sent1" using Cons.prems(3) None by simp_all
    show ?thesis
    proof (rule Cons.IH [of ps1])
      show ?thesis if "\<not> sent" "ps1 = ps" using that Cons.prems(1) eq by simp
      show ?thesis if "sent" "k < length ps" "send_to i d (ps ! k) = Some p" "ps1 = ps[k := p]" for k p
        using that Cons.prems(2) [of "Suc k" p] eq by simp
      show "deliver_decision i d ps = (ps1, sent)" using rest eq by simp
    qed
  qed
qed simp

lemma review_inv_decide:
  assumes inv: "review_inv rs" and step: "decide i d rs = (sent, rs')"
  shows "review_inv rs'"
proof (cases "i \<in> rs_waiters rs")
  case True
  obtain ps' sent' where del: "deliver_decision i d (rs_prompts rs) = (ps', sent')" by fastforce
  have rs': "rs_prompts rs' = ps'" "rs_answers rs' = rs_answers rs @ [(i, d, sent')]"
    using step True del by (auto simp: decide_def review_remove_def review_forward_def Let_def)
  from del show ?thesis
  proof (cases rule: deliver_decision_cases)
    case 1
    then show ?thesis using inv unfolding review_inv_def rs' by auto
  next
    case (2 k p)
    note p = send_to_some [OF 2(3)]
    have ids: "map prompt_id ps' = map prompt_id (rs_prompts rs)"
      using 2(2,4) p by (simp add: map_update list_update_same_conv)
    have only: "q = rs_prompts rs ! k" if "q \<in> set (rs_prompts rs)" "prompt_id q = i" for q
      using that inv 2(2) p unfolding review_inv_def by (metis distinct_map inj_onD nth_mem)
    have kept: "q \<in> set ps'" if "q \<in> set (rs_prompts rs)" "prompt_id q \<noteq> i" for q
      using that 2(2,4) p by (auto simp: in_set_conv_nth) (metis length_list_update nth_list_update_neq)
    have new: "p \<in> set ps'" using 2(2,4) by (simp add: set_update_memI)
    have sub: "set ps' \<subseteq> insert p (set (rs_prompts rs))" unfolding 2(4) by (rule set_update_subset_insert)
    have "(case q of Returned j e' \<Rightarrow> e = approve | _ \<Rightarrow> False) \<or> (prompt_id q, e, True) \<in> set (rs_answers rs')"
      if "q \<in> set ps'" "carries e q" for q e
    proof (cases "q = p")
      case True
      then show ?thesis using that(2) p 2(1) unfolding rs'(2) by simp
    next
      case False
      then have "q \<in> set (rs_prompts rs)" using sub that(1) by blast
      then have "(case q of Returned j e' \<Rightarrow> e = approve | _ \<Rightarrow> False) \<or> (prompt_id q, e, True) \<in> set (rs_answers rs)"
        using inv that(2) unfolding review_inv_def by blast
      then show ?thesis unfolding rs'(2) by auto
    qed
    moreover have "\<exists>q\<in>set ps'. prompt_id q = j \<and> carries e q" if answer: "(j, e, True) \<in> set (rs_answers rs')" for j e
    proof -
      from answer consider "j = i" "e = d" | "(j, e, True) \<in> set (rs_answers rs)" unfolding rs'(2) by auto
      then show ?thesis
      proof cases
        case 1
        then show ?thesis using p new by blast
      next
        case 2
        then obtain q where q: "q \<in> set (rs_prompts rs)" "prompt_id q = j" "carries e q" using inv unfolding review_inv_def by blast
        then have "j \<noteq> i" using only p by blast
        then show ?thesis using q kept by blast
      qed
    qed
    ultimately show ?thesis using inv unfolding review_inv_def rs'(1) ids by blast
  qed
qed (use assms in \<open>simp add: decide_def\<close>)

lemma review_inv_call:
  assumes inv: "review_inv rs" and fresh: "ri_id item \<notin> prompt_id ` set (rs_prompts rs)" and step: "prompt_call item rs = (p, rs')"
  shows "review_inv (rs'\<lparr>rs_prompts := rs_prompts rs' @ [p]\<rparr>)"
proof -
  have "rs_prompts rs' = rs_prompts rs" "rs_answers rs' = rs_answers rs" "prompt_id p = ri_id item"
    "\<And>d. carries d p \<Longrightarrow> (\<exists>i. p = Returned i d) \<and> d = approve"
    using step by (auto simp: prompt_call_def split: if_splits)
  then show ?thesis using inv fresh unfolding review_inv_def by (fastforce split: prompt.splits)
qed

lemma review_inv_step: "review_step rs rs' \<Longrightarrow> review_inv rs \<Longrightarrow> review_inv rs'"
proof (induction rule: review_step.induct)
  case (call item rs p rs')
  then show ?case by (intro review_inv_call)
next
  case (register k rs item p rs')
  then show ?case by (intro review_inv_change [OF register(4,1), where p = p]) (auto simp: prompt_register_def)
next
  case (publish k rs item v p rs')
  then show ?case by (intro review_inv_change [OF publish(4,1), where p = p]) (auto simp: prompt_publish_def review_forward_def)
next
  case (receive k rs i d)
  then show ?case by (intro review_inv_change [OF receive(3,1), where p = "prompt_receive i d"]) (auto simp: prompt_receive_def)
next
  case (elapsed k rs i p rs')
  then show ?case
    by (intro review_inv_change [OF elapsed(5,1), where p = p]) (auto simp: prompt_elapsed_def review_discard_def review_remove_def review_forward_def)
next
  case (decision i d rs sent rs')
  then show ?case using review_inv_decide by blast
qed


definition sample_item :: ReviewItem where
  "sample_item = \<lparr>ri_id = ''x'', ri_sequence = 0, ri_phase = ResponsePhase, ri_attempt = 1, ri_provider = OpenAI, ri_model = None,
     ri_method = ''POST'', ri_path = ''/v1/responses'', ri_streaming = False, ri_request_base_url = [], ri_upstream_base_url = [],
     ri_request_headers = [], ri_request = VNull, ri_response_headers = [], ri_response = VNull, ri_usage = Usage_default,
     ri_status = None, ri_latency_ms = None, ri_started_at = [], ri_error = None\<rparr>"

definition sample_review :: "prompt list \<Rightarrow> string set \<Rightarrow> (string \<rightharpoonup> ReviewItem) \<Rightarrow> ReviewEvent list \<Rightarrow>
    (string \<times> ReviewDecision \<times> bool) list \<Rightarrow> ReviewStore" where
  "sample_review ps ws is es as = \<lparr>rs_enabled = True, rs_timeout = True, rs_items = is, rs_sequence = 1, rs_waiters = ws,
     rs_events = es, rs_prompts = ps, rs_answers = as\<rparr>"

lemma sample_review_run:
  "review_step\<^sup>*\<^sup>* (ReviewStore_new True True)
     (sample_review [Returned ''x'' (Reject None)] {} Map.empty [Upsert (sample_item\<lparr>ri_sequence := 1\<rparr>), Remove ''x''] [(''x'', Reject None, True)])"
proof -
  let ?i = "sample_item\<lparr>ri_sequence := 1\<rparr>"
  let ?r1 = "sample_review [Numbering ?i] {} Map.empty [] []"
  let ?r2 = "sample_review [Registered ?i None] {''x''} Map.empty [] []"
  let ?r3 = "sample_review [Awaiting ''x'' None] {''x''} [''x'' \<mapsto> ?i] [Upsert ?i] []"
  let ?r4 = "sample_review [Awaiting ''x'' (Some (Reject None))] {} Map.empty [Upsert ?i, Remove ''x''] [(''x'', Reject None, True)]"
  have id: "ri_id ?i = ''x''" by (simp add: sample_item_def)
  have "review_step (ReviewStore_new True True) ?r1"
    using review_step.call [of sample_item "ReviewStore_new True True"] by (simp add: prompt_call_def ReviewStore_new_def sample_review_def)
  moreover have "review_step ?r1 ?r2"
    using review_step.register [of 0 ?r1 ?i] id by (simp add: prompt_register_def sample_review_def)
  moreover have "review_step ?r2 ?r3"
    using review_step.publish [of 0 ?r2 ?i None] id by (simp add: prompt_publish_def review_forward_def sample_review_def)
  moreover have "review_step ?r3 ?r4"
    using review_step.decision [of "''x''" "Reject None" ?r3] by (simp add: decide_def review_remove_def review_forward_def sample_review_def)
  moreover have "review_step ?r4 (sample_review [Returned ''x'' (Reject None)] {} Map.empty [Upsert ?i, Remove ''x''] [(''x'', Reject None, True)])"
    using review_step.receive [of 0 ?r4 "''x''" "Reject None"] by (simp add: prompt_receive_def sample_review_def)
  ultimately show ?thesis by (meson converse_rtranclp_into_rtranclp rtranclp.rtrancl_refl)
qed


end
