(* ===== verification/Recording_Proxy.thy ===== *)
theory Recording_Proxy
  imports Sse Reviews
begin

text \<open>
  The recording proxy (\<open>omniagent-cli/src/proxy.rs\<close>): which requests are forwarded and where to, which
  headers are copied and how they are recorded, the forced model, and the handler with and without review.
  The JSON library, the HTTP client and the environment are arguments.
\<close>

section \<open>Paths and addresses\<close>

text \<open>\<open>str::split_once\<close> and \<open>rsplit_once\<close> with a string as separator, and \<open>trim_end_matches\<close> for a character.\<close>

fun str_split_once :: "string \<Rightarrow> string \<Rightarrow> (string \<times> string) option" where
  "str_split_once sep [] = (if sep = [] then Some ([], []) else None)"
| "str_split_once sep (c # cs) = (case strip_prefix sep (c # cs) of Some rest \<Rightarrow> Some ([], rest)
     | None \<Rightarrow> map_option (\<lambda>(a, b). (c # a, b)) (str_split_once sep cs))"

definition str_rsplit_once :: "string \<Rightarrow> string \<Rightarrow> (string \<times> string) option" where
  "str_rsplit_once sep s = map_option (\<lambda>(a, b). (rev b, rev a)) (str_split_once (rev sep) (rev s))"

definition trim_end :: "char \<Rightarrow> string \<Rightarrow> string" where
  "trim_end c s = rev (dropWhile (\<lambda>x. x = c) (rev s))"

definition ALLOWED_PATH_PREFIXES :: "string list" where
  "ALLOWED_PATH_PREFIXES =
     [''/v1/messages'', ''/v1/complete'', ''/v1/responses'', ''/responses'', ''/v1/chat/completions'', ''/chat/completions'',
      ''/v1/completions'', ''/completions'', ''/v1/models'', ''/models'', ''/v1/embeddings'', ''/embeddings'', ''/v1/files'', ''/files'',
      ''/v1beta/models'', ''/v1alpha/models'', ''/v1internal'', ''/search'', ''/fetch'', ''/usages'', ''/feedback'']"

definition classify :: "string \<Rightarrow> Provider" where
  "classify p =
     (if prefix ''/v1beta'' p \<or> prefix ''/v1alpha'' p \<or> prefix ''/v1internal'' p \<or> str_contains '':generateContent'' p
         \<or> str_contains '':streamGenerateContent'' p then Gemini
      else if prefix ''/v1/messages'' p \<or> prefix ''/v1/complete'' p then Anthropic
      else OpenAI)"

definition is_allowed_path :: "string \<Rightarrow> bool" where
  "is_allowed_path p = (let clean = trim_end (CHR ''/'') (takeWhile (\<lambda>c. c \<noteq> CHR ''?'') p) in
     list_ex (\<lambda>pre. clean = pre \<or> (case strip_prefix pre clean of None \<Rightarrow> False | Some rest \<Rightarrow> prefix ''/'' rest \<or> prefix '':'' rest))
       ALLOWED_PATH_PREFIXES)"

definition upstream_from_env :: "(string \<rightharpoonup> string) \<Rightarrow> string list \<Rightarrow> string \<Rightarrow> string" where
  "upstream_from_env var vars dflt = trim_end (CHR ''/'')
     (case List.map_filter (\<lambda>v. non_empty (var v)) vars of x # xs \<Rightarrow> x | [] \<Rightarrow> dflt)"

definition base_path :: "string \<Rightarrow> string" where
  "base_path base_url =
     (let rest = (case str_rsplit_once ''://'' (trim_end (CHR ''/'') base_url) of Some (_, r) \<Rightarrow> r | None \<Rightarrow> base_url) in
      case split_once (CHR ''/'') rest of Some (_, p) \<Rightarrow> p | None \<Rightarrow> [])"

definition strip_duplicate_prefix :: "string \<Rightarrow> string \<Rightarrow> string \<Rightarrow> string" where
  "strip_duplicate_prefix base_url p pre =
     (let pre = dropWhile (\<lambda>c. c = CHR ''/'') pre in
      if base_path base_url = pre \<or> suffix (''/'' @ pre) (base_path base_url)
      then (case strip_prefix (''/'' @ pre) p of Some rest \<Rightarrow> rest | None \<Rightarrow> p) else p)"

definition upstream_url :: "Provider \<Rightarrow> string \<Rightarrow> string \<Rightarrow> string" where
  "upstream_url provider base_url path_and_query = base_url @ (case provider of
       Anthropic \<Rightarrow> path_and_query
     | OpenAI \<Rightarrow> strip_duplicate_prefix base_url path_and_query ''/v1''
     | Gemini \<Rightarrow> strip_duplicate_prefix base_url path_and_query ''/v1beta'')"

definition path_from_path_and_query :: "string \<Rightarrow> string" where
  "path_from_path_and_query p = (case split_once (CHR ''?'') p of Some (a, _) \<Rightarrow> a | None \<Rightarrow> p)"

definition agent_env :: "(string \<rightharpoonup> string) \<Rightarrow> string \<Rightarrow> (string \<times> string) list" where
  "agent_env var_os url = (let base = trim_end (CHR ''/'') url in
     [(''ANTHROPIC_BASE_URL'', base), (''OPENAI_BASE_URL'', base @ ''/v1''), (''OPENROUTER_BASE_URL'', base @ ''/v1''),
      (''CUSTOM_BASE_URL'', base @ ''/v1''), (''MOONSHOT_BASE_URL'', base @ ''/v1''), (''KIMI_BASE_URL'', base),
      (''GOOGLE_GEMINI_BASE_URL'', base), (''GOOGLE_VERTEX_BASE_URL'', base), (''GEMINI_API_BASE_URL'', base),
      (''GOOGLE_GENAI_USE_VERTEXAI'', ''false'')] @
     (if var_os ''ANTHROPIC_AUTH_TOKEN'' = None \<and> var_os ''ANTHROPIC_API_KEY'' = None
      then [(''ANTHROPIC_AUTH_TOKEN'', ''omniagent-placeholder'')] else []))"

section \<open>Headers\<close>

text \<open>A header map as the list of its entries; names are lower case. \<open>insert\<close> replaces all values of a name.\<close>

type_synonym headers = "(string \<times> string) list"

definition header_insert :: "string \<Rightarrow> string \<Rightarrow> headers \<Rightarrow> headers" where
  "header_insert n v hs = filter (\<lambda>(m, _). m \<noteq> n) hs @ [(n, v)]"

definition header_get :: "string \<Rightarrow> headers \<Rightarrow> string option" where
  "header_get n hs = map_of hs n"

definition header_remove :: "string \<Rightarrow> headers \<Rightarrow> headers" where
  "header_remove n hs = filter (\<lambda>(m, _). m \<noteq> n) hs"

text \<open>\<open>HeaderValue::to_str\<close>: visible ASCII, space and tab.\<close>

definition header_to_str :: "string \<Rightarrow> string option" where
  "header_to_str v = (if list_all (\<lambda>c. char_between (CHR '' '') (CHR ''~'') c \<or> c = CHR 0x09) v then Some v else None)"

definition filter_headers :: "headers \<Rightarrow> string list \<Rightarrow> headers" where
  "filter_headers hs drops = foldl (\<lambda>out (n, v). if to_ascii_lowercase n \<in> set drops then out else header_insert n v out) [] hs"

definition REQUEST_DROPS :: "string list" where
  "REQUEST_DROPS = [''host'', ''content-length'', ''accept-encoding'', ''connection'', ''keep-alive'', ''proxy-authenticate'',
     ''proxy-authorization'', ''te'', ''trailer'', ''trailers'', ''transfer-encoding'', ''upgrade'']"

definition RESPONSE_DROPS :: "string list" where
  "RESPONSE_DROPS = [''content-length'', ''content-encoding'', ''transfer-encoding'', ''connection'', ''keep-alive'',
     ''proxy-authenticate'', ''proxy-authorization'', ''te'', ''trailer'', ''trailers'', ''upgrade'']"

definition forward_request_headers :: "headers \<Rightarrow> headers" where
  "forward_request_headers hs = header_insert ''accept-encoding'' ''identity'' (filter_headers hs REQUEST_DROPS)"

definition forward_response_headers :: "headers \<Rightarrow> headers" where
  "forward_response_headers hs = filter_headers hs RESPONSE_DROPS"

definition is_streaming :: "headers \<Rightarrow> bool" where
  "is_streaming hs = (case Option.bind (header_get ''content-type'' hs) header_to_str of Some ct \<Rightarrow> str_contains ''event-stream'' ct | None \<Rightarrow> False)"

definition request_base_url :: "headers \<Rightarrow> string" where
  "request_base_url hs = (case non_empty (Option.bind (header_get ''host'' hs) header_to_str) of Some h \<Rightarrow> ''http://'' @ h | None \<Rightarrow> [])"

subsection \<open>Redaction\<close>

definition SENSITIVE :: "string list" where
  "SENSITIVE = [''authorization'', ''x-api-key'', ''api-key'', ''proxy-authorization'', ''cookie'', ''set-cookie'', ''set-cookie2'',
     ''x-amz-security-token'', ''cosy-key'', ''cosy-machinetoken'', ''cosy-machine-token'', ''cosy-machineid'', ''cosy-machine-id'',
     ''cosy-machinetype'', ''cosy-machine-type'', ''cosy-user'']"

definition is_sensitive_header :: "string \<Rightarrow> bool" where
  "is_sensitive_header name = (let n = to_ascii_lowercase name in
     n \<in> set SENSITIVE \<or> suffix ''-api-key'' n \<or> str_contains ''token'' n \<or> str_contains ''secret'' n)"

definition redact_token :: "string \<Rightarrow> string" where
  "redact_token v = (let cs = chars v in
     if length cs \<le> 8 then ''<redacted:'' @ show_nat (length cs) @ ''>''
     else concat (take 4 cs) @ ''...'' @ concat (drop (length cs - 4) cs) @ '' ('' @ show_nat (length cs) @ '')'')"

definition redact_secret :: "string \<Rightarrow> string" where
  "redact_secret v = (let trimmed = str_trim v; first = takeWhile (\<lambda>c. \<not> is_whitespace c) (chars trimmed);
       rest = dropWhile (\<lambda>c. \<not> is_whitespace c) (chars trimmed) in
     if trimmed = [] then ''<empty>''
     else if rest = [] then redact_token trimmed
     else concat first @ '' '' @ redact_token (str_trim (concat (tl rest))))"

definition redact_header_value :: "string \<Rightarrow> string \<Rightarrow> string" where
  "redact_header_value name v = (if is_sensitive_header name then redact_secret v else v)"

definition capture_header :: "HeaderSnapshot \<Rightarrow> string \<times> string \<Rightarrow> HeaderSnapshot" where
  "capture_header out = (\<lambda>(name, v).
     let s = (case header_to_str v of Some s \<Rightarrow> s | None \<Rightarrow> ''<non-utf8>''); k = to_ascii_lowercase name in
     bt_insert k ((case bt_get out k of Some vs \<Rightarrow> vs | None \<Rightarrow> []) @ [redact_header_value name s]) out)"

definition capture_headers :: "headers \<Rightarrow> HeaderSnapshot" where
  "capture_headers hs = foldl capture_header [] hs"

section \<open>Models and usage\<close>

definition clean_model :: "string option \<Rightarrow> string option" where
  "clean_model m = non_empty (map_option str_trim m)"

definition rewrite_gemini_model_path :: "string \<Rightarrow> string \<Rightarrow> string" where
  "rewrite_gemini_model_path model p =
     (let m = (case strip_prefix ''models/'' model of Some r \<Rightarrow> r | None \<Rightarrow> model) in
      case str_split_once ''models/'' p of None \<Rightarrow> p
      | Some (pre, rest) \<Rightarrow> pre @ ''models/'' @ m @ dropWhile (\<lambda>c. c \<notin> set '':/?'') rest)"

definition is_raw_wrapper :: "jvalue \<Rightarrow> bool" where
  "is_raw_wrapper request = (case as_object request of None \<Rightarrow> False | Some m \<Rightarrow> length m = 1 \<and> bt_get m ''raw'' \<noteq> None)"

definition override_request :: "Provider \<Rightarrow> string \<Rightarrow> jvalue \<Rightarrow> jvalue" where
  "override_request provider model request = (case as_object request of None \<Rightarrow> request
     | Some m \<Rightarrow> if is_raw_wrapper request then request
        else if bt_get m ''model_id'' \<noteq> None then VObj (bt_insert ''model_id'' (VStr model) m)
        else if bt_get m ''model'' \<noteq> None \<or> provider \<noteq> Gemini then VObj (bt_insert ''model'' (VStr model) m)
        else request)"

text \<open>Request, body and path of the forwarded request; \<open>to_vec\<close> encodes a value.\<close>

definition apply_model_override ::
  "(jvalue \<Rightarrow> string option) \<Rightarrow> Provider \<Rightarrow> string \<Rightarrow> jvalue \<times> string \<times> string \<Rightarrow> jvalue \<times> string \<times> string" where
  "apply_model_override to_vec provider model = (\<lambda>(request, body, path_and_query).
     (let request' = override_request provider model request in
      (request',
       (if is_object request \<and> \<not> is_raw_wrapper request then (case to_vec request' of Some b \<Rightarrow> b | None \<Rightarrow> body) else body),
       (if provider = Gemini then rewrite_gemini_model_path model path_and_query else path_and_query))))"

text \<open>\<open>path.split("models/").nth(1)\<close>: what stands between the first and the second occurrence.\<close>

definition request_model :: "Provider \<Rightarrow> jvalue \<Rightarrow> string \<Rightarrow> string option" where
  "request_model provider request p = (case Option.bind (or_else (vget ''model'' request) (vget ''model_id'' request)) as_str of
       Some m \<Rightarrow> Some m
     | None \<Rightarrow> if provider \<noteq> Gemini then None
        else (case str_split_once ''models/'' p of None \<Rightarrow> None
          | Some (_, rest) \<Rightarrow>
             (let after = (case str_split_once ''models/'' rest of Some (a, _) \<Rightarrow> a | None \<Rightarrow> rest) in
              non_empty (Some (takeWhile (\<lambda>c. c \<noteq> CHR '':'') after)))))"

definition response_model :: "jvalue \<Rightarrow> string option" where
  "response_model v = or_else (get_str ''model'' v) (get_str ''model_id'' v)"

definition extract_usage :: "Provider \<Rightarrow> jvalue \<Rightarrow> Usage" where
  "extract_usage provider v =
     (case vget (if provider = Gemini then ''usageMetadata'' else ''usage'') v of Some u \<Rightarrow> Usage_from_value u | None \<Rightarrow> Usage_default)"

section \<open>The outside\<close>

text \<open>
  A request that is sent and what becomes of it: the transport fails, or there is a status, headers and the
  chunks of the body, of which one may be an error.
\<close>

record outgoing =
  og_method :: string
  og_url :: string
  og_headers :: headers
  og_body :: string

datatype answer = SendFailed string | Answered "16 word" headers "(string + string) list"

record proxy_ext =
  px_from_slice :: "string \<Rightarrow> jvalue option"
  px_from_str :: json_parser
  px_lossy :: "string \<Rightarrow> string"
  px_to_vec :: "jvalue \<Rightarrow> string option"
  px_to_string :: "jvalue \<Rightarrow> string"
  px_fmt :: "int \<Rightarrow> string option"
  px_now :: int
  px_uuid :: "64 word \<Rightarrow> string"
  px_write_fails :: "64 word \<Rightarrow> bool"
  px_valid_method :: "string \<Rightarrow> bool"
  px_send :: "nat \<Rightarrow> outgoing \<Rightarrow> answer"
  px_elapsed_ms :: "nat \<Rightarrow> 64 word"
  px_hangup :: "nat option"

record ProxyState =
  ps_reviews_enabled :: bool
  anthropic_upstream :: string
  openai_upstream :: string
  gemini_upstream :: string
  model_override :: "string option"

definition ProxyState_new :: "(string \<rightharpoonup> string) \<Rightarrow> bool \<Rightarrow> string option \<Rightarrow> ProxyState" where
  "ProxyState_new var reviews_on model = \<lparr>ps_reviews_enabled = reviews_on,
     anthropic_upstream = upstream_from_env var [''ANTHROPIC_BASE_URL''] ''https://api.anthropic.com'',
     openai_upstream = upstream_from_env var
       [''OPENAI_BASE_URL'', ''OPENROUTER_BASE_URL'', ''CUSTOM_BASE_URL'', ''MOONSHOT_BASE_URL'', ''KIMI_BASE_URL''] ''https://api.openai.com'',
     gemini_upstream = upstream_from_env var
       [''GOOGLE_GEMINI_BASE_URL'', ''GOOGLE_VERTEX_BASE_URL'', ''GEMINI_API_BASE_URL''] ''https://generativelanguage.googleapis.com'',
     model_override = model\<rparr>"

record proxy_world =
  pw_traces :: TraceStore
  pw_sent :: "outgoing list"

record proxy_response =
  rp_status :: "16 word"
  rp_headers :: headers
  rp_body :: "(string + string) list"

definition upstream_for :: "ProxyState \<Rightarrow> Provider \<Rightarrow> string" where
  "upstream_for st provider = (case provider of
       Anthropic \<Rightarrow> anthropic_upstream st | OpenAI \<Rightarrow> openai_upstream st | Gemini \<Rightarrow> gemini_upstream st)"

definition proxy_record :: "proxy_ext \<Rightarrow> SpanDraft \<Rightarrow> proxy_world \<Rightarrow> proxy_world" where
  "proxy_record ex draft w = w\<lparr>pw_traces := snd (trace_record (px_fmt ex) (px_uuid ex (ts_sequence (pw_traces w)))
     (px_write_fails ex (ts_sequence (pw_traces w))) draft (pw_traces w))\<rparr>"

definition proxy_send :: "proxy_ext \<Rightarrow> outgoing \<Rightarrow> proxy_world \<Rightarrow> answer \<times> proxy_world" where
  "proxy_send ex og w = (px_send ex (length (pw_sent w)) og, w\<lparr>pw_sent := pw_sent w @ [og]\<rparr>)"

definition error_response :: "proxy_ext \<Rightarrow> 16 word \<Rightarrow> string \<Rightarrow> proxy_response" where
  "error_response ex status msg = \<lparr>rp_status = status, rp_headers = [(''content-type'', ''application/json'')],
     rp_body = [Inr (px_to_string ex (vobj [(''error'', vobj [(''message'', VStr msg)])]))]\<rparr>"

definition parse_body :: "proxy_ext \<Rightarrow> string \<Rightarrow> jvalue" where
  "parse_body ex body = (if body = [] then VNull
     else case px_from_slice ex body of Some v \<Rightarrow> v | None \<Rightarrow> vobj [(''raw'', VStr (px_lossy ex body))])"

text \<open>\<open>None\<close>: the reassembly panics.\<close>

definition complete_span_draft :: "proxy_ext \<Rightarrow> SpanDraft \<Rightarrow> string \<Rightarrow> Provider \<Rightarrow> bool \<Rightarrow> 64 word \<Rightarrow> SpanDraft option" where
  "complete_span_draft ex draft body provider streaming elapsed =
     (let draft = draft\<lparr>sd_latency_ms := elapsed\<rparr> in
      if streaming then do {
        (snap, usage, events) \<leftarrow> reconstruct (px_lossy ex) (px_from_str ex) body;
        Some (draft\<lparr>sd_usage := usage, sd_stream_events := events,
          sd_model := (if sd_model draft = None then Option.bind snap response_model else sd_model draft),
          sd_response := (case snap of Some v \<Rightarrow> v | None \<Rightarrow> vobj [(''streaming'', VBool True), (''raw'', VStr (px_lossy ex body))])\<rparr>) }
      else (let v = parse_body ex body in
        Some (draft\<lparr>sd_usage := extract_usage provider v, sd_model := (if sd_model draft = None then response_model v else sd_model draft),
          sd_response := v\<rparr>)))"

definition finalize_span :: "proxy_ext \<Rightarrow> SpanDraft \<Rightarrow> string \<Rightarrow> Provider \<Rightarrow> bool \<Rightarrow> 64 word \<Rightarrow> proxy_world \<Rightarrow> proxy_world option" where
  "finalize_span ex draft body provider streaming elapsed w =
     map_option (\<lambda>d. proxy_record ex d w) (complete_span_draft ex draft body provider streaming elapsed)"

section \<open>The handler\<close>

record incoming =
  in_method :: string
  in_path :: string
  in_path_and_query :: "string option"
  in_headers :: headers
  in_body :: string

text \<open>
  The task that copies the body: what reaches the agent, what is accumulated, and the error, if one comes.
  The agent hangs up after the given number of chunks.
\<close>

fun tee :: "nat option \<Rightarrow> (string + string) list \<Rightarrow> (string + string) list \<times> string \<times> string option" where
  "tee h [] = ([], [], None)"
| "tee h (Inr c # cs) = (if h = Some 0 then ([], c, None)
     else (case tee (map_option (\<lambda>n. n - 1) h) cs of (delivered, acc, e) \<Rightarrow> (Inr c # delivered, c @ acc, e)))"
| "tee h (Inl e # cs) = ((if h = Some 0 then [] else [Inl e]), [], Some e)"

definition request_draft ::
  "proxy_ext \<Rightarrow> Provider \<Rightarrow> string \<Rightarrow> string \<Rightarrow> headers \<Rightarrow> string \<Rightarrow> jvalue \<Rightarrow> string option \<Rightarrow> SpanDraft" where
  "request_draft ex provider p method hs upstream request model =
     (SpanDraft_new (px_now ex) provider p)\<lparr>sd_method := method, sd_request_base_url := request_base_url hs,
        sd_upstream_base_url := upstream, sd_request_headers := capture_headers hs, sd_request := request, sd_model := model\<rparr>"

record prepared =
  pr_provider :: Provider
  pr_upstream :: string
  pr_request :: jvalue
  pr_body :: string
  pr_path_and_query :: string
  pr_draft :: SpanDraft

definition prepare :: "proxy_ext \<Rightarrow> ProxyState \<Rightarrow> incoming \<Rightarrow> prepared" where
  "prepare ex st rq =
     (let p = in_path rq; provider = classify p; upstream = upstream_for st provider;
          pq = (case in_path_and_query rq of Some x \<Rightarrow> x | None \<Rightarrow> p);
          (request, body, pq) = (case clean_model (model_override st) of None \<Rightarrow> (parse_body ex (in_body rq), in_body rq, pq)
             | Some m \<Rightarrow> apply_model_override (px_to_vec ex) provider m (parse_body ex (in_body rq), in_body rq, pq)) in
      \<lparr>pr_provider = provider, pr_upstream = upstream, pr_request = request, pr_body = body, pr_path_and_query = pq,
       pr_draft = request_draft ex provider p (in_method rq) (in_headers rq) upstream request
         (request_model provider request (path_from_path_and_query pq))\<rparr>)"

definition outgoing_for :: "string \<Rightarrow> headers \<Rightarrow> Provider \<Rightarrow> string \<Rightarrow> string \<Rightarrow> string \<Rightarrow> outgoing" where
  "outgoing_for method hs provider upstream pq body = \<lparr>og_method = method, og_url = upstream_url provider upstream pq,
     og_headers = forward_request_headers hs, og_body = body\<rparr>"

text \<open>The streaming path: the response goes to the agent while the span is completed and recorded.\<close>

definition forward_streaming :: "proxy_ext \<Rightarrow> incoming \<Rightarrow> prepared \<Rightarrow> proxy_world \<Rightarrow> (proxy_response \<times> proxy_world) option" where
  "forward_streaming ex rq pr w =
     (if \<not> px_valid_method ex (in_method rq) then Some (error_response ex 400 ''invalid method'', w)
      else case proxy_send ex (outgoing_for (in_method rq) (in_headers rq) (pr_provider pr) (pr_upstream pr) (pr_path_and_query pr) (pr_body pr)) w of
        (SendFailed e, w1) \<Rightarrow>
          Some (error_response ex 502 ''upstream request failed'',
            proxy_record ex ((pr_draft pr)\<lparr>sd_error := Some e, sd_latency_ms := px_elapsed_ms ex (length (pw_sent w))\<rparr>) w1)
      | (Answered status hs chunks, w1) \<Rightarrow>
          (let (delivered, acc, e) = tee (px_hangup ex) chunks;
               draft = (pr_draft pr)\<lparr>sd_status := status, sd_streaming := is_streaming hs, sd_response_headers := capture_headers hs, sd_error := e\<rparr> in
           map_option (\<lambda>w2. (\<lparr>rp_status = status, rp_headers = header_remove ''content-length'' (forward_response_headers hs), rp_body = delivered\<rparr>, w2))
             (finalize_span ex draft acc (pr_provider pr) (is_streaming hs) (px_elapsed_ms ex (length (pw_sent w))) w1)))"

subsection \<open>Review\<close>

record ReviewContext =
  rc_method :: string
  rc_path_and_query :: string
  rc_headers :: headers
  rc_body :: string
  rc_provider :: Provider
  rc_upstream :: string
  rc_request :: jvalue

definition context_draft :: "proxy_ext \<Rightarrow> ReviewContext \<Rightarrow> SpanDraft" where
  "context_draft ex c = (let p = path_from_path_and_query (rc_path_and_query c) in
     request_draft ex (rc_provider c) p (rc_method c) (rc_headers c) (rc_upstream c) (rc_request c) (request_model (rc_provider c) (rc_request c) p))"

definition context_override :: "proxy_ext \<Rightarrow> string \<Rightarrow> ReviewContext \<Rightarrow> ReviewContext" where
  "context_override ex model c = (case apply_model_override (px_to_vec ex) (rc_provider c) model (rc_request c, rc_body c, rc_path_and_query c) of
     (request, body, pq) \<Rightarrow> c\<lparr>rc_request := request, rc_body := body, rc_path_and_query := pq\<rparr>)"

record ReviewAttempt =
  ra_status :: "16 word"
  ra_headers :: headers
  ra_bytes :: string
  ra_completed :: SpanDraft

text \<open>\<open>Response::bytes\<close>: the whole body, or the first error.\<close>

fun all_bytes :: "(string + string) list \<Rightarrow> string + string" where
  "all_bytes [] = Inr []"
| "all_bytes (Inl e # cs) = Inl e"
| "all_bytes (Inr c # cs) = (case all_bytes cs of Inl e \<Rightarrow> Inl e | Inr b \<Rightarrow> Inr (c @ b))"

definition execute_buffered :: "proxy_ext \<Rightarrow> ReviewContext \<Rightarrow> proxy_world \<Rightarrow> ((SpanDraft + ReviewAttempt) \<times> proxy_world) option" where
  "execute_buffered ex c w =
     (let draft = context_draft ex c; elapsed = px_elapsed_ms ex (length (pw_sent w)) in
      case proxy_send ex (outgoing_for (rc_method c) (rc_headers c) (rc_provider c) (rc_upstream c) (rc_path_and_query c) (rc_body c)) w of
        (SendFailed e, w1) \<Rightarrow> Some (Inl (draft\<lparr>sd_error := Some e, sd_latency_ms := elapsed\<rparr>), w1)
      | (Answered status hs chunks, w1) \<Rightarrow>
          (let draft = draft\<lparr>sd_status := status, sd_streaming := is_streaming hs, sd_response_headers := capture_headers hs\<rparr> in
           case all_bytes chunks of
             Inl e \<Rightarrow> Some (Inl (draft\<lparr>sd_error := Some e, sd_latency_ms := elapsed\<rparr>), w1)
           | Inr bytes \<Rightarrow>
               map_option (\<lambda>d. (Inr \<lparr>ra_status = status, ra_headers = forward_response_headers hs, ra_bytes = bytes, ra_completed = d\<rparr>, w1))
                 (complete_span_draft ex draft bytes (rc_provider c) (is_streaming hs) elapsed)))"

definition run_review_attempt :: "proxy_ext \<Rightarrow> ReviewContext \<Rightarrow> proxy_world \<Rightarrow> ((proxy_response + ReviewAttempt) \<times> proxy_world) option" where
  "run_review_attempt ex c w = map_option (\<lambda>(r, w1). case r of
       Inl errored \<Rightarrow> (Inl (error_response ex 502 ''upstream request failed''), proxy_record ex errored w1)
     | Inr attempt \<Rightarrow> (Inr attempt, w1)) (execute_buffered ex c w)"

definition buffered_response :: "16 word \<Rightarrow> headers \<Rightarrow> string \<Rightarrow> proxy_response" where
  "buffered_response status hs body = \<lparr>rp_status = status, rp_headers = header_remove ''content-length'' hs, rp_body = [Inr body]\<rparr>"

definition approve_review_response :: "proxy_ext \<Rightarrow> ReviewAttempt \<Rightarrow> proxy_world \<Rightarrow> proxy_response \<times> proxy_world" where
  "approve_review_response ex a w = (buffered_response (ra_status a) (ra_headers a) (ra_bytes a), proxy_record ex (ra_completed a) w)"

definition review_rejection_message :: "string option \<Rightarrow> string" where
  "review_rejection_message msg = (case clean_model msg of Some m \<Rightarrow> m | None \<Rightarrow> ''rejected by operator'')"

definition reject_review_response :: "proxy_ext \<Rightarrow> SpanDraft \<Rightarrow> string option \<Rightarrow> proxy_world \<Rightarrow> proxy_response \<times> proxy_world" where
  "reject_review_response ex completed msg w = (let m = review_rejection_message msg in
     (error_response ex 499 m, proxy_record ex (completed\<lparr>sd_status := 499, sd_error := Some m\<rparr>) w))"

definition record_regenerated_attempt :: "proxy_ext \<Rightarrow> SpanDraft \<Rightarrow> proxy_world \<Rightarrow> proxy_world" where
  "record_regenerated_attempt ex completed w = proxy_record ex (completed\<lparr>sd_error := Some ''regenerated by operator''\<rparr>) w"

definition review_item :: "proxy_ext \<Rightarrow> string \<Rightarrow> SpanDraft \<Rightarrow> 32 word \<Rightarrow> ReviewItem" where
  "review_item ex i d attempt =
     \<lparr>ri_id = i, ri_sequence = 0, ri_phase = ResponsePhase, ri_attempt = attempt, ri_provider = sd_provider d, ri_model = sd_model d,
      ri_method = sd_method d, ri_path = sd_path d, ri_streaming = sd_streaming d, ri_request_base_url = sd_request_base_url d,
      ri_upstream_base_url = sd_upstream_base_url d, ri_request_headers = sd_request_headers d, ri_request = sd_request d,
      ri_response_headers = sd_response_headers d, ri_response = sd_response d, ri_usage = sd_usage d,
      ri_status = (if sd_status d = 0 then None else Some (sd_status d)),
      ri_latency_ms = (if sd_latency_ms d = 0 then None else Some (sd_latency_ms d)),
      ri_started_at = (case px_fmt ex (sd_started_at d) of Some t \<Rightarrow> t | None \<Rightarrow> []), ri_error = sd_error d\<rparr>"

text \<open>
  The loop, for a list of the operator's decisions as functions of the item shown: the response, or \<open>None\<close>
  inside while the operator has not decided. The number of an attempt saturates.
\<close>

datatype reviewed = Answer proxy_response | Waiting_for ReviewItem

definition next_attempt :: "32 word \<Rightarrow> 32 word" where
  "next_attempt n = (if n = - 1 then n else n + 1)"

fun review_loop :: "proxy_ext \<Rightarrow> ReviewContext \<Rightarrow> 32 word \<Rightarrow> (ReviewItem \<Rightarrow> ReviewDecision) list \<Rightarrow> proxy_world \<Rightarrow> (reviewed \<times> proxy_world) option" where
  "review_loop ex c n ds w = (case run_review_attempt ex c w of None \<Rightarrow> None
     | Some (Inl response, w1) \<Rightarrow> Some (Answer response, w1)
     | Some (Inr a, w1) \<Rightarrow>
        (let item = review_item ex (px_uuid ex (of_nat (length (pw_sent w1)))) (ra_completed a) n in
         case ds of [] \<Rightarrow> Some (Waiting_for item, w1)
         | d # ds' \<Rightarrow> (case d item of
              Approve _ \<Rightarrow> (case approve_review_response ex a w1 of (r, w2) \<Rightarrow> Some (Answer r, w2))
            | Reject msg \<Rightarrow> (case reject_review_response ex (ra_completed a) msg w1 of (r, w2) \<Rightarrow> Some (Answer r, w2))
            | Retry model \<Rightarrow> review_loop ex (case clean_model model of Some m \<Rightarrow> context_override ex m c | None \<Rightarrow> c) (next_attempt n) ds'
                (record_regenerated_attempt ex (ra_completed a) w1))))"

definition reviewed_proxy_handler ::
  "proxy_ext \<Rightarrow> incoming \<Rightarrow> prepared \<Rightarrow> (ReviewItem \<Rightarrow> ReviewDecision) list \<Rightarrow> proxy_world \<Rightarrow> (reviewed \<times> proxy_world) option" where
  "reviewed_proxy_handler ex rq pr ds w =
     (if \<not> px_valid_method ex (in_method rq) then Some (Answer (error_response ex 400 ''invalid method''), w)
      else review_loop ex \<lparr>rc_method = in_method rq, rc_path_and_query = pr_path_and_query pr, rc_headers = in_headers rq, rc_body = pr_body pr,
        rc_provider = pr_provider pr, rc_upstream = pr_upstream pr, rc_request = pr_request pr\<rparr> 1 ds w)"

definition proxy_handler ::
  "proxy_ext \<Rightarrow> ProxyState \<Rightarrow> incoming \<Rightarrow> (ReviewItem \<Rightarrow> ReviewDecision) list \<Rightarrow> proxy_world \<Rightarrow> (reviewed \<times> proxy_world) option" where
  "proxy_handler ex st rq ds w =
     (if \<not> is_allowed_path (in_path rq) then Some (Answer (error_response ex 404 ''not found''), w)
      else (let pr = prepare ex st rq in
        if ps_reviews_enabled st then reviewed_proxy_handler ex rq pr ds w
        else map_option (\<lambda>(r, w1). (Answer r, w1)) (forward_streaming ex rq pr w)))"

declare review_loop.simps [simp del]

section \<open>Every exchange is recorded once\<close>

definition spans_of :: "proxy_world \<Rightarrow> nat" where
  "spans_of w = length (ts_spans (pw_traces w))"

definition sent_of :: "proxy_world \<Rightarrow> nat" where
  "sent_of w = length (pw_sent w)"

text \<open>The books between two worlds: the store stays usable and so many more spans than requests are there.\<close>

definition booked :: "int \<Rightarrow> proxy_world \<Rightarrow> proxy_world \<Rightarrow> bool" where
  "booked n w w' \<longleftrightarrow> (\<not> ts_poisoned (pw_traces w) \<longrightarrow>
     \<not> ts_poisoned (pw_traces w') \<and> int (spans_of w') - int (spans_of w) = int (sent_of w') - int (sent_of w) + n)"

lemma booked_refl: "booked 0 w w"
  by (simp add: booked_def)

lemma booked_trans: "booked m w w1 \<Longrightarrow> booked n w1 w2 \<Longrightarrow> booked (m + n) w w2"
  by (auto simp: booked_def)

lemma booked_record: "booked 1 w (proxy_record ex d w)"
  by (auto simp: booked_def proxy_record_def trace_record_def next_sequence_def push_span_def persist_def forward_def spans_of_def sent_of_def
      Let_def split: option.split)

lemma booked_send: "proxy_send ex og w = (r, w') \<Longrightarrow> booked (- 1) w w'"
  by (auto simp: booked_def proxy_send_def spans_of_def sent_of_def)

lemma complete_span_draft_some: "\<exists>d'. complete_span_draft ex d body provider streaming elapsed = Some d'"
proof -
  obtain s where "feed_all (px_from_str ex) Reassembler_new (parse_events (px_lossy ex) (px_from_str ex) body) = Some s"
    using feed_all_some by blast
  then show ?thesis by (simp add: complete_span_draft_def reconstruct_def Let_def split: prod.split)
qed

lemma forward_streaming_booked:
  "\<exists>r w'. forward_streaming ex rq pr w = Some (r, w') \<and> booked 0 w w'"
proof (cases "px_valid_method ex (in_method rq)")
  case True
  obtain answer w1 where sent: "proxy_send ex (outgoing_for (in_method rq) (in_headers rq) (pr_provider pr) (pr_upstream pr)
      (pr_path_and_query pr) (pr_body pr)) w = (answer, w1)" by fastforce
  have rec: "booked 0 w (proxy_record ex d w1)" for d using booked_trans [OF booked_send [OF sent] booked_record] by simp
  show ?thesis
  proof (cases answer)
    case (SendFailed e)
    then show ?thesis using True sent rec by (simp add: forward_streaming_def)
  next
    case (Answered status hs chunks)
    obtain delivered acc e where tee: "tee (px_hangup ex) chunks = (delivered, acc, e)" by (metis prod_cases3)
    have "\<exists>w2. finalize_span ex d acc (pr_provider pr) (is_streaming hs) el w1 = Some w2 \<and> booked 0 w w2" for d el
      using complete_span_draft_some [of ex d acc "pr_provider pr" "is_streaming hs" el] rec by (auto simp: finalize_span_def)
    then show ?thesis using True sent Answered tee by (fastforce simp: forward_streaming_def Let_def)
  qed
qed (simp add: forward_streaming_def booked_refl)

lemma run_review_attempt_booked:
  "\<exists>r w'. run_review_attempt ex c w = Some (r, w') \<and> (case r of Inl _ \<Rightarrow> booked 0 w w' | Inr _ \<Rightarrow> booked (- 1) w w')"
proof -
  obtain answer w1 where sent: "proxy_send ex (outgoing_for (rc_method c) (rc_headers c) (rc_provider c) (rc_upstream c)
      (rc_path_and_query c) (rc_body c)) w = (answer, w1)" by fastforce
  have rec: "booked 0 w (proxy_record ex d w1)" for d using booked_trans [OF booked_send [OF sent] booked_record] by simp
  show ?thesis
  proof (cases answer)
    case (SendFailed e)
    then show ?thesis using sent rec by (simp add: run_review_attempt_def execute_buffered_def Let_def)
  next
    case (Answered status hs chunks)
    show ?thesis
    proof (cases "all_bytes chunks")
      case (Inl e)
      then show ?thesis using sent rec Answered by (simp add: run_review_attempt_def execute_buffered_def Let_def)
    next
      case (Inr bytes)
      then show ?thesis
        using sent Answered booked_send [OF sent] complete_span_draft_some [of ex _ bytes "rc_provider c" "is_streaming hs"]
        by (fastforce simp: run_review_attempt_def execute_buffered_def Let_def)
    qed
  qed
qed

definition exchange_booked :: "reviewed \<Rightarrow> proxy_world \<Rightarrow> proxy_world \<Rightarrow> bool" where
  "exchange_booked r w w' = (case r of Answer _ \<Rightarrow> booked 0 w w' | Waiting_for _ \<Rightarrow> booked (- 1) w w')"

lemma exchange_booked_trans: "booked 0 w w1 \<Longrightarrow> exchange_booked r w1 w2 \<Longrightarrow> exchange_booked r w w2"
  using booked_trans [of 0 w w1] by (auto simp: exchange_booked_def split: reviewed.splits)

lemma review_loop_booked: "\<exists>r w'. review_loop ex c n ds w = Some (r, w') \<and> exchange_booked r w w'"
proof (induction ds arbitrary: c n w)
  case Nil
  obtain r w1 where run: "run_review_attempt ex c w = Some (r, w1)" "case r of Inl _ \<Rightarrow> booked 0 w w1 | Inr _ \<Rightarrow> booked (- 1) w w1"
    using run_review_attempt_booked by blast
  then show ?case by (cases r; subst review_loop.simps) (simp_all add: exchange_booked_def Let_def)
next
  case (Cons d ds)
  obtain r w1 where run: "run_review_attempt ex c w = Some (r, w1)" "case r of Inl _ \<Rightarrow> booked 0 w w1 | Inr _ \<Rightarrow> booked (- 1) w w1"
    using run_review_attempt_booked by blast
  show ?case
  proof (cases r)
    case (Inl response)
    then show ?thesis using run by (subst review_loop.simps) (simp add: exchange_booked_def)
  next
    case (Inr a)
    have rec: "booked 0 w (proxy_record ex x w1)" for x using booked_trans [OF _ booked_record, of "- 1" w w1] run(2) Inr by simp
    let ?item = "review_item ex (px_uuid ex (of_nat (length (pw_sent w1)))) (ra_completed a) n"
    show ?thesis
    proof (cases "d ?item")
      case (Retry model)
      from Cons.IH [of "case clean_model model of Some m \<Rightarrow> context_override ex m c | None \<Rightarrow> c" "next_attempt n" "record_regenerated_attempt ex (ra_completed a) w1"]
      show ?thesis using Retry run Inr exchange_booked_trans [OF rec]
        by (subst review_loop.simps) (auto simp: Let_def record_regenerated_attempt_def)
    qed (use run Inr rec in \<open>(subst review_loop.simps, simp add: Let_def exchange_booked_def approve_review_response_def reject_review_response_def)+\<close>)
  qed
qed

text \<open>
  C14. Every request the proxy sends upstream is recorded exactly once by the time the agent has its answer,
  and no other span is recorded: with and without review, after any number of retries, and whatever fails
  upstream. While the operator has not decided on an attempt, that attempt is the only one not recorded.
\<close>

theorem exchanges_recorded_once:
  assumes "\<not> ts_poisoned (pw_traces w)"
  shows "\<exists>r w'. proxy_handler ex st rq ds w = Some (r, w') \<and>
    int (spans_of w') - int (spans_of w) = int (sent_of w') - int (sent_of w) - (case r of Answer _ \<Rightarrow> 0 | Waiting_for _ \<Rightarrow> 1)"
proof -
  have "\<exists>r w'. proxy_handler ex st rq ds w = Some (r, w') \<and> exchange_booked r w w'"
    using forward_streaming_booked [of ex rq "prepare ex st rq" w] review_loop_booked booked_refl [of w]
    by (auto simp: proxy_handler_def reviewed_proxy_handler_def Let_def exchange_booked_def)
  then show ?thesis using assms by (fastforce simp: exchange_booked_def booked_def split: reviewed.splits)
qed

section \<open>Forwarded headers\<close>

lemma header_insert_get: "map_of (header_insert m v out) n = (if n = m then Some v else map_of out n)"
  by (induction out) (auto simp: header_insert_def)

lemma header_insert_distinct: "distinct (map fst out) \<Longrightarrow> distinct (map fst (header_insert m v out))"
  by (induction out) (auto simp: header_insert_def)

lemma filter_headers_snoc:
  "filter_headers (hs @ [(m, v)]) drops = (if to_ascii_lowercase m \<in> set drops then filter_headers hs drops else header_insert m v (filter_headers hs drops))"
  by (simp add: filter_headers_def)

lemma filter_headers_get:
  "map_of (filter_headers hs drops) n = (if to_ascii_lowercase n \<in> set drops then None else map_of (rev hs) n)"
proof (induction hs rule: rev_induct)
  case (snoc h hs)
  then show ?case by (cases h) (auto simp: filter_headers_snoc header_insert_get)
qed (simp add: filter_headers_def)

lemma filter_headers_distinct: "distinct (map fst (filter_headers hs drops))"
proof (induction hs rule: rev_induct)
  case (snoc h hs)
  then show ?case by (cases h) (simp add: filter_headers_snoc header_insert_distinct)
qed (simp add: filter_headers_def)

text \<open>
  The headers of a forwarded request are, name by name, the last value the agent gave, without the
  hop-by-hop headers and with an identity encoding; each name occurs once.
\<close>

theorem forward_request_headers_exact:
  "header_get n (forward_request_headers hs) =
     (if n = ''accept-encoding'' then Some ''identity'' else if to_ascii_lowercase n \<in> set REQUEST_DROPS then None else map_of (rev hs) n)
   \<and> distinct (map fst (forward_request_headers hs))"
  by (simp add: forward_request_headers_def header_get_def header_insert_get filter_headers_get header_insert_distinct filter_headers_distinct)

text \<open>A header that a server sends twice, such as a cookie, reaches the agent once.\<close>

theorem repeated_header_lost:
  "forward_response_headers [(''set-cookie'', ''a=1''), (''set-cookie'', ''b=2'')] = [(''set-cookie'', ''b=2'')]"
  by code_simp

section \<open>Recorded headers\<close>

text \<open>A value of one word: visible ASCII without spaces.\<close>

definition secret_word :: "string \<Rightarrow> bool" where
  "secret_word v \<longleftrightarrow> v \<noteq> [] \<and> list_all (char_between (CHR ''!'') (CHR ''~'')) v"

lemma visible_char:
  assumes "char_between (CHR ''!'') (CHR ''~'') c"
  shows "utf8_width c = 1" "\<not> is_whitespace [c]"
  using assms by (auto simp: char_between_def utf8_width_def Let_def is_whitespace_def is_space_def)

lemma chars_visible: "list_all (char_between (CHR ''!'') (CHR ''~'')) v \<Longrightarrow> chars v = map (\<lambda>c. [c]) v"
  by (induction v) (simp_all add: visible_char)

lemma chars_append_visible: "list_all (char_between (CHR ''!'') (CHR ''~'')) v \<Longrightarrow> chars (v @ s) = map (\<lambda>c. [c]) v @ chars s"
  by (induction v) (simp_all add: visible_char)

lemma secret_word_whitespace:
  assumes "secret_word v"
  shows "chars v = map (\<lambda>c. [c]) v" "c \<in> set (chars v) \<Longrightarrow> \<not> is_whitespace c" "chars v \<noteq> []"
  using assms visible_char(2) chars_visible [of v] by (auto simp: secret_word_def list_all_iff)

lemma dropWhile_none: "(\<And>x. x \<in> set xs \<Longrightarrow> \<not> P x) \<Longrightarrow> dropWhile P xs = xs"
  by (cases xs) auto

lemma str_trim_word: "secret_word v \<Longrightarrow> str_trim v = v"
  using secret_word_whitespace [of v] dropWhile_none [of "chars v" is_whitespace] dropWhile_none [of "rev (chars v)" is_whitespace]
  by (simp add: str_trim_def concat_chars)

lemma redact_secret_word: "secret_word v \<Longrightarrow> redact_secret v = redact_token v"
  using secret_word_whitespace(2) [of v] dropWhile_eq_Nil_conv [of "\<lambda>c. \<not> is_whitespace c" "chars v"]
  by (auto simp: redact_secret_def str_trim_word Let_def secret_word_def)

text \<open>Two words that look the same when redacted: the same length and, if long, the same four characters at both ends.\<close>

definition same_outline :: "string \<Rightarrow> string \<Rightarrow> bool" where
  "same_outline v w \<longleftrightarrow> length v = length w \<and> (8 < length v \<longrightarrow> take 4 v = take 4 w \<and> drop (length v - 4) v = drop (length w - 4) w)"

lemma redact_token_outline: "secret_word v \<Longrightarrow> secret_word w \<Longrightarrow> same_outline v w \<Longrightarrow> redact_token v = redact_token w"
  by (auto simp: redact_token_def secret_word_whitespace(1) same_outline_def Let_def take_map drop_map)

lemma header_to_str_word: "secret_word v \<Longrightarrow> header_to_str v = Some v"
  by (auto simp: header_to_str_def secret_word_def list_all_iff char_between_def)

text \<open>
  C17. A trace does not depend on the secret part of a credential: exchanging a one-word value of a sensitive
  header for another of the same length that agrees in the first and last four characters (in the length
  only, up to eight characters) leaves the recorded headers as they are.
\<close>

theorem secret_words_not_recorded:
  assumes "is_sensitive_header n" "secret_word v" "secret_word w" "same_outline v w"
  shows "capture_headers (hs @ (n, v) # hs') = capture_headers (hs @ (n, w) # hs')"
  using assms redact_token_outline [OF assms(2,3,4)]
  by (simp add: capture_headers_def capture_header_def header_to_str_word redact_header_value_def redact_secret_word)

theorem secret_words_not_recorded_witness:
  "is_sensitive_header ''x-api-key'' \<and> secret_word ''sk-a11111zzzz'' \<and> secret_word ''sk-a22222zzzz'' \<and> same_outline ''sk-a11111zzzz'' ''sk-a22222zzzz'' \<and>
   capture_headers [(''x-api-key'', ''sk-a11111zzzz'')] = capture_headers [(''x-api-key'', ''sk-a22222zzzz'')]"
proof -
  have "is_sensitive_header ''x-api-key''" by (simp add: is_sensitive_header_def SENSITIVE_def to_ascii_lowercase_def char_between_def Let_def)
  moreover have "secret_word ''sk-a11111zzzz''" "secret_word ''sk-a22222zzzz''" by (simp_all add: secret_word_def char_between_def)
  moreover have "same_outline ''sk-a11111zzzz'' ''sk-a22222zzzz''" by (simp add: same_outline_def)
  ultimately show ?thesis using secret_words_not_recorded [of "''x-api-key''" "''sk-a11111zzzz''" "''sk-a22222zzzz''" "[]" "[]"] by simp
qed

text \<open>
  C36. The redaction keeps the first word of a value, which is meant to be the scheme of an authorization: of
  a sensitive header with several words, such as a cookie header with two cookies, the first word is
  recorded in full.
\<close>

theorem first_word_recorded:
  assumes "is_sensitive_header n" "secret_word a" "secret_word b"
  shows "redact_header_value n (a @ '' '' @ b) = a @ '' '' @ redact_token b"
proof -
  let ?v = "a @ '' '' @ b"
  have split: "chars ?v = chars a @ [''  '' ! 0 # []] @ chars b"
    using assms(2,3) chars_append_visible [of a "'' '' @ b"] chars_visible [of b] secret_word_whitespace(1) [of a]
    by (simp add: secret_word_def utf8_width_def)
  note a = secret_word_whitespace [OF assms(2)] and b = secret_word_whitespace [OF assms(3)]
  have trim: "str_trim ?v = ?v"
  proof -
    have "dropWhile is_whitespace (chars ?v) = chars ?v" unfolding split using a(2,3) by (cases "chars a") auto
    moreover have "dropWhile is_whitespace (rev (chars ?v)) = rev (chars ?v)"
      unfolding split using b(2,3) by (cases "rev (chars b)") (auto simp: rev_eq_Cons_iff)
    ultimately show ?thesis by (simp add: str_trim_def concat_chars)
  qed
  have space: "is_whitespace '' ''" by (simp add: is_whitespace_def is_space_def)
  have words: "takeWhile (\<lambda>c. \<not> is_whitespace c) (chars ?v) = chars a" "dropWhile (\<lambda>c. \<not> is_whitespace c) (chars ?v) = '' '' # chars b"
    unfolding split using a(2) space by (auto simp: takeWhile_append2 dropWhile_append2)
  have "redact_secret ?v = a @ '' '' @ redact_token b"
    unfolding redact_secret_def Let_def trim words by (simp add: concat_chars str_trim_word [OF assms(3)])
  then show ?thesis using assms(1) by (simp add: redact_header_value_def)
qed

theorem first_word_recorded_witness:
  "is_sensitive_header ''cookie'' \<and> secret_word ''sid=s3cr3t;'' \<and> secret_word ''theme=1'' \<and>
   redact_header_value ''cookie'' ''sid=s3cr3t; theme=1'' = ''sid=s3cr3t; <redacted:7>''"
proof -
  have "is_sensitive_header ''cookie''" by (simp add: is_sensitive_header_def SENSITIVE_def to_ascii_lowercase_def char_between_def Let_def)
  moreover have words: "secret_word ''sid=s3cr3t;''" "secret_word ''theme=1''" by (simp_all add: secret_word_def char_between_def)
  moreover have "redact_token ''theme=1'' = ''<redacted:7>''"
    by (simp add: redact_token_def show_nat.simps digit_char_def Let_def utf8_width_def, code_simp)
  ultimately show ?thesis using first_word_recorded [of "''cookie''" "''sid=s3cr3t;''" "''theme=1''"] by simp
qed

section \<open>The forced model\<close>

lemma override_request_model:
  assumes "as_object request = Some m" "\<not> is_raw_wrapper request" "provider \<noteq> Gemini" "bt_get m ''model'' = None \<or> bt_get m ''model_id'' = None"
  shows "request_model provider (override_request provider model request) p = Some model"
  using assms by (auto simp: override_request_def request_model_def or_else_def bt_get_insert)

text \<open>
  With a forced model, what is sent to Anthropic or an OpenAI-compatible upstream for a JSON object asks
  for exactly that model, whatever model the agent asked for, and the span says so; the body that is sent
  is the encoding of the changed request. (The request must not carry both \<open>model\<close> and \<open>model_id\<close>.)
\<close>

theorem forced_model_sent:
  assumes "clean_model (model_override st) = Some model" "classify (in_path rq) \<noteq> Gemini"
    and "as_object (parse_body ex (in_body rq)) = Some m" "\<not> is_raw_wrapper (parse_body ex (in_body rq))"
    and "bt_get m ''model'' = None \<or> bt_get m ''model_id'' = None"
    and "px_to_vec ex (override_request (classify (in_path rq)) model (parse_body ex (in_body rq))) = Some encoded"
  shows "sd_model (pr_draft (prepare ex st rq)) = Some model \<and> pr_body (prepare ex st rq) = encoded \<and>
    request_model (classify (in_path rq)) (pr_request (prepare ex st rq)) p = Some model"
proof -
  have obj: "is_object (parse_body ex (in_body rq))" using assms(3) by (cases "parse_body ex (in_body rq)") auto
  show ?thesis
    using assms override_request_model [OF assms(3,4,2,5), of model] obj
    by (simp add: prepare_def apply_model_override_def request_draft_def Let_def)
qed

text \<open>A request that carries both fields keeps its own model: only \<open>model_id\<close> is replaced.\<close>

theorem model_id_bypasses_override:
  "request_model OpenAI (override_request OpenAI ''forced'' (vobj [(''model'', VStr ''own''), (''model_id'', VStr ''x'')])) p = Some ''own''"
  by (simp add: override_request_def request_model_def or_else_def vobj_def is_raw_wrapper_def)

section \<open>The body\<close>

fun until_error :: "(string + string) list \<Rightarrow> (string + string) list" where
  "until_error [] = []"
| "until_error (Inr c # cs) = Inr c # until_error cs"
| "until_error (Inl e # cs) = [Inl e]"

fun ok_bytes :: "(string + string) list \<Rightarrow> string" where
  "ok_bytes [] = []"
| "ok_bytes (Inr c # cs) = c @ ok_bytes cs"
| "ok_bytes (Inl e # cs) = []"

lemma tee_all: "\<exists>e. tee None chunks = (until_error chunks, ok_bytes chunks, e)"
  by (induction chunks rule: until_error.induct) auto

text \<open>
  C16. Without review the proxy is transparent: the agent that stays on the line gets the status of the
  upstream and its chunks, in order, up to and including the first error; and the recorded span has the
  request that was sent, the status and headers of the answer, and is completed from exactly the bytes
  the agent got.
\<close>

theorem proxy_transparent:
  assumes "is_allowed_path (in_path rq)" "\<not> ps_reviews_enabled st" "px_valid_method ex (in_method rq)" "px_hangup ex = None"
    and "\<And>og. px_send ex (length (pw_sent w)) og = Answered status hs chunks"
  shows "\<exists>w' draft d. proxy_handler ex st rq ds w = Some (Answer \<lparr>rp_status = status,
      rp_headers = header_remove ''content-length'' (forward_response_headers hs), rp_body = until_error chunks\<rparr>, w') \<and>
    sd_status draft = status \<and> sd_request draft = pr_request (prepare ex st rq) \<and> sd_response_headers draft = capture_headers hs \<and>
    complete_span_draft ex draft (ok_bytes chunks) (classify (in_path rq)) (is_streaming hs) (px_elapsed_ms ex (length (pw_sent w))) = Some d \<and>
    (\<exists>w1. w' = proxy_record ex d w1 \<and> pw_traces w1 = pw_traces w)"
proof -
  obtain e where tee: "tee None chunks = (until_error chunks, ok_bytes chunks, e)" using tee_all by blast
  let ?pr = "prepare ex st rq"
  let ?draft = "(pr_draft ?pr)\<lparr>sd_status := status, sd_streaming := is_streaming hs, sd_response_headers := capture_headers hs, sd_error := e\<rparr>"
  have provider: "pr_provider ?pr = classify (in_path rq)" by (simp add: prepare_def Let_def split: prod.split)
  obtain d where d: "complete_span_draft ex ?draft (ok_bytes chunks) (classify (in_path rq)) (is_streaming hs) (px_elapsed_ms ex (length (pw_sent w))) = Some d"
    using complete_span_draft_some by blast
  define w1 where "w1 = w\<lparr>pw_sent := pw_sent w @ [outgoing_for (in_method rq) (in_headers rq) (classify (in_path rq)) (pr_upstream ?pr)
      (pr_path_and_query ?pr) (pr_body ?pr)]\<rparr>"
  have "proxy_handler ex st rq ds w = Some (Answer \<lparr>rp_status = status,
      rp_headers = header_remove ''content-length'' (forward_response_headers hs), rp_body = until_error chunks\<rparr>, proxy_record ex d w1)"
    using assms tee d by (simp add: proxy_handler_def forward_streaming_def proxy_send_def Let_def finalize_span_def provider w1_def)
  moreover have "pw_traces w1 = pw_traces w" by (simp add: w1_def)
  moreover have "sd_status ?draft = status" "sd_request ?draft = pr_request ?pr" "sd_response_headers ?draft = capture_headers hs"
    by (simp_all add: prepare_def request_draft_def Let_def split: prod.split)
  ultimately show ?thesis using d by blast
qed

definition sample_px :: proxy_ext where
  "sample_px = \<lparr>px_from_slice = (\<lambda>b. if b = ''{}'' then Some (VObj []) else None), px_from_str = (\<lambda>_. None), px_lossy = (\<lambda>s. s), px_to_vec = (\<lambda>_. Some ''{m}''),
     px_to_string = (\<lambda>_. []), px_fmt = (\<lambda>_. None), px_now = 0, px_uuid = (\<lambda>_. ''u''), px_write_fails = (\<lambda>_. False),
     px_valid_method = (\<lambda>_. True), px_send = (\<lambda>_ _. Answered 200 [] [Inr ''{}'', Inl ''reset'']), px_elapsed_ms = (\<lambda>_. 5), px_hangup = None\<rparr>"

definition sample_proxy :: "bool \<Rightarrow> ProxyState" where
  "sample_proxy review = \<lparr>ps_reviews_enabled = review, anthropic_upstream = ''https://a'', openai_upstream = ''https://o'',
     gemini_upstream = ''https://g'', model_override = Some ''forced''\<rparr>"

definition sample_rq :: incoming where
  "sample_rq = \<lparr>in_method = ''POST'', in_path = ''/v1/responses'', in_path_and_query = None, in_headers = [], in_body = ''{}''\<rparr>"

definition sample_world :: proxy_world where
  "sample_world = \<lparr>pw_traces = TraceStore_new, pw_sent = []\<rparr>"

lemma sample_allowed: "is_allowed_path (in_path sample_rq)"
  by code_simp

theorem exchanges_recorded_once_witness:
  "\<not> ts_poisoned (pw_traces sample_world) \<and>
   (\<exists>r w'. proxy_handler sample_px (sample_proxy True) sample_rq [] sample_world = Some (r, w') \<and>
     int (spans_of w') - int (spans_of sample_world) = int (sent_of w') - int (sent_of sample_world) - (case r of Answer _ \<Rightarrow> 0 | Waiting_for _ \<Rightarrow> 1))"
proof -
  have "\<not> ts_poisoned (pw_traces sample_world)" by (simp add: sample_world_def TraceStore_new_def)
  then show ?thesis using exchanges_recorded_once by blast
qed

theorem forced_model_sent_witness:
  "clean_model (model_override (sample_proxy False)) = Some ''forced'' \<and> classify (in_path sample_rq) \<noteq> Gemini \<and>
   sd_model (pr_draft (prepare sample_px (sample_proxy False) sample_rq)) = Some ''forced'' \<and>
   pr_body (prepare sample_px (sample_proxy False) sample_rq) = ''{m}''"
proof -
  have word: "secret_word ''forced''" by (simp add: secret_word_def char_between_def)
  have model: "clean_model (model_override (sample_proxy False)) = Some ''forced''"
    by (simp add: sample_proxy_def clean_model_def non_empty_def str_trim_word [OF word])
  have provider: "classify (in_path sample_rq) \<noteq> Gemini" by code_simp
  have body: "as_object (parse_body sample_px (in_body sample_rq)) = Some []" "\<not> is_raw_wrapper (parse_body sample_px (in_body sample_rq))"
    by (simp_all add: parse_body_def sample_px_def sample_rq_def is_raw_wrapper_def)
  have encoded: "px_to_vec sample_px v = Some ''{m}''" for v by (simp add: sample_px_def)
  show ?thesis using forced_model_sent [OF model provider body _ encoded] model provider by simp
qed

theorem proxy_transparent_witness:
  "is_allowed_path (in_path sample_rq) \<and>
   (\<exists>w'. proxy_handler sample_px (sample_proxy False) sample_rq [] sample_world =
      Some (Answer \<lparr>rp_status = 200, rp_headers = [], rp_body = [Inr ''{}'', Inl ''reset'']\<rparr>, w'))"
proof -
  have "\<not> ps_reviews_enabled (sample_proxy False)" "px_valid_method sample_px (in_method sample_rq)" "px_hangup sample_px = None"
    "\<And>og. px_send sample_px (length (pw_sent sample_world)) og = Answered 200 [] [Inr ''{}'', Inl ''reset'']"
    by (simp_all add: sample_px_def sample_proxy_def)
  from proxy_transparent [OF sample_allowed this, of "[]"] show ?thesis
    using sample_allowed by (auto simp: header_remove_def forward_response_headers_def filter_headers_def)
qed

end
