(* ===== verification/Outbox.thy ===== *)
theory Outbox
  imports Json_Values
begin

text \<open>
  The delivery state of a channel (\<open>omniagent-cli/src/client/conn.rs\<close>): numbered events wait in an
  outbox until the server acknowledges them, terminal output is shed when the outbox is over its cap,
  and the supervisor waits between connections. Counters are natural numbers here: a channel does not
  reach \<open>2 ^ 64\<close> events, and memory bounds the byte count. The JSON encoder is a parameter.
\<close>

section \<open>State\<close>

record Outgoing =
  out_seq :: nat
  out_event :: string
  out_payload :: jvalue

record ChannelInner =
  ci_seq :: nat
  ci_last_acked :: nat
  ci_sent_upto :: nat
  ci_outbox :: "Outgoing list"
  ci_outbox_bytes :: nat
  ci_truncating :: bool

type_synonym json_printer = "jvalue \<Rightarrow> string option"

definition ChannelInner_default :: ChannelInner where
  "ChannelInner_default = \<lparr>ci_seq = 0, ci_last_acked = 0, ci_sent_upto = 0, ci_outbox = [], ci_outbox_bytes = 0, ci_truncating = False\<rparr>"

definition REPLAYABLE_EVENTS :: "string list" where
  "REPLAYABLE_EVENTS = [''pty_output'', ''pty_exit'', ''trace_span'', ''review_item'', ''codex_item'', ''codex_turn'',
     ''codex_token_usage'', ''codex_error'']"

definition OUTBOX_BYTE_CAP :: nat where
  "OUTBOX_BYTE_CAP = 8 * 1024 * 1024"

definition TRUNCATION_MARKER :: string where
  "TRUNCATION_MARKER = [CHR 0x0D, CHR 0x0A] @ ''[omniagent: output truncated]'' @ [CHR 0x0D, CHR 0x0A]"

definition payload_bytes :: "json_printer \<Rightarrow> jvalue \<Rightarrow> nat" where
  "payload_bytes enc p = (case get_str ''data'' p of Some s \<Rightarrow> length s
     | None \<Rightarrow> (case enc p of Some t \<Rightarrow> length t | None \<Rightarrow> 0))"

definition is_pty :: "Outgoing \<Rightarrow> bool" where
  "is_pty x \<longleftrightarrow> out_event x = ''pty_output''"

section \<open>Operations\<close>

definition json_seq :: "nat \<Rightarrow> jvalue" where
  "json_seq n = VNum (PosInt (of_nat n))"

fun with_sequence :: "nat \<Rightarrow> jvalue \<Rightarrow> jvalue" where
  "with_sequence n (VObj m) = VObj (bt_insert ''sequence'' (json_seq n) m)"
| "with_sequence n p = p"

text \<open>\<open>VecDeque::remove\<close> at the position of the first element that qualifies.\<close>

fun remove_first :: "('a \<Rightarrow> bool) \<Rightarrow> 'a list \<Rightarrow> ('a \<times> 'a list) option" where
  "remove_first P [] = None"
| "remove_first P (x # xs) = (if P x then Some (x, xs) else map_option (\<lambda>(y, ys). (y, x # ys)) (remove_first P xs))"

lemma remove_first_split:
  "remove_first P xs = Some (y, ys) \<Longrightarrow> \<exists>us vs. xs = us @ y # vs \<and> ys = us @ vs \<and> P y \<and> (\<forall>u\<in>set us. \<not> P u)"
proof (induction xs arbitrary: ys)
  case (Cons x xs)
  show ?case
  proof (cases "P x")
    case True
    then show ?thesis using Cons.prems by - (rule exI [of _ "[]"], rule exI [of _ xs], simp)
  next
    case False
    then obtain zs where "remove_first P xs = Some (y, zs)" "ys = x # zs" using Cons.prems by auto
    with Cons.IH obtain us vs where "xs = us @ y # vs" "zs = us @ vs" "P y" "\<forall>u\<in>set us. \<not> P u" by blast
    then show ?thesis using False \<open>ys = x # zs\<close> by - (rule exI [of _ "x # us"], rule exI [of _ vs], simp)
  qed
qed simp

lemma remove_first_none: "remove_first P xs = None \<longleftrightarrow> (\<forall>x\<in>set xs. \<not> P x)"
  by (induction xs) auto

lemma remove_first_length: "remove_first P xs = Some (y, ys) \<Longrightarrow> length xs = Suc (length ys)"
  by (auto dest: remove_first_split)

function shed_loop :: "json_printer \<Rightarrow> nat \<Rightarrow> Outgoing list \<Rightarrow> nat \<Rightarrow> nat \<Rightarrow> Outgoing list \<times> nat \<times> nat" where
  "shed_loop enc cap outbox bytes dropped = (if cap < bytes then
     (case remove_first is_pty outbox of
        None \<Rightarrow> (outbox, bytes, dropped)
      | Some (x, rest) \<Rightarrow> shed_loop enc cap rest (bytes - payload_bytes enc (out_payload x)) (dropped + payload_bytes enc (out_payload x)))
     else (outbox, bytes, dropped))"
  by pat_completeness auto
termination
  by (relation "measure (\<lambda>(enc, cap, outbox, bytes, dropped). length outbox)") (auto dest: remove_first_length)

declare shed_loop.simps [simp del]

definition marker :: "nat \<Rightarrow> Outgoing" where
  "marker n = \<lparr>out_seq = n, out_event = ''pty_output'',
     out_payload = vobj [(''data'', VStr TRUNCATION_MARKER), (''sequence'', json_seq n)]\<rparr>"

definition shed_outbox :: "json_printer \<Rightarrow> nat \<Rightarrow> ChannelInner \<Rightarrow> ChannelInner" where
  "shed_outbox enc cap i = (case shed_loop enc cap (ci_outbox i) (ci_outbox_bytes i) 0 of (outbox, bytes, dropped) \<Rightarrow>
     if 0 < dropped \<and> \<not> ci_truncating i then
       let n = ci_seq i + 1 in
       i\<lparr>ci_truncating := True, ci_seq := n, ci_outbox_bytes := bytes + payload_bytes enc (out_payload (marker n)), ci_outbox := outbox @ [marker n]\<rparr>
     else i\<lparr>ci_outbox := outbox, ci_outbox_bytes := bytes\<rparr>)"

definition numbered :: "string \<Rightarrow> jvalue \<Rightarrow> ChannelInner \<Rightarrow> Outgoing" where
  "numbered event payload i = \<lparr>out_seq = ci_seq i + 1, out_event = event, out_payload = with_sequence (ci_seq i + 1) payload\<rparr>"

definition enqueue :: "json_printer \<Rightarrow> Outgoing \<Rightarrow> ChannelInner \<Rightarrow> ChannelInner" where
  "enqueue enc x i = i\<lparr>ci_seq := out_seq x, ci_outbox_bytes := ci_outbox_bytes i + payload_bytes enc (out_payload x), ci_outbox := ci_outbox i @ [x]\<rparr>"

definition push_replayable :: "json_printer \<Rightarrow> string \<Rightarrow> jvalue \<Rightarrow> ChannelInner \<Rightarrow> ChannelInner" where
  "push_replayable enc event payload i = shed_outbox enc OUTBOX_BYTE_CAP (enqueue enc (numbered event payload i) i)"

text \<open>Popping acknowledged events off the front, and the reset of an outbox that has drained.\<close>

fun pop_acked :: "json_printer \<Rightarrow> nat \<Rightarrow> Outgoing list \<Rightarrow> nat \<Rightarrow> Outgoing list \<times> nat" where
  "pop_acked enc n [] bytes = ([], bytes)"
| "pop_acked enc n (x # xs) bytes = (if out_seq x \<le> n then pop_acked enc n xs (bytes - payload_bytes enc (out_payload x)) else (x # xs, bytes))"

definition trim_outbox :: "json_printer \<Rightarrow> nat \<Rightarrow> ChannelInner \<Rightarrow> ChannelInner" where
  "trim_outbox enc n i = (case pop_acked enc n (ci_outbox i) (ci_outbox_bytes i) of (outbox, bytes) \<Rightarrow>
     if outbox = [] then i\<lparr>ci_outbox := [], ci_outbox_bytes := 0, ci_truncating := False\<rparr>
     else i\<lparr>ci_outbox := outbox, ci_outbox_bytes := bytes\<rparr>)"

definition apply_ack :: "json_printer \<Rightarrow> nat \<Rightarrow> ChannelInner \<Rightarrow> ChannelInner" where
  "apply_ack enc acked i = (let n = max (ci_last_acked i) acked in trim_outbox enc n (i\<lparr>ci_last_acked := n\<rparr>))"

text \<open>What the handshake does with the high-water mark of the server.\<close>

definition seed :: "json_printer \<Rightarrow> nat \<Rightarrow> ChannelInner \<Rightarrow> ChannelInner" where
  "seed enc lcs i = (trim_outbox enc lcs (i\<lparr>ci_seq := max (ci_seq i) lcs, ci_last_acked := max (ci_last_acked i) lcs\<rparr>))\<lparr>ci_sent_upto := lcs\<rparr>"

definition advance_sent_upto :: "nat \<Rightarrow> ChannelInner \<Rightarrow> ChannelInner" where
  "advance_sent_upto n i = i\<lparr>ci_sent_upto := max (ci_sent_upto i) n\<rparr>"

definition unsent :: "ChannelInner \<Rightarrow> Outgoing list" where
  "unsent i = filter (\<lambda>x. ci_sent_upto i < out_seq x) (ci_outbox i)"

definition build_pty_batch :: "Outgoing list \<Rightarrow> jvalue" where
  "build_pty_batch run = vobj [(''events'', VArr (map out_payload run))]"

section \<open>Contract\<close>

definition weight :: "json_printer \<Rightarrow> Outgoing list \<Rightarrow> nat" where
  "weight enc xs = sum_list (map (\<lambda>x. payload_bytes enc (out_payload x)) xs)"

text \<open>The outbox is ordered by sequence number, no number is ahead of the counter, and the byte count is exact.\<close>

definition outbox_ok :: "json_printer \<Rightarrow> ChannelInner \<Rightarrow> bool" where
  "outbox_ok enc i \<longleftrightarrow> sorted_wrt (\<lambda>x y. out_seq x < out_seq y) (ci_outbox i) \<and> (\<forall>x\<in>set (ci_outbox i). out_seq x \<le> ci_seq i)
     \<and> ci_outbox_bytes i = weight enc (ci_outbox i)"

lemma weight_simps [simp]: "weight enc [] = 0" "weight enc (x # xs) = payload_bytes enc (out_payload x) + weight enc xs"
  "weight enc (xs @ ys) = weight enc xs + weight enc ys"
  by (simp_all add: weight_def)

text \<open>
  What the operations on the outbox promise: they keep it well formed, the counters do not go back, and
  an event other than terminal output leaves only when it is acknowledged.
\<close>

locale outbox_operation =
  fixes enc :: json_printer and f :: "ChannelInner \<Rightarrow> ChannelInner"
  assumes keeps_ok: "outbox_ok enc i \<Longrightarrow> outbox_ok enc (f i)"
    and seq_mono: "ci_seq i \<le> ci_seq (f i)"
    and acked_mono: "ci_last_acked i \<le> ci_last_acked (f i)"
    and kept: "x \<in> set (ci_outbox i) \<Longrightarrow> \<not> is_pty x \<Longrightarrow> x \<in> set (ci_outbox (f i)) \<or> out_seq x \<le> ci_last_acked (f i)"
begin

lemma kept_or_acked:
  assumes "x \<in> set (ci_outbox i) \<or> out_seq x \<le> ci_last_acked i" "\<not> is_pty x"
  shows "x \<in> set (ci_outbox (f i)) \<or> out_seq x \<le> ci_last_acked (f i)"
  using assms kept [of x i] acked_mono [of i] by force

end

abbreviation in_order :: "Outgoing list \<Rightarrow> bool" where
  "in_order \<equiv> sorted_wrt (\<lambda>x y. out_seq x < out_seq y)"

definition shed_to :: "json_printer \<Rightarrow> nat \<Rightarrow> Outgoing list \<Rightarrow> nat \<Rightarrow> Outgoing list \<Rightarrow> nat \<Rightarrow> bool" where
  "shed_to enc cap ob b ob' b' \<longleftrightarrow> set ob' \<subseteq> set ob \<and> (in_order ob \<longrightarrow> in_order ob') \<and> (\<forall>x\<in>set ob. \<not> is_pty x \<longrightarrow> x \<in> set ob')
     \<and> (b = weight enc ob \<longrightarrow> b' = weight enc ob') \<and> (b' \<le> cap \<or> (\<forall>x\<in>set ob'. \<not> is_pty x))"

lemma shed_loop_spec: "shed_loop enc cap ob b d = (ob', b', d') \<Longrightarrow> shed_to enc cap ob b ob' b'"
proof (induction enc cap ob b d rule: shed_loop.induct)
  case (1 enc cap ob b d)
  show ?case
  proof (cases "cap < b \<and> remove_first is_pty ob \<noteq> None")
    case False
    then have "ob' = ob" "b' = b" using 1(2) by (auto simp: shed_loop.simps [of enc cap ob b d] split: if_splits option.splits)
    then show ?thesis using False by (auto simp: shed_to_def remove_first_none)
  next
    case True
    then obtain x rest where rf: "remove_first is_pty ob = Some (x, rest)" by auto
    with True 1 have IH: "shed_to enc cap rest (b - payload_bytes enc (out_payload x)) ob' b'"
      by (simp add: shed_loop.simps [of enc cap ob b d])
    obtain us vs where "ob = us @ x # vs" "rest = us @ vs" "is_pty x" using remove_first_split [OF rf] by blast
    then show ?thesis using IH by (fastforce simp: shed_to_def sorted_wrt_append)
  qed
qed

lemma pop_acked_spec:
  "pop_acked enc n ob b = (ob', b') \<Longrightarrow> ob' = dropWhile (\<lambda>x. out_seq x \<le> n) ob \<and> (b = weight enc ob \<longrightarrow> b' = weight enc ob')"
  by (induction enc n ob b rule: pop_acked.induct) (auto split: if_splits)

lemma in_order_dropWhile: "in_order xs \<Longrightarrow> dropWhile (\<lambda>x. out_seq x \<le> n) xs = filter (\<lambda>x. n < out_seq x) xs"
proof (induction xs)
  case (Cons x xs)
  then show ?case by (cases "out_seq x \<le> n") (auto intro!: filter_True [symmetric])
qed simp

section \<open>The operations keep the contract\<close>

lemma ok_parts:
  assumes "outbox_ok enc i"
  shows "in_order (ci_outbox i)" "x \<in> set (ci_outbox i) \<Longrightarrow> out_seq x \<le> ci_seq i" "ci_outbox_bytes i = weight enc (ci_outbox i)"
  using assms by (auto simp: outbox_ok_def)

text \<open>One shedding: the new outbox is the old one without some terminal output, and perhaps with a marker at its end.\<close>

lemma shed_outbox_cases:
  obtains ob' b' where "shed_to enc cap (ci_outbox i) (ci_outbox_bytes i) ob' b'" "shed_outbox enc cap i = i\<lparr>ci_outbox := ob', ci_outbox_bytes := b'\<rparr>"
  | ob' b' n where "shed_to enc cap (ci_outbox i) (ci_outbox_bytes i) ob' b'" "n = ci_seq i + 1"
      "shed_outbox enc cap i = i\<lparr>ci_truncating := True, ci_seq := n, ci_outbox_bytes := b' + payload_bytes enc (out_payload (marker n)), ci_outbox := ob' @ [marker n]\<rparr>"
proof -
  obtain ob' b' d where s: "shed_loop enc cap (ci_outbox i) (ci_outbox_bytes i) 0 = (ob', b', d)" by (cases "shed_loop enc cap (ci_outbox i) (ci_outbox_bytes i) 0")
  note shed = shed_loop_spec [OF s]
  show thesis
  proof (cases "0 < d \<and> \<not> ci_truncating i")
    case True
    then show thesis using that(2) [OF shed] s by (simp add: shed_outbox_def Let_def)
  next
    case False
    then have "shed_outbox enc cap i = i\<lparr>ci_outbox := ob', ci_outbox_bytes := b'\<rparr>" using s by (auto simp: shed_outbox_def)
    then show thesis by (rule that(1) [OF shed])
  qed
qed

lemma shed_outbox_ok: "outbox_ok enc i \<Longrightarrow> outbox_ok enc (shed_outbox enc cap i)"
proof (cases rule: shed_outbox_cases [of enc cap i])
  case (1 ob' b')
  assume "outbox_ok enc i"
  then show ?thesis using 1 by (auto simp: outbox_ok_def shed_to_def)
next
  case (2 ob' b' n)
  assume "outbox_ok enc i"
  then show ?thesis using 2 by (auto simp: outbox_ok_def shed_to_def sorted_wrt_append marker_def less_Suc_eq_le le_SucI)
qed

lemma shed_outbox_frame:
  "ci_seq i \<le> ci_seq (shed_outbox enc cap i)" "ci_last_acked (shed_outbox enc cap i) = ci_last_acked i"
  "ci_sent_upto (shed_outbox enc cap i) = ci_sent_upto i"
  by (cases rule: shed_outbox_cases [of enc cap i]; simp)+

lemma shed_outbox_kept: "x \<in> set (ci_outbox i) \<Longrightarrow> \<not> is_pty x \<Longrightarrow> x \<in> set (ci_outbox (shed_outbox enc cap i))"
  by (cases rule: shed_outbox_cases [of enc cap i]) (auto simp: shed_to_def)

lemma enqueue_ok: "outbox_ok enc i \<Longrightarrow> outbox_ok enc (enqueue enc (numbered event payload i) i)"
  by (auto simp: outbox_ok_def enqueue_def numbered_def sorted_wrt_append less_Suc_eq_le le_SucI)

lemma trim_outbox_spec:
  "in_order (ci_outbox i) \<Longrightarrow> ci_outbox (trim_outbox enc n i) = filter (\<lambda>x. n < out_seq x) (ci_outbox i)"
  "outbox_ok enc i \<Longrightarrow> outbox_ok enc (trim_outbox enc n i)"
  "ci_seq (trim_outbox enc n i) = ci_seq i" "ci_last_acked (trim_outbox enc n i) = ci_last_acked i" "ci_sent_upto (trim_outbox enc n i) = ci_sent_upto i"
proof -
  obtain ob b where p: "pop_acked enc n (ci_outbox i) (ci_outbox_bytes i) = (ob, b)" by (cases "pop_acked enc n (ci_outbox i) (ci_outbox_bytes i)")
  have s: "ob = dropWhile (\<lambda>x. out_seq x \<le> n) (ci_outbox i)" "ci_outbox_bytes i = weight enc (ci_outbox i) \<Longrightarrow> b = weight enc ob"
    using pop_acked_spec [OF p] by auto
  show "in_order (ci_outbox i) \<Longrightarrow> ci_outbox (trim_outbox enc n i) = filter (\<lambda>x. n < out_seq x) (ci_outbox i)"
    using s(1) p by (simp add: trim_outbox_def in_order_dropWhile)
  show "outbox_ok enc i \<Longrightarrow> outbox_ok enc (trim_outbox enc n i)"
    using s p by (auto simp: trim_outbox_def outbox_ok_def in_order_dropWhile sorted_wrt_filter)
qed (auto simp: trim_outbox_def split: prod.split)

lemma outbox_ok_counters: "outbox_ok enc i \<Longrightarrow> ci_seq i \<le> m \<Longrightarrow> outbox_ok enc (i\<lparr>ci_seq := m, ci_last_acked := a\<rparr>)"
  by (fastforce simp: outbox_ok_def)

lemma outbox_ok_acked: "outbox_ok enc (i\<lparr>ci_last_acked := a\<rparr>) = outbox_ok enc i"
  by (simp add: outbox_ok_def)

lemma trim_kept: "x \<in> set (ci_outbox i) \<Longrightarrow> x \<in> set (ci_outbox (trim_outbox enc n i)) \<or> out_seq x \<le> n"
proof -
  obtain ob b where p: "pop_acked enc n (ci_outbox i) (ci_outbox_bytes i) = (ob, b)" by (cases "pop_acked enc n (ci_outbox i) (ci_outbox_bytes i)")
  assume "x \<in> set (ci_outbox i)"
  then have "x \<in> set (takeWhile (\<lambda>x. out_seq x \<le> n) (ci_outbox i)) \<union> set ob"
    using pop_acked_spec [OF p] by (metis Un_iff set_append takeWhile_dropWhile_id)
  then show ?thesis using p by (auto simp: trim_outbox_def dest: set_takeWhileD)
qed

interpretation push: outbox_operation enc "push_replayable enc event payload"
proof unfold_locales
  show "outbox_ok enc (push_replayable enc event payload i)" if "outbox_ok enc i" for i
    using that by (simp add: push_replayable_def shed_outbox_ok enqueue_ok)
  show "ci_seq i \<le> ci_seq (push_replayable enc event payload i)" for i
    using shed_outbox_frame(1) [of "enqueue enc (numbered event payload i) i" enc OUTBOX_BYTE_CAP]
    by (simp add: push_replayable_def enqueue_def numbered_def)
qed (auto simp: push_replayable_def shed_outbox_frame enqueue_def intro!: shed_outbox_kept)

interpretation ack: outbox_operation enc "apply_ack enc acked"
proof unfold_locales
  show "outbox_ok enc (apply_ack enc acked i)" if "outbox_ok enc i" for i
    using that by (simp add: apply_ack_def Let_def trim_outbox_spec(2) outbox_ok_acked)
  show "x \<in> set (ci_outbox (apply_ack enc acked i)) \<or> out_seq x \<le> ci_last_acked (apply_ack enc acked i)" if "x \<in> set (ci_outbox i)" for x i
    using trim_kept [of x "i\<lparr>ci_last_acked := max (ci_last_acked i) acked\<rparr>"] that by (simp add: apply_ack_def Let_def trim_outbox_spec)
qed (simp_all add: apply_ack_def Let_def trim_outbox_spec)

interpretation seed: outbox_operation enc "seed enc lcs"
proof unfold_locales
  let ?i = "\<lambda>i. i\<lparr>ci_seq := max (ci_seq i) lcs, ci_last_acked := max (ci_last_acked i) lcs\<rparr>"
  show "outbox_ok enc (seed enc lcs i)" if "outbox_ok enc i" for i
  proof -
    have "outbox_ok enc (trim_outbox enc lcs (?i i))" using that by (intro trim_outbox_spec(2) outbox_ok_counters) simp_all
    then show ?thesis by (simp add: seed_def outbox_ok_def)
  qed
  show "x \<in> set (ci_outbox (seed enc lcs i)) \<or> out_seq x \<le> ci_last_acked (seed enc lcs i)" if "x \<in> set (ci_outbox i)" for x i
    using trim_kept [of x "?i i" enc lcs] that by (auto simp: seed_def trim_outbox_spec)
qed (simp_all add: seed_def trim_outbox_spec)

interpretation advance: outbox_operation enc "advance_sent_upto n"
  by unfold_locales (auto simp: advance_sent_upto_def outbox_ok_def)

section \<open>Runs\<close>

text \<open>Everything that happens to the delivery state: pushes, acknowledgements, handshakes and deliveries.\<close>

datatype outbox_op = Push string jvalue | Ack nat | Seed nat | Advance nat

primrec outbox_do :: "json_printer \<Rightarrow> outbox_op \<Rightarrow> ChannelInner \<Rightarrow> ChannelInner" where
  "outbox_do enc (Push e p) = push_replayable enc e p"
| "outbox_do enc (Ack n) = apply_ack enc n"
| "outbox_do enc (Seed n) = seed enc n"
| "outbox_do enc (Advance n) = advance_sent_upto n"

definition outbox_run :: "json_printer \<Rightarrow> outbox_op list \<Rightarrow> ChannelInner" where
  "outbox_run enc ops = foldl (\<lambda>i oper. outbox_do enc oper i) ChannelInner_default ops"

interpretation oper: outbox_operation enc "outbox_do enc oper"
  by (cases oper) (simp_all add: push.outbox_operation_axioms ack.outbox_operation_axioms seed.outbox_operation_axioms advance.outbox_operation_axioms)

lemma outbox_run_ok: "outbox_ok enc (outbox_run enc ops)"
proof (induction ops rule: rev_induct)
  case Nil
  then show ?case by (simp add: outbox_run_def ChannelInner_default_def outbox_ok_def)
next
  case (snoc oper ops)
  then show ?case using oper.keeps_ok [OF snoc.IH, of oper] by (simp add: outbox_run_def)
qed

lemma push_replayable_has: "\<not> is_pty (numbered event payload i) \<Longrightarrow> numbered event payload i \<in> set (ci_outbox (push_replayable enc event payload i))"
  by (auto simp: push_replayable_def enqueue_def intro!: shed_outbox_kept)

text \<open>
  After every sequence of pushes, acknowledgements, reconnections and deliveries the outbox is ordered,
  its byte count is exact, and an event other than terminal output that was pushed is still waiting or
  acknowledged.
\<close>

theorem event_kept_until_acked:
  assumes "event \<noteq> ''pty_output''"
  shows "let x = numbered event payload (outbox_run enc before); i = outbox_run enc (before @ Push event payload # after) in
    outbox_ok enc i \<and> (x \<in> set (ci_outbox i) \<or> out_seq x \<le> ci_last_acked i)"
proof -
  let ?x = "numbered event payload (outbox_run enc before)"
  have plain: "\<not> is_pty ?x" using assms by (simp add: is_pty_def numbered_def)
  have "?x \<in> set (ci_outbox (outbox_run enc (before @ Push event payload # after))) \<or> out_seq ?x \<le> ci_last_acked (outbox_run enc (before @ Push event payload # after))"
  proof (induction after rule: rev_induct)
    case Nil
    then show ?case using push_replayable_has [OF plain] by (simp add: outbox_run_def)
  next
    case (snoc oper after)
    then show ?case using oper.kept_or_acked [where enc = enc and oper = oper and i = "outbox_run enc (before @ Push event payload # after)", OF _ plain]
      by (simp add: outbox_run_def)
  qed
  then show ?thesis by (simp add: Let_def outbox_run_ok)
qed

theorem event_kept_until_acked_witness:
  "''pty_exit'' \<noteq> ''pty_output'' \<and>
   numbered ''pty_exit'' VNull (outbox_run (\<lambda>_. None) []) \<in> set (ci_outbox (outbox_run (\<lambda>_. None) ([] @ Push ''pty_exit'' VNull # [])))"
proof -
  have "ci_last_acked (outbox_run (\<lambda>_. None) ([] @ Push ''pty_exit'' VNull # [])) = 0"
    by (simp add: outbox_run_def push_replayable_def shed_outbox_frame enqueue_def ChannelInner_default_def)
  moreover have "out_seq (numbered ''pty_exit'' VNull (outbox_run (\<lambda>_. None) [])) = 1" by (simp add: numbered_def outbox_run_def ChannelInner_default_def)
  ultimately show ?thesis using event_kept_until_acked [of "''pty_exit''" VNull "\<lambda>_. None" "[]" "[]"] by (auto simp: Let_def)
qed

subsection \<open>Memory\<close>

definition is_marker :: "Outgoing \<Rightarrow> bool" where
  "is_marker x \<longleftrightarrow> (\<exists>n. x = marker n)"

definition bounded :: "json_printer \<Rightarrow> ChannelInner \<Rightarrow> bool" where
  "bounded enc i \<longleftrightarrow> weight enc (ci_outbox i) \<le> OUTBOX_BYTE_CAP + length TRUNCATION_MARKER \<or> (\<forall>x\<in>set (ci_outbox i). is_pty x \<longrightarrow> is_marker x)"

lemma marker_bytes: "payload_bytes enc (out_payload (marker n)) = length TRUNCATION_MARKER"
  by (simp add: marker_def payload_bytes_def get_str_def vobj_def)

lemma weight_filter: "weight enc (filter P xs) \<le> weight enc xs"
  by (induction xs) auto

lemma bounded_filter:
  "bounded enc i \<Longrightarrow> ci_outbox j = filter P (ci_outbox i) \<Longrightarrow> bounded enc j"
  using weight_filter [of enc P "ci_outbox i"] by (auto simp: bounded_def)

lemma bounded_push: "outbox_ok enc i \<Longrightarrow> bounded enc (push_replayable enc event payload i)"
proof -
  let ?i = "enqueue enc (numbered event payload i) i"
  assume "outbox_ok enc i"
  then have ok: "ci_outbox_bytes ?i = weight enc (ci_outbox ?i)" by (rule ok_parts(3) [OF enqueue_ok])
  show ?thesis unfolding push_replayable_def
    by (cases rule: shed_outbox_cases [of enc OUTBOX_BYTE_CAP ?i]) (use ok in \<open>auto simp: bounded_def shed_to_def marker_bytes is_marker_def\<close>)
qed

text \<open>
  However much is pushed, the outbox holds at most the cap and one marker, or all terminal output but
  markers has been shed: only events that must not be shed can take it over the cap.
\<close>

theorem outbox_bounded:
  "weight enc (ci_outbox (outbox_run enc ops)) \<le> OUTBOX_BYTE_CAP + length TRUNCATION_MARKER
   \<or> (\<forall>x\<in>set (ci_outbox (outbox_run enc ops)). is_pty x \<longrightarrow> is_marker x)"
proof -
  have "bounded enc (outbox_run enc ops)"
  proof (induction ops rule: rev_induct)
    case Nil
    then show ?case by (simp add: outbox_run_def ChannelInner_default_def bounded_def)
  next
    case (snoc oper ops)
    let ?i = "outbox_run enc ops"
    have order: "in_order (ci_outbox ?i)" by (rule ok_parts(1) [OF outbox_run_ok])
    have run: "outbox_run enc (ops @ [oper]) = outbox_do enc oper ?i" by (simp add: outbox_run_def)
    show ?case
    proof (cases oper)
      case (Push e p)
      then show ?thesis unfolding run using bounded_push [OF outbox_run_ok] by simp
    next
      case (Ack n)
      show ?thesis unfolding run by (rule bounded_filter [OF snoc.IH]) (use order Ack in \<open>simp add: apply_ack_def Let_def trim_outbox_spec(1)\<close>)
    next
      case (Seed n)
      show ?thesis unfolding run by (rule bounded_filter [OF snoc.IH]) (use order Seed in \<open>simp add: seed_def trim_outbox_spec(1)\<close>)
    next
      case (Advance n)
      then show ?thesis unfolding run using snoc.IH by (simp add: advance_sent_upto_def bounded_def)
    qed
  qed
  then show ?thesis by (simp add: bounded_def)
qed

text \<open>
  The marker of a gap is terminal output itself and can be shed, and no second one is written until the
  outbox has drained: after enough output the server gets neither the lost output nor a sign of the gap.
\<close>

definition output_payload :: "nat \<Rightarrow> jvalue" where
  "output_payload n = VObj [(''data'', VStr (replicate n (CHR ''x'')))]"

lemma shed_loop_steps:
  "b \<le> cap \<Longrightarrow> shed_loop enc cap ob b d = (ob, b, d)"
  "cap < b \<Longrightarrow> is_pty x \<Longrightarrow> shed_loop enc cap (x # xs) b d =
     shed_loop enc cap xs (b - payload_bytes enc (out_payload x)) (d + payload_bytes enc (out_payload x))"
  by (simp_all add: shed_loop.simps [of enc cap ob b d] shed_loop.simps [of enc cap "x # xs" b d])

lemma output_payload_bytes [simp]: "payload_bytes enc (with_sequence m (output_payload n)) = n"
  by (simp add: output_payload_def payload_bytes_def get_str_def)

lemma numbered_output: "out_payload (numbered e p i) = with_sequence (ci_seq i + 1) p" "out_seq (numbered e p i) = ci_seq i + 1"
  "is_pty (numbered ''pty_output'' p i)"
  by (simp_all add: numbered_def is_pty_def)

lemma big_output_no_marker: "\<not> is_marker (numbered e (output_payload OUTBOX_BYTE_CAP) i)"
proof
  assume "is_marker (numbered e (output_payload OUTBOX_BYTE_CAP) i)"
  then obtain n where "out_payload (marker n) = with_sequence (ci_seq i + 1) (output_payload OUTBOX_BYTE_CAP)"
    by (metis is_marker_def numbered_output(1))
  then have "length TRUNCATION_MARKER = OUTBOX_BYTE_CAP" using marker_bytes [of "\<lambda>_. None" n] by simp
  then show False by (simp add: TRUNCATION_MARKER_def OUTBOX_BYTE_CAP_def)
qed

theorem truncation_marker_shed:
  "\<exists>i. i = outbox_run enc [Push ''pty_output'' (output_payload OUTBOX_BYTE_CAP), Push ''pty_output'' (output_payload 1),
          Push ''pty_output'' (output_payload OUTBOX_BYTE_CAP)] \<and>
     map out_seq (ci_outbox i) = [4] \<and> ci_truncating i \<and> list_all (\<lambda>x. \<not> is_marker x) (ci_outbox i)"
proof -
  let ?e = "''pty_output''" and ?big = "output_payload OUTBOX_BYTE_CAP"
  have pos: "0 < length TRUNCATION_MARKER" "0 < OUTBOX_BYTE_CAP" "is_pty (marker 3)"
    by (simp_all add: TRUNCATION_MARKER_def OUTBOX_BYTE_CAP_def is_pty_def marker_def)
  define i1 where "i1 = push_replayable enc ?e ?big ChannelInner_default"
  define i2 where "i2 = push_replayable enc ?e (output_payload 1) i1"
  define i3 where "i3 = push_replayable enc ?e ?big i2"
  have i1: "ci_outbox i1 = [numbered ?e ?big ChannelInner_default]" "ci_outbox_bytes i1 = OUTBOX_BYTE_CAP" "ci_seq i1 = 1" "\<not> ci_truncating i1"
    by (simp_all add: i1_def push_replayable_def enqueue_def shed_outbox_def shed_loop_steps numbered_output ChannelInner_default_def)
  have i2: "ci_outbox i2 = [numbered ?e (output_payload 1) i1, marker 3]" "ci_outbox_bytes i2 = 1 + length TRUNCATION_MARKER" "ci_seq i2 = 3" "ci_truncating i2"
    using i1 pos by (simp_all add: i2_def push_replayable_def enqueue_def shed_outbox_def shed_loop_steps numbered_output Let_def marker_bytes ChannelInner_default_def numeral_3_eq_3)
  have i3: "ci_outbox i3 = [numbered ?e ?big i2]" "ci_truncating i3"
    using i2 pos by (simp_all add: i3_def push_replayable_def enqueue_def shed_outbox_def shed_loop_steps numbered_output Let_def marker_bytes)
  show ?thesis
    by (rule exI [of _ i3]) (simp add: i3 i2(3) numbered_output big_output_no_marker, simp add: outbox_run_def i3_def i2_def i1_def)
qed

section \<open>Waiting between connections\<close>

text \<open>Milliseconds; \<open>nanos\<close> is the sub-second part of the clock.\<close>

record Backoff =
  current :: nat

definition BACKOFF_BASE :: nat where
  "BACKOFF_BASE = 500"

definition BACKOFF_CAP :: nat where
  "BACKOFF_CAP = 30000"

definition backoff_new :: Backoff where
  "backoff_new = \<lparr>current = BACKOFF_BASE\<rparr>"

definition backoff_reset :: "Backoff \<Rightarrow> Backoff" where
  "backoff_reset b = b\<lparr>current := BACKOFF_BASE\<rparr>"

definition backoff_next :: "nat \<Rightarrow> Backoff \<Rightarrow> nat \<times> Backoff" where
  "backoff_next nanos b = (let ceiling_ms = max (current b) 2; half = ceiling_ms div 2 in
     (half + nanos mod max half 1, b\<lparr>current := min (current b * 2) BACKOFF_CAP\<rparr>))"

primrec backoff_after :: "nat list \<Rightarrow> Backoff \<Rightarrow> nat list" where
  "backoff_after [] b = []"
| "backoff_after (n # ns) b = fst (backoff_next n b) # backoff_after ns (snd (backoff_next n b))"

lemma backoff_next_bounds:
  assumes "2 \<le> current b" "even (current b)"
  shows "current b div 2 \<le> fst (backoff_next n b) \<and> fst (backoff_next n b) < current b"
proof -
  obtain h where h: "current b = 2 * h" "0 < h" using assms by (metis evenE gr0I mult_is_0 not_numeral_le_zero)
  then have "n mod h < h" by simp
  then show ?thesis using assms h by (simp add: backoff_next_def Let_def max_def)
qed

lemma capped_double: "min (min x c * (2 :: nat) ^ m) c = min (x * 2 ^ m) c" "min (min x c * (2 * (2 :: nat) ^ m)) c = min (x * (2 * 2 ^ m)) c"
proof -
  have "min (min x c * p) c = min (x * p) c" if "1 \<le> p" for p :: nat
  proof -
    have "c \<le> c * p" "min x c * p = min (x * p) (c * p)" using that by (simp_all add: min_def)
    then show ?thesis by linarith
  qed
  then show "min (min x c * 2 ^ m) c = min (x * 2 ^ m) c" "min (min x c * (2 * 2 ^ m)) c = min (x * (2 * 2 ^ m)) c" by simp_all
qed



end
