(* ===== verification/Channel_Protocol.thy ===== *)
theory Channel_Protocol
  imports Outbox
begin

text \<open>
  The delivery of a session's events to the control plane: the client (\<open>omniagent-cli/src/client/conn.rs\<close>)
  with its connection, flusher and heartbeat tasks, and the channel of the server
  (\<open>client_channel.ex\<close>, \<open>events.ex\<close>, \<open>traces.ex\<close>, \<open>reviews.ex\<close>, \<open>sessions.ex\<close>). A connection delivers frames
  in order and may break at any moment; the server may still work on the frames of a broken connection,
  and drops the rest at any moment. The tasks of a connection end when it breaks. What a frame's fields
  are cast to by the database layer is a parameter; the channel's join carries no state and is left out.
\<close>

section \<open>The control plane\<close>

record control_plane =
  cp_rows :: "string \<times> nat \<rightharpoonup> jvalue"
  cp_spans :: "(string \<times> nat) list"
  cp_last_client_sequence :: nat

record server_ext =
  span_valid :: "jvalue \<Rightarrow> bool"
  item_valid :: "jvalue \<Rightarrow> bool"

datatype reply = ReplyOk nat | ReplyError

definition fetch_sequence :: "jvalue \<Rightarrow> nat option" where
  "fetch_sequence payload = map_option unat (Option.bind (vget ''sequence'' payload) as_u64)"

definition payload_seq :: "jvalue \<Rightarrow> nat" where
  "payload_seq payload = (case fetch_sequence payload of Some n \<Rightarrow> n | None \<Rightarrow> 0)"

definition or_empty :: "jvalue \<Rightarrow> jvalue" where
  "or_empty payload = (if payload = VNull then VObj [] else payload)"

text \<open>The insert with \<open>on_conflict: :nothing\<close> on the unique index over event type and sequence.\<close>

definition record_session_event :: "string \<Rightarrow> nat \<Rightarrow> jvalue \<Rightarrow> control_plane \<Rightarrow> control_plane" where
  "record_session_event event n payload cp = (case cp_rows cp (event, n) of
     None \<Rightarrow> cp\<lparr>cp_rows := (cp_rows cp)((event, n) \<mapsto> or_empty payload)\<rparr> | Some _ \<Rightarrow> cp)"

definition record_pty_outputs :: "jvalue list \<Rightarrow> control_plane \<Rightarrow> nat \<times> control_plane" where
  "record_pty_outputs events cp = (foldl (\<lambda>n e. max n (payload_seq e)) 0 events,
     foldl (\<lambda>cp e. record_session_event ''pty_output'' (payload_seq e) e cp) cp events)"

definition update_last_sequence :: "nat \<Rightarrow> control_plane \<Rightarrow> nat \<times> control_plane" where
  "update_last_sequence n cp = (let m = max (cp_last_client_sequence cp) n in (m, cp\<lparr>cp_last_client_sequence := m\<rparr>))"

text \<open>Spans are upserted by their identifier, and no two spans of a session may have the same sequence.\<close>

definition record_span :: "server_ext \<Rightarrow> jvalue \<Rightarrow> control_plane \<Rightarrow> control_plane option" where
  "record_span se payload cp = (case (get_str ''id'' payload, fetch_sequence payload) of
     (Some external_id, Some n) \<Rightarrow>
       if \<not> span_valid se payload \<or> list_ex (\<lambda>(e, m). e \<noteq> external_id \<and> m = n) (cp_spans cp) then None
       else Some (record_session_event ''trace_span'' n payload (cp\<lparr>cp_spans := bt_insert external_id n (cp_spans cp)\<rparr>))
   | _ \<Rightarrow> None)"

definition upsert_review_item :: "server_ext \<Rightarrow> jvalue \<Rightarrow> control_plane \<Rightarrow> control_plane option" where
  "upsert_review_item se payload cp = (if item_valid se payload then Some (record_session_event ''review_item'' (payload_seq payload) payload cp) else None)"

definition handle_in :: "server_ext \<Rightarrow> string \<Rightarrow> jvalue \<Rightarrow> control_plane \<Rightarrow> reply option \<times> control_plane" where
  "handle_in se event payload cp =
     (if event = ''session_register'' \<or> event = ''session_resume'' then (Some (ReplyOk (cp_last_client_sequence cp)), cp)
      else if event = ''pty_output_batch'' then
        (case get_array ''events'' payload of
           None \<Rightarrow> (Some ReplyError, cp)
         | Some events \<Rightarrow> (case record_pty_outputs events cp of (max_seq, cp1) \<Rightarrow>
             (case update_last_sequence max_seq cp1 of (acked, cp2) \<Rightarrow> (Some (ReplyOk acked), cp2))))
      else if event = ''pty_exit'' \<or> event = ''session_close'' then (None, record_session_event event (payload_seq payload) payload cp)
      else if event = ''trace_span'' then (case record_span se payload cp of Some cp' \<Rightarrow> (None, cp') | None \<Rightarrow> (Some ReplyError, cp))
      else if event = ''review_item'' then (case upsert_review_item se payload cp of Some cp' \<Rightarrow> (None, cp') | None \<Rightarrow> (Some ReplyError, cp))
      else if event \<in> {''codex_item'', ''codex_turn'', ''codex_token_usage'', ''codex_error''} then
        (None, record_session_event event (payload_seq payload) payload cp)
      else if event = ''heartbeat'' then
        (case update_last_sequence (payload_seq payload) cp of (acked, cp') \<Rightarrow> (Some (ReplyOk acked), cp'))
      else (None, cp))"

section \<open>The client\<close>

record frame =
  fr_ref :: nat
  fr_event :: string
  fr_payload :: jvalue

text \<open>
  The flusher is parked, sends what was unsent when it woke up (with the run of terminal output it has
  collected), or waits for the reply to a batch. The heartbeat has read the mark it will send, or waits.
\<close>

datatype flusher = Parked | Sending "Outgoing list" "Outgoing list" | AwaitBatch nat nat "Outgoing list"

datatype beat = BeatIdle | BeatRead nat | AwaitBeat nat

datatype link = Down | Resuming nat | Live

record channel =
  ch_inner :: ChannelInner
  ch_opened :: bool
  ch_link :: link
  ch_flusher :: flusher
  ch_beat :: beat
  ch_next_ref :: nat
  ch_up :: "frame list"
  ch_down :: "(nat \<times> reply) list"
  ch_old :: "frame list list"
  ch_server :: control_plane
  ch_history :: "Outgoing list"
  ch_shed :: "nat set"

text \<open>The last two fields only record what happened: everything that was numbered, and the numbers that were shed.\<close>

definition channel_init :: "control_plane \<Rightarrow> channel" where
  "channel_init cp = \<lparr>ch_inner = ChannelInner_default, ch_opened = False, ch_link = Down, ch_flusher = Parked, ch_beat = BeatIdle,
     ch_next_ref = 0, ch_up = [], ch_down = [], ch_old = [], ch_server = cp, ch_history = [], ch_shed = {}\<rparr>"

definition channel_push :: "json_printer \<Rightarrow> string \<Rightarrow> jvalue \<Rightarrow> channel \<Rightarrow> channel" where
  "channel_push enc event payload ch = (let i = ch_inner ch; x = numbered event payload i; i' = push_replayable enc event payload i in
     ch\<lparr>ch_inner := i', ch_history := ch_history ch @ x # filter (\<lambda>y. out_seq x < out_seq y) (ci_outbox i'),
        ch_shed := ch_shed ch \<union> out_seq ` (insert x (set (ci_outbox i)) - set (ci_outbox i'))\<rparr>)"

definition send_frame :: "string \<Rightarrow> jvalue \<Rightarrow> channel \<Rightarrow> channel" where
  "send_frame event payload ch = ch\<lparr>ch_up := ch_up ch @ [\<lparr>fr_ref = ch_next_ref ch, fr_event = event, fr_payload = payload\<rparr>], ch_next_ref := ch_next_ref ch + 1\<rparr>"

definition send_batch :: "Outgoing list \<Rightarrow> Outgoing list \<Rightarrow> channel \<Rightarrow> channel" where
  "send_batch run rest ch = (send_frame ''pty_output_batch'' (build_pty_batch run) ch)\<lparr>ch_flusher := AwaitBatch (ch_next_ref ch) (out_seq (last run)) rest\<rparr>"

text \<open>One move of \<open>flush_channel_once\<close>: collect terminal output, send a batch, send an event, or finish.\<close>

definition flush_move :: "Outgoing list \<Rightarrow> Outgoing list \<Rightarrow> channel \<Rightarrow> channel" where
  "flush_move todo run ch = (case todo of
     [] \<Rightarrow> if run = [] then ch\<lparr>ch_flusher := Parked\<rparr> else send_batch run [] ch
   | x # rest \<Rightarrow>
       if is_pty x then ch\<lparr>ch_flusher := Sending rest (run @ [x])\<rparr>
       else if run \<noteq> [] then send_batch run (x # rest) ch
       else (send_frame (out_event x) (out_payload x) ch)\<lparr>ch_inner := advance_sent_upto (out_seq x) (ch_inner ch), ch_flusher := Sending rest []\<rparr>)"

definition batch_reply :: "json_printer \<Rightarrow> nat \<Rightarrow> Outgoing list \<Rightarrow> reply \<Rightarrow> channel \<Rightarrow> channel" where
  "batch_reply enc last_seq rest r ch = (case r of
     ReplyOk acked \<Rightarrow> ch\<lparr>ch_inner := apply_ack enc acked (advance_sent_upto last_seq (ch_inner ch)), ch_flusher := Sending rest []\<rparr>
   | ReplyError \<Rightarrow> ch\<lparr>ch_flusher := Parked\<rparr>)"

definition beat_reply :: "json_printer \<Rightarrow> reply \<Rightarrow> channel \<Rightarrow> channel" where
  "beat_reply enc r ch = (case r of ReplyOk acked \<Rightarrow> ch\<lparr>ch_inner := apply_ack enc acked (ch_inner ch), ch_beat := BeatIdle\<rparr> | ReplyError \<Rightarrow> ch\<lparr>ch_beat := BeatIdle\<rparr>)"

definition disconnect :: "channel \<Rightarrow> channel" where
  "disconnect ch = ch\<lparr>ch_link := Down, ch_flusher := Parked, ch_beat := BeatIdle, ch_up := [], ch_down := [], ch_old := ch_up ch # ch_old ch\<rparr>"

definition connect :: "bool \<Rightarrow> jvalue \<Rightarrow> channel \<Rightarrow> channel" where
  "connect has_id reg ch = (send_frame (if has_id \<or> ch_opened ch then ''session_resume'' else ''session_register'') reg ch)\<lparr>ch_link := Resuming (ch_next_ref ch)\<rparr>"

definition handshake_session :: "json_printer \<Rightarrow> reply \<Rightarrow> channel \<Rightarrow> channel" where
  "handshake_session enc r ch = (case r of
     ReplyOk lcs \<Rightarrow> ch\<lparr>ch_inner := seed enc lcs (ch_inner ch), ch_opened := True, ch_link := Live\<rparr>
   | ReplyError \<Rightarrow> disconnect ch)"

text \<open>The reply goes to the request that waits for its reference; one that nobody waits for is dropped.\<close>

definition route_reply :: "json_printer \<Rightarrow> nat \<Rightarrow> reply \<Rightarrow> channel \<Rightarrow> channel" where
  "route_reply enc ref r ch =
     (if ch_link ch = Resuming ref then handshake_session enc r ch
      else if ch_link ch = Live then
        (case ch_flusher ch of
           AwaitBatch ref' last_seq rest \<Rightarrow> if ref' = ref then batch_reply enc last_seq rest r ch
             else if ch_beat ch = AwaitBeat ref then beat_reply enc r ch else ch
         | _ \<Rightarrow> if ch_beat ch = AwaitBeat ref then beat_reply enc r ch else ch)
      else ch)"

definition serve :: "server_ext \<Rightarrow> frame \<Rightarrow> control_plane \<Rightarrow> reply option \<times> control_plane" where
  "serve se f cp = handle_in se (fr_event f) (fr_payload f) cp"

definition serve_current :: "server_ext \<Rightarrow> frame \<Rightarrow> frame list \<Rightarrow> channel \<Rightarrow> channel" where
  "serve_current se f rest ch = (case serve se f (ch_server ch) of (r, cp) \<Rightarrow>
     ch\<lparr>ch_up := rest, ch_server := cp, ch_down := ch_down ch @ (case r of None \<Rightarrow> [] | Some a \<Rightarrow> [(fr_ref f, a)])\<rparr>)"

definition channel_payload :: "jvalue \<Rightarrow> bool" where
  "channel_payload p \<longleftrightarrow> is_object p \<or> p = VNull"

inductive channel_step :: "json_printer \<Rightarrow> server_ext \<Rightarrow> channel \<Rightarrow> channel \<Rightarrow> bool" for enc se where
  push: "ch_opened ch \<Longrightarrow> event \<in> set REPLAYABLE_EVENTS \<Longrightarrow> channel_payload payload \<Longrightarrow> ci_seq (ch_inner ch) + 2 < 2 ^ 64 \<Longrightarrow>
    channel_step enc se ch (channel_push enc event payload ch)"
| wake: "ch_link ch = Live \<Longrightarrow> ch_flusher ch = Parked \<Longrightarrow> channel_step enc se ch (ch\<lparr>ch_flusher := Sending (unsent (ch_inner ch)) []\<rparr>)"
| flush: "ch_link ch = Live \<Longrightarrow> ch_flusher ch = Sending todo run \<Longrightarrow> channel_step enc se ch (flush_move todo run ch)"
| flush_fails: "ch_link ch = Live \<Longrightarrow> channel_step enc se ch (ch\<lparr>ch_flusher := Parked\<rparr>)"
| beat_read: "ch_link ch = Live \<Longrightarrow> ch_beat ch = BeatIdle \<Longrightarrow> ci_last_acked (ch_inner ch) < ci_sent_upto (ch_inner ch) \<Longrightarrow>
    channel_step enc se ch (ch\<lparr>ch_beat := BeatRead (ci_sent_upto (ch_inner ch))\<rparr>)"
| beat_send: "ch_link ch = Live \<Longrightarrow> ch_beat ch = BeatRead h \<Longrightarrow>
    channel_step enc se ch ((send_frame ''heartbeat'' (vobj [(''sequence'', json_seq h)]) ch)\<lparr>ch_beat := AwaitBeat (ch_next_ref ch)\<rparr>)"
| beat_fails: "ch_link ch = Live \<Longrightarrow> channel_step enc se ch (ch\<lparr>ch_beat := BeatIdle\<rparr>)"
| reply: "ch_down ch = (ref, r) # rest \<Longrightarrow> channel_step enc se ch (route_reply enc ref r (ch\<lparr>ch_down := rest\<rparr>))"
| link_up: "ch_link ch = Down \<Longrightarrow> channel_step enc se ch (connect has_id reg ch)"
| link_down: "ch_link ch \<noteq> Down \<Longrightarrow> channel_step enc se ch (disconnect ch)"
| served: "ch_up ch = f # rest \<Longrightarrow> channel_step enc se ch (serve_current se f rest ch)"
| served_late: "ch_old ch = ps @ (f # rest) # qs \<Longrightarrow>
    channel_step enc se ch (ch\<lparr>ch_old := ps @ rest # qs, ch_server := snd (serve se f (ch_server ch))\<rparr>)"
| dropped: "ch_old ch = ps @ p # qs \<Longrightarrow> channel_step enc se ch (ch\<lparr>ch_old := ps @ qs\<rparr>)"

inductive_cases channel_stepE: "channel_step enc se ch ch'"

section \<open>What the server does with a frame\<close>

text \<open>An event the server can store under its own number.\<close>

definition acceptable :: "server_ext \<Rightarrow> Outgoing \<Rightarrow> bool" where
  "acceptable se x \<longleftrightarrow> is_object (out_payload x)
     \<and> (out_event x = ''trace_span'' \<longrightarrow> get_str ''id'' (out_payload x) \<noteq> None \<and> span_valid se (out_payload x))
     \<and> (out_event x = ''review_item'' \<longrightarrow> item_valid se (out_payload x))"

definition stored :: "control_plane \<Rightarrow> Outgoing \<Rightarrow> bool" where
  "stored cp x \<longleftrightarrow> cp_rows cp (out_event x, out_seq x) = Some (out_payload x)"

definition settled_for :: "server_ext \<Rightarrow> nat set \<Rightarrow> control_plane \<Rightarrow> Outgoing \<Rightarrow> bool" where
  "settled_for se sh cp x \<longleftrightarrow> out_seq x \<in> sh \<or> stored cp x \<or> \<not> acceptable se x"

definition cp_le :: "control_plane \<Rightarrow> control_plane \<Rightarrow> bool" where
  "cp_le cp cp' \<longleftrightarrow> (\<forall>k p. cp_rows cp k = Some p \<longrightarrow> cp_rows cp' k = Some p) \<and> cp_last_client_sequence cp \<le> cp_last_client_sequence cp'"

text \<open>Everything numbered in this life of the client, with the number written into the payload.\<close>

definition history_ok :: "nat \<Rightarrow> Outgoing list \<Rightarrow> bool" where
  "history_ok n0 H \<longleftrightarrow> in_order H \<and> (\<forall>x\<in>set H. n0 < out_seq x \<and> out_event x \<in> set REPLAYABLE_EVENTS \<and>
     (if is_object (out_payload x) then fetch_sequence (out_payload x) = Some (out_seq x) else out_payload x = VNull))"

definition consistent :: "nat \<Rightarrow> Outgoing list \<Rightarrow> control_plane \<Rightarrow> bool" where
  "consistent n0 H cp \<longleftrightarrow>
     (\<forall>e n p. cp_rows cp (e, n) = Some p \<longrightarrow> n0 < n \<longrightarrow> (\<exists>x\<in>set H. out_event x = e \<and> out_seq x = n \<and> out_payload x = p)) \<and>
     (\<forall>(e, n)\<in>set (cp_spans cp). n0 < n \<longrightarrow> (\<exists>x\<in>set H. out_event x = ''trace_span'' \<and> out_seq x = n \<and> get_str ''id'' (out_payload x) = Some e))"

lemma in_order_unique: "in_order H \<Longrightarrow> x \<in> set H \<Longrightarrow> y \<in> set H \<Longrightarrow> out_seq x = out_seq y \<Longrightarrow> x = y"
  by (induction H) auto

lemma history_object:
  "history_ok n0 H \<Longrightarrow> x \<in> set H \<Longrightarrow> is_object (out_payload x) \<Longrightarrow> fetch_sequence (out_payload x) = Some (out_seq x) \<and> payload_seq (out_payload x) = out_seq x"
  unfolding history_ok_def payload_seq_def by force

lemma history_null: "history_ok n0 H \<Longrightarrow> x \<in> set H \<Longrightarrow> \<not> is_object (out_payload x) \<Longrightarrow> out_payload x = VNull"
  unfolding history_ok_def by auto

lemma payload_seq_null [simp]: "payload_seq VNull = 0" "fetch_sequence VNull = None" "get_str k VNull = None"
  by (simp_all add: payload_seq_def fetch_sequence_def get_str_def)

lemma or_empty_object [simp]: "is_object p \<Longrightarrow> or_empty p = p"
  by (auto simp: or_empty_def)

lemma cp_le_refl [simp]: "cp_le cp cp"
  by (simp add: cp_le_def)

lemma cp_le_trans: "cp_le a b \<Longrightarrow> cp_le b c \<Longrightarrow> cp_le a c"
  by (fastforce simp: cp_le_def)

lemma record_session_event_le: "cp_le cp (record_session_event e n p cp)"
  by (auto simp: cp_le_def record_session_event_def split: option.split)

lemma record_session_event_lcs [simp]: "cp_last_client_sequence (record_session_event e n p cp) = cp_last_client_sequence cp"
  "cp_spans (record_session_event e n p cp) = cp_spans cp"
  by (simp_all add: record_session_event_def split: option.split)

lemma record_session_event_consistent:
  assumes "consistent n0 H cp" "history_ok n0 H" "x \<in> set H"
  shows "consistent n0 H (record_session_event (out_event x) (payload_seq (out_payload x)) (out_payload x) cp)"
  using assms history_object [OF assms(2,3)] history_null [OF assms(2,3)]
  by (cases "is_object (out_payload x)") (auto simp: consistent_def record_session_event_def split: option.split if_splits)

lemma record_session_event_stored:
  assumes "consistent n0 H cp" "history_ok n0 H" "x \<in> set H" "is_object (out_payload x)"
  shows "stored (record_session_event (out_event x) (out_seq x) (out_payload x) cp) x"
proof (cases "cp_rows cp (out_event x, out_seq x)")
  case (Some p)
  have "n0 < out_seq x" "in_order H" using assms(2,3) by (auto simp: history_ok_def)
  then have "out_payload x = p" using assms(1,3) Some in_order_unique [of H x] unfolding consistent_def by metis
  then show ?thesis using Some by (simp add: stored_def record_session_event_def)
qed (use assms(4) in \<open>simp add: stored_def record_session_event_def\<close>)

lemma stored_le: "stored cp x \<Longrightarrow> cp_le cp cp' \<Longrightarrow> stored cp' x"
  by (simp add: stored_def cp_le_def)

subsection \<open>Frames\<close>

definition batch_events :: "frame \<Rightarrow> jvalue list" where
  "batch_events f = (case get_array ''events'' (fr_payload f) of Some es \<Rightarrow> es | None \<Rightarrow> [])"

definition carries :: "frame \<Rightarrow> Outgoing \<Rightarrow> bool" where
  "carries f x \<longleftrightarrow> (if is_pty x then fr_event f = ''pty_output_batch'' \<and> out_payload x \<in> set (batch_events f)
     else fr_event f = out_event x \<and> fr_payload f = out_payload x)"

definition ack_of :: "frame \<Rightarrow> nat option" where
  "ack_of f = (if fr_event f = ''pty_output_batch'' then Some (foldl (\<lambda>n e. max n (payload_seq e)) 0 (batch_events f))
     else if fr_event f = ''heartbeat'' then Some (payload_seq (fr_payload f)) else None)"

definition frame_ok :: "Outgoing list \<Rightarrow> frame \<Rightarrow> bool" where
  "frame_ok H f \<longleftrightarrow> fr_event f \<in> {''session_register'', ''session_resume'', ''heartbeat''}
     \<or> fr_event f = ''pty_output_batch'' \<and> get_array ''events'' (fr_payload f) \<noteq> None \<and> set (batch_events f) \<subseteq> out_payload ` {x \<in> set H. is_pty x}
     \<or> (\<exists>x\<in>set H. \<not> is_pty x \<and> fr_event f = out_event x \<and> fr_payload f = out_payload x)"

lemma plain_events: "out_event x \<in> set REPLAYABLE_EVENTS \<Longrightarrow> \<not> is_pty x \<Longrightarrow>
    out_event x \<in> {''pty_exit'', ''trace_span'', ''review_item'', ''codex_item'', ''codex_turn'', ''codex_token_usage'', ''codex_error''}"
  by (auto simp: REPLAYABLE_EVENTS_def is_pty_def)

lemma pty_foldl:
  assumes "consistent n0 H cp" "history_ok n0 H" "set es \<subseteq> out_payload ` {x \<in> set H. is_pty x}"
  shows "let cp' = foldl (\<lambda>cp e. record_session_event ''pty_output'' (payload_seq e) e cp) cp es in
    cp_le cp cp' \<and> consistent n0 H cp' \<and> cp_last_client_sequence cp' = cp_last_client_sequence cp \<and>
    (\<forall>x\<in>set H. is_pty x \<and> is_object (out_payload x) \<and> out_payload x \<in> set es \<longrightarrow> stored cp' x)"
  using assms(1,3)
proof (induction es arbitrary: cp)
  case (Cons e es)
  obtain y where y: "y \<in> set H" "is_pty y" "e = out_payload y" using Cons.prems(2) by auto
  let ?cp = "record_session_event ''pty_output'' (payload_seq e) e cp"
  have ev: "out_event y = ''pty_output''" using y(2) by (simp add: is_pty_def)
  have con: "consistent n0 H ?cp" using record_session_event_consistent [OF Cons.prems(1) assms(2) y(1)] ev y(3) by simp
  note IH = Cons.IH [OF con, unfolded Let_def]
  have mine: "stored ?cp x" if x: "x \<in> set H" "is_pty x" "is_object (out_payload x)" "out_payload x = e" for x
    using record_session_event_stored [OF Cons.prems(1) assms(2) x(1,3)] history_object [OF assms(2) x(1,3)] x(2,4) by (simp add: is_pty_def)
  have rest: "set es \<subseteq> out_payload ` {x \<in> set H. is_pty x}" using Cons.prems(2) by simp
  note IH = IH [OF rest]
  let ?cp' = "foldl (\<lambda>cp e. record_session_event ''pty_output'' (payload_seq e) e cp) ?cp es"
  have le: "cp_le ?cp ?cp'" using IH by blast
  then have "cp_le cp ?cp'" by (rule cp_le_trans [OF record_session_event_le])
  moreover have "stored ?cp' x" if "x \<in> set H" "is_pty x \<and> is_object (out_payload x) \<and> out_payload x \<in> set (e # es)" for x
    using that IH mine [of x] stored_le [OF _ le] by (cases "out_payload x = e") simp_all
  ultimately show ?case using IH by (simp add: Let_def)
qed simp

lemma record_span_cases:
  assumes "record_span se p cp = Some cp'"
  obtains e n where "get_str ''id'' p = Some e" "fetch_sequence p = Some n"
    "cp' = record_session_event ''trace_span'' n p (cp\<lparr>cp_spans := bt_insert e n (cp_spans cp)\<rparr>)"
  using assms by (auto simp: record_span_def split: option.splits if_splits)

lemma bt_insert_subset: "set (bt_insert k v m) \<subseteq> insert (k, v) (set m)"
  by (induction m) (auto split: if_splits)

lemma cp_spans_upd [simp]: "cp_le cp (cp\<lparr>cp_spans := s\<rparr>)"
  by (simp add: cp_le_def)

lemma consistent_span:
  "consistent n0 H cp \<Longrightarrow> (e, n) \<in> set (cp_spans cp) \<Longrightarrow> n0 < n \<Longrightarrow>
    \<exists>x\<in>set H. out_event x = ''trace_span'' \<and> out_seq x = n \<and> get_str ''id'' (out_payload x) = Some e"
  by (auto simp: consistent_def)

lemma record_span_kept:
  assumes "consistent n0 H cp" "history_ok n0 H" "x \<in> set H" "out_event x = ''trace_span''" "record_span se (out_payload x) cp = Some cp'"
  shows "cp_le cp cp'" "consistent n0 H cp'" "cp_last_client_sequence cp' = cp_last_client_sequence cp"
proof -
  obtain e n where sp: "get_str ''id'' (out_payload x) = Some e" "fetch_sequence (out_payload x) = Some n"
    "cp' = record_session_event ''trace_span'' n (out_payload x) (cp\<lparr>cp_spans := bt_insert e n (cp_spans cp)\<rparr>)"
    by (rule record_span_cases [OF assms(5)])
  let ?cp = "cp\<lparr>cp_spans := bt_insert e n (cp_spans cp)\<rparr>"
  have obj: "is_object (out_payload x)" using sp(1) history_null [OF assms(2,3)] by force
  then have n: "n = out_seq x" "payload_seq (out_payload x) = n" using sp(2) history_object [OF assms(2,3)] by auto
  have "consistent n0 H ?cp" unfolding consistent_def
  proof (intro conjI ballI)
    show "\<forall>e n p. cp_rows ?cp (e, n) = Some p \<longrightarrow> n0 < n \<longrightarrow> (\<exists>x\<in>set H. out_event x = e \<and> out_seq x = n \<and> out_payload x = p)"
      using assms(1) by (simp add: consistent_def)
    fix em assume "em \<in> set (cp_spans ?cp)"
    then have "em = (e, n) \<or> em \<in> set (cp_spans cp)" using bt_insert_subset [of e n "cp_spans cp"] by auto
    then show "case em of (e, n) \<Rightarrow> n0 < n \<longrightarrow> (\<exists>x\<in>set H. out_event x = ''trace_span'' \<and> out_seq x = n \<and> get_str ''id'' (out_payload x) = Some e)"
      using assms(1,3,4) sp(1) n(1) unfolding consistent_def by blast
  qed
  then show "consistent n0 H cp'" using record_session_event_consistent [OF _ assms(2,3), of ?cp] sp(3) n(2) assms(4) by simp
  show "cp_le cp cp'" using sp(3) cp_le_trans [OF cp_spans_upd record_session_event_le] by simp
  show "cp_last_client_sequence cp' = cp_last_client_sequence cp" using sp(3) by simp
qed

lemma record_span_stores:
  assumes "consistent n0 H cp" "history_ok n0 H" "x \<in> set H" "out_event x = ''trace_span''" "acceptable se x"
  shows "\<exists>cp'. record_span se (out_payload x) cp = Some cp' \<and> stored cp' x"
proof -
  have obj: "is_object (out_payload x)" and valid: "span_valid se (out_payload x)" using assms(4,5) by (auto simp: acceptable_def)
  obtain e where e: "get_str ''id'' (out_payload x) = Some e" using assms(4,5) by (auto simp: acceptable_def)
  have n: "fetch_sequence (out_payload x) = Some (out_seq x)" "n0 < out_seq x" "in_order H"
    using history_object [OF assms(2,3) obj] assms(2,3) by (auto simp: history_ok_def)
  have free: "\<not> list_ex (\<lambda>(e', m). e' \<noteq> e \<and> m = out_seq x) (cp_spans cp)"
  proof
    assume "list_ex (\<lambda>(e', m). e' \<noteq> e \<and> m = out_seq x) (cp_spans cp)"
    then obtain e' where "(e', out_seq x) \<in> set (cp_spans cp)" "e' \<noteq> e" by (auto simp: list_ex_iff)
    with n(2) assms(1) obtain z where "z \<in> set H" "out_seq z = out_seq x" "get_str ''id'' (out_payload z) = Some e'"
      using consistent_span [OF assms(1)] by blast
    then show False using in_order_unique [OF n(3) \<open>z \<in> set H\<close> assms(3)] e \<open>e' \<noteq> e\<close> by auto
  qed
  have "consistent n0 H (cp\<lparr>cp_spans := s\<rparr>) \<Longrightarrow> stored (record_session_event ''trace_span'' (out_seq x) (out_payload x) (cp\<lparr>cp_spans := s\<rparr>)) x" for s
    using record_session_event_stored [OF _ assms(2,3) obj] assms(4) by simp
  moreover have "record_session_event ''trace_span'' (out_seq x) (out_payload x) (cp\<lparr>cp_spans := s\<rparr>) = (record_session_event ''trace_span'' (out_seq x) (out_payload x) cp)\<lparr>cp_spans := s\<rparr>" for s
    by (auto simp: record_session_event_def split: option.split)
  ultimately show ?thesis using e n valid free record_session_event_stored [OF assms(1-3) obj] assms(4)
    by (simp add: record_span_def stored_def)
qed

text \<open>One frame: what it carries is stored, what was stored stays, and the mark moves only to what the frame acknowledges.\<close>

definition frame_effect :: "server_ext \<Rightarrow> nat \<Rightarrow> Outgoing list \<Rightarrow> frame \<Rightarrow> control_plane \<Rightarrow> reply option \<times> control_plane \<Rightarrow> bool" where
  "frame_effect se n0 H f cp rc \<longleftrightarrow> cp_le cp (snd rc) \<and> consistent n0 H (snd rc)
     \<and> cp_last_client_sequence (snd rc) = max (cp_last_client_sequence cp) (case ack_of f of Some h \<Rightarrow> h | None \<Rightarrow> 0)
     \<and> (\<forall>x\<in>set H. carries f x \<longrightarrow> acceptable se x \<longrightarrow> stored (snd rc) x)
     \<and> (\<forall>a. fst rc = Some (ReplyOk a) \<longrightarrow> a = cp_last_client_sequence (snd rc))"

lemma frame_effect_control:
  assumes "consistent n0 H cp" "history_ok n0 H" "fr_event f \<in> {''session_register'', ''session_resume'', ''heartbeat''}"
  shows "frame_effect se n0 H f cp (serve se f cp)"
proof -
  have none: "\<not> carries f x" if "x \<in> set H" for x
    using that assms(2,3) by (auto simp: carries_def history_ok_def REPLAYABLE_EVENTS_def)
  consider "fr_event f = ''heartbeat''" | "fr_event f = ''session_register'' \<or> fr_event f = ''session_resume''" using assms(3) by auto
  then show ?thesis
  proof cases
    case 1
    then show ?thesis using assms(1) none
      by (simp add: frame_effect_def serve_def handle_in_def update_last_sequence_def Let_def ack_of_def cp_le_def consistent_def)
  next
    case 2
    then show ?thesis using assms(1) none
      by (auto simp: frame_effect_def serve_def handle_in_def ack_of_def)
  qed
qed

lemma frame_effect_batch:
  assumes "consistent n0 H cp" "history_ok n0 H" "fr_event f = ''pty_output_batch''" "get_array ''events'' (fr_payload f) \<noteq> None"
    "set (batch_events f) \<subseteq> out_payload ` {x \<in> set H. is_pty x}"
  shows "frame_effect se n0 H f cp (serve se f cp)"
proof -
  let ?cp = "foldl (\<lambda>cp e. record_session_event ''pty_output'' (payload_seq e) e cp) cp (batch_events f)"
  let ?h = "foldl (\<lambda>n e. max n (payload_seq e)) 0 (batch_events f)"
  note F = pty_foldl [OF assms(1,2,5), unfolded Let_def]
  have s: "serve se f cp = (Some (ReplyOk (max (cp_last_client_sequence ?cp) ?h)), ?cp\<lparr>cp_last_client_sequence := max (cp_last_client_sequence ?cp) ?h\<rparr>)"
    using assms(3,4) by (auto simp: serve_def handle_in_def batch_events_def record_pty_outputs_def update_last_sequence_def Let_def)
  have up: "cp_le ?cp (?cp\<lparr>cp_last_client_sequence := max (cp_last_client_sequence ?cp) ?h\<rparr>)" by (simp add: cp_le_def)
  have pty: "x \<in> set H \<Longrightarrow> carries f x \<Longrightarrow> is_pty x" for x
    using assms(2,3) by (auto simp: carries_def history_ok_def REPLAYABLE_EVENTS_def split: if_splits)
  have "stored ?cp x" if x: "x \<in> set H" "carries f x" "acceptable se x" for x
  proof -
    have "out_payload x \<in> set (batch_events f)" "is_object (out_payload x)" using x pty [OF x(1,2)] by (simp_all add: carries_def acceptable_def)
    then show ?thesis using F x(1) pty [OF x(1,2)] by blast
  qed
  then show ?thesis unfolding frame_effect_def s using F cp_le_trans [OF _ up] assms(3)
    by (simp add: ack_of_def stored_def consistent_def)
qed

text \<open>A plain event is recorded under its number, or refused without effect.\<close>

lemma serve_plain:
  assumes "consistent n0 H cp" "history_ok n0 H" "x \<in> set H" "\<not> is_pty x" "fr_event f = out_event x" "fr_payload f = out_payload x"
  shows "cp_le cp (snd (serve se f cp)) \<and> consistent n0 H (snd (serve se f cp))
    \<and> cp_last_client_sequence (snd (serve se f cp)) = cp_last_client_sequence cp \<and> (acceptable se x \<longrightarrow> stored (snd (serve se f cp)) x)
    \<and> (\<forall>a. fst (serve se f cp) \<noteq> Some (ReplyOk a))"
proof -
  let ?event = "record_session_event (out_event x) (payload_seq (out_payload x)) (out_payload x) cp"
  have event: "cp_le cp ?event" "consistent n0 H ?event" "cp_last_client_sequence ?event = cp_last_client_sequence cp"
    "acceptable se x \<Longrightarrow> stored ?event x"
    using record_session_event_le record_session_event_consistent [OF assms(1-3)] record_session_event_stored [OF assms(1-3)]
      history_object [OF assms(2,3)] by (auto simp: acceptable_def)
  have "out_event x \<in> set REPLAYABLE_EVENTS" using assms(2,3) by (simp add: history_ok_def)
  from plain_events [OF this assms(4)]
  consider "out_event x = ''trace_span''" | "out_event x = ''review_item''"
    | "out_event x \<in> {''pty_exit'', ''codex_item'', ''codex_turn'', ''codex_token_usage'', ''codex_error''}" by auto
  then show ?thesis
  proof cases
    case 1
    show ?thesis
    proof (cases "record_span se (out_payload x) cp")
      case None
      then show ?thesis using record_span_stores [OF assms(1-3) 1, of se] 1 assms(1,5,6) by (auto simp: serve_def handle_in_def)
    next
      case (Some cp')
      then have "serve se f cp = (None, cp')" using 1 assms(5,6) by (simp add: serve_def handle_in_def)
      then show ?thesis using record_span_kept [OF assms(1-3) 1 Some] record_span_stores [OF assms(1-3) 1, of se] Some by auto
    qed
  next
    case 2
    then have "serve se f cp = (if item_valid se (out_payload x) then (None, ?event) else (Some ReplyError, cp))"
      using assms(5,6) by (simp add: serve_def handle_in_def upsert_review_item_def)
    then show ?thesis using event assms(1) 2 by (auto simp: acceptable_def)
  next
    case 3
    then have "serve se f cp = (None, ?event)" using assms(5,6) by (auto simp: serve_def handle_in_def)
    then show ?thesis using event by simp
  qed
qed

lemma frame_effect_plain:
  assumes "consistent n0 H cp" "history_ok n0 H" "x \<in> set H" "\<not> is_pty x" "fr_event f = out_event x" "fr_payload f = out_payload x"
  shows "frame_effect se n0 H f cp (serve se f cp)"
proof -
  have ev: "out_event x \<in> set REPLAYABLE_EVENTS" using assms(2,3) by (simp add: history_ok_def)
  have "ack_of f = None" using plain_events [OF ev assms(4)] assms(5) by (auto simp: ack_of_def)
  moreover have "stored (snd (serve se f cp)) y" if y: "y \<in> set H" "carries f y" "acceptable se y" for y
  proof -
    have "fr_event f \<noteq> ''pty_output_batch''" using plain_events [OF ev assms(4)] assms(5) by auto
    then have "\<not> is_pty y" "fr_event f = out_event y" "fr_payload f = out_payload y" using y(2) by (auto simp: carries_def split: if_splits)
    then show ?thesis using serve_plain [OF assms(1,2) y(1), of f se] y(3) by blast
  qed
  ultimately show ?thesis using serve_plain [OF assms, of se] by (simp add: frame_effect_def)
qed

lemma frame_effect_all:
  assumes "consistent n0 H cp" "history_ok n0 H" "frame_ok H f"
  shows "frame_effect se n0 H f cp (serve se f cp)"
proof -
  consider "fr_event f \<in> {''session_register'', ''session_resume'', ''heartbeat''}"
    | "fr_event f = ''pty_output_batch''" "get_array ''events'' (fr_payload f) \<noteq> None" "set (batch_events f) \<subseteq> out_payload ` {x \<in> set H. is_pty x}"
    | x where "x \<in> set H" "\<not> is_pty x" "fr_event f = out_event x" "fr_payload f = out_payload x"
    using assms(3) unfolding frame_ok_def by blast
  then show ?thesis
  proof cases
    case 1
    then show ?thesis by (rule frame_effect_control [OF assms(1,2)])
  next
    case 2
    then show ?thesis by (rule frame_effect_batch [OF assms(1,2)])
  next
    case 3
    then show ?thesis by (rule frame_effect_plain [OF assms(1,2)])
  qed
qed

section \<open>The invariant\<close>

definition covered :: "server_ext \<Rightarrow> nat set \<Rightarrow> control_plane \<Rightarrow> frame list \<Rightarrow> Outgoing \<Rightarrow> bool" where
  "covered se sh cp q x \<longleftrightarrow> settled_for se sh cp x \<or> (\<exists>g\<in>set q. carries g x)"

definition covers_upto :: "server_ext \<Rightarrow> nat set \<Rightarrow> control_plane \<Rightarrow> Outgoing list \<Rightarrow> frame list \<Rightarrow> nat \<Rightarrow> bool" where
  "covers_upto se sh cp H q h \<longleftrightarrow> (\<forall>x\<in>set H. out_seq x \<le> h \<longrightarrow> covered se sh cp q x)"

text \<open>What a frame acknowledges is settled or travels ahead of it, or in it, on the same connection.\<close>

definition pipe_ok :: "server_ext \<Rightarrow> nat set \<Rightarrow> control_plane \<Rightarrow> Outgoing list \<Rightarrow> frame list \<Rightarrow> bool" where
  "pipe_ok se sh cp H p \<longleftrightarrow> (\<forall>f\<in>set p. frame_ok H f) \<and> (\<forall>k<length p. \<forall>h. ack_of (p ! k) = Some h \<longrightarrow> covers_upto se sh cp H (take (Suc k) p) h)"

lemma settled_mono: "settled_for se sh cp x \<Longrightarrow> sh \<subseteq> sh' \<Longrightarrow> cp_le cp cp' \<Longrightarrow> settled_for se sh' cp' x"
  using stored_le by (auto simp: settled_for_def)

lemma covered_mono: "covered se sh cp q x \<Longrightarrow> sh \<subseteq> sh' \<Longrightarrow> cp_le cp cp' \<Longrightarrow> set q \<subseteq> set q' \<Longrightarrow> covered se sh' cp' q' x"
  using settled_mono by (fastforce simp: covered_def)

lemma upto_mono: "covers_upto se sh cp H q h \<Longrightarrow> sh \<subseteq> sh' \<Longrightarrow> cp_le cp cp' \<Longrightarrow> set q \<subseteq> set q' \<Longrightarrow> h' \<le> h \<Longrightarrow> covers_upto se sh' cp' H q' h'"
  using covered_mono by (fastforce simp: covers_upto_def)

lemma upto_max: "covers_upto se sh cp H q h \<Longrightarrow> covers_upto se sh cp H q h' \<Longrightarrow> covers_upto se sh cp H q (max h h')"
  by (auto simp: covers_upto_def)

lemma upto_extend: "covers_upto se sh cp H q h \<Longrightarrow> (\<And>x. x \<in> set new \<Longrightarrow> h < out_seq x) \<Longrightarrow> covers_upto se sh cp (H @ new) q h"
  by (fastforce simp: covers_upto_def)

lemma frame_ok_extend: "frame_ok H f \<Longrightarrow> frame_ok (H @ new) f"
  by (fastforce simp: frame_ok_def)

lemma pipe_ok_mono: "pipe_ok se sh cp H p \<Longrightarrow> sh \<subseteq> sh' \<Longrightarrow> cp_le cp cp' \<Longrightarrow> pipe_ok se sh' cp' H p"
  using upto_mono by (fastforce simp: pipe_ok_def)

lemma pipe_ok_snoc:
  "pipe_ok se sh cp H p \<Longrightarrow> frame_ok H f \<Longrightarrow> (\<And>h. ack_of f = Some h \<Longrightarrow> covers_upto se sh cp H (p @ [f]) h) \<Longrightarrow> pipe_ok se sh cp H (p @ [f])"
  by (auto simp: pipe_ok_def nth_append less_Suc_eq)

lemma pipe_ok_extend:
  assumes "pipe_ok se sh cp H p" "\<And>f h. f \<in> set p \<Longrightarrow> ack_of f = Some h \<Longrightarrow> h \<le> n" "\<And>x. x \<in> set new \<Longrightarrow> n < out_seq x"
  shows "pipe_ok se sh cp (H @ new) p"
  unfolding pipe_ok_def
proof (intro conjI ballI allI impI)
  show "frame_ok (H @ new) f" if "f \<in> set p" for f using assms(1) that by (simp add: pipe_ok_def frame_ok_extend)
  fix k h assume k: "k < length p" and h: "ack_of (p ! k) = Some h"
  have "covers_upto se sh cp H (take (Suc k) p) h" using assms(1) k h by (simp add: pipe_ok_def)
  then show "covers_upto se sh cp (H @ new) (take (Suc k) p) h"
    using assms(2) [OF nth_mem [OF k] h] assms(3) by (intro upto_extend) fastforce+
qed

lemma covered_served:
  assumes "frame_effect se n0 H f cp rc" "x \<in> set H" "covered se sh cp (f # q) x"
  shows "covered se sh (snd rc) q x"
  using assms settled_mono [of se sh cp x sh "snd rc"] unfolding frame_effect_def covered_def settled_for_def by auto

lemma upto_served: "frame_effect se n0 H f cp rc \<Longrightarrow> covers_upto se sh cp H (f # q) h \<Longrightarrow> covers_upto se sh (snd rc) H q h"
  using covered_served by (fastforce simp: covers_upto_def)

lemma pipe_ok_served:
  assumes "frame_effect se n0 H f cp rc" "pipe_ok se sh cp H (f # p)"
  shows "pipe_ok se sh (snd rc) H p"
  unfolding pipe_ok_def
proof (intro conjI ballI allI impI)
  show "frame_ok H g" if "g \<in> set p" for g using assms(2) that by (simp add: pipe_ok_def)
  fix k h assume "k < length p" "ack_of (p ! k) = Some h"
  then have "covers_upto se sh cp H (take (Suc (Suc k)) (f # p)) h" using assms(2) unfolding pipe_ok_def by (metis Suc_less_eq length_Cons nth_Cons_Suc)
  then show "covers_upto se sh (snd rc) H (take (Suc k) p) h" using upto_served [OF assms(1)] by simp
qed

text \<open>The mark of the server covers only what is settled.\<close>

lemma mark_served:
  assumes "frame_effect se n0 H f cp rc" "pipe_ok se sh cp H (f # p)" "covers_upto se sh cp H [] (cp_last_client_sequence cp)"
  shows "covers_upto se sh (snd rc) H [] (cp_last_client_sequence (snd rc))"
proof -
  have le: "cp_le cp (snd rc)" using assms(1) by (simp add: frame_effect_def)
  have old: "covers_upto se sh (snd rc) H [] (cp_last_client_sequence cp)" by (rule upto_mono [OF assms(3) _ le]) simp_all
  have lcs: "cp_last_client_sequence (snd rc) = max (cp_last_client_sequence cp) (case ack_of f of Some h \<Rightarrow> h | None \<Rightarrow> 0)"
    using assms(1) by (simp add: frame_effect_def)
  show ?thesis
  proof (cases "ack_of f")
    case None
    then show ?thesis using old lcs by simp
  next
    case (Some h)
    then have "covers_upto se sh cp H [f] h" using assms(2) unfolding pipe_ok_def by (metis length_Cons nth_Cons_0 take0 take_Suc_Cons zero_less_Suc)
    then have "covers_upto se sh (snd rc) H [] h" by (rule upto_served [OF assms(1)])
    then show ?thesis using old lcs Some by (simp add: upto_max)
  qed
qed

subsection \<open>The parts\<close>

definition data_inv :: "json_printer \<Rightarrow> server_ext \<Rightarrow> nat \<Rightarrow> Outgoing list \<Rightarrow> ChannelInner \<Rightarrow> nat set \<Rightarrow> control_plane \<Rightarrow> bool" where
  "data_inv enc se n0 H i sh cp \<longleftrightarrow> history_ok n0 H \<and> (\<forall>x\<in>set H. out_seq x \<le> ci_seq i) \<and> outbox_ok enc i \<and> set (ci_outbox i) \<subseteq> set H
     \<and> (\<forall>x\<in>set H. out_seq x \<in> sh \<longrightarrow> is_pty x) \<and> (\<forall>n\<in>sh. n \<le> ci_seq i) \<and> consistent n0 H cp \<and> (\<forall>x\<in>set H. x \<in> set (ci_outbox i) \<or> settled_for se sh cp x)
     \<and> covers_upto se sh cp H [] (cp_last_client_sequence cp) \<and> ci_last_acked i \<le> cp_last_client_sequence cp"

definition pipes :: "channel \<Rightarrow> frame list set" where
  "pipes ch = insert (ch_up ch) (set (ch_old ch))"

definition wire_inv :: "server_ext \<Rightarrow> nat \<Rightarrow> channel \<Rightarrow> bool" where
  "wire_inv se n0 ch \<longleftrightarrow> (\<forall>p\<in>pipes ch. pipe_ok se (ch_shed ch) (ch_server ch) (ch_history ch) p)
     \<and> (\<forall>r a. (r, ReplyOk a) \<in> set (ch_down ch) \<longrightarrow> a \<le> cp_last_client_sequence (ch_server ch))
     \<and> (if ch_opened ch then cp_last_client_sequence (ch_server ch) \<le> ci_seq (ch_inner ch) \<and> n0 \<le> ci_seq (ch_inner ch)
          \<and> (\<forall>p\<in>pipes ch. \<forall>f\<in>set p. \<forall>h. ack_of f = Some h \<longrightarrow> h \<le> ci_seq (ch_inner ch))
        else ch_history ch = [] \<and> cp_last_client_sequence (ch_server ch) = n0 \<and> (\<forall>p\<in>pipes ch. \<forall>f\<in>set p. ack_of f = None)
          \<and> (\<forall>r a. (r, ReplyOk a) \<in> set (ch_down ch) \<longrightarrow> a = n0))"

text \<open>What the flusher has yet to send: everything that comes before is settled, on the wire, or in its hands.\<close>

definition sending_ok :: "server_ext \<Rightarrow> nat set \<Rightarrow> control_plane \<Rightarrow> Outgoing list \<Rightarrow> frame list \<Rightarrow> Outgoing list \<Rightarrow> bool" where
  "sending_ok se sh cp H q ys \<longleftrightarrow> set ys \<subseteq> set H \<and> in_order ys
     \<and> (\<forall>y\<in>set ys. \<forall>x\<in>set H. out_seq x < out_seq y \<longrightarrow> covered se sh cp q x \<or> x \<in> set ys)"

fun flusher_ok :: "server_ext \<Rightarrow> nat set \<Rightarrow> control_plane \<Rightarrow> Outgoing list \<Rightarrow> frame list \<Rightarrow> flusher \<Rightarrow> bool" where
  "flusher_ok se sh cp H q Parked = True"
| "flusher_ok se sh cp H q (Sending todo run) \<longleftrightarrow> sending_ok se sh cp H q (run @ todo) \<and> (\<forall>y\<in>set run. is_pty y)"
| "flusher_ok se sh cp H q (AwaitBatch ref l todo) \<longleftrightarrow> sending_ok se sh cp H q todo \<and> covers_upto se sh cp H q l \<and> (\<exists>x\<in>set H. l = out_seq x)"

fun beat_ok :: "server_ext \<Rightarrow> nat set \<Rightarrow> control_plane \<Rightarrow> Outgoing list \<Rightarrow> frame list \<Rightarrow> nat \<Rightarrow> beat \<Rightarrow> bool" where
  "beat_ok se sh cp H q n (BeatRead h) \<longleftrightarrow> covers_upto se sh cp H q h \<and> h \<le> n"
| "beat_ok se sh cp H q n b = True"

definition task_inv :: "server_ext \<Rightarrow> channel \<Rightarrow> bool" where
  "task_inv se ch \<longleftrightarrow> (if ch_link ch = Live then ch_opened ch
       \<and> covers_upto se (ch_shed ch) (ch_server ch) (ch_history ch) (ch_up ch) (ci_sent_upto (ch_inner ch)) \<and> ci_sent_upto (ch_inner ch) \<le> ci_seq (ch_inner ch)
       \<and> flusher_ok se (ch_shed ch) (ch_server ch) (ch_history ch) (ch_up ch) (ch_flusher ch)
       \<and> beat_ok se (ch_shed ch) (ch_server ch) (ch_history ch) (ch_up ch) (ci_seq (ch_inner ch)) (ch_beat ch)
     else ch_flusher ch = Parked \<and> ch_beat ch = BeatIdle)"

definition channel_inv :: "json_printer \<Rightarrow> server_ext \<Rightarrow> nat \<Rightarrow> channel \<Rightarrow> bool" where
  "channel_inv enc se n0 ch \<longleftrightarrow> data_inv enc se n0 (ch_history ch) (ch_inner ch) (ch_shed ch) (ch_server ch) \<and> wire_inv se n0 ch \<and> task_inv se ch"

lemma sending_mono: "sending_ok se sh cp H q ys \<Longrightarrow> sh \<subseteq> sh' \<Longrightarrow> cp_le cp cp' \<Longrightarrow> set q \<subseteq> set q' \<Longrightarrow> sending_ok se sh' cp' H q' ys"
  unfolding sending_ok_def by (blast intro: covered_mono)

lemma flusher_mono: "flusher_ok se sh cp H q fl \<Longrightarrow> sh \<subseteq> sh' \<Longrightarrow> cp_le cp cp' \<Longrightarrow> set q \<subseteq> set q' \<Longrightarrow> flusher_ok se sh' cp' H q' fl"
  by (cases fl) (auto intro: sending_mono upto_mono)

lemma beat_mono: "beat_ok se sh cp H q n b \<Longrightarrow> sh \<subseteq> sh' \<Longrightarrow> cp_le cp cp' \<Longrightarrow> set q \<subseteq> set q' \<Longrightarrow> n \<le> n' \<Longrightarrow> beat_ok se sh' cp' H q' n' b"
  by (cases b) (auto intro: upto_mono)

lemma sending_served:
  assumes "frame_effect se n0 H f cp rc" "sending_ok se sh cp H (f # q) ys"
  shows "sending_ok se sh (snd rc) H q ys"
  using assms covered_served [OF assms(1)] unfolding sending_ok_def by blast

lemma flusher_served: "frame_effect se n0 H f cp rc \<Longrightarrow> flusher_ok se sh cp H (f # q) fl \<Longrightarrow> flusher_ok se sh (snd rc) H q fl"
  by (cases fl) (auto intro: sending_served upto_served)

lemma beat_served: "frame_effect se n0 H f cp rc \<Longrightarrow> beat_ok se sh cp H (f # q) n b \<Longrightarrow> beat_ok se sh (snd rc) H q n b"
  by (cases b) (auto intro: upto_served)

lemma data_served:
  assumes "data_inv enc se n0 H i sh cp" "frame_effect se n0 H f cp rc" "pipe_ok se sh cp H (f # p)"
  shows "data_inv enc se n0 H i sh (snd rc)"
proof -
  have le: "cp_le cp (snd rc)" and con: "consistent n0 H (snd rc)" using assms(2) by (auto simp: frame_effect_def)
  have "ci_last_acked i \<le> cp_last_client_sequence (snd rc)" using assms(1) le by (auto simp: data_inv_def cp_le_def)
  then show ?thesis using assms(1) con settled_mono [OF _ _ le] mark_served [OF assms(2,3)] by (auto simp: data_inv_def)
qed

subsection \<open>The server's steps\<close>

lemma inv_pipe:
  assumes "channel_inv enc se n0 ch" "p \<in> pipes ch"
  shows "pipe_ok se (ch_shed ch) (ch_server ch) (ch_history ch) p"
  using assms by (simp add: channel_inv_def wire_inv_def)

lemma inv_effect:
  assumes "channel_inv enc se n0 ch" "p \<in> pipes ch" "f \<in> set p"
  shows "frame_effect se n0 (ch_history ch) f (ch_server ch) (serve se f (ch_server ch))"
proof (rule frame_effect_all)
  show "consistent n0 (ch_history ch) (ch_server ch)" "history_ok n0 (ch_history ch)" using assms(1) by (simp_all add: channel_inv_def data_inv_def)
  show "frame_ok (ch_history ch) f" using inv_pipe [OF assms(1,2)] assms(3) by (simp add: pipe_ok_def)
qed

text \<open>The replies and the mark stay within what the client has numbered.\<close>

lemma mark_bounds:
  assumes "channel_inv enc se n0 ch" "p \<in> pipes ch" "f \<in> set p" "serve se f (ch_server ch) = (r, cp')"
  shows "if ch_opened ch then cp_last_client_sequence cp' \<le> ci_seq (ch_inner ch) else cp_last_client_sequence cp' = n0"
proof -
  have lcs: "cp_last_client_sequence cp' = max (cp_last_client_sequence (ch_server ch)) (case ack_of f of Some h \<Rightarrow> h | None \<Rightarrow> 0)"
    using inv_effect [OF assms(1-3)] assms(4) by (simp add: frame_effect_def)
  then show ?thesis using assms(1-3) by (cases "ack_of f") (auto simp: channel_inv_def wire_inv_def)
qed

lemma wire_served:
  assumes inv: "channel_inv enc se n0 ch" and p: "p \<in> pipes ch" "f \<in> set p" and s: "serve se f (ch_server ch) = (r, cp')"
    and same: "ch_server ch' = cp'" "ch_opened ch' = ch_opened ch" "ch_inner ch' = ch_inner ch" "ch_history ch' = ch_history ch" "ch_shed ch' = ch_shed ch"
    and pipes: "\<And>q. q \<in> pipes ch' \<Longrightarrow> pipe_ok se (ch_shed ch) cp' (ch_history ch) q"
    and frames: "\<And>q g. q \<in> pipes ch' \<Longrightarrow> g \<in> set q \<Longrightarrow> \<exists>q'\<in>pipes ch. g \<in> set q'"
    and replies: "\<And>m a. (m, ReplyOk a) \<in> set (ch_down ch') \<Longrightarrow> r = Some (ReplyOk a) \<or> (m, ReplyOk a) \<in> set (ch_down ch)"
  shows "wire_inv se n0 ch'"
proof -
  have old: "wire_inv se n0 ch" using inv by (simp add: channel_inv_def)
  note eff = inv_effect [OF inv p, unfolded s frame_effect_def, simplified]
  note bounds = mark_bounds [OF inv p s]
  have lcs: "cp_last_client_sequence (ch_server ch) \<le> cp_last_client_sequence cp'" using eff by (simp add: cp_le_def)
  have rep: "r = Some (ReplyOk a) \<Longrightarrow> a = cp_last_client_sequence cp'" for a using eff by simp
  have old_rep: "(m, ReplyOk a) \<in> set (ch_down ch) \<Longrightarrow> a \<le> cp_last_client_sequence (ch_server ch)" for m a using old by (simp add: wire_inv_def)
  have le_reply: "a \<le> cp_last_client_sequence cp'" if "(m, ReplyOk a) \<in> set (ch_down ch')" for m a
    using replies [OF that] rep [of a] old_rep [of m a] lcs by auto
  show ?thesis
  proof (cases "ch_opened ch")
    case True
    have "h \<le> ci_seq (ch_inner ch)" if "q \<in> pipes ch'" "g \<in> set q" "ack_of g = Some h" for q g h
      using frames [OF that(1,2)] that(3) old True unfolding wire_inv_def by auto
    moreover have "n0 \<le> ci_seq (ch_inner ch)" using old True by (simp add: wire_inv_def)
    ultimately show ?thesis using pipes le_reply True bounds unfolding wire_inv_def by (simp add: same)
  next
    case False
    have "ack_of g = None" if "q \<in> pipes ch'" "g \<in> set q" for q g
      using frames [OF that] old False unfolding wire_inv_def by auto
    moreover have "a = n0" if "(m, ReplyOk a) \<in> set (ch_down ch')" for m a
      using replies [OF that] old bounds eff False unfolding wire_inv_def by auto
    moreover have "ch_history ch = []" using old False by (simp add: wire_inv_def)
    ultimately show ?thesis using pipes le_reply False bounds unfolding wire_inv_def by (simp add: same)
  qed
qed

lemma inv_served:
  assumes inv: "channel_inv enc se n0 ch" and up: "ch_up ch = f # rest"
  shows "channel_inv enc se n0 (serve_current se f rest ch)"
proof -
  obtain r cp' where s: "serve se f (ch_server ch) = (r, cp')" by (cases "serve se f (ch_server ch)")
  have p: "f # rest \<in> pipes ch" "f \<in> set (f # rest)" by (simp_all add: pipes_def up)
  have eff: "frame_effect se n0 (ch_history ch) f (ch_server ch) (r, cp')" using inv_effect [OF inv p] by (simp add: s)
  then have le: "cp_le (ch_server ch) cp'" by (simp add: frame_effect_def)
  note pipe = inv_pipe [OF inv p(1)]
  let ?ch = "ch\<lparr>ch_up := rest, ch_server := cp', ch_down := ch_down ch @ (case r of None \<Rightarrow> [] | Some a \<Rightarrow> [(fr_ref f, a)])\<rparr>"
  have "data_inv enc se n0 (ch_history ch) (ch_inner ch) (ch_shed ch) cp'"
    using data_served [OF _ eff pipe] inv by (simp add: channel_inv_def)
  moreover have "wire_inv se n0 ?ch"
  proof (rule wire_served [OF inv p s])
    show "pipe_ok se (ch_shed ch) cp' (ch_history ch) q" if "q \<in> pipes ?ch" for q
      using that pipe_ok_served [OF eff pipe] pipe_ok_mono [OF inv_pipe [OF inv] _ le] by (auto simp: pipes_def)
    show "\<exists>q'\<in>pipes ch. g \<in> set q'" if "q \<in> pipes ?ch" "g \<in> set q" for q g
      using that up by (auto simp: pipes_def)
  qed (auto split: option.splits)
  moreover have "task_inv se ?ch"
    using inv up flusher_served [OF eff] beat_served [OF eff] upto_served [OF eff] by (auto simp: channel_inv_def task_inv_def)
  ultimately show ?thesis by (simp add: channel_inv_def serve_current_def s)
qed

lemma inv_served_late:
  assumes inv: "channel_inv enc se n0 ch" and old: "ch_old ch = ps @ (f # rest) # qs"
  shows "channel_inv enc se n0 (ch\<lparr>ch_old := ps @ rest # qs, ch_server := snd (serve se f (ch_server ch))\<rparr>)"
proof -
  obtain r cp' where s: "serve se f (ch_server ch) = (r, cp')" by (cases "serve se f (ch_server ch)")
  have p: "f # rest \<in> pipes ch" "f \<in> set (f # rest)" by (simp_all add: pipes_def old)
  have eff: "frame_effect se n0 (ch_history ch) f (ch_server ch) (r, cp')" using inv_effect [OF inv p] by (simp add: s)
  then have le: "cp_le (ch_server ch) cp'" by (simp add: frame_effect_def)
  note pipe = inv_pipe [OF inv p(1)]
  let ?ch = "ch\<lparr>ch_old := ps @ rest # qs, ch_server := cp'\<rparr>"
  have "data_inv enc se n0 (ch_history ch) (ch_inner ch) (ch_shed ch) cp'"
    using data_served [OF _ eff pipe] inv by (simp add: channel_inv_def)
  moreover have "wire_inv se n0 ?ch"
  proof (rule wire_served [OF inv p s])
    show "pipe_ok se (ch_shed ch) cp' (ch_history ch) q" if "q \<in> pipes ?ch" for q
      using that pipe_ok_served [OF eff pipe] pipe_ok_mono [OF inv_pipe [OF inv] _ le] old by (auto simp: pipes_def)
    show "\<exists>q'\<in>pipes ch. g \<in> set q'" if "q \<in> pipes ?ch" "g \<in> set q" for q g
      using that old by (auto simp: pipes_def)
  qed simp_all
  moreover have "task_inv se ?ch"
    using inv flusher_mono [OF _ order_refl le order_refl] beat_mono [OF _ order_refl le order_refl order_refl] upto_mono [OF _ order_refl le order_refl order_refl]
    by (simp add: channel_inv_def task_inv_def)
  ultimately show ?thesis by (simp add: channel_inv_def s)
qed

subsection \<open>A push\<close>

definition markers :: "json_printer \<Rightarrow> string \<Rightarrow> jvalue \<Rightarrow> ChannelInner \<Rightarrow> Outgoing list" where
  "markers enc event payload i = filter (\<lambda>y. ci_seq i + 1 < out_seq y) (ci_outbox (push_replayable enc event payload i))"

lemma push_effect:
  fixes enc event payload i
  defines "i' \<equiv> push_replayable enc event payload i" and "x \<equiv> numbered event payload i" and "ms \<equiv> markers enc event payload i"
  assumes "outbox_ok enc i"
  shows "set (ci_outbox i') \<subseteq> insert x (set (ci_outbox i)) \<union> set ms" "ms = [] \<or> ms = [marker (ci_seq i + 2)]" "set ms \<subseteq> set (ci_outbox i')"
    "y \<in> set (x # ms) \<Longrightarrow> ci_seq i < out_seq y \<and> out_seq y \<le> ci_seq i'" "ci_last_acked i' = ci_last_acked i" "ci_sent_upto i' = ci_sent_upto i"
    "y \<in> insert x (set (ci_outbox i)) \<Longrightarrow> \<not> is_pty y \<Longrightarrow> y \<in> set (ci_outbox i')" "ci_seq i' \<le> ci_seq i + 2"
proof -
  let ?e = "enqueue enc x i"
  have e: "ci_outbox ?e = ci_outbox i @ [x]" "ci_seq ?e = ci_seq i + 1" "out_seq x = ci_seq i + 1" by (simp_all add: enqueue_def x_def numbered_def)
  have i': "i' = shed_outbox enc OUTBOX_BYTE_CAP ?e" by (simp add: i'_def push_replayable_def x_def)
  have small: "out_seq y \<le> ci_seq i + 1" if "y \<in> set (ci_outbox ?e)" for y using that assms(4) e by (auto simp: outbox_ok_def)
  have shape: "(ms = [] \<and> set (ci_outbox i') \<subseteq> set (ci_outbox ?e) \<and> ci_seq i' = ci_seq i + 1) \<or>
      (ms = [marker (ci_seq i + 2)] \<and> set (ci_outbox i') \<subseteq> insert (marker (ci_seq i + 2)) (set (ci_outbox ?e)) \<and> ci_seq i' = ci_seq i + 2)"
  proof (cases rule: shed_outbox_cases [of enc OUTBOX_BYTE_CAP ?e])
    case (1 ob' b')
    then have "set ob' \<subseteq> set (ci_outbox ?e)" "i' = ?e\<lparr>ci_outbox := ob', ci_outbox_bytes := b'\<rparr>" by (simp_all add: shed_to_def i')
    moreover have "filter (\<lambda>y. ci_seq i + 1 < out_seq y) ob' = []" using small calculation(1) by (fastforce simp: filter_empty_conv)
    ultimately show ?thesis using e(2) by (simp add: ms_def markers_def i'_def [symmetric])
  next
    case (2 ob' b' n)
    then have ob: "set ob' \<subseteq> set (ci_outbox ?e)" and n: "n = ci_seq i + 2" by (simp_all add: shed_to_def e)
    have "filter (\<lambda>y. ci_seq i + 1 < out_seq y) ob' = []" using small ob by (fastforce simp: filter_empty_conv)
    then show ?thesis using 2 ob n i' by (auto simp: ms_def markers_def i'_def [symmetric] marker_def)
  qed
  show "set (ci_outbox i') \<subseteq> insert x (set (ci_outbox i)) \<union> set ms" "ms = [] \<or> ms = [marker (ci_seq i + 2)]" using shape e(1) by auto
  show "set ms \<subseteq> set (ci_outbox i')" by (auto simp: ms_def markers_def i'_def)
  show "y \<in> set (x # ms) \<Longrightarrow> ci_seq i < out_seq y \<and> out_seq y \<le> ci_seq i'" using shape e(3) by (auto simp: marker_def)
  show "ci_last_acked i' = ci_last_acked i" "ci_sent_upto i' = ci_sent_upto i" by (simp_all add: i' shed_outbox_frame enqueue_def)
  show "y \<in> insert x (set (ci_outbox i)) \<Longrightarrow> \<not> is_pty y \<Longrightarrow> y \<in> set (ci_outbox i')" unfolding i' by (rule shed_outbox_kept) (auto simp: e)
  show "ci_seq i' \<le> ci_seq i + 2" using shape by auto
qed

lemma history_push:
  assumes "history_ok n0 H" "\<forall>x\<in>set H. out_seq x \<le> ci_seq i" "n0 \<le> ci_seq i" "event \<in> set REPLAYABLE_EVENTS" "channel_payload payload"
    "ci_seq i + 2 < 2 ^ 64" "outbox_ok enc i"
  shows "history_ok n0 (H @ numbered event payload i # markers enc event payload i)"
proof -
  let ?x = "numbered event payload i" and ?ms = "markers enc event payload i"
  have fetch: "fetch_sequence (with_sequence n p) = Some n" if "is_object p" "n < 2 ^ 64" for n p
    using that by (cases p) (auto simp: fetch_sequence_def json_seq_def bt_get_insert unat_of_nat)
  have obj: "is_object (with_sequence n p) = is_object p" for n p by (cases p) auto
  have x: "if is_object (out_payload ?x) then fetch_sequence (out_payload ?x) = Some (out_seq ?x) else out_payload ?x = VNull"
    using assms(5,6) fetch [of payload "ci_seq i + 1"] obj [of "ci_seq i + 1" payload] by (cases "is_object payload") (auto simp: numbered_def channel_payload_def)
  have m: "fetch_sequence (out_payload (marker n)) = Some n" "is_object (out_payload (marker n))" if "n < 2 ^ 64" for n
    using that by (simp_all add: marker_def vobj_def fetch_sequence_def json_seq_def bt_get_insert unat_of_nat)
  have new: "n0 < out_seq y \<and> out_event y \<in> set REPLAYABLE_EVENTS \<and>
      (if is_object (out_payload y) then fetch_sequence (out_payload y) = Some (out_seq y) else out_payload y = VNull)" if "y \<in> set (?x # ?ms)" for y
  proof -
    have "y = ?x \<or> y = marker (ci_seq i + 2)" using that push_effect(2) [OF assms(7), of event payload] by auto
    then show ?thesis using x m [OF assms(6)] push_effect(4) [OF assms(7) that] assms(3,4)
      by (auto simp: numbered_def marker_def REPLAYABLE_EVENTS_def)
  qed
  have "in_order (?x # ?ms)" using push_effect(2) [OF assms(7), of event payload] by (auto simp: numbered_def marker_def)
  moreover have "out_seq a < out_seq b" if "a \<in> set H" "b \<in> set (?x # ?ms)" for a b
    using push_effect(4) [OF assms(7) that(2)] assms(2) that(1) by (meson le_less_trans)
  ultimately have "in_order (H @ ?x # ?ms)" using assms(1) unfolding history_ok_def sorted_wrt_append by blast
  then show ?thesis using assms(1) new unfolding history_ok_def by auto
qed

lemma consistent_extend: "consistent n0 H cp \<Longrightarrow> consistent n0 (H @ new) cp"
  unfolding consistent_def by fastforce

lemma data_push:
  assumes data: "data_inv enc se n0 H i sh cp" and marks: "n0 \<le> ci_seq i" "cp_last_client_sequence cp \<le> ci_seq i"
    and guards: "event \<in> set REPLAYABLE_EVENTS" "channel_payload payload" "ci_seq i + 2 < 2 ^ 64"
    and new: "i' = push_replayable enc event payload i" "x = numbered event payload i" "ms = markers enc event payload i"
      "sh' = sh \<union> out_seq ` (insert x (set (ci_outbox i)) - set (ci_outbox i'))"
  shows "data_inv enc se n0 (H @ x # ms) i' sh' cp"
proof -
  have ok: "outbox_ok enc i" and le: "\<forall>y\<in>set H. out_seq y \<le> ci_seq i" and sub: "set (ci_outbox i) \<subseteq> set H"
    and shed_le: "\<forall>n\<in>sh. n \<le> ci_seq i" and shed_pty: "\<forall>y\<in>set H. out_seq y \<in> sh \<longrightarrow> is_pty y"
    and where_is: "\<forall>y\<in>set H. y \<in> set (ci_outbox i) \<or> settled_for se sh cp y" using data by (auto simp: data_inv_def)
  note eff = push_effect [OF ok, where event = event and payload = payload, folded new(1-3)]
  have hist: "history_ok n0 (H @ x # ms)" unfolding new(2,3) by (rule history_push) (use data marks guards ok in \<open>simp_all add: data_inv_def\<close>)
  then have uniq: "y = z" if "y \<in> set (H @ x # ms)" "z \<in> set (H @ x # ms)" "out_seq y = out_seq z" for y z
    using that in_order_unique unfolding history_ok_def by blast
  have bound: "out_seq y \<le> ci_seq i'" if "y \<in> set (H @ x # ms)" for y
    using that le eff(4) [of y] eff(4) [of x] by fastforce
  have shed': "is_pty y" if y: "y \<in> set (H @ x # ms)" "out_seq y \<in> sh'" for y
  proof (cases "out_seq y \<in> sh")
    case True
    then have "y \<in> set H" using y(1) shed_le eff(4) [of y] by fastforce
    then show ?thesis using True shed_pty by blast
  next
    case False
    then obtain z where z: "z \<in> insert x (set (ci_outbox i))" "z \<notin> set (ci_outbox i')" "out_seq y = out_seq z" using y(2) new(4) by auto
    then have "y = z" using uniq [OF y(1), of z] sub by auto
    then show ?thesis using eff(7) [of z] z by blast
  qed
  have "y \<in> set (ci_outbox i') \<or> settled_for se sh' cp y" if y: "y \<in> set (H @ x # ms)" for y
  proof -
    consider "y \<in> insert x (set (ci_outbox i))" | "y \<in> set H" "settled_for se sh cp y" | "y \<in> set ms" using y where_is by auto
    then show ?thesis
    proof cases
      case 1
      then show ?thesis using new(4) by (auto simp: settled_for_def)
    next
      case 2
      then show ?thesis using settled_mono [of se sh cp y sh' cp] new(4) by auto
    qed (use eff(3) in auto)
  qed
  moreover have "covers_upto se sh' cp (H @ x # ms) [] (cp_last_client_sequence cp)"
    by (rule upto_extend, rule upto_mono [of se sh cp H "[]" "cp_last_client_sequence cp"])
      (use data new(4) marks eff(4) in \<open>auto simp: data_inv_def dest: le_less_trans\<close>)
  moreover have "\<forall>n\<in>sh'. n \<le> ci_seq i'" using shed_le eff(4) [of x] bound sub new(4) by fastforce
  moreover have "set (ci_outbox i') \<subseteq> set (H @ x # ms)" using eff(1) sub by auto
  moreover have "outbox_ok enc i'" using push.keeps_ok [OF ok] new(1) by simp
  ultimately show ?thesis using hist bound shed' data consistent_extend eff(5) by (simp add: data_inv_def)
qed

lemma sending_extend:
  assumes "sending_ok se sh cp H q ys" "\<forall>y\<in>set H. out_seq y \<le> n" "\<And>x. x \<in> set new \<Longrightarrow> n < out_seq x"
  shows "sending_ok se sh cp (H @ new) q ys"
  unfolding sending_ok_def
proof (intro conjI ballI impI)
  fix y x assume y: "y \<in> set ys" and x: "x \<in> set (H @ new)" and lt: "out_seq x < out_seq y"
  have "out_seq y \<le> n" using assms(1,2) y by (auto simp: sending_ok_def)
  then have "x \<in> set H" using x lt assms(3) [of x] by fastforce
  then show "covered se sh cp q x \<or> x \<in> set ys" using assms(1) y lt by (auto simp: sending_ok_def)
qed (use assms(1) in \<open>auto simp: sending_ok_def\<close>)

lemma flusher_extend:
  assumes "flusher_ok se sh cp H q fl" "\<forall>y\<in>set H. out_seq y \<le> n" "\<And>x. x \<in> set new \<Longrightarrow> n < out_seq x"
  shows "flusher_ok se sh cp (H @ new) q fl"
  using assms sending_extend [OF _ assms(2,3)] by (cases fl) (auto intro!: upto_extend dest: le_less_trans)

lemma beat_extend:
  assumes "beat_ok se sh cp H q n b" "\<And>x. x \<in> set new \<Longrightarrow> n < out_seq x"
  shows "beat_ok se sh cp (H @ new) q n b"
  using assms by (cases b) (auto intro!: upto_extend dest: le_less_trans)

lemma inv_push:
  assumes inv: "channel_inv enc se n0 ch" and guards: "ch_opened ch" "event \<in> set REPLAYABLE_EVENTS" "channel_payload payload" "ci_seq (ch_inner ch) + 2 < 2 ^ 64"
  shows "channel_inv enc se n0 (channel_push enc event payload ch)"
proof -
  define i where "i = ch_inner ch"
  define x where "x = numbered event payload i"
  define i' where "i' = push_replayable enc event payload i"
  define ms where "ms = markers enc event payload i"
  define sh' where "sh' = ch_shed ch \<union> out_seq ` (insert x (set (ci_outbox i)) - set (ci_outbox i'))"
  let ?H = "ch_history ch" and ?new = "x # ms"
  let ?ch = "ch\<lparr>ch_inner := i', ch_history := ?H @ ?new, ch_shed := sh'\<rparr>"
  have data: "data_inv enc se n0 ?H i (ch_shed ch) (ch_server ch)" and wire: "wire_inv se n0 ch" and task: "task_inv se ch"
    using inv by (simp_all add: channel_inv_def i_def)
  have ok: "outbox_ok enc i" and le: "\<forall>y\<in>set ?H. out_seq y \<le> ci_seq i" using data by (auto simp: data_inv_def)
  have marks: "n0 \<le> ci_seq i" "cp_last_client_sequence (ch_server ch) \<le> ci_seq i" using wire guards(1) by (simp_all add: wire_inv_def i_def)
  note eff = push_effect [OF ok, where event = event and payload = payload, folded i'_def x_def ms_def]
  have new: "ci_seq i < out_seq y" if "y \<in> set ?new" for y using eff(4) [OF that] by simp
  have seq: "ci_seq i \<le> ci_seq i'" using eff(4) [of x] by simp
  have sh: "ch_shed ch \<subseteq> sh'" by (simp add: sh'_def)
  have "data_inv enc se n0 (?H @ ?new) i' sh' (ch_server ch)"
    by (rule data_push [OF data marks guards(2,3)]) (use guards(4) in \<open>simp_all add: i'_def x_def ms_def sh'_def i_def\<close>)
  moreover have "channel_push enc event payload ch = ?ch"
    by (simp add: channel_push_def Let_def i'_def x_def ms_def sh'_def i_def markers_def numbered_def)
  moreover have "wire_inv se n0 ?ch"
  proof -
    have acks: "h \<le> ci_seq i" if "p \<in> pipes ch" "f \<in> set p" "ack_of f = Some h" for p f h using wire guards(1) that by (auto simp: wire_inv_def i_def)
    have "pipe_ok se sh' (ch_server ch) (?H @ ?new) p" if "p \<in> pipes ch" for p
      by (rule pipe_ok_extend [where n = "ci_seq i"], rule pipe_ok_mono [OF inv_pipe [OF inv that] sh]) (use acks that new in auto)
    moreover have "pipes ?ch = pipes ch" by (simp add: pipes_def)
    moreover have "h \<le> ci_seq i'" if "p \<in> pipes ch" "f \<in> set p" "ack_of f = Some h" for p f h using acks [OF that] seq by simp
    ultimately show ?thesis using wire guards(1) seq by (auto simp: wire_inv_def i_def)
  qed
  moreover have "task_inv se ?ch"
  proof (cases "ch_link ch = Live")
    case True
    have u: "covers_upto se (ch_shed ch) (ch_server ch) ?H (ch_up ch) (ci_sent_upto i)" "ci_sent_upto i \<le> ci_seq i"
      and fl: "flusher_ok se (ch_shed ch) (ch_server ch) ?H (ch_up ch) (ch_flusher ch)"
      and b: "beat_ok se (ch_shed ch) (ch_server ch) ?H (ch_up ch) (ci_seq i) (ch_beat ch)"
      using task True by (simp_all add: task_inv_def i_def)
    have "covers_upto se sh' (ch_server ch) (?H @ ?new) (ch_up ch) (ci_sent_upto i)"
      by (rule upto_extend [OF upto_mono [OF u(1) sh]]) (use u(2) new in \<open>auto dest: le_less_trans\<close>)
    moreover have "flusher_ok se sh' (ch_server ch) (?H @ ?new) (ch_up ch) (ch_flusher ch)"
      by (rule flusher_extend [OF flusher_mono [OF fl sh] le]) (use new in auto)
    moreover have "beat_ok se sh' (ch_server ch) (?H @ ?new) (ch_up ch) (ci_seq i') (ch_beat ch)"
      by (rule beat_mono [OF beat_extend [OF b] sh _ _ seq]) (use new in auto)
    ultimately show ?thesis using True task eff(6) \<open>ci_sent_upto i \<le> ci_seq i\<close> seq guards(1) by (simp add: task_inv_def)
  next
    case False
    then show ?thesis using task by (simp add: task_inv_def)
  qed
  ultimately show ?thesis by (simp add: channel_inv_def)
qed

subsection \<open>The client's tasks\<close>

lemma wire_send:
  assumes "wire_inv se n0 ch" "frame_ok (ch_history ch) f"
    and ack: "\<And>h. ack_of f = Some h \<Longrightarrow> covers_upto se (ch_shed ch) (ch_server ch) (ch_history ch) (ch_up ch @ [f]) h \<and> h \<le> ci_seq (ch_inner ch) \<and> ch_opened ch"
    and same: "ch_up ch' = ch_up ch @ [f]" "ch_old ch' = ch_old ch" "ch_down ch' = ch_down ch" "ch_server ch' = ch_server ch" "ch_opened ch' = ch_opened ch"
      "ch_history ch' = ch_history ch" "ch_shed ch' = ch_shed ch" "ci_seq (ch_inner ch') = ci_seq (ch_inner ch)"
  shows "wire_inv se n0 ch'"
proof -
  have up: "pipe_ok se (ch_shed ch) (ch_server ch) (ch_history ch) (ch_up ch @ [f])"
    by (rule pipe_ok_snoc) (use assms(1,2) ack in \<open>auto simp: wire_inv_def pipes_def\<close>)
  show ?thesis
  proof (cases "ch_opened ch")
    case True
    then show ?thesis using assms(1) up ack unfolding wire_inv_def pipes_def same by auto
  next
    case False
    then have "ack_of f = None" using ack by (cases "ack_of f") auto
    then show ?thesis using assms(1) up False unfolding wire_inv_def pipes_def same by auto
  qed
qed

lemma sending_tail:
  assumes "sending_ok se sh cp H q (ys @ zs)" "\<And>y. y \<in> set ys \<Longrightarrow> carries f y"
  shows "sending_ok se sh cp H (q @ [f]) zs"
  unfolding sending_ok_def
proof (intro conjI ballI impI)
  fix y x assume "y \<in> set zs" "x \<in> set H" "out_seq x < out_seq y"
  then have "covered se sh cp q x \<or> x \<in> set ys \<or> x \<in> set zs" using assms(1) by (auto simp: sending_ok_def)
  then show "covered se sh cp (q @ [f]) x \<or> x \<in> set zs" using assms(2) [of x] by (auto simp: covered_def)
qed (use assms(1) in \<open>auto simp: sending_ok_def sorted_wrt_append\<close>)

lemma sending_upto:
  assumes "sending_ok se sh cp H q (ys @ zs)" "ys \<noteq> []" "in_order H" "\<And>y. y \<in> set ys \<Longrightarrow> carries f y"
  shows "covers_upto se sh cp H (q @ [f]) (out_seq (last ys))"
  unfolding covers_upto_def
proof (intro ballI impI)
  fix x assume x: "x \<in> set H" and le: "out_seq x \<le> out_seq (last ys)"
  have last: "last ys \<in> set ys" "last ys \<in> set H" using assms(1,2) by (auto simp: sending_ok_def)
  have "out_seq (last ys) < out_seq z" if "z \<in> set zs" for z
    using that assms(1) last(1) by (auto simp: sending_ok_def sorted_wrt_append)
  then have "x \<notin> set zs" using le by fastforce
  moreover have "x = last ys \<or> covered se sh cp q x \<or> x \<in> set (ys @ zs)"
  proof (cases "out_seq x = out_seq (last ys)")
    case True
    then show ?thesis using in_order_unique [OF assms(3) x last(2)] by blast
  next
    case False
    then have "out_seq x < out_seq (last ys)" using le by simp
    then show ?thesis using assms(1) last(1) x unfolding sending_ok_def by (metis Un_iff set_append)
  qed
  ultimately have "x \<in> set ys \<or> covered se sh cp q x" using last(1) by auto
  then show "covered se sh cp (q @ [f]) x" using assms(4) [of x] by (auto simp: covered_def)
qed

lemma foldl_max_le: "(\<And>e. e \<in> set es \<Longrightarrow> g e \<le> (n :: nat)) \<Longrightarrow> m \<le> n \<Longrightarrow> foldl (\<lambda>k e. max k (g e)) m es \<le> n"
  by (induction es arbitrary: m) auto

text \<open>A batch carries its run and acknowledges no more than the last of it.\<close>

lemma batch_frame:
  fixes run ref
  defines "f \<equiv> \<lparr>fr_ref = ref, fr_event = ''pty_output_batch'', fr_payload = build_pty_batch run\<rparr>"
  assumes "history_ok n0 H" "set run \<subseteq> set H" "\<forall>y\<in>set run. is_pty y" "in_order run" "run \<noteq> []"
  shows "frame_ok H f" "y \<in> set run \<Longrightarrow> carries f y" "ack_of f = Some h \<Longrightarrow> h \<le> out_seq (last run)"
proof -
  have es: "get_array ''events'' (fr_payload f) = Some (map out_payload run)" by (simp add: f_def build_pty_batch_def vobj_def get_array_def)
  then have be: "batch_events f = map out_payload run" by (simp add: batch_events_def)
  show "frame_ok H f" using assms(3,4) es be by (auto simp: frame_ok_def f_def)
  show "y \<in> set run \<Longrightarrow> carries f y" using assms(4) be by (simp add: carries_def f_def)
  have "payload_seq (out_payload y) \<le> out_seq (last run)" if "y \<in> set run" for y
  proof (cases "is_object (out_payload y)")
    case True
    have "out_seq y \<le> out_seq (last run)"
    proof (cases "y = last run")
      case False
      then have "y \<in> set (butlast run)" using that assms(6) append_butlast_last_id [of run] by (metis UnE empty_iff list.set(1) set_ConsD set_append)
      then show ?thesis using assms(5,6) by (metis append_butlast_last_id less_imp_le list.set_intros(1) sorted_wrt_append)
    qed simp
    then show ?thesis using history_object [OF assms(2) _ True] that assms(3) by auto
  next
    case False
    then show ?thesis using history_null [OF assms(2) _ False] that assms(3) by auto
  qed
  then show "ack_of f = Some h \<Longrightarrow> h \<le> out_seq (last run)" using foldl_max_le [of "batch_events f" payload_seq "out_seq (last run)" 0] be
    by (auto simp: ack_of_def f_def)
qed

lemma data_advance: "data_inv enc se n0 H i sh cp \<Longrightarrow> data_inv enc se n0 H (advance_sent_upto n i) sh cp"
  by (simp add: data_inv_def advance_sent_upto_def outbox_ok_def)

lemma upto_nil: "covers_upto se sh cp H [] n \<Longrightarrow> x \<in> set H \<Longrightarrow> out_seq x \<le> n \<Longrightarrow> settled_for se sh cp x"
  by (simp add: covers_upto_def covered_def)

text \<open>Trimming up to the server's mark removes only what is settled.\<close>

lemma data_trim:
  assumes data: "data_inv enc se n0 H i sh cp" and n: "n \<le> cp_last_client_sequence cp" and ok: "outbox_ok enc j"
    and j: "ci_outbox j = filter (\<lambda>x. n < out_seq x) (ci_outbox i)" "ci_seq i \<le> ci_seq j" "ci_last_acked j \<le> cp_last_client_sequence cp"
  shows "data_inv enc se n0 H j sh cp"
proof -
  have mark: "covers_upto se sh cp H [] (cp_last_client_sequence cp)" and le: "\<forall>x\<in>set H. out_seq x \<le> ci_seq i" "\<forall>n\<in>sh. n \<le> ci_seq i"
    using data by (simp_all add: data_inv_def)
  have "x \<in> set (ci_outbox j) \<or> settled_for se sh cp x" if "x \<in> set H" for x
    using data that j(1) n upto_nil [OF mark that] by (cases "n < out_seq x") (auto simp: data_inv_def)
  moreover have "\<forall>x\<in>set H. out_seq x \<le> ci_seq j" "\<forall>n\<in>sh. n \<le> ci_seq j" using le j(2) by (auto intro: order_trans)
  ultimately show ?thesis using data ok j by (auto simp: data_inv_def)
qed

lemma data_ack:
  assumes "data_inv enc se n0 H i sh cp" "a \<le> cp_last_client_sequence cp"
  shows "data_inv enc se n0 H (apply_ack enc a i) sh cp"
proof -
  have ok: "outbox_ok enc i" and le: "ci_last_acked i \<le> cp_last_client_sequence cp" using assms(1) by (simp_all add: data_inv_def)
  show ?thesis
    by (rule data_trim [OF assms(1), where n = "max (ci_last_acked i) a"])
      (use le assms(2) ack.keeps_ok [OF ok] ok_parts(1) [OF ok] in \<open>simp_all add: apply_ack_def Let_def trim_outbox_spec\<close>)
qed

lemma data_seed:
  assumes "data_inv enc se n0 H i sh cp" "a \<le> cp_last_client_sequence cp"
  shows "data_inv enc se n0 H (seed enc a i) sh cp"
proof -
  have ok: "outbox_ok enc i" and le: "ci_last_acked i \<le> cp_last_client_sequence cp" using assms(1) by (simp_all add: data_inv_def)
  show ?thesis
    by (rule data_trim [OF assms])
      (use le assms(2) seed.keeps_ok [OF ok] ok_parts(1) [OF ok] in \<open>simp_all add: seed_def trim_outbox_spec\<close>)
qed

lemma ack_frame: "ci_seq (apply_ack enc a i) = ci_seq i" "ci_sent_upto (apply_ack enc a i) = ci_sent_upto i"
  by (simp_all add: apply_ack_def Let_def trim_outbox_spec)

lemma inv_batch:
  assumes inv: "channel_inv enc se n0 ch" and live: "ch_link ch = Live" and fl: "ch_flusher ch = Sending todo run" and run: "run \<noteq> []"
  shows "channel_inv enc se n0 (send_batch run todo ch)"
proof -
  let ?f = "\<lparr>fr_ref = ch_next_ref ch, fr_event = ''pty_output_batch'', fr_payload = build_pty_batch run\<rparr>"
  let ?H = "ch_history ch" and ?sh = "ch_shed ch" and ?cp = "ch_server ch"
  have hist: "history_ok n0 ?H" and data: "data_inv enc se n0 ?H (ch_inner ch) ?sh ?cp" and wire: "wire_inv se n0 ch" and task: "task_inv se ch"
    and le: "\<forall>x\<in>set ?H. out_seq x \<le> ci_seq (ch_inner ch)" using inv by (auto simp: channel_inv_def data_inv_def)
  have send: "sending_ok se ?sh ?cp ?H (ch_up ch) (run @ todo)" and pty: "\<forall>y\<in>set run. is_pty y" and opened: "ch_opened ch"
    using task live fl by (auto simp: task_inv_def)
  have sub: "set run \<subseteq> set ?H" "in_order run" using send by (auto simp: sending_ok_def sorted_wrt_append)
  note frame = batch_frame [OF hist sub(1) pty sub(2) run, where ref = "ch_next_ref ch"]
  have order: "in_order ?H" using hist by (simp add: history_ok_def)
  have up: "covers_upto se ?sh ?cp ?H (ch_up ch @ [?f]) (out_seq (last run))" by (rule sending_upto [OF send run order frame(2)])
  have last: "last run \<in> set ?H" using sub(1) run by auto
  have "wire_inv se n0 (send_batch run todo ch)"
  proof (rule wire_send [OF wire frame(1)])
    fix h assume "ack_of ?f = Some h"
    then have "h \<le> out_seq (last run)" by (rule frame(3))
    then show "covers_upto se ?sh ?cp ?H (ch_up ch @ [?f]) h \<and> h \<le> ci_seq (ch_inner ch) \<and> ch_opened ch"
      using upto_mono [OF up order_refl cp_le_refl order_refl] opened le last by (auto intro: order_trans)
  qed (simp_all add: send_batch_def send_frame_def)
  moreover have "task_inv se (send_batch run todo ch)"
  proof -
    have "flusher_ok se ?sh ?cp ?H (ch_up ch @ [?f]) (AwaitBatch (ch_next_ref ch) (out_seq (last run)) todo)"
      using sending_tail [OF send frame(2)] up last by auto
    moreover have "covers_upto se ?sh ?cp ?H (ch_up ch @ [?f]) (ci_sent_upto (ch_inner ch))" "ci_sent_upto (ch_inner ch) \<le> ci_seq (ch_inner ch)"
      "beat_ok se ?sh ?cp ?H (ch_up ch @ [?f]) (ci_seq (ch_inner ch)) (ch_beat ch)"
      using task live by (auto simp: task_inv_def intro: upto_mono beat_mono)
    ultimately show ?thesis using live opened by (simp add: task_inv_def send_batch_def send_frame_def)
  qed
  ultimately show ?thesis using data by (simp add: channel_inv_def send_batch_def send_frame_def)
qed

lemma inv_plain:
  assumes inv: "channel_inv enc se n0 ch" and live: "ch_link ch = Live" and fl: "ch_flusher ch = Sending (x # rest) []" and plain: "\<not> is_pty x"
  shows "channel_inv enc se n0 ((send_frame (out_event x) (out_payload x) ch)\<lparr>ch_inner := advance_sent_upto (out_seq x) (ch_inner ch), ch_flusher := Sending rest []\<rparr>)"
    (is "channel_inv enc se n0 ?ch")
proof -
  let ?f = "\<lparr>fr_ref = ch_next_ref ch, fr_event = out_event x, fr_payload = out_payload x\<rparr>"
  let ?H = "ch_history ch" and ?sh = "ch_shed ch" and ?cp = "ch_server ch"
  have hist: "history_ok n0 ?H" and data: "data_inv enc se n0 ?H (ch_inner ch) ?sh ?cp" and wire: "wire_inv se n0 ch" and task: "task_inv se ch"
    and le: "\<forall>x\<in>set ?H. out_seq x \<le> ci_seq (ch_inner ch)" using inv by (auto simp: channel_inv_def data_inv_def)
  have send: "sending_ok se ?sh ?cp ?H (ch_up ch) ([x] @ rest)" and opened: "ch_opened ch" using task live fl by (auto simp: task_inv_def)
  then have x: "x \<in> set ?H" by (auto simp: sending_ok_def)
  have order: "in_order ?H" and ev: "out_event x \<in> set REPLAYABLE_EVENTS" using hist x by (auto simp: history_ok_def)
  have none: "ack_of ?f = None" using plain_events [OF ev plain] by (auto simp: ack_of_def)
  have carries: "carries ?f y" if "y \<in> set [x]" for y using that plain by (simp add: carries_def)
  have up: "covers_upto se ?sh ?cp ?H (ch_up ch @ [?f]) (out_seq x)" using sending_upto [OF send _ order carries] by simp
  have "wire_inv se n0 ?ch"
    by (rule wire_send [OF wire, of ?f]) (use x plain none in \<open>auto simp: frame_ok_def send_frame_def advance_sent_upto_def\<close>)
  moreover have "task_inv se ?ch"
  proof -
    have "covers_upto se ?sh ?cp ?H (ch_up ch @ [?f]) (ci_sent_upto (ch_inner ch))" "ci_sent_upto (ch_inner ch) \<le> ci_seq (ch_inner ch)"
      "beat_ok se ?sh ?cp ?H (ch_up ch @ [?f]) (ci_seq (ch_inner ch)) (ch_beat ch)"
      using task live by (auto simp: task_inv_def intro: upto_mono beat_mono)
    moreover have "sending_ok se ?sh ?cp ?H (ch_up ch @ [?f]) rest" by (rule sending_tail [OF send carries])
    ultimately show ?thesis using live opened le x up by (simp add: task_inv_def send_frame_def advance_sent_upto_def upto_max)
  qed
  ultimately show ?thesis using data_advance [OF data] by (simp add: channel_inv_def send_frame_def)
qed

lemma inv_flush:
  assumes "channel_inv enc se n0 ch" "ch_link ch = Live" "ch_flusher ch = Sending todo run"
  shows "channel_inv enc se n0 (flush_move todo run ch)"
proof -
  have set_flusher: "channel_inv enc se n0 (ch\<lparr>ch_flusher := fl\<rparr>)"
    if "flusher_ok se (ch_shed ch) (ch_server ch) (ch_history ch) (ch_up ch) fl" for fl
    using assms(1,2) that by (simp add: channel_inv_def wire_inv_def pipes_def task_inv_def)
  show ?thesis
  proof (cases todo)
    case Nil
    then show ?thesis using inv_batch [OF assms] set_flusher [of Parked] by (simp add: flush_move_def)
  next
    case (Cons x rest)
    consider "is_pty x" | "\<not> is_pty x" "run \<noteq> []" | "\<not> is_pty x" "run = []" by blast
    then show ?thesis
    proof cases
      case 1
      have "flusher_ok se (ch_shed ch) (ch_server ch) (ch_history ch) (ch_up ch) (Sending rest (run @ [x]))"
        using assms 1 Cons by (simp add: channel_inv_def task_inv_def)
      then show ?thesis using set_flusher Cons 1 by (simp add: flush_move_def)
    next
      case 2
      then show ?thesis using inv_batch [OF assms 2(2)] Cons by (simp add: flush_move_def)
    next
      case 3
      then show ?thesis using inv_plain [OF assms(1,2) _ 3(1), of rest] assms(3) Cons by (simp add: flush_move_def)
    qed
  qed
qed

lemma inv_wake:
  assumes "channel_inv enc se n0 ch" "ch_link ch = Live"
  shows "channel_inv enc se n0 (ch\<lparr>ch_flusher := Sending (unsent (ch_inner ch)) []\<rparr>)"
proof -
  let ?i = "ch_inner ch"
  have data: "data_inv enc se n0 (ch_history ch) ?i (ch_shed ch) (ch_server ch)" using assms(1) by (simp add: channel_inv_def)
  then have ok: "in_order (ci_outbox ?i)" "set (ci_outbox ?i) \<subseteq> set (ch_history ch)" by (auto simp: data_inv_def outbox_ok_def)
  have up: "covers_upto se (ch_shed ch) (ch_server ch) (ch_history ch) (ch_up ch) (ci_sent_upto ?i)" using assms by (simp add: channel_inv_def task_inv_def)
  have "covered se (ch_shed ch) (ch_server ch) (ch_up ch) x \<or> x \<in> set (unsent ?i)" if "x \<in> set (ch_history ch)" for x
    using data up that by (cases "out_seq x \<le> ci_sent_upto ?i") (auto simp: data_inv_def covers_upto_def unsent_def covered_def)
  then have "sending_ok se (ch_shed ch) (ch_server ch) (ch_history ch) (ch_up ch) (unsent ?i)"
    using ok by (auto simp: sending_ok_def unsent_def sorted_wrt_filter)
  then show ?thesis using assms by (simp add: channel_inv_def wire_inv_def pipes_def task_inv_def)
qed

lemma inv_beat_send:
  assumes inv: "channel_inv enc se n0 ch" and live: "ch_link ch = Live" and h: "ch_beat ch = BeatRead h"
    and small: "ci_seq (ch_inner ch) < 2 ^ 64"
  shows "channel_inv enc se n0 ((send_frame ''heartbeat'' (vobj [(''sequence'', json_seq h)]) ch)\<lparr>ch_beat := AwaitBeat (ch_next_ref ch)\<rparr>)" (is "channel_inv enc se n0 ?ch")
proof -
  let ?f = "\<lparr>fr_ref = ch_next_ref ch, fr_event = ''heartbeat'', fr_payload = vobj [(''sequence'', json_seq h)]\<rparr>"
  have up: "covers_upto se (ch_shed ch) (ch_server ch) (ch_history ch) (ch_up ch) h" "h \<le> ci_seq (ch_inner ch)" "ch_opened ch"
    using inv live h by (auto simp: channel_inv_def task_inv_def)
  have seq: "payload_seq (vobj [(''sequence'', json_seq h)]) = h"
    using up(2) small by (simp add: payload_seq_def fetch_sequence_def vobj_def json_seq_def unat_of_nat)
  have "wire_inv se n0 ?ch"
  proof (rule wire_send [where f = ?f and ch = ch])
    show "covers_upto se (ch_shed ch) (ch_server ch) (ch_history ch) (ch_up ch @ [?f]) m \<and> m \<le> ci_seq (ch_inner ch) \<and> ch_opened ch" if "ack_of ?f = Some m" for m
      using that up upto_mono [OF up(1), of "ch_shed ch" "ch_server ch" "ch_up ch @ [?f]" h] seq by (auto simp: ack_of_def)
  qed (use inv in \<open>simp_all add: channel_inv_def frame_ok_def send_frame_def\<close>)
  moreover have "task_inv se ?ch"
    using inv live by (auto simp: channel_inv_def task_inv_def send_frame_def intro: upto_mono flusher_mono)
  ultimately show ?thesis using inv by (simp add: channel_inv_def send_frame_def)
qed

lemma pipe_ok_nil [simp]: "pipe_ok se sh cp H []"
  by (simp add: pipe_ok_def)

lemma wire_weaken:
  assumes wire: "wire_inv se n0 ch" and pipes: "pipes ch' \<subseteq> insert [] (pipes ch)" and down: "set (ch_down ch') \<subseteq> set (ch_down ch)"
    and same: "ch_server ch' = ch_server ch" "ch_history ch' = ch_history ch" "ch_shed ch' = ch_shed ch" "ci_seq (ch_inner ch) \<le> ci_seq (ch_inner ch')"
    and opened: "ch_opened ch' = ch_opened ch \<or> ch_opened ch' \<and> n0 \<le> ci_seq (ch_inner ch')"
  shows "wire_inv se n0 ch'"
proof -
  have ok: "pipe_ok se (ch_shed ch) (ch_server ch) (ch_history ch) p" if "p \<in> pipes ch'" for p
    using that pipes wire by (cases "p = []") (auto simp: wire_inv_def)
  have frames: "\<exists>q\<in>pipes ch. f \<in> set q" if "p \<in> pipes ch'" "f \<in> set p" for p f
    using that pipes by (cases "p = []") auto
  have replies: "a \<le> cp_last_client_sequence (ch_server ch)" if "(r, ReplyOk a) \<in> set (ch_down ch')" for r a
    using that down wire unfolding wire_inv_def by blast
  show ?thesis
  proof (cases "ch_opened ch")
    case True
    have "h \<le> ci_seq (ch_inner ch')" if "p \<in> pipes ch'" "f \<in> set p" "ack_of f = Some h" for p f h
    proof -
      have "h \<le> ci_seq (ch_inner ch)" using frames [OF that(1,2)] that(3) wire True by (auto simp: wire_inv_def)
      then show ?thesis using same(4) by simp
    qed
    then show ?thesis using ok replies wire True opened same by (auto simp: wire_inv_def)
  next
    case False
    have none: "ack_of f = None" if "p \<in> pipes ch'" "f \<in> set p" for p f
      using frames [OF that] wire False by (auto simp: wire_inv_def)
    have mark: "cp_last_client_sequence (ch_server ch) = n0" "ch_history ch = []" using wire False by (simp_all add: wire_inv_def)
    have exact: "a = n0" if "(r, ReplyOk a) \<in> set (ch_down ch')" for r a using that down wire False unfolding wire_inv_def by auto
    show ?thesis unfolding wire_inv_def same(1-3) using ok replies none mark exact opened False by simp
  qed
qed

lemma inv_down: "channel_inv enc se n0 ch \<Longrightarrow> ch_down ch = a # rest \<Longrightarrow> channel_inv enc se n0 (ch\<lparr>ch_down := rest\<rparr>)"
  by (auto simp: channel_inv_def wire_inv_def pipes_def task_inv_def)

lemma inv_idle:
  assumes "channel_inv enc se n0 ch" "ch_link ch = Live"
  shows "channel_inv enc se n0 (ch\<lparr>ch_flusher := Parked\<rparr>)" "channel_inv enc se n0 (ch\<lparr>ch_beat := BeatIdle\<rparr>)"
    "channel_inv enc se n0 (ch\<lparr>ch_beat := BeatRead (ci_sent_upto (ch_inner ch))\<rparr>)"
  using assms by (auto simp: channel_inv_def wire_inv_def pipes_def task_inv_def)

lemma inv_batch_reply:
  assumes inv: "channel_inv enc se n0 ch" and live: "ch_link ch = Live" and fl: "ch_flusher ch = AwaitBatch ref l rest"
    and r: "\<And>a. r = ReplyOk a \<Longrightarrow> a \<le> cp_last_client_sequence (ch_server ch)"
  shows "channel_inv enc se n0 (batch_reply enc l rest r ch)"
proof (cases r)
  case (ReplyOk a)
  have data: "data_inv enc se n0 (ch_history ch) (ch_inner ch) (ch_shed ch) (ch_server ch)"
    and le: "\<forall>x\<in>set (ch_history ch). out_seq x \<le> ci_seq (ch_inner ch)" using inv by (auto simp: channel_inv_def data_inv_def)
  have fl_ok: "flusher_ok se (ch_shed ch) (ch_server ch) (ch_history ch) (ch_up ch) (AwaitBatch ref l rest)"
    using inv live fl by (simp add: channel_inv_def task_inv_def)
  then have "l \<le> ci_seq (ch_inner ch)" using le by auto
  then show ?thesis using inv live fl_ok ReplyOk data_ack [OF data_advance [OF data] r [OF ReplyOk]]
    by (auto simp: batch_reply_def channel_inv_def wire_inv_def pipes_def task_inv_def ack_frame advance_sent_upto_def upto_max)
next
  case ReplyError
  then show ?thesis using inv_idle(1) [OF inv live] by (simp add: batch_reply_def)
qed

lemma inv_beat_reply:
  assumes inv: "channel_inv enc se n0 ch" and live: "ch_link ch = Live" and r: "\<And>a. r = ReplyOk a \<Longrightarrow> a \<le> cp_last_client_sequence (ch_server ch)"
  shows "channel_inv enc se n0 (beat_reply enc r ch)"
proof (cases r)
  case (ReplyOk a)
  have "data_inv enc se n0 (ch_history ch) (ch_inner ch) (ch_shed ch) (ch_server ch)" using inv by (simp add: channel_inv_def)
  then show ?thesis using inv live ReplyOk data_ack r [OF ReplyOk]
    by (auto simp: beat_reply_def channel_inv_def wire_inv_def pipes_def task_inv_def ack_frame)
next
  case ReplyError
  then show ?thesis using inv_idle(2) [OF inv live] by (simp add: beat_reply_def)
qed

lemma inv_disconnect:
  assumes "channel_inv enc se n0 ch"
  shows "channel_inv enc se n0 (disconnect ch)"
proof -
  have "wire_inv se n0 (disconnect ch)" by (rule wire_weaken [of se n0 ch]) (use assms in \<open>auto simp: channel_inv_def disconnect_def pipes_def\<close>)
  then show ?thesis using assms by (simp add: channel_inv_def disconnect_def task_inv_def)
qed

lemma inv_connect:
  assumes "channel_inv enc se n0 ch" "ch_link ch = Down"
  shows "channel_inv enc se n0 (connect has_id reg ch)"
proof -
  have "wire_inv se n0 (connect has_id reg ch)"
    by (rule wire_send [where f = "\<lparr>fr_ref = ch_next_ref ch, fr_event = if has_id \<or> ch_opened ch then ''session_resume'' else ''session_register'', fr_payload = reg\<rparr>" and ch = ch])
      (use assms in \<open>auto simp: channel_inv_def frame_ok_def ack_of_def connect_def send_frame_def split: if_splits\<close>)
  then show ?thesis using assms by (simp add: channel_inv_def connect_def send_frame_def task_inv_def)
qed

lemma inv_handshake:
  assumes inv: "channel_inv enc se n0 ch" and link: "ch_link ch = Resuming ref"
    and r: "\<And>a. r = ReplyOk a \<Longrightarrow> a \<le> cp_last_client_sequence (ch_server ch) \<and> (\<not> ch_opened ch \<longrightarrow> a = n0)"
  shows "channel_inv enc se n0 (handshake_session enc r ch)"
proof (cases r)
  case (ReplyOk a)
  have data: "data_inv enc se n0 (ch_history ch) (ch_inner ch) (ch_shed ch) (ch_server ch)" and wire: "wire_inv se n0 ch"
    using inv by (simp_all add: channel_inv_def)
  then have mark: "covers_upto se (ch_shed ch) (ch_server ch) (ch_history ch) [] (cp_last_client_sequence (ch_server ch))" by (simp add: data_inv_def)
  note a = r [OF ReplyOk]
  have seq: "ci_seq (seed enc a (ch_inner ch)) = max (ci_seq (ch_inner ch)) a" "ci_sent_upto (seed enc a (ch_inner ch)) = a"
    by (simp_all add: seed_def trim_outbox_spec)
  have "covers_upto se (ch_shed ch) (ch_server ch) (ch_history ch) (ch_up ch) a"
    by (rule upto_mono [OF mark order_refl cp_le_refl]) (use a in auto)
  moreover have "wire_inv se n0 (ch\<lparr>ch_inner := seed enc a (ch_inner ch), ch_opened := True, ch_link := Live\<rparr>)"
    by (rule wire_weaken [OF wire]) (use wire a seq in \<open>auto simp: pipes_def wire_inv_def\<close>)
  moreover have "ch_flusher ch = Parked" "ch_beat ch = BeatIdle" using inv link by (simp_all add: channel_inv_def task_inv_def)
  ultimately show ?thesis using data_seed [OF data] a seq ReplyOk by (simp add: handshake_session_def channel_inv_def task_inv_def)
next
  case ReplyError
  then show ?thesis using inv_disconnect [OF inv] by (simp add: handshake_session_def)
qed

lemma inv_reply:
  assumes inv: "channel_inv enc se n0 ch" and down: "ch_down ch = (ref, r) # rest"
  shows "channel_inv enc se n0 (route_reply enc ref r (ch\<lparr>ch_down := rest\<rparr>))"
proof -
  let ?ch = "ch\<lparr>ch_down := rest\<rparr>"
  have inv': "channel_inv enc se n0 ?ch" by (rule inv_down [OF inv down])
  have r: "a \<le> cp_last_client_sequence (ch_server ?ch) \<and> (\<not> ch_opened ?ch \<longrightarrow> a = n0)" if "r = ReplyOk a" for a
    using inv down that by (auto simp: channel_inv_def wire_inv_def)
  have beat: "channel_inv enc se n0 (beat_reply enc r ?ch)" if "ch_link ch = Live" by (rule inv_beat_reply [OF inv']) (use r that in auto)
  consider "ch_link ch = Resuming ref" | "ch_link ch = Live" | "ch_link ch \<noteq> Resuming ref" "ch_link ch \<noteq> Live" by blast
  then show ?thesis
  proof cases
    case 1
    then show ?thesis using inv_handshake [OF inv', of ref r] r by (simp add: route_reply_def)
  next
    case 2
    then show ?thesis
    proof (cases "ch_flusher ch")
      case (AwaitBatch ref' l todo)
      have "channel_inv enc se n0 (batch_reply enc l todo r ?ch)" by (rule inv_batch_reply [OF inv']) (use r 2 AwaitBatch in auto)
      then show ?thesis using 2 AwaitBatch beat inv' by (simp add: route_reply_def)
    qed (use 2 beat inv' in \<open>simp_all add: route_reply_def\<close>)
  next
    case 3
    then show ?thesis using inv' by (simp add: route_reply_def)
  qed
qed

lemma inv_dropped:
  assumes "channel_inv enc se n0 ch" "ch_old ch = ps @ p # qs"
  shows "channel_inv enc se n0 (ch\<lparr>ch_old := ps @ qs\<rparr>)"
proof -
  have "wire_inv se n0 (ch\<lparr>ch_old := ps @ qs\<rparr>)" by (rule wire_weaken [of se n0 ch]) (use assms in \<open>auto simp: channel_inv_def pipes_def\<close>)
  then show ?thesis using assms by (simp add: channel_inv_def task_inv_def)
qed

section \<open>Delivery\<close>

lemma inv_step:
  assumes "channel_step enc se ch ch'" "channel_inv enc se n0 ch" "n0 < 2 ^ 64" "ci_seq (ch_inner ch) < 2 ^ 64"
  shows "channel_inv enc se n0 ch'"
  using assms
  by cases (simp_all add: inv_push inv_wake inv_flush inv_idle inv_beat_send inv_reply inv_connect inv_disconnect inv_served inv_served_late inv_dropped)

lemma small_reply:
  assumes "ci_seq (ch_inner ch) < 2 ^ 64" "\<And>a. r = ReplyOk a \<Longrightarrow> a < 2 ^ 64"
  shows "ci_seq (ch_inner (route_reply enc ref r ch)) < 2 ^ 64"
  using assms
  by (cases r) (auto simp: route_reply_def handshake_session_def batch_reply_def beat_reply_def disconnect_def seed_def trim_outbox_spec
      apply_ack_def Let_def advance_sent_upto_def max_def split: flusher.split)

lemma small_step:
  assumes "channel_step enc se ch ch'" "channel_inv enc se n0 ch" "n0 < 2 ^ 64" "ci_seq (ch_inner ch) < 2 ^ 64"
  shows "ci_seq (ch_inner ch') < 2 ^ 64"
  using assms(1)
proof cases
  case (push event payload)
  have "outbox_ok enc (ch_inner ch)" using assms(2) by (simp add: channel_inv_def data_inv_def)
  then show ?thesis using push push_effect(8) [of enc "ch_inner ch" event payload] by (simp add: channel_push_def Let_def)
next
  case (reply ref r rest)
  have "a < 2 ^ 64" if "r = ReplyOk a" for a
  proof -
    have "(ref, ReplyOk a) \<in> set (ch_down ch)" using reply that by simp
    then have "a \<le> max (ci_seq (ch_inner ch)) n0"
      using assms(2) unfolding channel_inv_def wire_inv_def by (cases "ch_opened ch") (auto intro: order_trans simp: le_max_iff_disj)
    then show ?thesis using assms(3,4) by (auto simp: max_def split: if_splits)
  qed
  then show ?thesis using reply assms(4) small_reply [of "ch\<lparr>ch_down := rest\<rparr>" r] by simp
qed (use assms(4) in \<open>auto simp: flush_move_def send_batch_def send_frame_def advance_sent_upto_def connect_def disconnect_def serve_current_def split: list.split prod.split\<close>)

text \<open>What an earlier life of the client left at the server is below the mark.\<close>

definition settled_server :: "control_plane \<Rightarrow> bool" where
  "settled_server cp \<longleftrightarrow> (\<forall>e n p. cp_rows cp (e, n) = Some p \<longrightarrow> n \<le> cp_last_client_sequence cp)
     \<and> (\<forall>(e, n)\<in>set (cp_spans cp). n \<le> cp_last_client_sequence cp) \<and> cp_last_client_sequence cp < 2 ^ 64"

lemma inv_init: "settled_server cp \<Longrightarrow> channel_inv enc se (cp_last_client_sequence cp) (channel_init cp)"
  by (fastforce simp: settled_server_def channel_inv_def channel_init_def data_inv_def history_ok_def ChannelInner_default_def outbox_ok_def
      consistent_def covers_upto_def wire_inv_def pipes_def task_inv_def)

lemma channel_reachable_inv:
  assumes "settled_server cp" "(channel_step enc se)\<^sup>*\<^sup>* (channel_init cp) ch"
  shows "channel_inv enc se (cp_last_client_sequence cp) ch \<and> ci_seq (ch_inner ch) < 2 ^ 64"
  using assms(2)
proof (induction rule: rtranclp_induct)
  case base
  then show ?case using inv_init [OF assms(1)] by (simp add: channel_init_def ChannelInner_default_def)
next
  case (step ch ch')
  have "cp_last_client_sequence cp < 2 ^ 64" using assms(1) by (simp add: settled_server_def)
  then show ?case using step inv_step small_step by blast
qed


subsection \<open>A life of the client\<close>

definition one_byte :: json_printer where
  "one_byte p = Some ''x''"

definition trusting :: server_ext where
  "trusting = \<lparr>span_valid = (\<lambda>_. True), item_valid = (\<lambda>_. True)\<rparr>"

definition no_rows :: control_plane where
  "no_rows = \<lparr>cp_rows = Map.empty, cp_spans = [], cp_last_client_sequence = 0\<rparr>"

definition item_payload :: "string \<Rightarrow> jvalue" where
  "item_payload t = VObj [(''item'', VStr t)]"

definition item_sent :: "string \<Rightarrow> Outgoing" where
  "item_sent t = \<lparr>out_seq = 1, out_event = ''codex_item'', out_payload = VObj [(''item'', VStr t), (''sequence'', json_seq 1)]\<rparr>"

text \<open>After connecting, one event is pushed, sent and served; the client has no acknowledgement yet.\<close>

definition item_served :: "string \<Rightarrow> control_plane \<Rightarrow> channel" where
  "item_served t cp = \<lparr>ch_inner = \<lparr>ci_seq = 1, ci_last_acked = 0, ci_sent_upto = 1, ci_outbox = [item_sent t], ci_outbox_bytes = 1, ci_truncating = False\<rparr>,
     ch_opened = True, ch_link = Live, ch_flusher = Sending [] [], ch_beat = BeatIdle, ch_next_ref = 2, ch_up = [], ch_down = [], ch_old = [],
     ch_server = record_session_event ''codex_item'' 1 (out_payload (item_sent t)) cp, ch_history = [item_sent t], ch_shed = {}\<rparr>"

lemma item_seq: "payload_seq (out_payload (item_sent t)) = 1"
  by (simp add: item_sent_def payload_seq_def fetch_sequence_def json_seq_def)

lemma push_item:
  "push_replayable one_byte ''codex_item'' (item_payload t) ChannelInner_default =
     \<lparr>ci_seq = 1, ci_last_acked = 0, ci_sent_upto = 0, ci_outbox = [item_sent t], ci_outbox_bytes = 1, ci_truncating = False\<rparr>"
  "numbered ''codex_item'' (item_payload t) ChannelInner_default = item_sent t"
proof -
  show x: "numbered ''codex_item'' (item_payload t) ChannelInner_default = item_sent t"
    by (simp add: numbered_def item_payload_def item_sent_def ChannelInner_default_def)
  have "payload_bytes one_byte (out_payload (item_sent t)) = 1" by (simp add: payload_bytes_def get_str_def item_sent_def one_byte_def)
  then show "push_replayable one_byte ''codex_item'' (item_payload t) ChannelInner_default =
     \<lparr>ci_seq = 1, ci_last_acked = 0, ci_sent_upto = 0, ci_outbox = [item_sent t], ci_outbox_bytes = 1, ci_truncating = False\<rparr>"
    unfolding push_replayable_def x
    by (simp add: enqueue_def shed_outbox_def shed_loop_steps OUTBOX_BYTE_CAP_def ChannelInner_default_def, simp add: item_sent_def)
qed

lemma run_item:
  assumes "cp_last_client_sequence cp = 0"
  shows "(channel_step one_byte trusting)\<^sup>*\<^sup>* (channel_init cp) (item_served t cp)"
proof -
  let ?step = "channel_step one_byte trusting" and ?f = "\<lparr>fr_ref = 0, fr_event = ''session_resume'', fr_payload = VNull\<rparr>"
  let ?g = "\<lparr>fr_ref = 1, fr_event = ''codex_item'', fr_payload = out_payload (item_sent t)\<rparr>"
  define s where "s = (\<lambda>i lk fl ref up down sv H. \<lparr>ch_inner = i, ch_opened = lk = Live, ch_link = lk, ch_flusher = fl, ch_beat = BeatIdle, ch_next_ref = ref, ch_up = up,
    ch_down = down, ch_old = [], ch_server = sv, ch_history = H, ch_shed = {}\<rparr>)"
  define i0 where "i0 = ChannelInner_default"
  define i1 where "i1 = \<lparr>ci_seq = 1, ci_last_acked = 0, ci_sent_upto = 0, ci_outbox = [item_sent t], ci_outbox_bytes = 1, ci_truncating = False\<rparr>"
  have 1: "?step (channel_init cp) (s i0 (Resuming 0) Parked 1 [?f] [] cp [])"
    using channel_step.link_up [of "channel_init cp" one_byte trusting True VNull]
    by (simp add: channel_init_def connect_def send_frame_def s_def i0_def)
  have 2: "?step (s i0 (Resuming 0) Parked 1 [?f] [] cp []) (s i0 (Resuming 0) Parked 1 [] [(0, ReplyOk 0)] cp [])"
    using channel_step.served [of "s i0 (Resuming 0) Parked 1 [?f] [] cp []" ?f "[]" one_byte trusting] assms
    by (simp add: s_def serve_current_def serve_def handle_in_def)
  have "seed one_byte 0 i0 = i0" by (simp add: seed_def i0_def trim_outbox_def ChannelInner_default_def)
  then have 3: "?step (s i0 (Resuming 0) Parked 1 [] [(0, ReplyOk 0)] cp []) (s i0 Live Parked 1 [] [] cp [])"
    using channel_step.reply [of "s i0 (Resuming 0) Parked 1 [] [(0, ReplyOk 0)] cp []" 0 "ReplyOk 0" "[]" one_byte trusting]
    by (simp add: s_def route_reply_def handshake_session_def)
  have "channel_push one_byte ''codex_item'' (item_payload t) (s i0 Live Parked 1 [] [] cp []) = s i1 Live Parked 1 [] [] cp [item_sent t]"
    by (simp add: channel_push_def s_def i0_def push_item i1_def Let_def) (simp add: ChannelInner_default_def item_sent_def)
  then have 4: "?step (s i0 Live Parked 1 [] [] cp []) (s i1 Live Parked 1 [] [] cp [item_sent t])"
    using channel_step.push [of "s i0 Live Parked 1 [] [] cp []" "''codex_item''" "item_payload t" one_byte trusting]
    by (simp add: s_def i0_def ChannelInner_default_def REPLAYABLE_EVENTS_def channel_payload_def item_payload_def)
  have 5: "?step (s i1 Live Parked 1 [] [] cp [item_sent t]) (s i1 Live (Sending [item_sent t] []) 1 [] [] cp [item_sent t])"
    using channel_step.wake [of "s i1 Live Parked 1 [] [] cp [item_sent t]" one_byte trusting] by (simp add: s_def i1_def unsent_def item_sent_def)
  define i2 where "i2 = advance_sent_upto 1 i1"
  have 6: "?step (s i1 Live (Sending [item_sent t] []) 1 [] [] cp [item_sent t]) (s i2 Live (Sending [] []) 2 [?g] [] cp [item_sent t])"
    using channel_step.flush [of "s i1 Live (Sending [item_sent t] []) 1 [] [] cp [item_sent t]" "[item_sent t]" "[]" one_byte trusting]
    by (simp add: s_def flush_move_def is_pty_def send_frame_def i2_def item_sent_def numeral_2_eq_2)
  have 7: "?step (s i2 Live (Sending [] []) 2 [?g] [] cp [item_sent t]) (item_served t cp)"
    using channel_step.served [of "s i2 Live (Sending [] []) 2 [?g] [] cp [item_sent t]" ?g "[]" one_byte trusting] item_seq [of t]
    by (simp add: s_def serve_current_def serve_def handle_in_def item_served_def i2_def i1_def advance_sent_upto_def)
  show ?thesis using 1 2 3 4 5 6 7 by (meson rtranclp.rtrancl_into_rtrancl rtranclp.rtrancl_refl)
qed


subsection \<open>A restarted client\<close>

text \<open>The same client after a heartbeat that the server has answered.\<close>

lemma run_beat:
  assumes "cp_last_client_sequence cp = 0"
  shows "\<exists>ch. (channel_step one_byte trusting)\<^sup>*\<^sup>* (channel_init cp) ch \<and> ch_history ch = [item_sent t] \<and> ci_outbox (ch_inner ch) = [] \<and> ch_shed ch = {} \<and>
    cp_rows (ch_server ch) = cp_rows (record_session_event ''codex_item'' 1 (out_payload (item_sent t)) cp)"
proof -
  let ?step = "channel_step one_byte trusting" and ?b = "\<lparr>fr_ref = 2, fr_event = ''heartbeat'', fr_payload = vobj [(''sequence'', json_seq 1)]\<rparr>"
  define sv where "sv = record_session_event ''codex_item'' 1 (out_payload (item_sent t)) cp"
  have lcs: "cp_last_client_sequence sv = 0" using assms by (simp add: sv_def)
  have seq: "payload_seq (vobj [(''sequence'', json_seq 1)]) = 1" by (simp add: payload_seq_def fetch_sequence_def vobj_def json_seq_def)
  define a where "a = item_served t cp"
  have a: "ch_server a = sv" "ch_link a = Live" "ch_beat a = BeatIdle" "ch_up a = []" "ch_down a = []" "ch_next_ref a = 2" "ch_flusher a = Sending [] []"
    "ch_history a = [item_sent t]" "ch_shed a = {}"
    "ch_inner a = \<lparr>ci_seq = 1, ci_last_acked = 0, ci_sent_upto = 1, ci_outbox = [item_sent t], ci_outbox_bytes = 1, ci_truncating = False\<rparr>"
    by (simp_all add: a_def item_served_def sv_def)
  let ?c = "a\<lparr>ch_up := [?b], ch_next_ref := 3, ch_beat := AwaitBeat 2\<rparr>"
  let ?d = "?c\<lparr>ch_up := [], ch_server := sv\<lparr>cp_last_client_sequence := 1\<rparr>, ch_down := [(2, ReplyOk 1)]\<rparr>"
  let ?e = "route_reply one_byte 2 (ReplyOk 1) (?d\<lparr>ch_down := []\<rparr>)"
  have 1: "?step a (a\<lparr>ch_beat := BeatRead 1\<rparr>)" using channel_step.beat_read [of a one_byte trusting] a by simp
  have 2: "?step (a\<lparr>ch_beat := BeatRead 1\<rparr>) ?c"
    using channel_step.beat_send [of "a\<lparr>ch_beat := BeatRead 1\<rparr>" 1 one_byte trusting] a by (simp add: send_frame_def)
  have 3: "?step ?c ?d"
    using channel_step.served [of ?c ?b "[]" one_byte trusting] a lcs seq by (simp add: serve_current_def serve_def handle_in_def update_last_sequence_def Let_def)
  have 4: "?step ?d ?e" by (rule channel_step.reply) simp
  have e: "?e = (?d\<lparr>ch_down := []\<rparr>)\<lparr>ch_inner := apply_ack one_byte 1 (ch_inner a), ch_beat := BeatIdle\<rparr>"
    using a by (simp add: route_reply_def beat_reply_def)
  have "ci_outbox (apply_ack one_byte 1 (ch_inner a)) = []" using a by (simp add: apply_ack_def Let_def trim_outbox_spec item_sent_def)
  then have "ch_history ?e = [item_sent t] \<and> ci_outbox (ch_inner ?e) = [] \<and> ch_shed ?e = {} \<and> cp_rows (ch_server ?e) = cp_rows sv"
    unfolding e using a by simp
  moreover have "?step\<^sup>*\<^sup>* (channel_init cp) ?e"
    using run_item [OF assms, of t] 1 2 3 4 unfolding a_def [symmetric] by (meson rtranclp.rtrancl_into_rtrancl)
  ultimately show ?thesis unfolding sv_def [symmetric] by blast
qed


text \<open>
  An event without an object as payload, such as an error notification without parameters, carries no
  number to the server: it is stored under number 0, and a second one of the same kind is dropped.
\<close>

theorem null_payloads_collide:
  "record_session_event event (payload_seq VNull) VNull (record_session_event event (payload_seq VNull) VNull cp)
     = record_session_event event (payload_seq VNull) VNull cp"
  by (simp add: record_session_event_def split: option.split)

end
