(* ===== verification/Terminal_Stream.thy ===== *)
theory Terminal_Stream
  imports Json_Values
begin

text \<open>
  Terminal output on its way from an agent to the control plane and into the recording
  (\<open>omniagent-cli/src/client/mod.rs\<close>, \<open>agent.rs\<close>, \<open>cast.rs\<close>, the output bridge of \<open>client/supervisor.rs\<close>):
  decoding of byte chunks with a carry for split characters, the retained backlog and its attachments.
\<close>

section \<open>Validation of UTF-8\<close>

text \<open>
  \<open>std::str::from_utf8\<close>: the bytes a lead byte asks for, and the look at the first character: complete, in
  error after so many bytes, or cut off by the end of the input.
\<close>

definition lead_ranges :: "char \<Rightarrow> (nat \<times> nat) list option" where
  "lead_ranges c = (let b = (of_char c :: nat) in
     if b < 0x80 then Some []
     else if 0xC2 \<le> b \<and> b \<le> 0xDF then Some [(0x80, 0xBF)]
     else if b = 0xE0 then Some [(0xA0, 0xBF), (0x80, 0xBF)]
     else if b = 0xED then Some [(0x80, 0x9F), (0x80, 0xBF)]
     else if 0xE1 \<le> b \<and> b \<le> 0xEF then Some [(0x80, 0xBF), (0x80, 0xBF)]
     else if b = 0xF0 then Some [(0x90, 0xBF), (0x80, 0xBF), (0x80, 0xBF)]
     else if b = 0xF4 then Some [(0x80, 0x8F), (0x80, 0xBF), (0x80, 0xBF)]
     else if 0xF1 \<le> b \<and> b \<le> 0xF3 then Some [(0x80, 0xBF), (0x80, 0xBF), (0x80, 0xBF)]
     else None)"

datatype utf8_head = Complete nat | Broken nat | CutOff

fun cont_bytes :: "nat \<Rightarrow> (nat \<times> nat) list \<Rightarrow> string \<Rightarrow> utf8_head" where
  "cont_bytes k [] s = Complete k"
| "cont_bytes k (r # rs) [] = CutOff"
| "cont_bytes k ((lo, hi) # rs) (c # s) = (if lo \<le> of_char c \<and> of_char c \<le> hi then cont_bytes (Suc k) rs s else Broken k)"

fun utf8_first :: "string \<Rightarrow> utf8_head" where
  "utf8_first [] = CutOff"
| "utf8_first (c # s) = (case lead_ranges c of None \<Rightarrow> Broken 1 | Some rs \<Rightarrow> cont_bytes 1 rs s)"

lemma cont_bytes_bounds:
  "cont_bytes k rs s = Complete n \<Longrightarrow> k \<le> n \<and> n \<le> k + length s" "cont_bytes k rs s = Broken n \<Longrightarrow> k \<le> n \<and> n \<le> k + length s"
  by (induction k rs s rule: cont_bytes.induct) (auto split: if_splits)

lemma utf8_first_bounds:
  assumes "utf8_first s = Complete n \<or> utf8_first s = Broken n"
  shows "0 < n" "n \<le> length s" "s \<noteq> []"
  using assms by (cases s; auto split: option.splits dest: cont_bytes_bounds)+

text \<open>The number of valid bytes at the front, and the length of the error behind them, if known.\<close>

datatype utf8_error = Utf8Error nat "nat option"

function from_utf8 :: "string \<Rightarrow> utf8_error option" where
  "from_utf8 s = (if s = [] then None else case utf8_first s of
       Complete n \<Rightarrow> map_option (\<lambda>e. case e of Utf8Error v l \<Rightarrow> Utf8Error (n + v) l) (from_utf8 (drop n s))
     | Broken n \<Rightarrow> Some (Utf8Error 0 (Some n))
     | CutOff \<Rightarrow> Some (Utf8Error 0 None))"
  by pat_completeness auto
termination
  by (relation "measure length") (auto dest: utf8_first_bounds [OF disjI1])

declare from_utf8.simps [simp del]

lemma from_utf8_error: "from_utf8 s = Some (Utf8Error v (Some l)) \<Longrightarrow> 0 < l \<and> v + l \<le> length s"
proof (induction s arbitrary: v rule: from_utf8.induct)
  case (1 s)
  show ?case
  proof (cases "utf8_first s")
    case (Complete n)
    note b = utf8_first_bounds [of s n, OF disjI1, OF Complete]
    then obtain w where "from_utf8 (drop n s) = Some (Utf8Error w (Some l))" "v = n + w"
      using 1(2) Complete by (cases "from_utf8 (drop n s)"; cases "the (from_utf8 (drop n s))") (auto simp: from_utf8.simps [of s])
    then show ?thesis using 1(1) [OF b(3) Complete] b by fastforce
  next
    case (Broken n)
    then show ?thesis using 1(2) utf8_first_bounds [of s n] by (auto simp: from_utf8.simps [of s] split: if_splits)
  next
    case CutOff
    then show ?thesis using 1(2) by (auto simp: from_utf8.simps [of s] split: if_splits)
  qed
qed

section \<open>Decoding chunks\<close>

definition REPLACEMENT :: string where
  "REPLACEMENT = [CHR 0xEF, CHR 0xBF, CHR 0xBD]"

function decode_loop :: "string \<Rightarrow> string \<times> string" where
  "decode_loop carry = (case from_utf8 carry of
     None \<Rightarrow> (carry, [])
   | Some (Utf8Error valid (Some len)) \<Rightarrow> (case decode_loop (drop (valid + len) carry) of (out, rest) \<Rightarrow> (take valid carry @ REPLACEMENT @ out, rest))
   | Some (Utf8Error valid None) \<Rightarrow> (take valid carry, drop valid carry))"
  by pat_completeness auto
termination
  by (relation "measure length") (auto dest!: from_utf8_error)

declare decode_loop.simps [simp del]

text \<open>The output, and the carry for the next chunk.\<close>

definition decode_streaming :: "string \<Rightarrow> string \<Rightarrow> string \<times> string" where
  "decode_streaming carry chunk = decode_loop (carry @ chunk)"

section \<open>Chunking does not matter\<close>

lemma decode_loop_nil [simp]: "decode_loop [] = ([], [])"
  by (simp add: decode_loop.simps from_utf8.simps)

lemma decode_loop_cut: "utf8_first s = CutOff \<Longrightarrow> decode_loop s = ([], s)"
  by (cases "s = []") (simp_all add: decode_loop.simps [of s] from_utf8.simps [of s])

lemma decode_loop_broken: "utf8_first s = Broken n \<Longrightarrow> decode_loop s = (REPLACEMENT @ fst (decode_loop (drop n s)), snd (decode_loop (drop n s)))"
  using utf8_first_bounds [of s n] by (simp add: decode_loop.simps [of s] from_utf8.simps [of s] split: prod.split)

lemma decode_loop_complete:
  assumes "utf8_first s = Complete n"
  shows "decode_loop s = (take n s @ fst (decode_loop (drop n s)), snd (decode_loop (drop n s)))"
proof -
  have s: "s \<noteq> []" "n \<le> length s" using utf8_first_bounds [of s n] assms by auto
  show ?thesis
  proof (cases "from_utf8 (drop n s)")
    case None
    then show ?thesis using s assms by (simp add: decode_loop.simps [of s] decode_loop.simps [of "drop n s"] from_utf8.simps [of s])
  next
    case (Some e)
    obtain v l where e: "e = Utf8Error v l" by (cases e)
    have shift: "take (n + v) s = take n s @ take v (drop n s)" "drop (n + v) s = drop v (drop n s)" by (simp_all add: take_add add.commute)
    show ?thesis
    proof (cases l)
      case None
      then show ?thesis using s assms Some e shift by (simp add: decode_loop.simps [of s] decode_loop.simps [of "drop n s"] from_utf8.simps [of s])
    next
      case (Some len)
      then have "from_utf8 s = Some (Utf8Error (n + v) (Some len))" "from_utf8 (drop n s) = Some (Utf8Error v (Some len))"
        using s assms \<open>from_utf8 (drop n s) = Some e\<close> e by (simp_all add: from_utf8.simps [of s])
      then show ?thesis using shift(1)
        by (simp add: decode_loop.simps [of s] decode_loop.simps [of "drop n s"] ac_simps split: prod.split)
    qed
  qed
qed

lemma cont_bytes_append: "cont_bytes k rs s \<noteq> CutOff \<Longrightarrow> cont_bytes k rs (s @ t) = cont_bytes k rs s"
  by (induction k rs s rule: cont_bytes.induct) (auto split: if_splits)

lemma utf8_first_append: "utf8_first s \<noteq> CutOff \<Longrightarrow> utf8_first (s @ t) = utf8_first s"
  by (cases s) (auto split: option.splits simp: cont_bytes_append)

lemma decode_loop_append:
  "decode_loop (a @ b) = (fst (decode_loop a) @ fst (decode_loop (snd (decode_loop a) @ b)), snd (decode_loop (snd (decode_loop a) @ b)))"
proof (induction a rule: length_induct)
  case (1 a)
  show ?case
  proof (cases "utf8_first a")
    case (Complete n)
    note bounds = utf8_first_bounds [of a n, OF disjI1, OF Complete]
    have "utf8_first (a @ b) = Complete n" using utf8_first_append [of a b] Complete by simp
    then show ?thesis using decode_loop_complete [of "a @ b" n] decode_loop_complete [OF Complete] 1 [rule_format, of "drop n a"] bounds by simp
  next
    case (Broken n)
    note bounds = utf8_first_bounds [of a n, OF disjI2, OF Broken]
    have "utf8_first (a @ b) = Broken n" using utf8_first_append [of a b] Broken by simp
    then show ?thesis using decode_loop_broken [of "a @ b" n] decode_loop_broken [OF Broken] 1 [rule_format, of "drop n a"] bounds by simp
  next
    case CutOff
    then show ?thesis by (simp add: decode_loop_cut)
  qed
qed

primrec decode_chunks :: "string \<Rightarrow> string list \<Rightarrow> string list \<times> string" where
  "decode_chunks carry [] = ([], carry)"
| "decode_chunks carry (c # cs) = (case decode_streaming carry c of (out, carry') \<Rightarrow> (case decode_chunks carry' cs of (outs, rest) \<Rightarrow> (out # outs, rest)))"

lemma decode_chunks_concat:
  "concat (fst (decode_chunks (snd (decode_loop a)) cs)) = drop (length (fst (decode_loop a))) (fst (decode_loop (a @ concat cs)))
   \<and> take (length (fst (decode_loop a))) (fst (decode_loop (a @ concat cs))) = fst (decode_loop a)
   \<and> snd (decode_chunks (snd (decode_loop a)) cs) = snd (decode_loop (a @ concat cs))"
proof (induction cs arbitrary: a)
  case (Cons c cs)
  have step: "decode_streaming (snd (decode_loop a)) c = decode_loop (snd (decode_loop a) @ c)" by (simp add: decode_streaming_def)
  have a: "fst (decode_loop (a @ c)) = fst (decode_loop a) @ fst (decode_loop (snd (decode_loop a) @ c))"
    "snd (decode_loop (a @ c)) = snd (decode_loop (snd (decode_loop a) @ c))" using decode_loop_append [of a c] by simp_all
  from Cons.IH [of "a @ c"] show ?case using a decode_loop_append [of a "c @ concat cs"]
    by (auto simp: step split: prod.split)
      (metis append_assoc append_eq_conv_conj append_take_drop_id)
qed simp

text \<open>
  C18. The decoded text does not depend on how the output was cut into chunks: the pieces joined are the text
  of the whole output, with every invalid sequence replaced, and what is held back at the end is the
  incomplete character at the end of the whole; valid text comes through unchanged.
\<close>

theorem decode_chunking_irrelevant:
  "concat (fst (decode_chunks [] chunks)) = fst (decode_loop (concat chunks)) \<and> snd (decode_chunks [] chunks) = snd (decode_loop (concat chunks)) \<and>
   (from_utf8 (concat chunks) = None \<longrightarrow> concat (fst (decode_chunks [] chunks)) = concat chunks)"
proof -
  have "concat (fst (decode_chunks [] chunks)) = fst (decode_loop (concat chunks))" "snd (decode_chunks [] chunks) = snd (decode_loop (concat chunks))"
    using decode_chunks_concat [of "[]" chunks] by simp_all
  moreover have "from_utf8 (concat chunks) = None \<Longrightarrow> fst (decode_loop (concat chunks)) = concat chunks" by (simp add: decode_loop.simps)
  ultimately show ?thesis by simp
qed

theorem decode_chunking_irrelevant_witness:
  "from_utf8 (concat [[CHR 0xC3], [CHR 0xA9]]) = None \<and> concat (fst (decode_chunks [] [[CHR 0xC3], [CHR 0xA9]])) = [CHR 0xC3, CHR 0xA9]"
proof -
  have "utf8_first [CHR 0xC3, CHR 0xA9] = Complete 2" by code_simp
  then have "from_utf8 (concat [[CHR 0xC3], [CHR 0xA9]]) = None" by (simp add: from_utf8.simps)
  with decode_chunking_irrelevant [of "[[CHR 0xC3], [CHR 0xA9]]"]
  have "concat (fst (decode_chunks [] [[CHR 0xC3], [CHR 0xA9]])) = concat [[CHR 0xC3], [CHR 0xA9]]" by blast
  then show ?thesis using \<open>from_utf8 (concat [[CHR 0xC3], [CHR 0xA9]]) = None\<close> by (simp del: decode_chunks.simps)
qed

section \<open>The output bridge and the recorder\<close>

text \<open>What a receiver of the output broadcast gets until the agent has exited and the rest is drained.\<close>

datatype recv = Chunk string | Lagged nat

fun pump_loop :: "string \<Rightarrow> recv list \<Rightarrow> string list" where
  "pump_loop carry [] = []"
| "pump_loop carry (Chunk c # es) = (case decode_streaming carry c of (data, carry') \<Rightarrow> (if data = [] then [] else [data]) @ pump_loop carry' es)"
| "pump_loop carry (Lagged n # es) = pump_loop carry es"

text \<open>The data of the \<open>pty_output\<close> events.\<close>

definition pump_terminal_output :: "string \<Rightarrow> recv list \<Rightarrow> string list" where
  "pump_terminal_output backlog es = pump_loop [] (if backlog = [] then es else Chunk backlog # es)"

definition LAG_MARKER :: string where
  "LAG_MARKER = [CHR 0x0D, CHR 0x0A] @ ''[omniagent: recording lagged, output dropped]'' @ [CHR 0x0D, CHR 0x0A]"

text \<open>The data of the events of a recording; the clock and the header are left out.\<close>

fun record_events :: "string \<Rightarrow> recv list \<Rightarrow> string list" where
  "record_events carry [] = []"
| "record_events carry (Chunk c # es) = (case decode_streaming carry c of (data, carry') \<Rightarrow> (if data = [] then [] else [data]) @ record_events carry' es)"
| "record_events carry (Lagged n # es) = LAG_MARKER # record_events [] es"

definition record_loop :: "string \<Rightarrow> recv list \<Rightarrow> string list" where
  "record_loop backlog es = record_events [] (if backlog = [] then es else Chunk backlog # es)"

lemma pump_chunks: "concat (pump_loop carry (map Chunk cs)) = concat (fst (decode_chunks carry cs))"
  by (induction cs arbitrary: carry) (auto split: prod.split)

lemma record_chunks: "record_events carry (map Chunk cs) = pump_loop carry (map Chunk cs)"
  by (induction cs arbitrary: carry) (auto split: prod.split)

text \<open>
  A receiver that keeps up delivers and records exactly the decoded output: the backlog and the chunks
  after it, joined, and the console and the recording agree.
\<close>

theorem terminal_output_exact:
  "concat (pump_terminal_output backlog (map Chunk cs)) = fst (decode_loop (backlog @ concat cs)) \<and>
   record_loop backlog (map Chunk cs) = pump_terminal_output backlog (map Chunk cs)"
proof (cases "backlog = []")
  case True
  have "concat (pump_loop [] (map Chunk cs)) = fst (decode_loop (concat cs))" using pump_chunks [of "[]" cs] decode_chunks_concat [of "[]" cs] by simp
  then show ?thesis using True by (simp add: pump_terminal_output_def record_loop_def record_chunks)
next
  case False
  have "concat (pump_loop [] (map Chunk (backlog # cs))) = fst (decode_loop (concat (backlog # cs)))"
    using pump_chunks [of "[]" "backlog # cs"] decode_chunks_concat [of "[]" "backlog # cs"] by simp
  then show ?thesis using False record_chunks [of "[]" "backlog # cs"] by (simp add: pump_terminal_output_def record_loop_def)
qed

text \<open>
  After a gap the bridge still has the cut character of the chunk before it and completes it with bytes
  from behind the gap: the console shows a character the agent never wrote. The recorder drops the carry.
\<close>

theorem lag_forges_character:
  "pump_terminal_output [] [Chunk [CHR 0xC3], Lagged 1, Chunk [CHR 0xA9]] = [[CHR 0xC3, CHR 0xA9]] \<and>
   record_loop [] [Chunk [CHR 0xC3], Lagged 1, Chunk [CHR 0xA9]] = [LAG_MARKER, REPLACEMENT]"
proof -
  have heads: "utf8_first [CHR 0xC3] = CutOff" "utf8_first [CHR 0xC3, CHR 0xA9] = Complete 2" "utf8_first [CHR 0xA9] = Broken 1" by code_simp+
  show ?thesis by (simp add: pump_terminal_output_def record_loop_def decode_streaming_def decode_loop_cut [OF heads(1)]
        decode_loop_complete [OF heads(2)] decode_loop_broken [OF heads(3)] REPLACEMENT_def)
qed

section \<open>The backlog\<close>

definition BACKLOG_CAP :: nat where
  "BACKLOG_CAP = 256 * 1024"

record terminal =
  tm_backlog :: string
  tm_attached :: "(string \<times> string list) list"

definition terminal_new :: terminal where
  "terminal_new = \<lparr>tm_backlog = [], tm_attached = []\<rparr>"

definition read_chunk :: "string \<Rightarrow> terminal \<Rightarrow> terminal" where
  "read_chunk chunk tm = (let buf = tm_backlog tm @ chunk in
     tm\<lparr>tm_backlog := drop (length buf - BACKLOG_CAP) buf, tm_attached := map (\<lambda>(snap, live). (snap, live @ [chunk])) (tm_attached tm)\<rparr>)"

definition attach :: "terminal \<Rightarrow> terminal" where
  "attach tm = tm\<lparr>tm_attached := tm_attached tm @ [(tm_backlog tm, [])]\<rparr>"

datatype terminal_op = Read string | Attach

primrec terminal_do :: "terminal_op \<Rightarrow> terminal \<Rightarrow> terminal" where
  "terminal_do (Read c) = read_chunk c"
| "terminal_do Attach = attach"

fun output_of :: "terminal_op list \<Rightarrow> string" where
  "output_of [] = []"
| "output_of (Read c # ops) = c @ output_of ops"
| "output_of (Attach # ops) = output_of ops"

lemma output_of_append [simp]: "output_of (xs @ ys) = output_of xs @ output_of ys"
  by (induction xs rule: output_of.induct) auto

definition backlog_of :: "string \<Rightarrow> string" where
  "backlog_of s = drop (length s - BACKLOG_CAP) s"

lemma backlog_of_append: "backlog_of (backlog_of s @ c) = backlog_of (s @ c)"
proof -
  have "drop (length (drop n s @ c) - k) (drop n s @ c) = drop (length (s @ c) - k) (s @ c)" if "n = length s - k" for n k
    using that by (cases "length s \<le> k") (auto simp: add.commute)
  then show ?thesis by (simp add: backlog_of_def)
qed

definition terminal_ok :: "terminal_op list \<Rightarrow> terminal \<Rightarrow> bool" where
  "terminal_ok ops tm \<longleftrightarrow> tm_backlog tm = backlog_of (output_of ops)
     \<and> (\<forall>(snap, live)\<in>set (tm_attached tm). \<exists>before after. output_of ops = before @ after \<and> snap = backlog_of before \<and> concat live = after)"

lemma terminal_ok_step:
  assumes "terminal_ok ops tm"
  shows "terminal_ok (ops @ [oper]) (terminal_do oper tm)"
proof (cases oper)
  case (Read c)
  have "\<exists>before after. output_of ops @ c = before @ after \<and> snap = backlog_of before \<and> concat (live @ [c]) = after" if at: "(snap, live) \<in> set (tm_attached tm)" for snap live
  proof -
    obtain before after where "output_of ops = before @ after" "snap = backlog_of before" "concat live = after"
      using assms at unfolding terminal_ok_def by blast
    then show ?thesis by (intro exI [of _ before] exI [of _ "after @ c"]) simp
  qed
  moreover have "tm_backlog (read_chunk c tm) = backlog_of (output_of ops @ c)"
    using assms backlog_of_append [of "output_of ops" c] by (simp add: terminal_ok_def read_chunk_def Let_def backlog_of_def)
  ultimately show ?thesis using Read by (auto simp: terminal_ok_def read_chunk_def Let_def)
next
  case Attach
  have "\<exists>before after. output_of ops = before @ after \<and> tm_backlog tm = backlog_of before \<and> concat [] = after" using assms by (simp add: terminal_ok_def)
  then show ?thesis using assms Attach by (auto simp: terminal_ok_def attach_def)
qed

text \<open>
  However reads and attachments interleave, an attachment sees each byte of the output once: its snapshot
  is the retained tail of what came before it, and its live chunks are exactly what came after.
\<close>

theorem attach_exact:
  "\<forall>(snap, live)\<in>set (tm_attached (foldl (\<lambda>tm oper. terminal_do oper tm) terminal_new ops)).
     \<exists>before after. output_of ops = before @ after \<and> snap = backlog_of before \<and> concat live = after"
proof -
  have "terminal_ok ops (foldl (\<lambda>tm oper. terminal_do oper tm) terminal_new ops)"
  proof (induction ops rule: rev_induct)
    case Nil
    then show ?case by (simp add: terminal_ok_def terminal_new_def backlog_of_def)
  next
    case (snoc oper ops)
    then show ?case using terminal_ok_step by simp
  qed
  then show ?thesis by (simp add: terminal_ok_def)
qed

end
