(* ===== verification/Api.thy ===== *)
theory Api
  imports Net_Manager Background_Exec Images
begin

text \<open>
  The parts of the daemon (\<open>oad/src/main.rs\<close>) and of its wire types (\<open>oad-api\<close>) that need no state:
  errors and the responses they become, the bearer-token check, validation of requests, the choice of
  network policy and mode, and the tail of a log.
\<close>

section \<open>Errors\<close>

fun show_NetworkError :: "NetworkError \<Rightarrow> string" where
  "show_NetworkError (InvalidConfig m) = m"
| "show_NetworkError (NetCommand program arguments st out er) = ''network command failed: '' @ program @ '' ''
     @ show_debug_list arguments @ ''; status='' @ st @ ''; stdout='' @ show_debug out @ ''; stderr='' @ show_debug er"
| "show_NetworkError (AddrParse m) = m"
| "show_NetworkError (NetJson m) = m"
| "show_NetworkError (NetIo m) = m"
| "show_NetworkError (NetPanic m) = m"

datatype AppError =
    Unauthorized
  | BadRequest string
  | AppNotFound string
  | Conflict string
  | TeardownFailed string
  | AppOci OciError
  | AppRuntime RuntimeError
  | AppNetwork NetworkError
  | AppIo io_error

text \<open>The status, code and message of the response that an error becomes.\<close>

definition bad_request :: "string \<Rightarrow> nat \<times> string \<times> string" where
  "bad_request m = (400, ''bad_request'', m)"

definition internal :: "nat \<times> string \<times> string" where
  "internal = (500, ''internal'', ''internal server error'')"

fun into_response :: "AppError \<Rightarrow> nat \<times> string \<times> string" where
  "into_response Unauthorized = (401, ''unauthorized'', ''missing or invalid bearer token'')"
| "into_response (BadRequest m) = bad_request m"
| "into_response (AppNotFound m) = (404, ''not_found'', m)"
| "into_response (Conflict m) = (409, ''conflict'', m)"
| "into_response (TeardownFailed m) = (500, ''delete_failed'', m)"
| "into_response (AppOci e) = (case e of
       InvalidReference _ \<Rightarrow> bad_request (show_OciError e)
     | InvalidManifest _ \<Rightarrow> bad_request (show_OciError e)
     | JsonBody _ _ _ _ \<Rightarrow> bad_request (show_OciError e)
     | NoCommand _ \<Rightarrow> bad_request (show_OciError e)
     | PlatformUnavailable _ \<Rightarrow> bad_request (show_OciError e)
     | UnsupportedDigest _ \<Rightarrow> bad_request (show_OciError e)
     | UnsupportedTarEntry _ \<Rightarrow> bad_request (show_OciError e)
     | UnsafeArchivePath _ \<Rightarrow> bad_request (show_OciError e)
     | BodyTooLarge _ _ \<Rightarrow> (413, ''payload_too_large'', show_OciError e)
     | _ \<Rightarrow> internal)"
| "into_response (AppNetwork e) = (case e of
       InvalidConfig _ \<Rightarrow> bad_request (show_NetworkError e)
     | _ \<Rightarrow> internal)"
| "into_response (AppRuntime e) = internal"
| "into_response (AppIo e) = internal"

section \<open>Authentication\<close>

text \<open>Header values and tokens are bytes; the comparison looks at every byte.\<close>

fun diff_bytes :: "8 word \<Rightarrow> 8 word list \<Rightarrow> 8 word list \<Rightarrow> 8 word" where
  "diff_bytes diff (x # xs) (y # ys) = diff_bytes (or diff (xor x y)) xs ys"
| "diff_bytes diff _ _ = diff"

definition constant_time_eq :: "8 word list \<Rightarrow> 8 word list \<Rightarrow> bool" where
  "constant_time_eq a b = (if length a \<noteq> length b then False else diff_bytes 0 a b = 0)"

definition as_bytes :: "string \<Rightarrow> 8 word list" where
  "as_bytes s = map of_char s"

definition require_auth ::
  "DaemonConfig \<Rightarrow> string option \<Rightarrow> ('w, AppError, 'a) comp \<Rightarrow> ('w, AppError, 'a) comp" where
  "require_auth config provided next_handler =
     (let expected = ''Bearer '' @ bearer_token (http config) in
      if (case provided of None \<Rightarrow> False | Some p \<Rightarrow> constant_time_eq (as_bytes p) (as_bytes expected))
      then next_handler else err Unauthorized)"

section \<open>Requests\<close>

record CreateSandboxRequest =
  cr_id :: "string option"
  cr_containers :: "ContainerSpec list"
  cr_from_snapshot :: "string option"
  cr_network :: "SandboxNetworkSpec option"

record ExecRequest =
  er_container :: "string option"
  er_command :: "string list"
  er_env :: "EnvVar list"
  er_cwd :: "string option"

record ExecResponse =
  xr_sandbox_id :: string
  xr_container :: string
  xr_exit_code :: int
  xr_stdout :: string
  xr_stderr :: string

record StartBackgroundExecRequest =
  sr_container :: "string option"
  sr_command :: "string list"
  sr_env :: "EnvVar list"
  sr_cwd :: "string option"
  sr_pty :: bool
  sr_rows :: "16 word option"
  sr_cols :: "16 word option"

definition DEFAULT_PTY_ROWS :: "16 word" where
  "DEFAULT_PTY_ROWS = 40"

definition DEFAULT_PTY_COLS :: "16 word" where
  "DEFAULT_PTY_COLS = 120"

record SnapshotInfo =
  si_name :: string
  si_containers :: "string list"
  si_created_at :: string

record LogsResponse =
  lr_sandbox_id :: string
  lr_container :: string
  lr_lines :: "string list"

record SandboxNetworkResponse =
  nr_sandbox_id :: string
  nr_host_gateway_ip :: string
  nr_sandbox_ip :: string

definition parse_sandbox_id :: "string \<Rightarrow> (AppError, SandboxId) result" where
  "parse_sandbox_id i = (case SandboxId_new i of Inl e \<Rightarrow> Inl (BadRequest (show_ValidationError e)) | Inr v \<Rightarrow> Inr v)"

fun validate_each :: "string list \<Rightarrow> ContainerSpec list \<Rightarrow> (AppError, unit) result" where
  "validate_each names [] = Inr ()"
| "validate_each names (c # cs) = (case validate_container_name (cs_name c) of
       Inl e \<Rightarrow> Inl (BadRequest (show_ValidationError e))
     | Inr _ \<Rightarrow>
         (if cs_name c \<in> set names then Inl (BadRequest (''container '' @ show_debug (cs_name c) @ '' is duplicated''))
          else if cs_image c = [] then
            Inl (BadRequest (''container '' @ show_debug (cs_name c) @ '' image must not be empty''))
          else validate_each (cs_name c # names) cs))"

definition validate_containers :: "ContainerSpec list \<Rightarrow> (AppError, unit) result" where
  "validate_containers containers =
     (if containers = [] then Inl (BadRequest ''containers must not be empty'') else validate_each [] containers)"

definition render_env :: "EnvVar list \<Rightarrow> string list" where
  "render_env env = map (\<lambda>v. env_name v @ ''='' @ env_value v) env"

definition default_log_container :: "SandboxRecord \<Rightarrow> string option" where
  "default_log_container r = (case find (\<lambda>n. n \<noteq> PAUSE_CONTAINER) (sb_containers r) of
       Some n \<Rightarrow> Some n
     | None \<Rightarrow> (case sb_containers r of [] \<Rightarrow> None | n # _ \<Rightarrow> Some n))"

section \<open>Network policy and mode\<close>

record AppState =
  as_config :: DaemonConfig
  as_paths :: OadPaths
  as_network :: NetworkManager

definition net_enabled :: "AppState \<Rightarrow> bool" where
  "net_enabled st = nc_enabled (nm_config (as_network st))"

definition net_backend :: "AppState \<Rightarrow> ManagedNetworkBackend" where
  "net_backend st = nc_backend (nm_config (as_network st))"

definition validate_network_available :: "AppState \<Rightarrow> SandboxNetworkSpec \<Rightarrow> (AppError, unit) result" where
  "validate_network_available st network =
     (if \<not> net_enabled st \<and> network \<noteq> SandboxNetworkSpec_default then Inl (BadRequest
        ''per-sandbox network policy requires managed networking; remove runtime.network_namespace or enable runtime.network.enabled'')
      else Inr ())"

definition checked_network :: "AppState \<Rightarrow> SandboxNetworkSpec \<Rightarrow> (AppError, SandboxNetworkSpec) result" where
  "checked_network st network = (case validate_network_available st network of Inl e \<Rightarrow> Inl e
     | Inr _ \<Rightarrow> (case validate_spec network of Inl e \<Rightarrow> Inl (AppNetwork e) | Inr _ \<Rightarrow> Inr network))"

definition effective_fresh_network :: "AppState \<Rightarrow> CreateSandboxRequest \<Rightarrow> (AppError, SandboxNetworkSpec) result" where
  "effective_fresh_network st req =
     checked_network st (case cr_network req of Some n \<Rightarrow> n | None \<Rightarrow> SandboxNetworkSpec_default)"

definition effective_fork_network ::
  "AppState \<Rightarrow> SandboxNetworkSpec option \<Rightarrow> SandboxNetworkSpec \<Rightarrow> (AppError, SandboxNetworkSpec) result" where
  "effective_fork_network st requested inherited =
     checked_network st (case requested of Some n \<Rightarrow> n | None \<Rightarrow> inherited)"

definition runsc_network_mode :: "AppState \<Rightarrow> path option \<Rightarrow> RunscNetworkMode" where
  "runsc_network_mode st network_namespace =
     (if net_enabled st then (case net_backend st of Hostinet \<Rightarrow> RnHost | Netstack \<Rightarrow> RnSandbox)
      else if network_namespace \<noteq> None then RnHost else RnSandbox)"

definition runtime_supports_checkpoints :: "AppState \<Rightarrow> bool" where
  "runtime_supports_checkpoints st =
     (if net_enabled st then net_backend st = Netstack
      else rc_network_namespace (runtime (as_config st)) = None)"

definition hostinet_checkpoint_unsupported_message :: string where
  "hostinet_checkpoint_unsupported_message =
     ''checkpoint, suspend, and live snapshot require managed network backend '' @ show_debug ''netstack''
     @ '' or default runsc sandbox networking''"

section \<open>The tail of a log\<close>

definition LOG_TAIL_READ_BYTES :: nat where
  "LOG_TAIL_READ_BYTES = 8 * 1024 * 1024"

fun drop_line :: "string \<Rightarrow> string option" where
  "drop_line [] = None"
| "drop_line (c # cs) = (if [c] = nl then Some cs else drop_line cs)"

definition push_line :: "nat \<Rightarrow> (string \<Rightarrow> string) \<Rightarrow> string list \<Rightarrow> string \<Rightarrow> string list" where
  "push_line tail lossy lines line =
     (if line = [] then lines
      else (if length lines = tail then tl lines else lines) @ [lossy line])"

definition tail_lines :: "nat \<Rightarrow> (string \<Rightarrow> string) \<Rightarrow> nat \<Rightarrow> string \<Rightarrow> string list" where
  "tail_lines tail lossy start buf =
     (let buf = (if start > 0 then (case drop_line buf of Some rest \<Rightarrow> rest | None \<Rightarrow> buf) else buf)
      in foldl (push_line tail lossy) [] (split_on (CHR 0x0A) buf))"

section \<open>What the checks accept\<close>

lemma or_xor_zero: "or d (xor x y) = (0 :: 8 word) \<longleftrightarrow> d = 0 \<and> x = y"
proof
  assume h: "or d (xor x y) = 0"
  have "d = 0" using h by (metis and.right_neutral bit.disj_zero_right or_eq_0_iff)
  moreover have "xor x y = 0" using h by (metis or_eq_0_iff)
  then have "x = y" by (metis xor.assoc xor.right_neutral xor_self_eq)
  ultimately show "d = 0 \<and> x = y" by simp
qed simp

lemma diff_bytes_zero: "length a = length b \<Longrightarrow> diff_bytes d a b = 0 \<longleftrightarrow> d = 0 \<and> a = b"
  by (induction d a b rule: diff_bytes.induct) (auto simp: or_xor_zero)

lemma constant_time_eq_eq: "constant_time_eq a b \<longleftrightarrow> a = b"
  by (auto simp: constant_time_eq_def diff_bytes_zero)

lemma of_char_byte_inj: "(of_char c :: 8 word) = of_char d \<longleftrightarrow> c = d"
proof
  assume "(of_char c :: 8 word) = of_char d"
  then have "(of_nat (of_char c) :: 8 word) = of_nat (of_char d)" by (simp add: of_nat_of_char)
  then have "unat (of_nat (of_char c) :: 8 word) = unat (of_nat (of_char d) :: 8 word)" by simp
  then have "(of_char c :: nat) mod 256 = of_char d mod 256" by (simp add: unat_of_nat)
  then show "c = d" by simp
qed simp

lemma as_bytes_inj: "as_bytes s = as_bytes t \<longleftrightarrow> s = t"
  unfolding as_bytes_def by (metis inj_map_eq_map injI of_char_byte_inj)

lemma require_auth_run:
  "require_auth config provided m w =
     (if provided = Some (''Bearer '' @ bearer_token (http config)) then m w else (Inl Unauthorized, w))"
  by (auto simp: require_auth_def Let_def constant_time_eq_eq as_bytes_inj err_def split: option.splits)

lemma validate_each_ok:
  "validate_each names cs = Inr () \<longleftrightarrow> list_all (\<lambda>c. validate_container_name (cs_name c) = Inr () \<and> cs_image c \<noteq> []) cs
     \<and> distinct (map cs_name cs) \<and> set (map cs_name cs) \<inter> set names = {}"
  by (induction names cs rule: validate_each.induct) (auto split: sum.splits)

text \<open>
  The container lists a create request may have: not empty, legal and pairwise different names (none
  of them \<open>pause\<close>, so that the containers of the sandbox are distinct), and an image for each.
\<close>

theorem validate_containers_iff:
  "validate_containers cs = Inr () \<longleftrightarrow> cs \<noteq> [] \<and> distinct (container_names cs)
     \<and> list_all (\<lambda>c. validate_container_name (cs_name c) = Inr () \<and> cs_image c \<noteq> []) cs"
proof -
  have "validate_container_name PAUSE_CONTAINER \<noteq> Inr ()"
    by (auto simp: validate_container_name_def split: sum.splits)
  then show ?thesis
    by (auto simp: validate_containers_def validate_each_ok container_names_def list_all_iff)
qed

lemma push_line_tail:
  assumes "0 < n"
  shows "foldl (push_line n f) (drop (length xs - n) xs) ls =
    (let ys = xs @ map f (filter (\<lambda>l. l \<noteq> []) ls) in drop (length ys - n) ys)"
proof (induction ls arbitrary: xs)
  case (Cons l ls)
  show ?case
  proof (cases "l = []")
    case False
    have "push_line n f (drop (length xs - n) xs) l = drop (length (xs @ [f l]) - n) (xs @ [f l])"
      using False assms by (cases "n \<le> length xs") (simp_all add: push_line_def Suc_diff_le drop_Suc tl_drop)
    then show ?thesis using Cons.IH [of "xs @ [f l]"] False by simp
  qed (use Cons.IH [of xs] in \<open>simp add: push_line_def\<close>)
qed simp

text \<open>
  The tail of a log: its last \<open>n\<close> non-empty lines, in order; when the file was cut at the front, the
  first partial line does not count.
\<close>

theorem tail_lines_exact:
  assumes "0 < n"
  shows "tail_lines n lossy start buf =
    (let whole = (if start = 0 \<or> drop_line buf = None then buf else the (drop_line buf));
         lines = map lossy (filter (\<lambda>l. l \<noteq> []) (split_on (CHR 0x0A) whole))
     in drop (length lines - n) lines)"
  using push_line_tail [OF assms, of lossy "[]"]
  by (simp add: tail_lines_def Let_def split: option.split)


theorem tail_lines_exact_witness:
  "tail_lines 2 (\<lambda>l. l) 7 (''cut'' @ nl @ ''one'' @ nl @ nl @ ''two'' @ nl @ ''three'' @ nl) = [''two'', ''three'']"
proof -
  have "(0::nat) < 2" by simp
  from tail_lines_exact [OF this, of "\<lambda>l. l" 7 "''cut'' @ nl @ ''one'' @ nl @ nl @ ''two'' @ nl @ ''three'' @ nl"]
  show ?thesis by (simp add: Let_def nl_def)
qed

end
