(* ===== verification/Frames.thy ===== *)
theory Frames
  imports Net_Manager Checkpoints
begin

text \<open>
  What the layers below the daemon leave alone. File operations, commands and the network manager
  change the clock, the disk, the trace of commands and the network manager's own fields; any relation
  that those changes respect is kept by all of their operations, whatever fails. The daemon uses this
  for the registry and for its own state.
\<close>

locale bystander = transition_rel R
  for R :: "('b, 'z) net_world_scheme \<Rightarrow> ('b, 'z) net_world_scheme \<Rightarrow> bool" +
  assumes os: "R w (w\<lparr>tick := t, tmp_counter := c, disk := d\<rparr>)"
    and commands: "R w (w\<lparr>cmds := cs\<rparr>)"
    and network: "R w (w\<lparr>ip_map := m, dns_started := b, envoy_child := e, applied := a\<rparr>)"
begin

lemma os_parts: "R w (w\<lparr>tick := t\<rparr>)" "R w (w\<lparr>disk := d\<rparr>)" "R w (w\<lparr>tmp_counter := c\<rparr>)" "R w (w\<lparr>tick := t, disk := d\<rparr>)"
  using os [where w = w and c = "tmp_counter w" and d = "disk w" and t = t]
    os [where w = w and c = "tmp_counter w" and d = d and t = "tick w"]
    os [where w = w and c = c and d = "disk w" and t = "tick w"]
    os [where w = w and c = "tmp_counter w" and d = d and t = t]
  by simp_all

lemma net_parts: "R w (w\<lparr>ip_map := m\<rparr>)" "R w (w\<lparr>dns_started := b\<rparr>)" "R w (w\<lparr>envoy_child := e\<rparr>)" "R w (w\<lparr>applied := a\<rparr>)"
  using network [where w = w and m = m and b = "dns_started w" and e = "envoy_child w" and a = "applied w"]
    network [where w = w and m = "ip_map w" and b = b and e = "envoy_child w" and a = "applied w"]
    network [where w = w and m = "ip_map w" and b = "dns_started w" and e = e and a = "applied w"]
    network [where w = w and m = "ip_map w" and b = "dns_started w" and e = "envoy_child w" and a = a]
  by simp_all

lemma keeps_any_syscall [pres_intros]: "keeps R (syscall ex part f)"
  by (auto simp: keeps_def syscall_def Let_def os_parts split: option.splits sum.splits)

lemma keeps_clock [pres_intros]: "keeps R (read_clock ex)" "keeps R (new_uuid ex)"
  by (simp_all add: keeps_def read_clock_def new_uuid_def os_parts)

lemma keeps_spawn [pres_intros]: "keeps R (spawn_cmd ex prog args)"
proof -
  have "R w (w\<lparr>tick := t, cmds := cs, disk := d\<rparr>)" for w t cs d
    by (rule trans [OF trans [OF os_parts(1) commands] os_parts(2)])
  then show ?thesis by (auto simp: keeps_def spawn_cmd_def Let_def os_parts split: sum.splits)
qed

lemmas disk_op_defs = create_dir_all_def create_dir_def create_new_file_def write_all_def flush_def open_existing_def
  sync_all_def rename_path_def remove_file_def remove_dir_all_def try_exists_def read_file_def read_dir_def

lemma keeps_disk_ops [pres_intros]:
  "keeps R (create_dir_all ex p)" "keeps R (create_dir ex p)" "keeps R (create_new_file ex p)" "keeps R (write_all ex p b)"
  "keeps R (flush ex)" "keeps R (open_existing ex p)" "keeps R (sync_all ex)" "keeps R (rename_path ex p q)"
  "keeps R (remove_file ex p)" "keeps R (remove_dir_all ex p)" "keeps R (try_exists ex p)" "keeps R (read_file ex p)"
  "keeps R (read_dir ex p)" "keeps R (next_entry ex)"
  unfolding disk_op_defs next_entry_def by (intro pres_intros)+

lemma keeps_temp_path [pres_intros]: "keeps R (temp_path ex p)"
  unfolding temp_path_def Let_def by (intro pres_intros keeps_modify os_parts)

lemma keeps_sync [pres_intros]:
  "keeps R (sync_file ex p)" "keeps R (sync_dir ex p)" "keeps R (sync_parent ex p)" "keeps R (create_parent ex p)"
  unfolding sync_parent_def sync_file_def sync_dir_def create_parent_def by (intro pres_intros)+

lemma keeps_atomic [pres_intros]:
  "keeps R (publish_atomic_file ex t p)" "keeps R (write_atomic_file ex p b)"
  "keeps R (write_json_atomic ex enc p v)" "keeps R (read_json ex dec p)"
proof -
  have p: "keeps R (publish_atomic_file ex t p)" for t p
    unfolding publish_atomic_file_def by (intro pres_intros)
  then show "keeps R (publish_atomic_file ex t p)" .
  have w: "keeps R (write_atomic_file ex p b)" for p b
    unfolding write_atomic_file_def Let_def on_err_def by (intro pres_intros p)
  then show "keeps R (write_atomic_file ex p b)" .
  show "keeps R (write_json_atomic ex enc p v)" unfolding write_json_atomic_def by (intro pres_intros w)
  show "keeps R (read_json ex dec p)" unfolding read_json_def by (intro pres_intros)
qed

lemmas snapshot_op_defs = write_manifest_def read_manifest_def snapshot_exists_def snapshot_delete_def

lemma keeps_snapshots [pres_intros]:
  "keeps R (write_manifest ex ps m)" "keeps R (read_manifest ex ps n)" "keeps R (snapshot_exists ex ps n)"
  "keeps R (snapshot_delete ex ps n)"
  unfolding snapshot_op_defs by (intro pres_intros)+

lemma keeps_reserve [pres_intros]: "keeps R (reserve ex ps n)"
  unfolding reserve_def by (intro pres_intros)

lemma keeps_runsc_logs [pres_intros]:
  "keeps R (open_append ex p)" "keeps R (runsc_log_error ex p)" "keeps R (temp_runsc_log ex)"
proof -
  show "keeps R (open_append ex p)" unfolding open_append_def by (intro pres_intros)
  show "keeps R (runsc_log_error ex p)" unfolding runsc_log_error_def read_tail_def Let_def by (intro pres_intros)
  show "keeps R (temp_runsc_log ex)" by (auto simp: keeps_def temp_runsc_log_def os_parts split: sum.splits)
qed

lemma keeps_runs [pres_intros]: "keeps R (run_logged ex args p)" "keeps R (run_captured ex args)"
  unfolding run_logged_def run_captured_def Let_def by (intro pres_intros)+

lemmas runsc_op_defs = runsc_create_def runsc_start_def runsc_checkpoint_def runsc_restore_def runsc_delete_def
  runsc_state_def runsc_exec_def

lemma keeps_runsc [pres_intros]:
  "keeps R (runsc_create ex r b p c ov l)" "keeps R (runsc_start ex r c ov l)" "keeps R (runsc_checkpoint ex r c im ov l lr)"
  "keeps R (runsc_restore ex r c b im p ov v l)" "keeps R (runsc_delete ex r c)" "keeps R (runsc_state ex r c)"
  "keeps R (runsc_exec ex r c args env cwd)"
  unfolding runsc_op_defs Let_def by (intro pres_intros)+

lemma keeps_delete_visible_loop [pres_intros]: "keeps R (delete_visible_loop ex r cs fs)"
  by (induction cs arbitrary: fs) (auto intro!: pres_intros)

lemmas sequence_defs = create_runtime_dirs_def create_and_start_def start_container_sequence_def
  delete_visible_containers_def delete_visible_container_sequence_def exec_in_container_def
  container_running_result_def container_running_def spawn_exec_def spawn_exec_in_container_def

lemma keeps_sequences [pres_intros]:
  "keeps R (create_runtime_dirs ex ps i)" "keeps R (start_container_sequence ex ps i cs m)"
  "keeps R (delete_visible_containers ex r cs)" "keeps R (delete_visible_container_sequence ex ps i cs)"
  "keeps R (exec_in_container ex ps i c args env cwd)" "keeps R (container_running_result ex ps i c)"
  "keeps R (container_running ex ps i c)" "keeps R (spawn_exec_in_container ex ps i c args env cwd l)"
  unfolding sequence_defs Let_def by (intro pres_intros)+

lemma keeps_checkpoint_files [pres_intros]:
  "keeps R (remove_dir_if_exists ex p)" "keeps R (path_exists ex p)" "keeps R (entry_is_dir ex p)"
  "keeps R (sync_entries ex p ns)" "keeps R (checkpoint_dir_has_image ex p)" "keeps R (all_have_images ex p ns)"
proof -
  show "keeps R (remove_dir_if_exists ex p)" "keeps R (path_exists ex p)" "keeps R (entry_is_dir ex p)"
    "keeps R (checkpoint_dir_has_image ex p)" for p
    unfolding remove_dir_if_exists_def path_exists_def entry_is_dir_def checkpoint_dir_has_image_def
    by (intro pres_intros)+
  note these = this
  show "keeps R (sync_entries ex p ns)" by (induction ns) (auto simp: Let_def intro!: pres_intros these)
  show "keeps R (all_have_images ex p ns)" by (induction ns) (auto intro!: pres_intros these)
qed

lemmas checkpoint_defs = sync_checkpoint_dir_def publish_checkpoint_dir_def checkpoint_tree_complete_for_containers_def
  image_or_tree_def recover_backup_checkpoint_dir_for_containers_def checkpoint_image_complete_for_containers_def
  checkpoint_image_dir_for_container_def

lemma keeps_checkpoints [pres_intros]:
  "keeps R (publish_checkpoint_dir ex p q)" "keeps R (checkpoint_image_complete_for_containers ex p cs)"
  "keeps R (checkpoint_image_dir_for_container ex p c)"
  unfolding checkpoint_defs Let_def by (intro pres_intros)+

lemmas checkpoint_run_defs = checkpoint_one_def checkpoint_container_images_def checkpoint_suspend_images_def
  checkpoint_sandbox_def snapshot_sandbox_def restore_one_def restore_sandbox_def

lemma keeps_checkpoint_runs [pres_intros]:
  "keeps R (checkpoint_sandbox ex ps i cs p)" "keeps R (snapshot_sandbox ex ps i cs p)"
  "keeps R (restore_sandbox ex ps i cs p v m)"
  unfolding checkpoint_run_defs Let_def on_err_def by (intro pres_intros)+

lemma keeps_copy [pres_intros]: "keeps R (copy_entries ex p q ns stack)" "keeps R (copy_loop ex n stack)"
proof -
  show e: "keeps R (copy_entries ex p q ns stack)" for p q ns stack
    by (induction ns arbitrary: stack) (auto simp: Let_def copy_file_def intro!: pres_intros)
  show "keeps R (copy_loop ex n stack)"
    by (induction n arbitrary: stack) (auto simp: Let_def intro!: pres_intros e)
qed

lemma keeps_copy_dir_recursive [pres_intros]: "keeps R (copy_dir_recursive ex p q)"
  using keeps_copy(2) unfolding copy_dir_recursive_def keeps_def by blast

lemma keeps_copy_checkpoint_image [pres_intros]: "keeps R (copy_checkpoint_image ex p q cs)"
  unfolding copy_checkpoint_image_def Let_def on_err_def by (intro pres_intros)

text \<open>The network manager.\<close>

lemma keeps_net_runs [pres_intros]:
  "keeps R (net_run ex prog args)" "keeps R (run_with_stdin ex prog args input)" "keeps R (command_succeeds ex prog args)"
  "keeps R (iptables_program ex)" "keeps R (bind_socket ex)"
  unfolding net_run_def run_with_stdin_def iptables_program_def command_succeeds_def bind_socket_def
  by (intro pres_intros keeps_modify net_parts)+

lemma keeps_read_states_loop [pres_intros]: "keeps R (read_states_loop ex p ns out)"
  by (induction ns arbitrary: out) (auto intro!: pres_intros)

lemmas net_file_defs = read_state_def read_states_def write_state_def write_resolv_conf_def nm_allocate_state_def

lemma keeps_net_files [pres_intros]:
  "keeps R (read_state ex ps i)" "keeps R (read_states ex ps)" "keeps R (write_state ex ps s)"
  "keeps R (write_resolv_conf ex ps s)" "keeps R (nm_allocate_state ex nm ps i spec)"
  unfolding net_file_defs Let_def by (intro pres_intros)+

lemmas net_link_defs = ensure_netns_def ensure_veth_def configure_host_interface_def configure_sandbox_interface_def
  ensure_namespace_def apply_qdisc_sandbox_def apply_qdisc_host_def delete_qdisc_sandbox_def delete_qdisc_host_def
  apply_shaping_def apply_nft_states_def apply_nft_ruleset_def ensure_host_firewall_rules_def
  delete_host_firewall_rules_def ensure_dns_proxy_def ensure_envoy_def ensure_services_def

lemma keeps_net_links [pres_intros]:
  "keeps R (ensure_namespace ex s)" "keeps R (apply_shaping ex s)" "keeps R (apply_nft_states ex nm ss)"
  "keeps R (apply_nft_ruleset ex nm ps)" "keeps R (ensure_host_firewall_rules ex nm s)"
  "keeps R (delete_host_firewall_rules ex nm s)" "keeps R (ensure_services ex nm ps)"
  "keeps R (delete_qdisc_host ex s)" "keeps R (delete_qdisc_sandbox ex s)"
  unfolding net_link_defs Let_def by (intro pres_intros keeps_modify net_parts)+

lemmas ip_map_defs = ip_map_insert_def ip_map_remove_def ip_map_replace_all_def

lemma keeps_ip_map [pres_intros]:
  "keeps R (ip_map_insert a i)" "keeps R (ip_map_remove a)" "keeps R (ip_map_replace_all es)"
  unfolding ip_map_defs by (intro keeps_modify net_parts)+

lemma keeps_network_manager [pres_intros]:
  "keeps R (sandbox_info ex nm ps i)" "keeps R (reconcile_sandbox ex nm ps i spec)"
  "keeps R (delete_sandbox_network ex nm ps i)"
  unfolding sandbox_info_def reconcile_sandbox_def delete_sandbox_network_def Let_def by (intro pres_intros)+

lemma keeps_restore_states [pres_intros]: "keeps R (restore_states ex nm ss)"
  by (induction ss) (auto intro!: pres_intros)

lemma keeps_reconcile_all [pres_intros]: "keeps R (reconcile_all ex nm ps)"
  unfolding reconcile_all_def by (intro pres_intros)

end

end
