(* ===== verification/Daemon.thy ===== *)
theory Daemon
  imports Api Frames
begin

text \<open>
  The request handlers of the daemon (\<open>oad/src/main.rs\<close>) over the registry, the container runtime, the
  network manager, the snapshots and the background execs: creating, forking, deleting, suspending and
  resuming sandboxes, snapshots, execs and logs, and the passes at start-up and shutdown. A handler runs
  from the point where its lifecycle lock is granted. The image store (\<open>oad-oci\<close>) that prepares the
  bundles is a parameter, as are the serialiser of the sandbox specification and the operating system's
  side of a pseudo-terminal. The guards that clean up after a request is cancelled are not modelled.
\<close>

section \<open>State and environment\<close>

text \<open>Handles of processes are descriptors; \<open>settle\<close> is what the tasks of a session do during a wait.\<close>

record 'b daemon_ext = "'b net_ext" +
  enc_spec :: "SandboxSpec \<Rightarrow> (string, 'b) result"
  dec_spec :: "'b \<Rightarrow> (string, SandboxSpec) result"
  oci_pause :: "nat \<Rightarrow> SandboxId \<Rightarrow> string \<Rightarrow> path option \<Rightarrow> path option \<Rightarrow> 'b disk \<Rightarrow> (OciError, unit) result \<times> 'b disk"
  oci_container :: "nat \<Rightarrow> SandboxId \<Rightarrow> ContainerSpec \<Rightarrow> path option \<Rightarrow> path option \<Rightarrow> 'b disk \<Rightarrow> (OciError, unit) result \<times> 'b disk"
  handles :: "nat \<Rightarrow> nat \<times> nat \<times> nat"
  open_pty :: "nat \<Rightarrow> 16 word \<Rightarrow> 16 word \<Rightarrow> string option"
  pty_handles :: "nat \<Rightarrow> string option"
  procs :: "(nat, nat, nat) proc_ext"
  settle :: "nat \<Rightarrow> (nat, nat, nat) BackgroundExecSession \<Rightarrow> (nat, nat, nat) BackgroundExecSession"

record 'b daemon_world = "'b net_world" +
  execs :: "(nat, nat, nat) exec_store"
  snap_locks :: named_table

abbreviation not_found :: "SandboxId \<Rightarrow> AppError" where
  "not_found i \<equiv> AppNotFound (''sandbox '' @ i @ '' not found'')"

text \<open>\<open>{:?}\<close> on a status.\<close>

fun show_status_debug :: "SandboxStatus \<Rightarrow> string" where
  "show_status_debug Pending = ''Pending''"
| "show_status_debug Running = ''Running''"
| "show_status_debug Stopping = ''Stopping''"
| "show_status_debug Stopped = ''Stopped''"
| "show_status_debug Suspended = ''Suspended''"
| "show_status_debug Error = ''Error''"
| "show_status_debug Unknown = ''Unknown''"

text \<open>\<open>ok_or_else\<close>, and a step whose failure is answered by a clean-up before it is returned.\<close>

definition ok_or :: "'e \<Rightarrow> 'a option \<Rightarrow> ('w, 'e, 'a) comp" where
  "ok_or e v = (case v of None \<Rightarrow> err e | Some x \<Rightarrow> ok x)"

definition or_cleanup ::
  "('w, 'e, 'a) comp \<Rightarrow> ('w, 'e, unit) comp \<Rightarrow> ('a \<Rightarrow> ('w, 'e, 'b) comp) \<Rightarrow> ('w, 'e, 'b) comp" where
  "or_cleanup m cleanup f = try_case m (\<lambda>e. andThen cleanup (\<lambda>_. err e)) f"

text \<open>\<open>snapshot_locks.acquire(name)\<close> around the rest of a handler.\<close>

definition with_snapshot_lock ::
  "string \<Rightarrow> (('b, 'z) daemon_world_scheme, 'e, 'a) comp \<Rightarrow> (('b, 'z) daemon_world_scheme, 'e, 'a) comp" where
  "with_snapshot_lock name m = (\<lambda>w.
     case m (w\<lparr>snap_locks := snd (NamedLocks_acquire (lock_seq w) name (snap_locks w)), lock_seq := Suc (lock_seq w)\<rparr>) of
       (r, w') \<Rightarrow> (r, w'\<lparr>snap_locks := drop_NamedLockGuard name (snap_locks w')\<rparr>))"

section \<open>Shared steps\<close>

definition running_record ::
  "('b, 'x) daemon_ext_scheme \<Rightarrow> AppState \<Rightarrow> SandboxId \<Rightarrow> (('b, 'z) daemon_world_scheme, AppError, SandboxRecord) comp" where
  "running_record ex st i =
     andThen (map_err AppIo (reg_update ex (as_paths st) i (\<lambda>t r. (set_status t Running r)\<lparr>last_error := None\<rparr>)))
       (ok_or (not_found i))"

definition persist_sandbox_spec ::
  "('b, 'x) daemon_ext_scheme \<Rightarrow> AppState \<Rightarrow> SandboxId \<Rightarrow> SandboxSpec \<Rightarrow> (('b, 'z) daemon_world_scheme, AppError, unit) comp" where
  "persist_sandbox_spec ex st i spec =
     map_err AppIo (write_json_atomic ex (enc_spec ex) (sandbox_spec (as_paths st) i) spec)"

definition read_sandbox_spec ::
  "('b, 'x) daemon_ext_scheme \<Rightarrow> AppState \<Rightarrow> SandboxId \<Rightarrow> (('b, 'z) daemon_world_scheme, AppError, SandboxSpec) comp" where
  "read_sandbox_spec ex st i =
     andThen (map_err AppIo (read_file ex (sandbox_spec (as_paths st) i))) (\<lambda>body.
     case dec_spec ex body of Inl m \<Rightarrow> err (AppIo (OtherIo (''invalid sandbox spec: '' @ m))) | Inr s \<Rightarrow> ok s)"

definition prepare_sandbox_network ::
  "('b, 'x) daemon_ext_scheme \<Rightarrow> AppState \<Rightarrow> SandboxId \<Rightarrow> SandboxNetworkSpec
   \<Rightarrow> (('b, 'z) daemon_world_scheme, AppError, path option) comp" where
  "prepare_sandbox_network ex st i network =
     (if net_enabled st then map_err AppNetwork (reconcile_sandbox ex (as_network st) (as_paths st) i network)
      else ok (rc_network_namespace (runtime (as_config st))))"

text \<open>The bundles: the pause container, then every container of the specification.\<close>

definition on_disk ::
  "(nat \<Rightarrow> 'b disk \<Rightarrow> ('e, unit) result \<times> 'b disk) \<Rightarrow> (('b, 'z) world_scheme, 'e, unit) comp" where
  "on_disk f = (\<lambda>w. case f (tick w) (disk w) of (r, d) \<Rightarrow> (r, w\<lparr>disk := d, tick := Suc (tick w)\<rparr>))"

definition prepare_bundles ::
  "('b, 'x) daemon_ext_scheme \<Rightarrow> AppState \<Rightarrow> SandboxId \<Rightarrow> string \<Rightarrow> ContainerSpec list \<Rightarrow> path option
   \<Rightarrow> (('b, 'z) daemon_world_scheme, AppError, unit) comp" where
  "prepare_bundles ex st i pause_image containers network_namespace =
     (let resolv_conf = (if net_enabled st then Some (sandbox_resolv_conf (as_paths st) i) else None) in
      andThen (map_err AppOci (on_disk (\<lambda>t. oci_pause ex t i pause_image network_namespace resolv_conf))) (\<lambda>_.
      for_each containers (\<lambda>c.
        map_err AppOci (on_disk (\<lambda>t. oci_container ex t i c network_namespace resolv_conf)))))"

definition cleanup_failed_sandbox ::
  "('b, 'x) daemon_ext_scheme \<Rightarrow> AppState \<Rightarrow> SandboxId \<Rightarrow> string list \<Rightarrow> bool
   \<Rightarrow> (('b, 'z) daemon_world_scheme, 'e, unit) comp" where
  "cleanup_failed_sandbox ex st i names delete_containers =
     andThen (if delete_containers
         then try_case (delete_visible_container_sequence ex (as_paths st) i names)
           (\<lambda>e. ok [show_RuntimeError e])
           (\<lambda>failures. ok (map (\<lambda>(c, e). c @ '': '' @ e) failures))
         else ok []) (\<lambda>cleanup_failures.
     if cleanup_failures \<noteq> [] then
       ignore (reg_update ex (as_paths st) i (\<lambda>t. set_error t
         (''cleanup failed after create error; sandbox retained: '' @ intersperse_str ''; '' cleanup_failures)))
     else
       andThen (ignore (delete_sandbox_network ex (as_network st) (as_paths st) i)) (\<lambda>_.
       andThen (ignore (remove_dir_all ex (sandbox_dir (as_paths st) i))) (\<lambda>_.
       andThen (reg_remove i) (\<lambda>_. ok ()))))"

section \<open>Creating a sandbox\<close>

definition boot_fresh_sandbox ::
  "('b, 'x) daemon_ext_scheme \<Rightarrow> AppState \<Rightarrow> SandboxId \<Rightarrow> CreateSandboxRequest
   \<Rightarrow> (('b, 'z) daemon_world_scheme, AppError, SandboxRecord) comp" where
  "boot_fresh_sandbox ex st i req =
     (let names = container_names (cr_containers req);
          pause_image = rc_pause_image (runtime (as_config st));
          cleanup = cleanup_failed_sandbox ex st i names
      in andThen (lift_result (effective_fresh_network st req)) (\<lambda>network.
         andThen (read_clock ex) (\<lambda>t.
         andThen (map_err AppIo (reg_insert ex (as_paths st) (new_pending t i names))) (\<lambda>_.
         or_cleanup (prepare_sandbox_network ex st i network) (cleanup False) (\<lambda>ns.
         let mode = runsc_network_mode st ns in
         or_cleanup (persist_sandbox_spec ex st i \<lparr>sp_pause_image = pause_image, sp_containers = cr_containers req,
             sp_network = network, sp_network_mode = Some (NetworkMode_from mode)\<rparr>) (cleanup False) (\<lambda>_.
         or_cleanup (prepare_bundles ex st i pause_image (cr_containers req) ns) (cleanup False) (\<lambda>_.
         or_cleanup (map_err AppRuntime (start_container_sequence ex (as_paths st) i names mode)) (cleanup True) (\<lambda>_.
         or_cleanup (running_record ex st i) (cleanup True) ok))))))))"

definition fork_from_snapshot ::
  "('b, 'x) daemon_ext_scheme \<Rightarrow> AppState \<Rightarrow> SandboxId \<Rightarrow> SandboxNetworkSpec option \<Rightarrow> string
   \<Rightarrow> (('b, 'z) daemon_world_scheme, AppError, SandboxRecord) comp" where
  "fork_from_snapshot ex st i request_network snapshot_name =
     (case validate_snapshot_name snapshot_name of Inl e \<Rightarrow> err (BadRequest (show_ValidationError e)) | Inr _ \<Rightarrow>
      with_snapshot_lock snapshot_name (
      andThen (snapshot_exists ex (as_paths st) snapshot_name) (\<lambda>found.
      if \<not> found then err (AppNotFound (''snapshot '' @ snapshot_name @ '' not found'')) else
      andThen (map_err AppIo (read_manifest ex (as_paths st) snapshot_name)) (\<lambda>manifest.
      let names = manifest_container_names manifest; cleanup = cleanup_failed_sandbox ex st i names in
      andThen (lift_result (effective_fork_network st request_network (sm_network manifest))) (\<lambda>network.
      andThen (read_clock ex) (\<lambda>t.
      andThen (map_err AppIo (reg_insert ex (as_paths st)
          ((new_pending t i names)\<lparr>origin_snapshot := Some snapshot_name\<rparr>))) (\<lambda>_.
      or_cleanup (prepare_sandbox_network ex st i network) (cleanup False) (\<lambda>ns.
      let mode = runsc_network_mode st ns in
      or_cleanup (persist_sandbox_spec ex st i \<lparr>sp_pause_image = sm_pause_image manifest,
          sp_containers = sm_containers manifest, sp_network = network,
          sp_network_mode = Some (NetworkMode_from mode)\<rparr>) (cleanup False) (\<lambda>_.
      or_cleanup (prepare_bundles ex st i (sm_pause_image manifest) (sm_containers manifest) ns) (cleanup False) (\<lambda>_.
      or_cleanup (map_err AppRuntime (restore_sandbox ex (as_paths st) i names
          (snapshot_checkpoint_dir (as_paths st) snapshot_name) Warning mode)) (cleanup True) (\<lambda>_.
      or_cleanup (running_record ex st i) (cleanup True) ok)))))))))))"

definition create_sandbox ::
  "('b, 'x) daemon_ext_scheme \<Rightarrow> AppState \<Rightarrow> CreateSandboxRequest
   \<Rightarrow> (('b, 'z) daemon_world_scheme, AppError, SandboxRecord) comp" where
  "create_sandbox ex st req =
     andThen (if cr_from_snapshot req = None then lift_result (validate_containers (cr_containers req)) else ok ()) (\<lambda>_.
     andThen (case cr_id req of Some v \<Rightarrow> lift_result (parse_sandbox_id v) | None \<Rightarrow> new_uuid ex) (\<lambda>i.
     with_lifecycle i (
     andThen (reg_contains i) (\<lambda>known.
     if known then err (Conflict (''sandbox '' @ i @ '' already exists'')) else
     andThen (map_err AppIo (try_exists ex (sandbox_dir (as_paths st) i))) (\<lambda>present.
     if present then err (Conflict (''sandbox directory for '' @ i @ '' already exists'')) else
     (case cr_from_snapshot req of
        Some snapshot \<Rightarrow> fork_from_snapshot ex st i (cr_network req) snapshot
      | None \<Rightarrow> boot_fresh_sandbox ex st i req))))))"


section \<open>Reading and deleting\<close>

definition list_sandboxes :: "(('b, 'z) daemon_world_scheme, AppError, SandboxRecord list) comp" where
  "list_sandboxes = reg_list"

definition get_sandbox :: "string \<Rightarrow> (('b, 'z) daemon_world_scheme, AppError, SandboxRecord) comp" where
  "get_sandbox raw =
     andThen (lift_result (parse_sandbox_id raw)) (\<lambda>i. andThen (reg_get i) (ok_or (not_found i)))"

definition kill_execs ::
  "('b, 'x) daemon_ext_scheme \<Rightarrow> SandboxId \<Rightarrow> (('b, 'z) daemon_world_scheme, 'e, unit) comp" where
  "kill_execs ex i = modify (\<lambda>w. w\<lparr>execs := snd (kill_for_sandbox (procs ex) (settle ex (tick w)) i (execs w)),
     tick := Suc (tick w)\<rparr>)"

text \<open>A failed part of a deletion is recorded before it is returned.\<close>

definition fail_with ::
  "('b, 'x) daemon_ext_scheme \<Rightarrow> AppState \<Rightarrow> SandboxId \<Rightarrow> string \<Rightarrow> AppError \<Rightarrow> (('b, 'z) daemon_world_scheme, AppError, 'a) comp" where
  "fail_with ex st i message e =
     andThen (map_err AppIo (reg_update ex (as_paths st) i (\<lambda>t. set_error t message))) (\<lambda>_. err e)"

definition teardown_containers ::
  "('b, 'x) daemon_ext_scheme \<Rightarrow> AppState \<Rightarrow> SandboxId \<Rightarrow> SandboxRecord
   \<Rightarrow> (('b, 'z) daemon_world_scheme, AppError, unit) comp" where
  "teardown_containers ex st i current =
     andThen (if sb_status current = Suspended then ok []
         else map_err AppRuntime (delete_visible_container_sequence ex (as_paths st) i (sb_containers current))) (\<lambda>failures.
     if failures = [] then ok ()
     else (let message = ''delete failures: '' @ show_debug_pairs failures
           in fail_with ex st i message (TeardownFailed message)))"

definition teardown_network ::
  "('b, 'x) daemon_ext_scheme \<Rightarrow> AppState \<Rightarrow> SandboxId \<Rightarrow> (('b, 'z) daemon_world_scheme, AppError, unit) comp" where
  "teardown_network ex st i =
     try_case (delete_sandbox_network ex (as_network st) (as_paths st) i)
       (\<lambda>e. fail_with ex st i (''failed to delete sandbox network: '' @ show_NetworkError e) (AppNetwork e)) ok"

definition teardown_files ::
  "('b, 'x) daemon_ext_scheme \<Rightarrow> AppState \<Rightarrow> SandboxId \<Rightarrow> (('b, 'z) daemon_world_scheme, AppError, unit) comp" where
  "teardown_files ex st i =
     try_case (remove_dir_all ex (sandbox_dir (as_paths st) i))
       (\<lambda>e. if e = NotFound then ok ()
            else fail_with ex st i (''failed to remove sandbox directory: '' @ show_io_error e) (AppIo e)) ok"

definition delete_sandbox ::
  "('b, 'x) daemon_ext_scheme \<Rightarrow> AppState \<Rightarrow> string \<Rightarrow> (('b, 'z) daemon_world_scheme, AppError, SandboxRecord) comp" where
  "delete_sandbox ex st raw =
     andThen (lift_result (parse_sandbox_id raw)) (\<lambda>i.
     with_lifecycle i (
     andThen (reg_get i) (\<lambda>found.
     andThen (ok_or (not_found i) found) (\<lambda>current.
     andThen (kill_execs ex i) (\<lambda>_.
     andThen (map_err AppIo (reg_update ex (as_paths st) i (\<lambda>t. set_status t Stopping))) (\<lambda>_.
     andThen (teardown_containers ex st i current) (\<lambda>_.
     andThen (teardown_network ex st i) (\<lambda>_.
     andThen (teardown_files ex st i) (\<lambda>_.
     andThen (reg_remove i) (\<lambda>gone.
     andThen (read_clock ex) (\<lambda>t.
     ok ((set_status t Stopped (case gone of Some r \<Rightarrow> r | None \<Rightarrow> current))\<lparr>last_error := None\<rparr>))))))))))))"

section \<open>Logs, addresses and commands\<close>

definition read_log_tail ::
  "('b, 'x) daemon_ext_scheme \<Rightarrow> path \<Rightarrow> nat \<Rightarrow> (('b, 'z) world_scheme, AppError, string list) comp" where
  "read_log_tail ex p tail =
     (if tail = 0 then ok [] else
      try_case (open_existing ex p) (\<lambda>e. if e = NotFound then ok [] else err (AppIo e)) (\<lambda>_.
      andThen (map_err AppIo (read_file ex p)) (\<lambda>b.
      let body = bytes_of ex b; start = length body - LOG_TAIL_READ_BYTES in
      ok (tail_lines tail (utf8_lossy ex) start (drop start body)))))"

definition resolve_running_container ::
  "('b, 'x) daemon_ext_scheme \<Rightarrow> AppState \<Rightarrow> SandboxRecord \<Rightarrow> SandboxId \<Rightarrow> string option
   \<Rightarrow> (('b, 'z) daemon_world_scheme, AppError, string) comp" where
  "resolve_running_container ex st r i requested =
     (if sb_status r \<noteq> Running then
        err (Conflict (''sandbox '' @ i @ '' is '' @ show_status_debug (sb_status r) @ '', not running'')) else
      andThen (ok_or (AppNotFound (''sandbox '' @ i @ '' has no containers''))
        (case requested of Some c \<Rightarrow> Some c | None \<Rightarrow> default_log_container r)) (\<lambda>container.
      if container \<notin> set (sb_containers r) then
        err (AppNotFound (''container '' @ show_debug container @ '' not found in sandbox '' @ i)) else
      andThen (container_running ex (as_paths st) i container) (\<lambda>up.
      if up then ok container
      else err (Conflict (''container '' @ show_debug container @ '' in sandbox '' @ i @ '' is not running'')))))"

definition get_logs ::
  "('b, 'x) daemon_ext_scheme \<Rightarrow> AppState \<Rightarrow> string \<Rightarrow> string option \<Rightarrow> nat option
   \<Rightarrow> (('b, 'z) daemon_world_scheme, AppError, LogsResponse) comp" where
  "get_logs ex st raw container tail =
     andThen (lift_result (parse_sandbox_id raw)) (\<lambda>i.
     with_lifecycle i (
     andThen (reg_get i) (\<lambda>found.
     andThen (ok_or (not_found i) found) (\<lambda>r.
     andThen (resolve_running_container ex st r i container) (\<lambda>c.
     andThen (read_log_tail ex (container_log (as_paths st) i c) (min (case tail of Some n \<Rightarrow> n | None \<Rightarrow> 200) 5000)) (\<lambda>ls.
     ok \<lparr>lr_sandbox_id = i, lr_container = c, lr_lines = ls\<rparr>))))))"

definition get_sandbox_network ::
  "('b, 'x) daemon_ext_scheme \<Rightarrow> AppState \<Rightarrow> string \<Rightarrow> (('b, 'z) daemon_world_scheme, AppError, SandboxNetworkResponse) comp" where
  "get_sandbox_network ex st raw =
     andThen (lift_result (parse_sandbox_id raw)) (\<lambda>i.
     andThen (reg_contains i) (\<lambda>known.
     if \<not> known then err (not_found i) else
     if \<not> net_enabled st then err (Conflict ''managed networking is disabled'') else
     andThen (map_err AppNetwork (sandbox_info ex (as_network st) (as_paths st) i)) (\<lambda>found.
     andThen (ok_or (AppNotFound (''network state for sandbox '' @ i @ '' not found'')) found) (\<lambda>info.
     ok \<lparr>nr_sandbox_id = i, nr_host_gateway_ip = show_ipv4 (host_gateway_ip info),
         nr_sandbox_ip = show_ipv4 (info_sandbox_ip info)\<rparr>))))"

section \<open>Suspending and resuming\<close>

definition suspend_locked ::
  "('b, 'x) daemon_ext_scheme \<Rightarrow> AppState \<Rightarrow> SandboxId \<Rightarrow> SandboxRecord
   \<Rightarrow> (('b, 'z) daemon_world_scheme, AppError, SandboxRecord) comp" where
  "suspend_locked ex st i r =
     (let image_dir = checkpoint_dir (as_paths st) i in
      try_case (checkpoint_sandbox ex (as_paths st) i (sb_containers r) image_dir)
        (\<lambda>e. andThen (checkpoint_image_complete_for_containers ex image_dir (sb_containers r)) (\<lambda>available.
             andThen (if available then ok Suspended
                 else andThen (container_running ex (as_paths st) i PAUSE_CONTAINER) (\<lambda>up.
                   ok (if up then Running else Unknown))) (\<lambda>status.
             andThen (ignore (reg_update ex (as_paths st) i (\<lambda>t rec.
                 (set_status t status rec)\<lparr>last_error := Some (''checkpoint failed: '' @ show_RuntimeError e)\<rparr>))) (\<lambda>_.
             err (AppRuntime e)))))
        (\<lambda>_. andThen (map_err AppIo (reg_update ex (as_paths st) i (\<lambda>t rec.
                 (set_status t Suspended rec)\<lparr>last_error := None\<rparr>)))
               (ok_or (not_found i))))"

definition suspend_sandbox ::
  "('b, 'x) daemon_ext_scheme \<Rightarrow> AppState \<Rightarrow> string \<Rightarrow> (('b, 'z) daemon_world_scheme, AppError, SandboxRecord) comp" where
  "suspend_sandbox ex st raw =
     andThen (lift_result (parse_sandbox_id raw)) (\<lambda>i.
     with_lifecycle i (
     andThen (reg_get i) (\<lambda>found.
     andThen (ok_or (not_found i) found) (\<lambda>r.
     if sb_status r \<noteq> Running then
       err (Conflict (''sandbox '' @ i @ '' is '' @ show_status_debug (sb_status r) @ '', not running'')) else
     if \<not> runtime_supports_checkpoints st then err (Conflict hostinet_checkpoint_unsupported_message) else
     andThen (kill_execs ex i) (\<lambda>_.
     suspend_locked ex st i r)))))"

definition cleanup_partial_resume ::
  "('b, 'x) daemon_ext_scheme \<Rightarrow> AppState \<Rightarrow> SandboxId \<Rightarrow> SandboxRecord \<Rightarrow> RuntimeError
   \<Rightarrow> (('b, 'z) daemon_world_scheme, 'e, unit) comp" where
  "cleanup_partial_resume ex st i r restore_error =
     (let failed = (\<lambda>cleanup. ignore (reg_update ex (as_paths st) i (\<lambda>t. set_error t
            (''resume failed and partial restore cleanup failed: restore='' @ show_RuntimeError restore_error
             @ ''; cleanup='' @ cleanup))))
      in try_case (delete_visible_container_sequence ex (as_paths st) i (sb_containers r))
           (\<lambda>e. failed (show_RuntimeError e))
           (\<lambda>failures. if failures = [] then ok () else failed (show_debug_pairs failures)))"

definition resume_locked ::
  "('b, 'x) daemon_ext_scheme \<Rightarrow> AppState \<Rightarrow> SandboxId \<Rightarrow> SandboxRecord
   \<Rightarrow> (('b, 'z) daemon_world_scheme, AppError, SandboxRecord) comp" where
  "resume_locked ex st i r =
     andThen (read_sandbox_spec ex st i) (\<lambda>spec.
     andThen (prepare_sandbox_network ex st i (sp_network spec)) (\<lambda>ns.
     let image_dir = checkpoint_dir (as_paths st) i;
         mode = (case sp_network_mode spec of None \<Rightarrow> runsc_network_mode st ns | Some m \<Rightarrow> RunscNetworkMode_from m)
     in try_case (restore_sandbox ex (as_paths st) i (sb_containers r) image_dir Enforce mode)
          (\<lambda>e. andThen (cleanup_partial_resume ex st i r e) (\<lambda>_. err (AppRuntime e)))
          (\<lambda>_. andThen (running_record ex st i) (\<lambda>rec.
               andThen (ignore (remove_dir_all ex image_dir)) (\<lambda>_. ok rec)))))"

definition resume_sandbox ::
  "('b, 'x) daemon_ext_scheme \<Rightarrow> AppState \<Rightarrow> string \<Rightarrow> (('b, 'z) daemon_world_scheme, AppError, SandboxRecord) comp" where
  "resume_sandbox ex st raw =
     andThen (lift_result (parse_sandbox_id raw)) (\<lambda>i.
     with_lifecycle i (
     andThen (reg_get i) (\<lambda>found.
     andThen (ok_or (not_found i) found) (\<lambda>r.
     if sb_status r \<noteq> Suspended then
       err (Conflict (''sandbox '' @ i @ '' is '' @ show_status_debug (sb_status r) @ '', not suspended'')) else
     resume_locked ex st i r))))"

definition ensure_running ::
  "('b, 'x) daemon_ext_scheme \<Rightarrow> AppState \<Rightarrow> SandboxId \<Rightarrow> SandboxRecord
   \<Rightarrow> (('b, 'z) daemon_world_scheme, AppError, SandboxRecord) comp" where
  "ensure_running ex st i r = (if sb_status r = Suspended then resume_locked ex st i r else ok r)"

definition exec_in_sandbox ::
  "('b, 'x) daemon_ext_scheme \<Rightarrow> AppState \<Rightarrow> string \<Rightarrow> ExecRequest
   \<Rightarrow> (('b, 'z) daemon_world_scheme, AppError, ExecResponse) comp" where
  "exec_in_sandbox ex st raw req =
     andThen (lift_result (parse_sandbox_id raw)) (\<lambda>i.
     if er_command req = [] then err (BadRequest ''command must not be empty'') else
     with_lifecycle i (
     andThen (reg_get i) (\<lambda>found.
     andThen (ok_or (not_found i) found) (\<lambda>r0.
     andThen (ensure_running ex st i r0) (\<lambda>r.
     andThen (resolve_running_container ex st r i (er_container req)) (\<lambda>container.
     andThen (map_err AppRuntime (exec_in_container ex (as_paths st) i container (er_command req)
         (render_env (er_env req)) (er_cwd req))) (\<lambda>out.
     ok \<lparr>xr_sandbox_id = i, xr_container = container, xr_exit_code = eo_exit_code out,
         xr_stdout = eo_stdout out, xr_stderr = eo_stderr out\<rparr>)))))))"


section \<open>Background execs\<close>

text \<open>
  \<open>spawn_pty_exec\<close> of the runtime: the log directory, a terminal of the requested size, the process,
  then the reader and the writer of the terminal.
\<close>

definition spawn_pty_exec_in_container ::
  "('b, 'x) daemon_ext_scheme \<Rightarrow> OadPaths \<Rightarrow> SandboxId \<Rightarrow> string \<Rightarrow> string list \<Rightarrow> string list \<Rightarrow> string option
   \<Rightarrow> path option \<Rightarrow> 16 word \<Rightarrow> 16 word \<Rightarrow> (('b, 'z) daemon_world_scheme, RuntimeError, unit) comp" where
  "spawn_pty_exec_in_container ex ps i container command env cwd log_path rows cols =
     andThen (case log_path of None \<Rightarrow> ok () | Some p \<Rightarrow> map_err RtIo (create_parent ex p)) (\<lambda>_.
     andThen (gets tick) (\<lambda>t.
     case open_pty ex t rows cols of Some m \<Rightarrow> err (RtSpawn m) | None \<Rightarrow>
     andThen (map_err RtSpawn (spawn_cmd ex RUNSC
         (exec_args (runsc_for_sandbox ps i) container command env cwd log_path))) (\<lambda>_.
     case pty_handles ex t of Some m \<Rightarrow> err (RtIo (OtherIo m)) | None \<Rightarrow> ok ())))"

definition add_session ::
  "((nat, nat, nat) exec_store \<Rightarrow> (nat, nat, nat) exec_store) \<Rightarrow> (('b, 'z) daemon_world_scheme, 'e, unit) comp" where
  "add_session f = modify (\<lambda>w. w\<lparr>execs := f (execs w)\<rparr>)"

definition start_background_exec ::
  "('b, 'x) daemon_ext_scheme \<Rightarrow> AppState \<Rightarrow> string \<Rightarrow> StartBackgroundExecRequest
   \<Rightarrow> (('b, 'z) daemon_world_scheme, AppError, BackgroundExecInfo) comp" where
  "start_background_exec ex st raw req =
     andThen (lift_result (parse_sandbox_id raw)) (\<lambda>i.
     if sr_command req = [] then err (BadRequest ''command must not be empty'') else
     if sr_pty req \<and> (sr_rows req = Some 0 \<or> sr_cols req = Some 0)
     then err (BadRequest ''PTY rows and cols must be greater than zero'') else
     with_lifecycle i (
     andThen (reg_get i) (\<lambda>found.
     andThen (ok_or (not_found i) found) (\<lambda>r0.
     andThen (ensure_running ex st i r0) (\<lambda>r.
     andThen (resolve_running_container ex st r i (sr_container req)) (\<lambda>container.
     andThen (new_uuid ex) (\<lambda>exec_id.
     let log_path = Some (join (logs_dir (as_paths st) i) (''exec-'' @ exec_id @ ''.jsonl''));
         env = render_env (sr_env req);
         info = \<lparr>bi_id = exec_id, bi_sandbox_id = i, bi_container = container, bi_command = sr_command req,
           bi_pty = sr_pty req, bi_status = ExecRunning, bi_exit_code = None, bi_last_error = None\<rparr>
     in andThen (gets (\<lambda>w. handles ex (tick w))) (\<lambda>(h, m, k).
        if sr_pty req then
          andThen (map_err AppRuntime (spawn_pty_exec_in_container ex (as_paths st) i container (sr_command req) env
              (sr_cwd req) log_path (case sr_rows req of Some n \<Rightarrow> n | None \<Rightarrow> DEFAULT_PTY_ROWS)
              (case sr_cols req of Some n \<Rightarrow> n | None \<Rightarrow> DEFAULT_PTY_COLS))) (\<lambda>_.
          andThen (add_session (store_insert_pty info h m k)) (\<lambda>_. ok info))
        else
          andThen (map_err AppRuntime (spawn_exec_in_container ex (as_paths st) i container (sr_command req) env
              (sr_cwd req) log_path)) (\<lambda>_.
          andThen (add_session (store_insert info h)) (\<lambda>_. ok info))))))))))"

definition list_background_execs ::
  "string \<Rightarrow> (('b, 'z) daemon_world_scheme, AppError, BackgroundExecInfo list) comp" where
  "list_background_execs raw =
     andThen (lift_result (parse_sandbox_id raw)) (\<lambda>i.
     andThen (reg_contains i) (\<lambda>known.
     if \<not> known then err (not_found i) else gets (\<lambda>w. list_for_sandbox i (execs w))))"

definition background_exec_session ::
  "SandboxId \<Rightarrow> string \<Rightarrow> (('b, 'z) daemon_world_scheme, AppError, (nat, nat, nat) BackgroundExecSession) comp" where
  "background_exec_session i exec_id =
     andThen (reg_contains i) (\<lambda>known.
     if \<not> known then err (not_found i) else
     andThen (gets (\<lambda>w. store_get exec_id (execs w))) (\<lambda>found.
     andThen (ok_or (AppNotFound (''background exec '' @ exec_id @ '' not found'')) found) (\<lambda>session.
     if bi_sandbox_id (s_info session) \<noteq> i
     then err (AppNotFound (''background exec '' @ exec_id @ '' not found in sandbox '' @ i))
     else ok session)))"

definition get_background_exec ::
  "string \<Rightarrow> string \<Rightarrow> (('b, 'z) daemon_world_scheme, AppError, BackgroundExecInfo) comp" where
  "get_background_exec raw exec_id =
     andThen (lift_result (parse_sandbox_id raw)) (\<lambda>i.
     andThen (background_exec_session i exec_id) (\<lambda>session. ok (s_info session)))"

text \<open>A session is shared: a change of it is a change of the stored one.\<close>

definition set_session ::
  "string \<Rightarrow> (nat, nat, nat) BackgroundExecSession \<Rightarrow> (('b, 'z) daemon_world_scheme, 'e, unit) comp" where
  "set_session exec_id session = modify (\<lambda>w. w\<lparr>execs := bt_insert exec_id session (execs w)\<rparr>)"

definition kill_background_exec ::
  "('b, 'x) daemon_ext_scheme \<Rightarrow> string \<Rightarrow> string \<Rightarrow> (('b, 'z) daemon_world_scheme, AppError, BackgroundExecInfo) comp" where
  "kill_background_exec ex raw exec_id =
     andThen (lift_result (parse_sandbox_id raw)) (\<lambda>i.
     andThen (background_exec_session i exec_id) (\<lambda>session.
     andThen (gets tick) (\<lambda>t.
     let (killed, session') = session_kill (procs ex) session;
         session'' = (if killed then settle ex t session' else session')
     in andThen (set_session exec_id session'') (\<lambda>_. ok (s_info session'')))))"

definition write_background_exec_stdin ::
  "('b, 'x) daemon_ext_scheme \<Rightarrow> string \<Rightarrow> string \<Rightarrow> string \<Rightarrow> bool \<Rightarrow> (('b, 'z) daemon_world_scheme, AppError, bool) comp" where
  "write_background_exec_stdin ex raw exec_id data close =
     andThen (lift_result (parse_sandbox_id raw)) (\<lambda>i.
     if data = [] \<and> \<not> close then err (BadRequest ''stdin request must include data or close=true'') else
     andThen (background_exec_session i exec_id) (\<lambda>session.
     let (r, session') = write_stdin (procs ex) data close session in
     andThen (set_session exec_id session') (\<lambda>_.
     andThen (map_err AppIo (lift_result r)) (\<lambda>accepted.
     if \<not> accepted then err (Conflict (''stdin for background exec '' @ exec_id @ '' is closed'')) else ok True))))"

definition resize_background_exec ::
  "('b, 'x) daemon_ext_scheme \<Rightarrow> string \<Rightarrow> string \<Rightarrow> 16 word \<Rightarrow> 16 word \<Rightarrow> (('b, 'z) daemon_world_scheme, AppError, bool) comp" where
  "resize_background_exec ex raw exec_id rows cols =
     andThen (lift_result (parse_sandbox_id raw)) (\<lambda>i.
     if rows = 0 \<or> cols = 0 then err (BadRequest ''PTY rows and cols must be greater than zero'') else
     andThen (background_exec_session i exec_id) (\<lambda>session.
     let (accepted, session') = session_resize (procs ex) rows cols session in
     andThen (set_session exec_id session') (\<lambda>_.
     if \<not> accepted then err (Conflict (''background exec '' @ exec_id @ '' is not PTY-backed'')) else ok True)))"

section \<open>Snapshots\<close>

definition snapshot_info :: "('b, 'x) daemon_ext_scheme \<Rightarrow> SnapshotManifest \<Rightarrow> SnapshotInfo" where
  "snapshot_info ex manifest = \<lparr>si_name = sm_name manifest, si_containers = manifest_container_names manifest,
     si_created_at = created_at_rfc3339 ex manifest\<rparr>"

definition snapshot_sandbox_handler ::
  "('b, 'x) daemon_ext_scheme \<Rightarrow> AppState \<Rightarrow> string \<Rightarrow> string option
   \<Rightarrow> (('b, 'z) daemon_world_scheme, AppError, SnapshotInfo) comp" where
  "snapshot_sandbox_handler ex st raw request_name =
     andThen (lift_result (parse_sandbox_id raw)) (\<lambda>i.
     andThen (case request_name of
         Some n \<Rightarrow> (case validate_snapshot_name n of Inl e \<Rightarrow> err (BadRequest (show_ValidationError e)) | Inr _ \<Rightarrow> ok n)
       | None \<Rightarrow> andThen (new_uuid ex) (\<lambda>u. ok (''snap-'' @ u))) (\<lambda>name.
     with_lifecycle i (
     andThen (reg_get i) (\<lambda>found.
     andThen (ok_or (not_found i) found) (\<lambda>r.
     if sb_status r \<noteq> Running \<and> sb_status r \<noteq> Suspended then
       err (Conflict (''sandbox '' @ i @ '' is '' @ show_status_debug (sb_status r)
         @ ''; must be running or suspended to snapshot'')) else
     andThen (read_sandbox_spec ex st i) (\<lambda>spec.
     with_snapshot_lock name (
     andThen (map_err AppIo (reserve ex (as_paths st) name)) (\<lambda>reserved.
     if \<not> reserved then err (Conflict (''snapshot '' @ name @ '' already exists'')) else
     let cleanup = ignore (snapshot_delete ex (as_paths st) name);
         image_dir = snapshot_checkpoint_dir (as_paths st) name
     in or_cleanup
          (if sb_status r = Running then
             (if runtime_supports_checkpoints st
              then map_err AppRuntime (snapshot_sandbox ex (as_paths st) i (sb_containers r) image_dir)
              else err (Conflict hostinet_checkpoint_unsupported_message))
           else map_err AppRuntime (copy_checkpoint_image ex (checkpoint_dir (as_paths st) i) image_dir (sb_containers r)))
          cleanup (\<lambda>_.
        andThen (read_clock ex) (\<lambda>t.
        let manifest = SnapshotManifest_new t name (sp_pause_image spec) (sp_containers spec) (sp_network spec) in
        or_cleanup (map_err AppIo (write_manifest ex (as_paths st) manifest)) cleanup (\<lambda>_.
        ok (snapshot_info ex manifest))))))))))))"

definition list_snapshots ::
  "('b, 'x) daemon_ext_scheme \<Rightarrow> AppState \<Rightarrow> (('b, 'z) daemon_world_scheme, AppError, SnapshotInfo list) comp" where
  "list_snapshots ex st = andThen (snapshot_list ex (as_paths st)) (\<lambda>ms. ok (map (snapshot_info ex) ms))"

definition delete_snapshot ::
  "('b, 'x) daemon_ext_scheme \<Rightarrow> AppState \<Rightarrow> string \<Rightarrow> (('b, 'z) daemon_world_scheme, AppError, unit) comp" where
  "delete_snapshot ex st name = (case validate_snapshot_name name of
       Inl e \<Rightarrow> err (BadRequest (show_ValidationError e))
     | Inr _ \<Rightarrow> with_snapshot_lock name (
         andThen (map_err AppIo (snapshot_delete ex (as_paths st) name)) (\<lambda>removed.
         if removed then ok () else err (AppNotFound (''snapshot '' @ name @ '' not found'')))))"

section \<open>Start-up and shutdown\<close>

definition needs_reconciliation :: "SandboxStatus \<Rightarrow> bool" where
  "needs_reconciliation s \<longleftrightarrow> s = Pending \<or> s = Running \<or> s = Stopping \<or> s = Unknown"

definition delete_reconciled_non_running_containers ::
  "('b, 'x) daemon_ext_scheme \<Rightarrow> OadPaths \<Rightarrow> SandboxRecord \<Rightarrow> SandboxStatus \<Rightarrow> string option
   \<Rightarrow> (('b, 'z) daemon_world_scheme, 'e, SandboxStatus \<times> string option) comp" where
  "delete_reconciled_non_running_containers ex ps r status last_err =
     (if status = Running then ok (status, last_err)
      else try_case (delete_visible_container_sequence ex ps (sb_id r) (sb_containers r))
        (\<lambda>e. ok (Unknown, Some (''failed to clean up stale containers during startup reconciliation: ''
               @ show_RuntimeError e)))
        (\<lambda>failures. ok (if failures = [] then (status, last_err)
           else (Unknown, Some (''failed to delete stale containers during startup reconciliation: ''
               @ show_debug_pairs failures)))))"

definition reconcile_one ::
  "('b, 'x) daemon_ext_scheme \<Rightarrow> OadPaths \<Rightarrow> SandboxRecord \<Rightarrow> (('b, 'z) daemon_world_scheme, 'e, unit) comp" where
  "reconcile_one ex ps r =
     (if \<not> needs_reconciliation (sb_status r) then ok () else
      andThen (checkpoint_image_complete_for_containers ex (checkpoint_dir ps (sb_id r)) (sb_containers r)) (\<lambda>available.
      andThen (try_case (container_running_result ex ps (sb_id r) PAUSE_CONTAINER)
          (\<lambda>_. ok (if available then (Suspended, None)
             else (Unknown, Some ''failed to query runtime state during startup reconciliation'')))
          (\<lambda>up. ok (if up then (Running, None) else if available then (Suspended, None) else (Stopped, None)))) (\<lambda>(s0, e0).
      andThen (delete_reconciled_non_running_containers ex ps r s0 e0) (\<lambda>(status, last_err).
      ignore (reg_update ex ps (sb_id r) (\<lambda>t rec. (set_status t status rec)\<lparr>last_error := last_err\<rparr>))))))"

definition reconcile_sandboxes ::
  "('b, 'x) daemon_ext_scheme \<Rightarrow> OadPaths \<Rightarrow> (('b, 'z) daemon_world_scheme, 'e, unit) comp" where
  "reconcile_sandboxes ex ps = andThen reg_list (\<lambda>rs. for_each rs (reconcile_one ex ps))"

definition shutdown_one ::
  "('b, 'x) daemon_ext_scheme \<Rightarrow> AppState \<Rightarrow> SandboxRecord \<Rightarrow> (('b, 'z) daemon_world_scheme, 'e, unit) comp" where
  "shutdown_one ex st recovered =
     (if sb_status recovered \<noteq> Running then ok () else
      with_lifecycle (sb_id recovered) (
      andThen (reg_get (sb_id recovered)) (\<lambda>found. case found of None \<Rightarrow> ok () | Some r \<Rightarrow>
      (if sb_status r \<noteq> Running then ok ()
       else ignore (suspend_locked ex st (sb_id recovered) r)))))"

definition checkpoint_running_sandboxes_for_shutdown ::
  "('b, 'x) daemon_ext_scheme \<Rightarrow> AppState \<Rightarrow> (('b, 'z) daemon_world_scheme, 'e, unit) comp" where
  "checkpoint_running_sandboxes_for_shutdown ex st =
     (if \<not> runtime_supports_checkpoints st then ok ()
      else andThen reg_list (\<lambda>rs. for_each rs (shutdown_one ex st)))"

text \<open>The start of the daemon up to the point where it serves requests.\<close>

definition start_up ::
  "('b, 'x) daemon_ext_scheme \<Rightarrow> DaemonConfig \<Rightarrow> (('b, 'z) daemon_world_scheme, string, AppState) comp" where
  "start_up ex config =
     (let ps = OadPaths_new (rc_base_dir (runtime config)) in
      andThen (map_err (\<lambda>e. ''failed to create '' @ display (sandboxes_dir ps)) (create_dir_all ex (sandboxes_dir ps))) (\<lambda>_.
      andThen (ignore (recover ex ps)) (\<lambda>_.
      andThen (reconcile_sandboxes ex ps) (\<lambda>_.
      andThen (map_err (\<lambda>e. ''failed to initialize network manager'') (lift_result (NetworkManager_new (socket_v6 ex)
          (rc_network (runtime config)) (obs_enabled (rc_observability (runtime config)))))) (\<lambda>network.
      let st = \<lparr>as_config = config, as_paths = ps, as_network = network\<rparr> in
      andThen (ignore (reconcile_all ex network ps)) (\<lambda>_. ok st))))))"

section \<open>The router\<close>

text \<open>
  A request after its path, query and body have been extracted, one constructor per route, and the body
  of the response.
\<close>

datatype api_request =
    Healthz
  | OpenapiSpec
  | CreateSandbox CreateSandboxRequest
  | ListSandboxes
  | GetSandbox string
  | DeleteSandbox string
  | GetLogs string "string option" "nat option"
  | GetNetwork string
  | Exec string ExecRequest
  | StartExec string StartBackgroundExecRequest
  | ListExecs string
  | GetExec string string
  | KillExec string string
  | ExecStdin string string string bool
  | ExecResize string string "16 word" "16 word"
  | ExecEvents string string "64 word option"
  | Suspend string
  | Resume string
  | Snapshot string "string option"
  | ListSnapshots
  | DeleteSnapshot string

datatype api_reply =
    HealthReply
  | OpenapiReply
  | SandboxReply SandboxRecord
  | SandboxesReply "SandboxRecord list"
  | LogsReply LogsResponse
  | NetworkReply SandboxNetworkResponse
  | ExecReply ExecResponse
  | ExecInfoReply BackgroundExecInfo
  | ExecInfosReply "BackgroundExecInfo list"
  | AcceptedReply bool
  | EventsReply "BackgroundExecEvent list" stream_state
  | SnapshotReply SnapshotInfo
  | SnapshotsReply "SnapshotInfo list"
  | NoContent

text \<open>The start of an event stream; its later polls are \<open>live_next\<close>.\<close>

definition stream_background_exec_events ::
  "string \<Rightarrow> string \<Rightarrow> 64 word option
   \<Rightarrow> (('b, 'z) daemon_world_scheme, AppError, BackgroundExecEvent list \<times> stream_state) comp" where
  "stream_background_exec_events raw exec_id query_from =
     andThen (lift_result (parse_sandbox_id raw)) (\<lambda>i.
     andThen (background_exec_session i exec_id) (\<lambda>session. ok (open_stream session session query_from)))"

definition reply :: "('w, 'e, 'a) comp \<Rightarrow> ('a \<Rightarrow> 'r) \<Rightarrow> ('w, 'e, 'r) comp" where
  "reply m f = andThen m (\<lambda>x. ok (f x))"

fun protected_route ::
  "('b, 'x) daemon_ext_scheme \<Rightarrow> AppState \<Rightarrow> api_request \<Rightarrow> (('b, 'z) daemon_world_scheme, AppError, api_reply) comp" where
  "protected_route ex st (CreateSandbox req) = reply (create_sandbox ex st req) SandboxReply"
| "protected_route ex st ListSandboxes = reply list_sandboxes SandboxesReply"
| "protected_route ex st (GetSandbox i) = reply (get_sandbox i) SandboxReply"
| "protected_route ex st (DeleteSandbox i) = reply (delete_sandbox ex st i) SandboxReply"
| "protected_route ex st (GetLogs i c n) = reply (get_logs ex st i c n) LogsReply"
| "protected_route ex st (GetNetwork i) = reply (get_sandbox_network ex st i) NetworkReply"
| "protected_route ex st (Exec i req) = reply (exec_in_sandbox ex st i req) ExecReply"
| "protected_route ex st (StartExec i req) = reply (start_background_exec ex st i req) ExecInfoReply"
| "protected_route ex st (ListExecs i) = reply (list_background_execs i) ExecInfosReply"
| "protected_route ex st (GetExec i k) = reply (get_background_exec i k) ExecInfoReply"
| "protected_route ex st (KillExec i k) = reply (kill_background_exec ex i k) ExecInfoReply"
| "protected_route ex st (ExecStdin i k data close) = reply (write_background_exec_stdin ex i k data close) AcceptedReply"
| "protected_route ex st (ExecResize i k rows cols) = reply (resize_background_exec ex i k rows cols) AcceptedReply"
| "protected_route ex st (ExecEvents i k from) = reply (stream_background_exec_events i k from) (\<lambda>(es, s). EventsReply es s)"
| "protected_route ex st (Suspend i) = reply (suspend_sandbox ex st i) SandboxReply"
| "protected_route ex st (Resume i) = reply (resume_sandbox ex st i) SandboxReply"
| "protected_route ex st (Snapshot i n) = reply (snapshot_sandbox_handler ex st i n) SnapshotReply"
| "protected_route ex st ListSnapshots = reply (list_snapshots ex st) SnapshotsReply"
| "protected_route ex st (DeleteSnapshot n) = reply (delete_snapshot ex st n) (\<lambda>_. NoContent)"
| "protected_route ex st Healthz = ok HealthReply"
| "protected_route ex st OpenapiSpec = ok OpenapiReply"

text \<open>Two routes are open; the layer of \<open>require_auth\<close> is around all others.\<close>

definition router ::
  "('b, 'x) daemon_ext_scheme \<Rightarrow> AppState \<Rightarrow> string option \<Rightarrow> api_request
   \<Rightarrow> (('b, 'z) daemon_world_scheme, AppError, api_reply) comp" where
  "router ex st authorization req =
     (case req of
        Healthz \<Rightarrow> ok HealthReply
      | OpenapiSpec \<Rightarrow> ok OpenapiReply
      | _ \<Rightarrow> require_auth (as_config st) authorization (protected_route ex st req))"

end
