(* ===== verification/Lifecycle.thy ===== *)
theory Lifecycle
  imports Daemon
begin

text \<open>
  What the handlers of the daemon guarantee. Every handler works on one sandbox: it leaves the records
  of the others alone, keeps the tables well formed and gives back every lock it took, on every path
  and whatever fails. On top of that: what a successful deletion and a creation have done, and the
  failures that leave a sandbox behind.
\<close>

section \<open>Steps inside a handler\<close>

text \<open>Everything the daemon itself keeps in memory is as before.\<close>

definition same_registry :: "('b, 'z) daemon_world_scheme \<Rightarrow> ('b, 'z) daemon_world_scheme \<Rightarrow> bool" where
  "same_registry w w' \<longleftrightarrow> records w' = records w \<and> locks w' = locks w \<and> execs w' = execs w \<and> snap_locks w' = snap_locks w"

interpretation calm: bystander same_registry
  by unfold_locales (simp_all add: same_registry_def)

text \<open>A table of locks in which every slot has a holder.\<close>

definition held_slots :: "lifecycle_table \<Rightarrow> bool" where
  "held_slots tb \<longleftrightarrow> (\<forall>k s. bt_get tb k = Some s \<longrightarrow> 0 < lc_holders s)"

definition held_names :: "named_table \<Rightarrow> bool" where
  "held_names tb \<longleftrightarrow> (\<forall>k s. bt_get tb k = Some s \<longrightarrow> 0 < nl_holders s)"

text \<open>What a handler on sandbox \<open>i\<close> may change in memory while it holds the lifecycle lock.\<close>

definition works_on :: "SandboxId \<Rightarrow> ('b, 'z) daemon_world_scheme \<Rightarrow> ('b, 'z) daemon_world_scheme \<Rightarrow> bool" where
  "works_on i w w' \<longleftrightarrow> locks w' = locks w
     \<and> (\<forall>j. j \<noteq> i \<longrightarrow> bt_get (records w') j = bt_get (records w) j)
     \<and> (bt_ok (records w) \<longrightarrow> bt_ok (records w'))
     \<and> (store_ok (execs w) \<longrightarrow> store_ok (execs w'))
     \<and> (held_names (snap_locks w) \<longrightarrow> bt_get (snap_locks w') = bt_get (snap_locks w))"

lemma works_on_trans: "works_on i u v \<Longrightarrow> works_on i v w \<Longrightarrow> works_on i u w"
  by (auto simp: works_on_def held_names_def)

interpretation work: bystander "works_on i" for i
  by unfold_locales (auto simp: works_on_def held_names_def)

lemma calm_works_on: "same_registry w w' \<Longrightarrow> works_on i w w'"
  by (simp add: works_on_def same_registry_def)

lemma calm_persist [pres_intros]: "keeps same_registry (reg_persist ex ps r)"
  unfolding reg_persist_def by (intro pres_intros)

lemma work_persist [pres_intros]: "keeps (works_on i) (reg_persist ex ps r)"
  unfolding reg_persist_def by (intro pres_intros)

lemma works_on_records:
  "works_on i w (w\<lparr>records := bt_insert i r (records w)\<rparr>)" "works_on i w (w\<lparr>records := bt_remove i (records w)\<rparr>)"
  by (auto simp: works_on_def bt_ok_insert bt_ok_remove bt_get_insert bt_get_remove)

lemma work_update [pres_intros]: "keeps (works_on i) (reg_update ex ps i f)"
  unfolding reg_update_def Let_def by (intro pres_intros keeps_modify works_on_records)

lemma work_insert: "sb_id r = i \<Longrightarrow> keeps (works_on i) (reg_insert ex ps r)"
  unfolding reg_insert_def reg_insert_memory_def
  by (intro pres_intros keeps_modify) (simp add: works_on_records)

lemma work_registry [pres_intros]:
  "keeps (works_on i) (reg_remove i)" "keeps (works_on i) (reg_get j)" "keeps (works_on i) (reg_contains j)"
  unfolding reg_remove_def reg_get_def reg_contains_def by (intro pres_intros keeps_modify works_on_records)+

lemma work_control [pres_intros]:
  "keeps (works_on i) (ok_or e v)"
  "keeps (works_on i) m \<Longrightarrow> keeps (works_on i) c \<Longrightarrow> (\<And>x. keeps (works_on i) (f x)) \<Longrightarrow> keeps (works_on i) (or_cleanup m c f)"
  unfolding ok_or_def or_cleanup_def by (intro pres_intros | assumption)+

lemma on_disk_keeps [pres_intros]: "keeps (works_on i) (on_disk f)" "keeps same_registry (on_disk f)"
  by (simp_all add: keeps_def on_disk_def case_prod_beta works_on_def same_registry_def)

lemma store_ok_kill: "store_ok st \<Longrightarrow> store_ok (snd (kill_for_sandbox ex stl i st))"
  by (auto simp: kill_for_sandbox_store store_ok_def bt_ok_def list_all_iff sorted_wrt_map sorted_wrt_filter)

lemma work_kill_execs [pres_intros]: "keeps (works_on i) (kill_execs ex j)"
  unfolding kill_execs_def by (rule keeps_modify) (simp add: works_on_def store_ok_kill)

lemma acquire_drop_names:
  "held_names tb \<Longrightarrow> bt_get tb' = bt_get (snd (NamedLocks_acquire n k tb)) \<Longrightarrow> bt_get (drop_NamedLockGuard k tb') = bt_get tb"
  by (auto simp: NamedLocks_acquire_def drop_NamedLockGuard_def held_names_def Let_def bt_get_insert bt_get_remove fun_eq_iff
      split: option.splits)

lemma acquire_held_names: "held_names tb \<Longrightarrow> held_names (snd (NamedLocks_acquire n k tb))"
  by (auto simp: held_names_def NamedLocks_acquire_def Let_def bt_get_insert split: option.splits)

lemma acquire_drop_slots:
  "held_slots tb \<Longrightarrow> bt_get (drop_LifecycleGuard k (snd (acquire_lifecycle n k tb))) = bt_get tb"
  by (auto simp: acquire_lifecycle_def drop_LifecycleGuard_def held_slots_def Let_def bt_get_insert bt_get_remove fun_eq_iff
      split: option.splits)

lemma work_with_snapshot_lock [pres_intros]:
  fixes m :: "(('b, 'z) daemon_world_scheme, 'e, 'a) comp"
  assumes "keeps (works_on i) m"
  shows "keeps (works_on i) (with_snapshot_lock name m)"
  unfolding keeps_def
proof
  fix w :: "('b, 'z) daemon_world_scheme"
  let ?w1 = "w\<lparr>snap_locks := snd (NamedLocks_acquire (lock_seq w) name (snap_locks w)), lock_seq := Suc (lock_seq w)\<rparr>"
  have "works_on i ?w1 (snd (m ?w1))" by (rule keepsD [OF assms])
  then show "works_on i w (snd (with_snapshot_lock name m w))"
    by (auto simp: works_on_def with_snapshot_lock_def case_prod_beta acquire_held_names acquire_drop_names)
qed


section \<open>The handlers\<close>

lemmas step_defs = running_record_def persist_sandbox_spec_def read_sandbox_spec_def prepare_sandbox_network_def
  prepare_bundles_def cleanup_failed_sandbox_def fail_with_def teardown_containers_def teardown_network_def
  teardown_files_def cleanup_partial_resume_def read_log_tail_def resolve_running_container_def

lemma work_steps [pres_intros]:
  "keeps (works_on i) (running_record ex st i)" "keeps (works_on i) (persist_sandbox_spec ex st i spec)"
  "keeps (works_on i) (read_sandbox_spec ex st i)" "keeps (works_on i) (prepare_sandbox_network ex st i net)"
  "keeps (works_on i) (prepare_bundles ex st i img cs ns)" "keeps (works_on i) (cleanup_failed_sandbox ex st i names del)"
  "keeps (works_on i) (teardown_containers ex st i r)" "keeps (works_on i) (teardown_network ex st i)"
  "keeps (works_on i) (teardown_files ex st i)" "keeps (works_on i) (cleanup_partial_resume ex st i r e)"
  "keeps (works_on i) (read_log_tail ex p n)" "keeps (works_on i) (resolve_running_container ex st r j c)"
  unfolding step_defs Let_def by (intro pres_intros)+

lemma work_boot [pres_intros]: "keeps (works_on i) (boot_fresh_sandbox ex st i req)"
  unfolding boot_fresh_sandbox_def Let_def by (intro pres_intros work_insert) (simp_all add: new_pending_def)

lemma work_fork [pres_intros]: "keeps (works_on i) (fork_from_snapshot ex st i net name)"
  unfolding fork_from_snapshot_def Let_def by (intro pres_intros work_insert) (simp_all add: new_pending_def)

lemma work_suspend [pres_intros]: "keeps (works_on i) (suspend_locked ex st i r)"
  unfolding suspend_locked_def Let_def by (intro pres_intros)

lemma work_resume [pres_intros]: "keeps (works_on i) (resume_locked ex st i r)" "keeps (works_on i) (ensure_running ex st i r)"
  unfolding resume_locked_def ensure_running_def Let_def by (intro pres_intros)+


text \<open>The same seen from outside: the lock itself is given back.\<close>

definition handled :: "SandboxId \<Rightarrow> ('b, 'z) daemon_world_scheme \<Rightarrow> ('b, 'z) daemon_world_scheme \<Rightarrow> bool" where
  "handled i w w' \<longleftrightarrow> (held_slots (locks w) \<longrightarrow> bt_get (locks w') = bt_get (locks w))
     \<and> (\<forall>j. j \<noteq> i \<longrightarrow> bt_get (records w') j = bt_get (records w) j)
     \<and> (bt_ok (records w) \<longrightarrow> bt_ok (records w'))
     \<and> (store_ok (execs w) \<longrightarrow> store_ok (execs w'))
     \<and> (held_names (snap_locks w) \<longrightarrow> bt_get (snap_locks w') = bt_get (snap_locks w))"

interpretation outside: bystander "handled i" for i
  by unfold_locales (auto simp: handled_def held_names_def held_slots_def)

lemma handled_with_lifecycle [pres_intros]:
  fixes m :: "(('b, 'z) daemon_world_scheme, 'e, 'a) comp"
  assumes "keeps (works_on i) m"
  shows "keeps (handled i) (with_lifecycle i m)"
  unfolding keeps_def
proof
  fix w :: "('b, 'z) daemon_world_scheme"
  let ?w1 = "w\<lparr>locks := snd (acquire_lifecycle (lock_seq w) i (locks w)), lock_seq := Suc (lock_seq w)\<rparr>"
  have "works_on i ?w1 (snd (m ?w1))" by (rule keepsD [OF assms])
  then show "handled i w (snd (with_lifecycle i m w))"
    by (auto simp: works_on_def handled_def with_lifecycle_def case_prod_beta acquire_drop_slots)
qed

text \<open>A handler whose identifier comes from its request does nothing when the identifier is refused.\<close>

lemma parse_sandbox_id_Inr: "parse_sandbox_id raw = Inr i \<Longrightarrow> i = raw"
  by (auto simp: parse_sandbox_id_def SandboxId_new_def split: sum.splits if_splits)

lemma handled_parse:
  assumes "\<And>i. i = raw \<Longrightarrow> keeps (handled raw) (f i)"
  shows "keeps (handled raw) (andThen (lift_result (parse_sandbox_id raw)) f)"
  using assms by (auto simp: keeps_def andThen_def lift_result_def outside.refl dest: parse_sandbox_id_Inr split: sum.splits)

lemmas handler_defs = delete_sandbox_def get_logs_def suspend_sandbox_def resume_sandbox_def exec_in_sandbox_def

lemma handled_handlers:
  "keeps (handled raw) (delete_sandbox ex st raw)" "keeps (handled raw) (get_logs ex st raw c n)"
  "keeps (handled raw) (suspend_sandbox ex st raw)" "keeps (handled raw) (resume_sandbox ex st raw)"
  "keeps (handled raw) (exec_in_sandbox ex st raw er)"
  unfolding handler_defs by (rule handled_parse, simp only:, intro pres_intros)+


lemma handled_snapshot: "keeps (handled raw) (snapshot_sandbox_handler ex st raw name)"
  unfolding snapshot_sandbox_handler_def Let_def
  by (rule handled_parse, simp only:) (cases name; simp only: option.case; intro pres_intros)

lemma work_add_session:
  "(\<And>st. store_ok st \<Longrightarrow> store_ok (f st)) \<Longrightarrow> keeps (works_on i) (add_session f)"
  unfolding add_session_def by (rule keeps_modify) (simp add: works_on_def)

lemma work_spawn_pty [pres_intros]: "keeps (works_on i) (spawn_pty_exec_in_container ex ps j c args env cwd lg rw cl)"
  unfolding spawn_pty_exec_in_container_def by (intro pres_intros)

lemma handled_start_background_exec: "keeps (handled raw) (start_background_exec ex st raw req)"
  unfolding start_background_exec_def Let_def
  by (rule handled_parse, simp only:) (intro pres_intros work_add_session; simp)

text \<open>The identifier a creation works on: the requested one, or the random one drawn first.\<close>

definition created_id :: "('b, 'x) daemon_ext_scheme \<Rightarrow> CreateSandboxRequest \<Rightarrow> nat \<Rightarrow> SandboxId" where
  "created_id ex req t = (case cr_id req of Some v \<Rightarrow> v | None \<Rightarrow> uuid ex t)"

text \<open>What a creation does once its identifier is fixed.\<close>

definition create_body ::
  "('b, 'x) daemon_ext_scheme \<Rightarrow> AppState \<Rightarrow> CreateSandboxRequest \<Rightarrow> SandboxId
   \<Rightarrow> (('b, 'z) daemon_world_scheme, AppError, SandboxRecord) comp" where
  "create_body ex st req i =
     andThen (reg_contains i) (\<lambda>known.
     if known then err (Conflict (''sandbox '' @ i @ '' already exists'')) else
     andThen (map_err AppIo (try_exists ex (sandbox_dir (as_paths st) i))) (\<lambda>present.
     if present then err (Conflict (''sandbox directory for '' @ i @ '' already exists'')) else
     (case cr_from_snapshot req of
        Some snapshot \<Rightarrow> fork_from_snapshot ex st i (cr_network req) snapshot
      | None \<Rightarrow> boot_fresh_sandbox ex st i req)))"

lemma create_sandbox_body:
  "create_sandbox ex st req w = (let i = created_id ex req (tick w) in
     if cr_from_snapshot req = None \<and> isl (validate_containers (cr_containers req))
     then (Inl (projl (validate_containers (cr_containers req))), w)
     else case cr_id req of
         None \<Rightarrow> with_lifecycle i (create_body ex st req i) (w\<lparr>tick := Suc (tick w)\<rparr>)
       | Some v \<Rightarrow> (case parse_sandbox_id v of Inl e \<Rightarrow> (Inl e, w)
           | Inr _ \<Rightarrow> with_lifecycle i (create_body ex st req i) w))"
  by (auto simp: create_sandbox_def create_body_def created_id_def andThen_def lift_result_def ok_def new_uuid_def Let_def
      split: sum.splits option.splits dest: parse_sandbox_id_Inr simp del: append.simps)

lemma create_body_handled: "keeps (handled i) (with_lifecycle i (create_body ex st req i))"
  unfolding create_body_def by (intro pres_intros)

lemma handled_create: "handled (created_id ex req (tick w)) w (snd (create_sandbox ex st req w))"
proof -
  let ?i = "created_id ex req (tick w)"
  have "handled ?i w (snd (with_lifecycle ?i (create_body ex st req ?i) (w\<lparr>tick := Suc (tick w)\<rparr>)))"
    by (rule outside.trans [OF outside.os_parts(1) keepsD [OF create_body_handled]])
  then show ?thesis using keepsD [OF create_body_handled, of ?i w ex st req]
    by (simp add: create_sandbox_body Let_def outside.refl split: option.splits sum.splits)
qed

subsection \<open>Background execs and the read-only routes\<close>

lemma background_exec_session_ok:
  "background_exec_session i k w = (Inr s, w') \<longleftrightarrow>
     w' = w \<and> bt_get (records w) i \<noteq> None \<and> bt_get (execs w) k = Some s \<and> bi_sandbox_id (s_info s) = i"
  by (auto simp: background_exec_session_def reg_contains_def ok_or_def store_get_def res_simps split: option.splits)

lemma background_exec_session_state: "snd (background_exec_session i k w) = w"
  by (auto simp: background_exec_session_def reg_contains_def ok_or_def res_simps split: option.splits)

lemma handled_session:
  assumes "\<And>w s. bt_get (execs w) k = Some s \<Longrightarrow> handled i w (snd (f s w))"
  shows "keeps (handled i) (andThen (background_exec_session j k) f)"
proof -
  have "handled i w (snd (andThen (background_exec_session j k) f w))" for w
    using assms background_exec_session_state [of j k w]
    by (cases "background_exec_session j k w")
      (auto simp: andThen_def background_exec_session_ok outside.refl split: sum.splits)
  then show ?thesis by (simp add: keeps_def)
qed

lemma store_key: "store_ok st \<Longrightarrow> bt_get st k = Some s \<Longrightarrow> bi_id (s_info s) = k"
  by (auto simp: store_ok_def list_all_iff dest!: map_of_SomeD)

lemma handled_set_session:
  assumes "bt_get (execs w) k = Some s" and "bi_id (s_info s') = bi_id (s_info s)"
  shows "handled i w (w\<lparr>execs := bt_insert k s' (execs w)\<rparr>)"
  using assms by (simp add: handled_def store_ok_insert store_key)

text \<open>The tasks of a session never change which session it is.\<close>

definition settle_keeps_id :: "('b, 'x) daemon_ext_scheme \<Rightarrow> bool" where
  "settle_keeps_id ex \<longleftrightarrow> (\<forall>t s. bi_id (s_info (settle ex t s)) = bi_id (s_info s))"

lemma handled_kill_exec:
  fixes ex :: "('b, 'x) daemon_ext_scheme"
  assumes "settle_keeps_id ex"
  shows "keeps (handled raw :: ('b, 'z) daemon_world_scheme \<Rightarrow> _) (kill_background_exec ex raw k)"
proof -
  have "handled raw w (snd (andThen (gets tick) (\<lambda>t. let (killed, session') = session_kill (procs ex) s;
         session'' = if killed then settle ex t session' else session'
     in andThen (set_session k session'') (\<lambda>_. ok (s_info session''))) w))"
    if s: "bt_get (execs w) k = Some s" for w :: "('b, 'z) daemon_world_scheme" and s
  proof -
    obtain b s' where r: "session_kill (procs ex) s = (b, s')" by force
    have "s_info s' = s_info s" using session_kill_log [OF r] by simp
    then have "bi_id (s_info (if b then settle ex (tick w) s' else s')) = bi_id (s_info s)"
      using assms by (simp add: settle_keeps_id_def)
    from handled_set_session [OF s this, of raw] show ?thesis
      by (simp add: r res_simps set_session_def Let_def)
  qed
  then show ?thesis unfolding kill_background_exec_def by (intro handled_parse handled_session)
qed

lemma handled_exec_stdin:
  fixes ex :: "('b, 'x) daemon_ext_scheme"
  shows "keeps (handled raw :: ('b, 'z) daemon_world_scheme \<Rightarrow> _) (write_background_exec_stdin ex raw k data close)"
proof -
  have "handled raw w (snd ((let (r, session') = write_stdin (procs ex) data close s in
     andThen (set_session k session') (\<lambda>_.
     andThen (map_err AppIo (lift_result r)) (\<lambda>accepted.
     if \<not> accepted then err (Conflict (''stdin for background exec '' @ k @ '' is closed'')) else ok True))) w))"
    if s: "bt_get (execs w) k = Some s" for w :: "('b, 'z) daemon_world_scheme" and s
  proof -
    obtain r s' where r: "write_stdin (procs ex) data close s = (r, s')" by force
    have "bi_id (s_info s') = bi_id (s_info s)" using write_stdin_log [OF r] by simp
    from handled_set_session [OF s this, of raw] show ?thesis
      by (simp add: r res_simps set_session_def split: sum.splits)
  qed
  then show ?thesis unfolding write_background_exec_stdin_def
    by (intro handled_parse keeps_if outside.keeps_err handled_session)
qed

lemma handled_exec_resize:
  fixes ex :: "('b, 'x) daemon_ext_scheme"
  shows "keeps (handled raw :: ('b, 'z) daemon_world_scheme \<Rightarrow> _) (resize_background_exec ex raw k rows cols)"
proof -
  have "handled raw w (snd ((let (accepted, session') = session_resize (procs ex) rows cols s in
     andThen (set_session k session') (\<lambda>_.
     if \<not> accepted then err (Conflict (''background exec '' @ k @ '' is not PTY-backed'')) else ok True)) w))"
    if s: "bt_get (execs w) k = Some s" for w :: "('b, 'z) daemon_world_scheme" and s
  proof -
    obtain r s' where r: "session_resize (procs ex) rows cols s = (r, s')" by force
    have "bi_id (s_info s') = bi_id (s_info s)" using session_resize_log [OF r] by simp
    from handled_set_session [OF s this, of raw] show ?thesis
      by (simp add: r res_simps set_session_def)
  qed
  then show ?thesis unfolding resize_background_exec_def
    by (intro handled_parse keeps_if outside.keeps_err handled_session)
qed


text \<open>The routes that name no sandbox to work on.\<close>

lemma work_list_entries [pres_intros]: "keeps (works_on i) (list_entries ex ps ns out)"
  by (induction ns arbitrary: out) (auto intro!: pres_intros)

lemma work_sessions [pres_intros]: "keeps (works_on i) (background_exec_session j k)"
  by (simp add: keeps_def background_exec_session_state work.refl)

lemmas reading_defs = list_sandboxes_def reg_list_def get_sandbox_def get_sandbox_network_def list_background_execs_def
  get_background_exec_def stream_background_exec_events_def list_snapshots_def snapshot_list_def delete_snapshot_def

lemma work_reading:
  "keeps (works_on i) list_sandboxes" "keeps (works_on i) (get_sandbox raw)"
  "keeps (works_on i) (get_sandbox_network ex st raw)" "keeps (works_on i) (list_background_execs raw)"
  "keeps (works_on i) (get_background_exec raw k)" "keeps (works_on i) (stream_background_exec_events raw k from)"
  "keeps (works_on i) (list_snapshots ex st)" "keeps (works_on i) (delete_snapshot ex st name)"
  unfolding reading_defs by (intro pres_intros)+

lemma handled_reading: "keeps (works_on i) m \<Longrightarrow> keeps (handled i) m"
  by (auto simp: keeps_def works_on_def handled_def)

section \<open>The router\<close>

text \<open>The sandbox a request works on, if it may change one.\<close>

fun target :: "('b, 'x) daemon_ext_scheme \<Rightarrow> nat \<Rightarrow> api_request \<Rightarrow> SandboxId option" where
  "target ex t (CreateSandbox req) = Some (created_id ex req t)"
| "target ex t (DeleteSandbox i) = Some i"
| "target ex t (Exec i _) = Some i"
| "target ex t (StartExec i _) = Some i"
| "target ex t (Suspend i) = Some i"
| "target ex t (Resume i) = Some i"
| "target ex t (Snapshot i _) = Some i"
| "target ex t (GetLogs i _ _) = Some i"
| "target ex t (KillExec i _) = Some i"
| "target ex t (ExecStdin i _ _ _) = Some i"
| "target ex t (ExecResize i _ _ _) = Some i"
| "target ex t _ = None"

lemma handled_reply: "keeps (handled i) m \<Longrightarrow> keeps (handled i) (reply m f)"
  unfolding reply_def by (intro pres_intros)

lemma snd_reply: "snd (reply m f w) = snd (m w)"
  by (simp add: reply_def andThen_def ok_def split: prod.splits sum.splits)

lemmas handled_all = handled_handlers handled_snapshot handled_start_background_exec handled_exec_stdin handled_exec_resize

lemma protected_handled:
  assumes "settle_keeps_id ex" and "target ex (tick w) req = Some i \<or> target ex (tick w) req = None"
  shows "handled i w (snd (protected_route ex st req w))"
  using assms(2)
  by (cases req)
    (auto simp: snd_reply outside.refl ok_def handled_create
      intro: keepsD [OF handled_reading [OF work_reading(1)]] keepsD [OF handled_reading [OF work_reading(2)]]
        keepsD [OF handled_reading [OF work_reading(3)]] keepsD [OF handled_reading [OF work_reading(4)]]
        keepsD [OF handled_reading [OF work_reading(5)]] keepsD [OF handled_reading [OF work_reading(6)]]
        keepsD [OF handled_reading [OF work_reading(7)]] keepsD [OF handled_reading [OF work_reading(8)]]
        keepsD [OF handled_kill_exec [OF assms(1)]] handled_all [THEN keepsD])

lemma router_run:
  "router ex st auth req w =
     (if req = Healthz then (Inr HealthReply, w) else if req = OpenapiSpec then (Inr OpenapiReply, w)
      else if auth = Some (''Bearer '' @ bearer_token (http (as_config st))) then protected_route ex st req w
      else (Inl Unauthorized, w))"
  by (cases req) (simp_all add: router_def require_auth_run ok_def)

lemma router_handled:
  "settle_keeps_id ex \<Longrightarrow> target ex (tick w) req = Some i \<or> target ex (tick w) req = None
   \<Longrightarrow> handled i w (snd (router ex st auth req w))"
  by (simp add: router_run protected_handled outside.refl)

text \<open>The tables of the daemon between two requests.\<close>

definition daemon_ok :: "('b, 'z) daemon_world_scheme \<Rightarrow> bool" where
  "daemon_ok w \<longleftrightarrow> bt_ok (records w) \<and> store_ok (execs w) \<and> held_slots (locks w) \<and> held_names (snap_locks w)"

lemma handled_daemon_ok:
  "handled i w w' \<Longrightarrow> daemon_ok w \<Longrightarrow> daemon_ok w' \<and> bt_get (locks w') = bt_get (locks w) \<and> bt_get (snap_locks w') = bt_get (snap_locks w)"
  by (auto simp: handled_def daemon_ok_def held_slots_def held_names_def)


section \<open>Deletion\<close>

text \<open>What the steps of a deletion before its last one share: the sessions are left alone and no record comes or goes.\<close>

definition retains :: "SandboxId \<Rightarrow> ('b, 'z) daemon_world_scheme \<Rightarrow> ('b, 'z) daemon_world_scheme \<Rightarrow> bool" where
  "retains i w w' \<longleftrightarrow> execs w' = execs w \<and> (bt_get (records w') i = None \<longleftrightarrow> bt_get (records w) i = None)"

interpretation retain: bystander "retains i" for i
  by unfold_locales (simp_all add: retains_def)

lemma retains_persist [pres_intros]: "keeps (retains i) (reg_persist ex ps r)"
  unfolding reg_persist_def by (intro pres_intros)

lemma retains_update [pres_intros]: "keeps (retains i) (reg_update ex ps j f)"
proof -
  have "retains i w (snd (modify (\<lambda>w. w\<lparr>records := bt_insert j r (records w)\<rparr>) w))"
    if "bt_get (records w) j \<noteq> None" for w r using that
    by (auto simp: retains_def modify_def bt_get_insert)
  then have again: "keeps (retains i) (andThen (gets (\<lambda>w. bt_get (records w) j)) (\<lambda>again. case again of
           None \<Rightarrow> ok None
         | Some _ \<Rightarrow>
             andThen (modify (\<lambda>w. w\<lparr>records := bt_insert j r (records w)\<rparr>)) (\<lambda>_. ok (Some r))))" for r
    by (auto simp: keeps_def andThen_def gets_def ok_def modify_def retain.refl split: option.splits)
  show ?thesis unfolding reg_update_def Let_def by (intro pres_intros again)
qed

lemma retains_teardown [pres_intros]:
  "keeps (retains i) (fail_with ex st j m e)" "keeps (retains i) (teardown_containers ex st j r)"
  "keeps (retains i) (teardown_network ex st j)" "keeps (retains i) (teardown_files ex st j)"
proof -
  show f: "keeps (retains i) (fail_with ex st j m e)" for m e
    unfolding fail_with_def by (intro pres_intros)
  show "keeps (retains i) (teardown_containers ex st j r)" "keeps (retains i) (teardown_network ex st j)"
    "keeps (retains i) (teardown_files ex st j)"
    unfolding teardown_containers_def teardown_network_def teardown_files_def Let_def by (intro pres_intros f)+
qed

lemma fail_with_not_ok: "fail_with ex st i m e w \<noteq> (Inr x, w')"
  by (auto simp: fail_with_def ok_iffs)

lemma teardown_files_gone:
  "teardown_files ex st i w = (Inr x, w') \<Longrightarrow> d_get (disk w') (sandbox_dir (as_paths st) i) = None"
  by (auto simp: teardown_files_def try_case_def remove_dir_all_def syscall_def Let_def ok_iffs fail_with_not_ok
      split: option.splits node.splits if_splits)

lemma with_lifecycle_ok_iff:
  "with_lifecycle i m w = (r, w') \<longleftrightarrow>
     (\<exists>w1. m (w\<lparr>locks := snd (acquire_lifecycle (lock_seq w) i (locks w)), lock_seq := Suc (lock_seq w)\<rparr>) = (r, w1)
        \<and> w' = w1\<lparr>locks := drop_LifecycleGuard i (locks w1)\<rparr>)"
  by (auto simp: with_lifecycle_def split: prod.splits)

lemma teardown_containers_clean:
  assumes "steady_runsc ex (runsc_for_sandbox (as_paths st) i) lg visible deletable"
    and "teardown_containers ex st i r w = (Inr x, w')" and "sb_status r \<noteq> Suspended"
  shows "list_all (\<lambda>c. visible c \<longrightarrow> deletable c) (sb_containers r)"
proof -
  obtain w1 where "delete_visible_container_sequence ex (as_paths st) i (sb_containers r) w = (Inr [], w1)"
    using assms(2,3) by (auto simp: teardown_containers_def ok_iffs Let_def fail_with_not_ok split: if_splits)
  then have "fst (delete_visible_containers ex (runsc_for_sandbox (as_paths st) i) (sb_containers r) w) = (Inr [] :: RuntimeError + _)"
    by (simp add: delete_visible_container_sequence_def)
  moreover obtain fs where "fst (delete_visible_containers ex (runsc_for_sandbox (as_paths st) i) (sb_containers r) w) = (Inr fs :: RuntimeError + _)"
      "map fst fs = filter (\<lambda>c. visible c \<and> \<not> deletable c) (rev (sb_containers r))"
    using delete_visible_loop_result [OF assms(1), of "rev (sb_containers r)" "[]" w]
    by (auto simp: delete_visible_containers_def)
  ultimately have "filter (\<lambda>c. visible c \<and> \<not> deletable c) (rev (sb_containers r)) = []" by simp
  then show ?thesis by (auto simp: filter_empty_conv list_all_iff)
qed


lemma triple_pure: "(\<And>x. v = Some x \<Longrightarrow> triple P (f x) Q E) \<Longrightarrow> (v = None \<Longrightarrow> (\<And>w. P w \<Longrightarrow> E e w)) \<Longrightarrow> triple P (andThen (ok_or e v) f) Q E"
  by (cases v) (auto simp: ok_or_def andThen_def ok_def err_def triple_def)

lemma triple_and_fact: "triple P m Q E \<Longrightarrow> (\<And>w x w'. P w \<Longrightarrow> m w = (Inr x, w') \<Longrightarrow> F x w') \<Longrightarrow> triple P m (\<lambda>x w. Q x w \<and> F x w) E"
  by (auto simp: triple_def split: prod.splits sum.splits)

lemma triple_fact: "(F \<Longrightarrow> triple P m Q E) \<Longrightarrow> triple (\<lambda>w. P w \<and> F) m Q E"
  by (auto simp: triple_def)

text \<open>In the middle of a deletion: the record is there, the sessions are gone.\<close>

definition being_deleted :: "SandboxId \<Rightarrow> ('b, 'z) daemon_world_scheme \<Rightarrow> bool" where
  "being_deleted i w \<longleftrightarrow> bt_get (records w) i \<noteq> None \<and> list_for_sandbox i (execs w) = []"

lemma being_deleted_keeps: "keeps (retains i) m \<Longrightarrow> triple (being_deleted i) m (\<lambda>_. being_deleted i) (\<lambda>_. being_deleted i)"
  by (erule triple_keeps) (simp add: retains_def being_deleted_def)

lemma kill_execs_triple:
  "triple (\<lambda>w. store_ok (execs w) \<and> bt_get (records w) i \<noteq> None) (kill_execs ex i) (\<lambda>_. being_deleted i) E"
proof -
  have "list_for_sandbox i (snd (kill_for_sandbox p s i st)) = []" if "store_ok st" for p s and st :: "(nat, nat, nat) exec_store"
    by (simp add: kill_for_sandbox_store [OF that] list_for_sandbox_def sessions_of_def bt_values_def filter_empty_conv)
  then show ?thesis by (simp add: triple_def kill_execs_def modify_def being_deleted_def)
qed

text \<open>The body of a deletion, under the lock, and its part after the containers.\<close>

definition delete_rest ::
  "('b, 'x) daemon_ext_scheme \<Rightarrow> AppState \<Rightarrow> SandboxId \<Rightarrow> SandboxRecord
   \<Rightarrow> (('b, 'z) daemon_world_scheme, AppError, SandboxRecord) comp" where
  "delete_rest ex st i current =
     andThen (teardown_network ex st i) (\<lambda>_.
     andThen (teardown_files ex st i) (\<lambda>_.
     andThen (reg_remove i) (\<lambda>gone.
     andThen (read_clock ex) (\<lambda>t.
     ok ((set_status t Stopped (case gone of Some r \<Rightarrow> r | None \<Rightarrow> current))\<lparr>last_error := None\<rparr>)))))"

definition delete_body ::
  "('b, 'x) daemon_ext_scheme \<Rightarrow> AppState \<Rightarrow> SandboxId \<Rightarrow> (('b, 'z) daemon_world_scheme, AppError, SandboxRecord) comp" where
  "delete_body ex st i =
     andThen (reg_get i) (\<lambda>found.
     andThen (ok_or (not_found i) found) (\<lambda>current.
     andThen (kill_execs ex i) (\<lambda>_.
     andThen (map_err AppIo (reg_update ex (as_paths st) i (\<lambda>t. set_status t Stopping))) (\<lambda>_.
     andThen (teardown_containers ex st i current) (\<lambda>_.
     delete_rest ex st i current)))))"

lemma delete_sandbox_body:
  "delete_sandbox ex st raw = andThen (lift_result (parse_sandbox_id raw)) (\<lambda>i. with_lifecycle i (delete_body ex st i))"
  by (simp add: delete_sandbox_def delete_body_def delete_rest_def)

definition deleted :: "AppState \<Rightarrow> SandboxId \<Rightarrow> SandboxRecord \<Rightarrow> ('b, 'z) daemon_world_scheme \<Rightarrow> bool" where
  "deleted st i r w \<longleftrightarrow> bt_get (records w) i = None \<and> list_for_sandbox i (execs w) = []
     \<and> d_get (disk w) (sandbox_dir (as_paths st) i) = None \<and> sb_status r = Stopped \<and> last_error r = None"

lemma delete_rest_triple:
  "triple (being_deleted i) (delete_rest ex st i current) (deleted st i) (\<lambda>_ w. bt_get (records w) i \<noteq> None)"
proof -
  have fails: "triple (being_deleted i) m (\<lambda>_. being_deleted i) (\<lambda>_ w. bt_get (records w) i \<noteq> None)" if "keeps (retains i) m" for m
    by (rule triple_conseq [OF being_deleted_keeps [OF that]]) (auto simp: being_deleted_def)
  have files: "triple (being_deleted i) (teardown_files ex st i)
      (\<lambda>_ w. being_deleted i w \<and> d_get (disk w) (sandbox_dir (as_paths st) i) = None) (\<lambda>_ w. bt_get (records w) i \<noteq> None)"
    by (rule triple_and_fact [OF fails [OF retains_teardown(4)]]) (rule teardown_files_gone)
  have "triple (\<lambda>w. being_deleted i w \<and> d_get (disk w) (sandbox_dir (as_paths st) i) = None)
      (andThen (reg_remove i) (\<lambda>gone. andThen (read_clock ex) (\<lambda>t.
       ok ((set_status t Stopped (case gone of Some r \<Rightarrow> r | None \<Rightarrow> current))\<lparr>last_error := None\<rparr>))))
      (deleted st i) (\<lambda>_ w. bt_get (records w) i \<noteq> None)"
    by (auto simp: triple_def reg_remove_def read_clock_def res_simps deleted_def being_deleted_def bt_get_remove
        set_status_def split: option.splits)
  then show ?thesis
    unfolding delete_rest_def by (intro triple_andThen [OF fails [OF retains_teardown(3)]] triple_andThen [OF files])
qed

lemma delete_body_triple:
  fixes ex :: "('b, 'x) daemon_ext_scheme"
  assumes "steady_runsc ex (runsc_for_sandbox (as_paths st) i) lg visible deletable"
  shows "triple (\<lambda>w :: ('b, 'z) daemon_world_scheme. store_ok (execs w) \<and> bt_get (records w) i = c) (delete_body ex st i)
    (\<lambda>r w. deleted st i r w \<and> (\<exists>current. c = Some current \<and>
       (sb_status current = Suspended \<or> list_all (\<lambda>c. visible c \<longrightarrow> deletable c) (sb_containers current))))
    (\<lambda>e w. bt_get (records w) i = None \<longleftrightarrow> c = None)"
proof -
  let ?E = "\<lambda>e (w :: ('b, 'z) daemon_world_scheme). bt_get (records w) i = None \<longleftrightarrow> c = None"
  let ?clean = "\<lambda>r. sb_status r = Suspended \<or> list_all (\<lambda>c. visible c \<longrightarrow> deletable c) (sb_containers r)"
  have fails: "triple (being_deleted i) m (\<lambda>_. being_deleted i) ?E" if "keeps (retains i) m" "c = Some r"
    for m :: "(('b, 'z) daemon_world_scheme, AppError, 'a) comp" and r
    by (rule triple_conseq [OF being_deleted_keeps [OF that(1)]]) (auto simp: being_deleted_def that(2))
  have rest: "triple (\<lambda>w. being_deleted i w \<and> ?clean r) (delete_rest ex st i r)
      (\<lambda>x w. deleted st i x w \<and> (\<exists>current. c = Some current \<and> ?clean current)) ?E" if "c = Some r" for r
    by (rule triple_fact, rule triple_conseq [OF delete_rest_triple]) (use that in auto)
  have run: "triple (being_deleted i) (andThen (teardown_containers ex st i r) (\<lambda>_. delete_rest ex st i r))
      (\<lambda>x w. deleted st i x w \<and> (\<exists>current. c = Some current \<and> ?clean current)) ?E" if c: "c = Some r" for r
    by (rule triple_andThen [OF triple_and_fact [OF fails [OF retains_teardown(2) c]] rest [OF c]])
      (blast dest: teardown_containers_clean [OF assms])
  have start: "triple (\<lambda>w. store_ok (execs w) \<and> bt_get (records w) i = c) (kill_execs ex i) (\<lambda>_. being_deleted i) ?E"
    if "c = Some r" for r
    by (rule triple_conseq [OF kill_execs_triple]) (use that in auto)
  have upd: "keeps (retains i) (map_err AppIo (reg_update ex (as_paths st) i (\<lambda>t. set_status t Stopping)))"
    by (intro pres_intros)
  have body: "triple (\<lambda>w. (store_ok (execs w) \<and> bt_get (records w) i = c) \<and> found = c)
      (andThen (ok_or (not_found i) found) (\<lambda>current.
     andThen (kill_execs ex i) (\<lambda>_.
     andThen (map_err AppIo (reg_update ex (as_paths st) i (\<lambda>t. set_status t Stopping))) (\<lambda>_.
     andThen (teardown_containers ex st i current) (\<lambda>_. delete_rest ex st i current)))))
     (\<lambda>x w. deleted st i x w \<and> (\<exists>current. c = Some current \<and> ?clean current)) ?E" for found
  proof (rule triple_fact)
    assume f: "found = c"
    show "triple (\<lambda>w. store_ok (execs w) \<and> bt_get (records w) i = c) (andThen (ok_or (not_found i) found) (\<lambda>current.
     andThen (kill_execs ex i) (\<lambda>_.
     andThen (map_err AppIo (reg_update ex (as_paths st) i (\<lambda>t. set_status t Stopping))) (\<lambda>_.
     andThen (teardown_containers ex st i current) (\<lambda>_. delete_rest ex st i current)))))
     (\<lambda>x w. deleted st i x w \<and> (\<exists>current. c = Some current \<and> ?clean current)) ?E"
      unfolding f by (rule triple_pure, rule triple_andThen [OF start triple_andThen [OF fails [OF upd] run]]) simp_all
  qed
  show ?thesis unfolding delete_body_def reg_get_def
    by (rule triple_andThen [OF _ body]) (simp add: triple_def gets_def)
qed


lemma delete_sandbox_run:
  assumes "validate_id_segment i = Inr ()"
  shows "delete_sandbox ex st i w = with_lifecycle i (delete_body ex st i) w"
  using assms by (simp add: delete_sandbox_body parse_sandbox_id_def SandboxId_new_def andThen_def lift_result_def)

section \<open>Creation\<close>

text \<open>The sandbox is absent, or its creation is under way or has failed.\<close>

definition not_up :: "SandboxId \<Rightarrow> ('b, 'z) daemon_world_scheme \<Rightarrow> bool" where
  "not_up i w \<longleftrightarrow> (case bt_get (records w) i of None \<Rightarrow> True
     | Some r \<Rightarrow> sb_id r = i \<and> (sb_status r = Pending \<or> sb_status r = Error))"

definition up_as :: "SandboxId \<Rightarrow> SandboxRecord \<Rightarrow> ('b, 'z) daemon_world_scheme \<Rightarrow> bool" where
  "up_as i r w \<longleftrightarrow> bt_get (records w) i = Some r \<and> sb_id r = i \<and> sb_status r = Running \<and> last_error r = None"

definition stays_down :: "SandboxId \<Rightarrow> ('b, 'z) daemon_world_scheme \<Rightarrow> ('b, 'z) daemon_world_scheme \<Rightarrow> bool" where
  "stays_down i w w' \<longleftrightarrow> (not_up i w \<longrightarrow> not_up i w')"

interpretation down: bystander "stays_down i" for i
  by unfold_locales (auto simp: stays_down_def not_up_def)

lemma reg_update_outcome:
  fixes w :: "('b, 'z) daemon_world_scheme"
  assumes "reg_update ex ps i f w = (res, w')"
  shows "(bt_get (records w) i = None \<and> res = Inr None \<and> w' = w)
    \<or> (\<exists>e. res = Inl e \<and> records w' = records w)
    \<or> (\<exists>r t. bt_get (records w) i = Some r \<and> res = Inr (Some (f t r)) \<and> records w' = bt_insert i (f t r) (records w))"
proof (cases "bt_get (records w) i")
  case (Some r)
  let ?u = "f (now ex (tick w)) r" and ?w1 = "w\<lparr>tick := Suc (tick w)\<rparr>"
  obtain pr w2 where p: "reg_persist ex ps ?u ?w1 = (pr, w2)" by force
  have "records w2 = records w" using keepsD' [OF calm_persist p] by (simp add: same_registry_def)
  then show ?thesis using assms p Some
    by (cases pr) (auto simp: reg_update_def read_clock_def res_simps Let_def)
qed (use assms in \<open>simp add: reg_update_def res_simps\<close>)

lemma down_persist [pres_intros]: "keeps (stays_down i) (reg_persist ex ps r)"
  unfolding reg_persist_def by (intro pres_intros)

lemma set_error_down: "stays_down i w (snd (reg_update ex ps i (\<lambda>t. set_error t m) w))"
  using reg_update_outcome [of ex ps i "\<lambda>t. set_error t m" w]
  by (cases "reg_update ex ps i (\<lambda>t. set_error t m) w")
    (auto simp: stays_down_def not_up_def bt_get_insert set_error_def set_status_def split: option.splits)

lemma down_set_error [pres_intros]: "keeps (stays_down i) (reg_update ex ps i (\<lambda>t. set_error t m))"
  by (simp add: keeps_def set_error_down)

lemma down_insert [pres_intros]: "sb_id r = i \<Longrightarrow> sb_status r = Pending \<Longrightarrow> keeps (stays_down i) (reg_insert ex ps r)"
  unfolding reg_insert_def reg_insert_memory_def
  by (intro pres_intros keeps_modify) (simp add: stays_down_def not_up_def bt_get_insert)

lemma down_remove [pres_intros]: "keeps (stays_down i) (reg_remove i)"
  unfolding reg_remove_def by (intro pres_intros keeps_modify) (simp add: stays_down_def not_up_def bt_get_remove)

lemma on_disk_down [pres_intros]: "keeps (stays_down i) (on_disk f)"
  by (simp add: keeps_def on_disk_def case_prod_beta stays_down_def not_up_def)

lemmas build_defs = persist_sandbox_spec_def prepare_sandbox_network_def prepare_bundles_def cleanup_failed_sandbox_def

lemma down_steps [pres_intros]:
  "keeps (stays_down i) (persist_sandbox_spec ex st i spec)" "keeps (stays_down i) (prepare_sandbox_network ex st i net)"
  "keeps (stays_down i) (prepare_bundles ex st i img cs ns)" "keeps (stays_down i) (cleanup_failed_sandbox ex st i names del)"
  unfolding build_defs Let_def by (intro pres_intros)+

lemma down_triple: "keeps (stays_down i) m \<Longrightarrow> triple (not_up i) m (\<lambda>_. not_up i) (\<lambda>_. not_up i)"
  by (erule triple_keeps) (simp add: stays_down_def)

lemma down_or_cleanup:
  assumes "keeps (stays_down i) m" and "keeps (stays_down i) c" and "\<And>x. triple (not_up i) (f x) Q (\<lambda>_. not_up i)"
  shows "triple (not_up i) (or_cleanup m c f) Q (\<lambda>_. not_up i)"
  unfolding or_cleanup_def
  by (rule triple_try_case [OF down_triple [OF assms(1)] _ assms(3)])
    (rule triple_andThen [OF down_triple [OF assms(2)] triple_err])

lemma down_andThen:
  "keeps (stays_down i) m \<Longrightarrow> (\<And>x. triple (not_up i) (f x) Q (\<lambda>_. not_up i)) \<Longrightarrow> triple (not_up i) (andThen m f) Q (\<lambda>_. not_up i)"
  by (rule triple_andThen [OF down_triple])

lemma running_record_triple:
  fixes ex :: "('b, 'x) daemon_ext_scheme"
  shows "triple (not_up i :: ('b, 'z) daemon_world_scheme \<Rightarrow> _) (running_record ex st i) (up_as i) (\<lambda>_. not_up i)"
proof (rule tripleI)
  fix w w' :: "('b, 'z) daemon_world_scheme" and r
  assume P: "not_up i w" and ok: "running_record ex st i w = (Inr r, w')"
  then obtain x where x: "reg_update ex (as_paths st) i (\<lambda>t r. (set_status t Running r)\<lparr>last_error := None\<rparr>) w = (Inr (Some x), w')"
      "x = r"
    by (auto simp: running_record_def ok_iffs ok_or_def split: option.splits)
  from reg_update_outcome [OF x(1)] x(2) P show "up_as i r w'"
    by (auto simp: up_as_def not_up_def bt_get_insert set_status_def)
next
  fix w w' :: "('b, 'z) daemon_world_scheme" and e
  assume P: "not_up i w" and err: "running_record ex st i w = (Inl e, w')"
  obtain res w1 where u: "reg_update ex (as_paths st) i (\<lambda>t r. (set_status t Running r)\<lparr>last_error := None\<rparr>) w = (res, w1)" by force
  from reg_update_outcome [OF u] u P err show "not_up i w'"
    by (auto simp: running_record_def not_up_def res_simps ok_or_def)
qed

lemma running_or_cleanup:
  "keeps (stays_down i) c \<Longrightarrow> triple (not_up i) (or_cleanup (running_record ex st i) c ok) (up_as i) (\<lambda>_. not_up i)"
  unfolding or_cleanup_def
  by (rule triple_try_case [OF running_record_triple triple_andThen [OF down_triple triple_err] triple_ok])

lemma boot_fresh_triple: "triple (not_up i) (boot_fresh_sandbox ex st i req) (up_as i) (\<lambda>_. not_up i)"
  unfolding boot_fresh_sandbox_def Let_def
  by (intro down_andThen down_or_cleanup running_or_cleanup pres_intros) (simp_all add: new_pending_def)


lemma triple_snapshot_lock:
  assumes "triple P m Q E"
    and "\<And>w a b. P w \<Longrightarrow> P (w\<lparr>snap_locks := a, lock_seq := b\<rparr>)"
    and "\<And>x w a. Q x w \<Longrightarrow> Q x (w\<lparr>snap_locks := a\<rparr>)" and "\<And>e w a. E e w \<Longrightarrow> E e (w\<lparr>snap_locks := a\<rparr>)"
  shows "triple P (with_snapshot_lock name m) Q E"
  using assms(3,4) tripleD_ok [OF assms(1) assms(2)] tripleD_err [OF assms(1) assms(2)]
  by (intro tripleI) (auto simp: with_snapshot_lock_def split: prod.splits)

lemma fork_triple: "triple (not_up i) (fork_from_snapshot ex st i net name) (up_as i) (\<lambda>_. not_up i)"
proof (cases "validate_snapshot_name name")
  case (Inr u)
  show ?thesis unfolding fork_from_snapshot_def Inr sum.case Let_def
    by (rule triple_snapshot_lock, intro down_andThen down_or_cleanup running_or_cleanup triple_if triple_err pres_intros)
      (simp_all add: new_pending_def not_up_def up_as_def)
qed (simp add: fork_from_snapshot_def triple_err)


lemma create_body_triple:
  "triple (\<lambda>w. bt_get (records w) i = c) (create_body ex st req i) (\<lambda>r w. c = None \<and> up_as i r w)
     (\<lambda>_ w. case c of None \<Rightarrow> not_up i w | Some r \<Rightarrow> bt_get (records w) i = Some r)"
proof (cases c)
  case None
  have "triple (not_up i) (create_body ex st req i) (up_as i) (\<lambda>_. not_up i)"
    unfolding create_body_def reg_contains_def
    by (intro down_andThen triple_if triple_err triple_case_option boot_fresh_triple fork_triple pres_intros)
  then show ?thesis by (rule triple_conseq) (simp_all add: None not_up_def)
qed (auto simp: triple_def create_body_def reg_contains_def res_simps)

section \<open>A small daemon\<close>

text \<open>
  The outside of the examples: \<open>bad\<close> lists the interactions that fail, \<open>run\<close> is the behaviour of the
  programs; files hold records, specifications or text; managed networking is off.
\<close>

datatype sample_body = RecordBody SandboxRecord | SpecBody SandboxSpec | TextBody string

definition sample_daemon :: "nat list \<Rightarrow> (string list \<Rightarrow> (string, cmd_output) result) \<Rightarrow> sample_body daemon_ext" where
  "sample_daemon bad run = \<lparr>now = (\<lambda>t. int t), pid = 7, uuid = (\<lambda>_. ''u''),
     fault = (\<lambda>t. if List.member bad t then Some ''EIO'' else None),
     empty_body = TextBody [], torn = (\<lambda>_. TextBody []), survives = (\<lambda>_ _. False), made = (\<lambda>_. 0),
     enc_record = (\<lambda>r. Inr (RecordBody r)), dec_record = (\<lambda>b. case b of RecordBody r \<Rightarrow> Inr r | _ \<Rightarrow> Inl ''EOF''),
     enc_manifest = (\<lambda>_. Inl []), dec_manifest = (\<lambda>_. Inl []), rfc3339 = (\<lambda>_. None), run_cmd = (\<lambda>_ _ args. run args),
     cmd_disk = (\<lambda>_ _ _ d. d), temp_log = (\<lambda>_. Inr [''/'', ''tmp'', ''log'']),
     utf8_lossy = (\<lambda>s. s), json_status = Some, bytes_of = (\<lambda>b. case b of TextBody s \<Rightarrow> s | _ \<Rightarrow> []),
     enc_net = (\<lambda>_. Inl []), dec_net = (\<lambda>_. Inl []), socket_v6 = (\<lambda>_. None), envoy_exited = (\<lambda>_. False),
     json_body = (\<lambda>_. Inl []), text_body = TextBody,
     enc_spec = (\<lambda>s. Inr (SpecBody s)), dec_spec = (\<lambda>b. case b of SpecBody s \<Rightarrow> Inr s | _ \<Rightarrow> Inl ''EOF''),
     oci_pause = (\<lambda>_ _ _ _ _ d. (Inr (), d)), oci_container = (\<lambda>_ _ _ _ _ d. (Inr (), d)),
     handles = (\<lambda>t. (t, t, t)), open_pty = (\<lambda>_ _ _. None), pty_handles = (\<lambda>_. None),
     procs = \<lparr>write_all_to = (\<lambda>h data. (Inr (), h)), flush_to = (\<lambda>h. (Inr (), h)),
       resize_master = (\<lambda>m rows cols. (Inr (), m)), kill_child = (\<lambda>k. Inr ())\<rparr>, settle = (\<lambda>_ s. s)\<rparr>"

definition sample_state :: AppState where
  "sample_state = \<lparr>as_config = \<lparr>http = \<lparr>bind_addr = ''127.0.0.1:8080'', bearer_token = ''secret''\<rparr>,
       runtime = \<lparr>rc_base_dir = [''/''], rc_pause_image = ''p'', rc_network_namespace = None,
         rc_network = NetworkRuntimeConfig_default\<lparr>nc_enabled := False\<rparr>, rc_observability = \<lparr>obs_enabled = False\<rparr>\<rparr>\<rparr>,
     as_paths = OadPaths_new [''/''],
     as_network = \<lparr>nm_config = NetworkRuntimeConfig_default\<lparr>nc_enabled := False\<rparr>, audit_enabled = False\<rparr>\<rparr>"

definition fresh_daemon :: "sample_body daemon_world" where
  "fresh_daemon = \<lparr>tick = 0, tmp_counter = 0, disk = [], records = [], locks = [], lock_seq = 0, cmds = [], ip_map = [],
     dns_started = False, envoy_child = False, applied = [], execs = [], snap_locks = []\<rparr>"

definition sample_create :: CreateSandboxRequest where
  "sample_create = \<lparr>cr_id = Some ''a'', cr_containers = [\<lparr>cs_name = ''web'', cs_image = ''i'', cs_command = [], cs_args = [], cs_env = []\<rparr>],
     cr_from_snapshot = None, cr_network = None\<rparr>"

text \<open>A runtime in which everything runs and no checkpoint works, and a sandbox with an old image.\<close>

definition stuck_checkpoint :: "string list \<Rightarrow> (string, cmd_output) result" where
  "stuck_checkpoint args = (if List.member args ''checkpoint'' then Inl ''EAGAIN''
     else Inr \<lparr>co_status = Some 0, co_stdout = ''running'', co_stderr = []\<rparr>)"

definition stale_image :: "sample_body daemon_world" where
  "stale_image = fresh_daemon\<lparr>records := [(''a'', (set_status 0 Running (new_pending 0 ''a'' [''pause''])))],
     disk := [([''/''], Dir), ([''/'', ''sandboxes''], Dir), ([''/'', ''sandboxes'', ''a''], Dir),
       (checkpoint_dir (OadPaths_new [''/'']) ''a'', Dir), (checkpoint_dir (OadPaths_new [''/'']) ''a'' @ [''checkpoint.img''], File (TextBody ''old''))]\<rparr>"

section \<open>Properties\<close>





text \<open>
  C4. Creating a sandbox, from images or from a snapshot. It succeeds only for an identifier that has no
  record yet, and then the registry holds exactly the returned record, \<open>Running\<close> and without an error.
  When it fails, an existing record under the identifier is untouched; otherwise no record is left or
  one that is not \<open>Running\<close>: \<open>Pending\<close> or \<open>Error\<close>.
\<close>

theorem create_sandbox_outcome:
  "let i = created_id ex req (tick w) in
   case create_sandbox ex st req w of
     (Inr r, w') \<Rightarrow> bt_get (records w) i = None \<and> bt_get (records w') i = Some r
        \<and> sb_id r = i \<and> sb_status r = Running \<and> last_error r = None
   | (Inl e, w') \<Rightarrow> (case bt_get (records w) i of Some r \<Rightarrow> bt_get (records w') i = Some r
       | None \<Rightarrow> (case bt_get (records w') i of None \<Rightarrow> True
           | Some r \<Rightarrow> sb_id r = i \<and> (sb_status r = Pending \<or> sb_status r = Error)))"
proof -
  define i where "i = created_id ex req (tick w)"
  let ?claim = "\<lambda>(res, w'). case res of
     Inr r \<Rightarrow> bt_get (records w) i = None \<and> bt_get (records w') i = Some r
        \<and> sb_id r = i \<and> sb_status r = Running \<and> last_error r = None
   | Inl e \<Rightarrow> (case bt_get (records w) i of Some r \<Rightarrow> bt_get (records w') i = Some r
       | None \<Rightarrow> (case bt_get (records w') i of None \<Rightarrow> True
           | Some r \<Rightarrow> sb_id r = i \<and> (sb_status r = Pending \<or> sb_status r = Error)))"
  have run: "?claim (with_lifecycle i (create_body ex st req i) v)" if "records v = records w" for v
  proof -
    let ?v = "v\<lparr>locks := snd (acquire_lifecycle (lock_seq v) i (locks v)), lock_seq := Suc (lock_seq v)\<rparr>"
    obtain res v' where r: "create_body ex st req i ?v = (res, v')" by force
    show ?thesis
      using tripleD_ok [OF create_body_triple [of i "bt_get (records w) i" ex st req], of ?v] r that
        tripleD_err [OF create_body_triple [of i "bt_get (records w) i" ex st req], of ?v]
      by (cases res; cases "bt_get (records w) i") (auto simp: with_lifecycle_def up_as_def not_up_def)
  qed
  show ?thesis
    using run [of w] run [of "w\<lparr>tick := Suc (tick w)\<rparr>"]
    by (auto simp: create_sandbox_body i_def [symmetric] Let_def split: prod.splits sum.splits option.splits)
qed

text \<open>
  A failed insertion burns the identifier. When writing the first record of a new sandbox fails,
  nothing removes the directory it was written to: creating the sandbox again is refused because the
  directory exists, and it cannot be deleted because there is no record.
\<close>

theorem create_insert_fault_burns_id:
  "let ex = sample_daemon [4] succeeds;
       (r1, w1) = create_sandbox ex sample_state sample_create fresh_daemon;
       (r2, w2) = create_sandbox ex sample_state sample_create w1;
       (r3, w3) = delete_sandbox ex sample_state ''a'' w1
   in r1 = Inl (AppIo (OtherIo ''EIO'')) \<and> r2 = Inl (Conflict ''sandbox directory for a already exists'')
     \<and> r3 = Inl (AppNotFound ''sandbox a not found'')"
  by code_simp

text \<open>
  A stale image hides a running sandbox. A sandbox runs, an image of an earlier suspension is still
  there (resuming only warns when it cannot remove it), and a suspension fails at its checkpoint: the
  record becomes \<open>Suspended\<close> although the containers run, and a deletion then succeeds without asking
  \<open>runsc\<close> to delete anything.
\<close>

theorem stale_image_hides_running_sandbox:
  "let ex = sample_daemon [] stuck_checkpoint;
       (r1, w1) = suspend_sandbox ex sample_state ''a'' stale_image;
       (up, w2) = container_running_result ex (as_paths sample_state) ''a'' PAUSE_CONTAINER w1;
       (r3, w3) = delete_sandbox ex sample_state ''a'' w1
   in isl r1 \<and> map_option sb_status (bt_get (records w1) ''a'') = Some Suspended \<and> up = Inr True
     \<and> is_ok r3 \<and> bt_get (records w3) ''a'' = None \<and> cmds w3 = cmds w1"
  by code_simp

end
